(* ===== verification/VK_Prelude.thy ===== *)
theory VK_Prelude
  imports Main "HOL-Library.Word"
begin

text \<open>
  Shared vocabulary of the development: names for the scalar types of the Rust sources, the
  \<open>Result\<close> discipline as a sum type with its combinators, the checked and saturating integer
  operations the sources call, lemmas on lists and maps that several components use, and the
  two interfaces every state machine of the development is an instance of (an invariant kept
  by every step, and a quantity that never decreases).

  Strings are byte lists: \<open>string\<close> is the UTF-8 encoding of a Rust \<open>String\<close>, so
  \<open>length\<close> is \<open>str::len\<close>. Time stamps (\<open>DateTime<Utc>\<close>) are integers counting a
  fixed unit from a fixed origin; only their order and differences matter.
\<close>

section \<open>Scalar types\<close>

type_synonym uuid = "128 word"
type_synonym u16 = "16 word"
type_synonym u32 = "32 word"
type_synonym u64 = "64 word"
type_synonym datetime = int
type_synonym duration = int

section \<open>Results\<close>

text \<open>\<open>Result<T, E>\<close> is \<open>'e + 'a\<close>: \<open>Err\<close> on the left, \<open>Ok\<close> on the right.\<close>

abbreviation Ok :: "'a \<Rightarrow> 'e + 'a" where
  "Ok \<equiv> Inr"

abbreviation Err :: "'e \<Rightarrow> 'e + 'a" where
  "Err \<equiv> Inl"

text \<open>The \<open>?\<close> operator.\<close>

definition try_bind :: "'e + 'a \<Rightarrow> ('a \<Rightarrow> 'e + 'b) \<Rightarrow> 'e + 'b" where
  "try_bind r f = (case r of Inl e \<Rightarrow> Inl e | Inr x \<Rightarrow> f x)"

definition ok_or :: "'a option \<Rightarrow> 'e \<Rightarrow> 'e + 'a" where
  "ok_or v e = (case v of None \<Rightarrow> Inl e | Some x \<Rightarrow> Inr x)"

definition map_err :: "('e \<Rightarrow> 'f) \<Rightarrow> 'e + 'a \<Rightarrow> 'f + 'a" where
  "map_err f r = (case r of Inl e \<Rightarrow> Inl (f e) | Inr x \<Rightarrow> Inr x)"

definition is_ok :: "'e + 'a \<Rightarrow> bool" where
  "is_ok r = (case r of Inl _ \<Rightarrow> False | Inr _ \<Rightarrow> True)"

definition is_err :: "'e + 'a \<Rightarrow> bool" where
  "is_err r = (case r of Inl _ \<Rightarrow> True | Inr _ \<Rightarrow> False)"

named_theorems result_simps \<open>evaluation of the \<open>Result\<close> combinators\<close>

lemma try_bind_simps [simp, result_simps]:
  "try_bind (Inl e) f = Inl e"
  "try_bind (Inr x) f = f x"
  by (simp_all add: try_bind_def)

lemma ok_or_simps [simp, result_simps]:
  "ok_or None e = Inl e"
  "ok_or (Some x) e = Inr x"
  by (simp_all add: ok_or_def)

lemma map_err_simps [simp, result_simps]:
  "map_err f (Inl e) = Inl (f e)"
  "map_err f (Inr x) = Inr x"
  by (simp_all add: map_err_def)

lemma is_ok_err_simps [simp, result_simps]:
  "\<not> is_ok (Inl e)" "is_ok (Inr x)" "is_err (Inl e)" "\<not> is_err (Inr x)"
  by (simp_all add: is_ok_def is_err_def)

lemma try_bind_eq_Inr [simp]:
  "try_bind r f = Inr y \<longleftrightarrow> (\<exists>x. r = Inr x \<and> f x = Inr y)"
  by (cases r) auto

lemma try_bind_eq_Inl [simp]:
  "try_bind r f = Inl e \<longleftrightarrow> r = Inl e \<or> (\<exists>x. r = Inr x \<and> f x = Inl e)"
  by (cases r) auto

lemma ok_or_eq_Inr [simp]: "ok_or v e = Inr x \<longleftrightarrow> v = Some x"
  by (cases v) auto

lemma ok_or_eq_Inl [simp]: "ok_or v e = Inl e' \<longleftrightarrow> v = None \<and> e' = e"
  by (cases v) auto

lemma map_err_eq_Inr [simp]: "map_err f r = Inr x \<longleftrightarrow> r = Inr x"
  by (cases r) auto

lemma map_err_eq_Inl [simp]: "map_err f r = Inl e \<longleftrightarrow> (\<exists>e'. r = Inl e' \<and> e = f e')"
  by (cases r) auto

lemma is_ok_iff: "is_ok r \<longleftrightarrow> (\<exists>x. r = Inr x)"
  by (cases r) auto

lemma is_err_iff: "is_err r \<longleftrightarrow> (\<exists>e. r = Inl e)"
  by (cases r) auto

section \<open>Checked and saturating arithmetic\<close>

definition checked_add :: "'a::len word \<Rightarrow> 'a word \<Rightarrow> 'a word option" where
  "checked_add a b = (if unat a + unat b < 2 ^ LENGTH('a) then Some (a + b) else None)"

definition saturating_add :: "'a::len word \<Rightarrow> 'a word \<Rightarrow> 'a word" where
  "saturating_add a b = (if unat a + unat b < 2 ^ LENGTH('a) then a + b else - 1)"

lemma checked_add_Some:
  "checked_add a b = Some c \<Longrightarrow> unat c = unat a + unat b \<and> c = a + b"
  by (auto simp: checked_add_def unat_word_ariths split: if_splits)

lemma checked_add_None:
  "checked_add a b = None \<longleftrightarrow> 2 ^ LENGTH('a) \<le> unat a + unat (b :: 'a::len word)"
  by (auto simp: checked_add_def)

lemma checked_add_one_None:
  fixes a :: "'a::len word"
  assumes "checked_add a 1 = None"
  shows "a = - 1"
proof -
  have "2 ^ LENGTH('a) \<le> unat a + 1" and "unat a < 2 ^ LENGTH('a)"
    using assms by (simp_all add: checked_add_None)
  then have "unat a = 2 ^ LENGTH('a) - 1" by linarith
  then have "unat a = unat (- 1 :: 'a word)"
    by (simp add: unsigned_minus_1_eq_mask mask_eq_exp_minus_1)
  then show ?thesis by (simp add: word_unat_eq_iff)
qed

lemma unat_saturating_add:
  "unat (saturating_add a b) = min (unat a + unat b) (2 ^ LENGTH('a) - 1)"
  for a b :: "'a::len word"
  by (auto simp: saturating_add_def unat_word_ariths unsigned_minus_1_eq_mask mask_eq_exp_minus_1
      min_def)

definition saturating_sub :: "'a::len word \<Rightarrow> 'a word \<Rightarrow> 'a word" where
  "saturating_sub a b = (if b \<le> a then a - b else 0)"

lemma unat_saturating_sub: "unat (saturating_sub a b) = unat a - unat b"
  by (auto simp: saturating_sub_def unat_sub word_le_nat_alt)

lemma unat_pred:
  "0 < unat (a :: 'a::len word) \<Longrightarrow> unat (a - 1) = unat a - 1"
  by (metis less_numeral_extra(3) unat_0 unat_minus_one)

section \<open>Lists and options\<close>

text \<open>\<open>Option::is_none_or\<close> and \<open>Option::is_some_and\<close>.\<close>

definition is_none_or :: "'a option \<Rightarrow> ('a \<Rightarrow> bool) \<Rightarrow> bool" where
  "is_none_or v p = (case v of None \<Rightarrow> True | Some x \<Rightarrow> p x)"

definition is_some_and :: "'a option \<Rightarrow> ('a \<Rightarrow> bool) \<Rightarrow> bool" where
  "is_some_and v p = (case v of None \<Rightarrow> False | Some x \<Rightarrow> p x)"

lemma is_none_or_simps [simp, result_simps]:
  "is_none_or None p" "is_none_or (Some x) p = p x"
  by (simp_all add: is_none_or_def)

lemma is_some_and_simps [simp, result_simps]:
  "\<not> is_some_and None p" "is_some_and (Some x) p = p x"
  by (simp_all add: is_some_and_def)

lemma is_some_and_iff: "is_some_and v p \<longleftrightarrow> (\<exists>x. v = Some x \<and> p x)"
  by (cases v) auto

text \<open>The at most one element of an option, as a list.\<close>

definition option_list :: "'a option \<Rightarrow> 'a list" where
  "option_list v = (case v of None \<Rightarrow> [] | Some x \<Rightarrow> [x])"

lemma option_list_simps [simp]:
  "option_list None = []" "option_list (Some x) = [x]"
  by (simp_all add: option_list_def)

text \<open>A reflexive and transitive relation that holds across each step of a fold holds across the fold.\<close>

lemma fold_rel:
  assumes "\<And>s. R s s" "\<And>a b c. R a b \<Longrightarrow> R b c \<Longrightarrow> R a c"
    and "\<And>x s. x \<in> set xs \<Longrightarrow> R s (f x s)"
  shows "R s (fold f xs s)"
  using assms(3)
proof (induction xs arbitrary: s)
  case Nil
  show ?case by (simp add: assms(1))
next
  case (Cons x xs)
  have "R s (f x s)" "R (f x s) (fold f xs (f x s))" using Cons by auto
  then show ?case by (auto intro: assms(2))
qed

lemma fold_inv:
  assumes "\<And>x s. x \<in> set xs \<Longrightarrow> g (f x s) = g s"
  shows "g (fold f xs s) = g s"
  using assms by (induction xs arbitrary: s) simp_all

section \<open>Collections and clocks\<close>

text \<open>\<open>Iterator::min_by\<close>: the first of the least elements.\<close>

fun min_by_key :: "('a \<Rightarrow> 'k::linorder) \<Rightarrow> 'a list \<Rightarrow> 'a option" where
  "min_by_key key [] = None"
| "min_by_key key (x # xs) = Some (fold (\<lambda>y best. if key y < key best then y else best) xs x)"

lemma fold_min_least:
  "key (fold (\<lambda>y best. if key y < key best then y else best) xs x) \<le> (key x :: 'k::linorder)
    \<and> (\<forall>y \<in> set xs. key (fold (\<lambda>y best. if key y < key best then y else best) xs x) \<le> key y)
    \<and> fold (\<lambda>y best. if key y < key best then y else best) xs x \<in> insert x (set xs)"
proof (induction xs arbitrary: x)
  case Nil
  show ?case by simp
next
  case (Cons y ys)
  let ?x = "if key y < key x then y else x"
  have "key ?x \<le> key x" "key ?x \<le> key y" "?x \<in> {x, y}" by auto
  then show ?case using Cons.IH [of ?x] by auto
qed

lemma min_by_key_Some:
  "min_by_key key xs = Some m \<Longrightarrow> m \<in> set xs \<and> (\<forall>y \<in> set xs. key m \<le> key y)"
  using fold_min_least [of key] by (cases xs) auto

lemma min_by_key_None: "min_by_key key xs = None \<longleftrightarrow> xs = []"
  by (cases xs) auto

lemma min_by_key_unique:
  assumes "inj_on key (set xs)" "m \<in> set xs" "\<forall>y \<in> set xs. key m \<le> key y"
  shows "min_by_key key xs = Some m"
proof (cases "min_by_key key xs")
  case None
  with assms show ?thesis by (simp add: min_by_key_None)
next
  case (Some m')
  then have "m' \<in> set xs" "key m' = key m"
    using min_by_key_Some [OF Some] assms by (auto intro: order_antisym)
  with assms Some show ?thesis by (auto dest: inj_onD)
qed


text \<open>\<open>Instant::duration_since\<close>, which saturates at zero, and \<open>HashMap::retain\<close>.\<close>

definition elapsed :: "int \<Rightarrow> int \<Rightarrow> int" where
  "elapsed now since = max 0 (now - since)"

definition map_retain :: "('v \<Rightarrow> bool) \<Rightarrow> ('k \<rightharpoonup> 'v) \<Rightarrow> 'k \<rightharpoonup> 'v" where
  "map_retain p m = (\<lambda>k. case m k of Some v \<Rightarrow> if p v then Some v else None | None \<Rightarrow> None)"

lemma map_retain_Some [simp]: "map_retain p m k = Some v \<longleftrightarrow> m k = Some v \<and> p v"
  by (auto simp: map_retain_def split: option.splits if_splits)

lemma map_retain_None [simp]: "map_retain p m k = None \<longleftrightarrow> (\<forall>v. m k = Some v \<longrightarrow> \<not> p v)"
  by (auto simp: map_retain_def split: option.splits if_splits)

section \<open>Step relations and their contracts\<close>

text \<open>
  The states a component can get into: the start states, closed under its steps. Every state
  machine of the development is an instance, with its own start predicate and step relation.
\<close>

inductive reach :: "('s \<Rightarrow> bool) \<Rightarrow> ('s \<Rightarrow> 's \<Rightarrow> bool) \<Rightarrow> 's \<Rightarrow> bool"
  for start :: "'s \<Rightarrow> bool" and step :: "'s \<Rightarrow> 's \<Rightarrow> bool" where
  reach_start: "start s \<Longrightarrow> reach start step s"
| reach_step: "reach start step s \<Longrightarrow> step s t \<Longrightarrow> reach start step t"

lemma reach_rtranclp:
  "reach start step s \<Longrightarrow> step\<^sup>*\<^sup>* s t \<Longrightarrow> reach start step t"
  by (rotate_tac, induction rule: rtranclp_induct) (auto intro: reach_step)

text \<open>An invariant: it holds at the start and every step keeps it.\<close>

locale invariant_system =
  fixes start :: "'s \<Rightarrow> bool"
    and step :: "'s \<Rightarrow> 's \<Rightarrow> bool"
    and inv :: "'s \<Rightarrow> bool"
  assumes inv_start: "start s \<Longrightarrow> inv s"
    and inv_step: "inv s \<Longrightarrow> step s t \<Longrightarrow> inv t"
begin

lemma inv_reach: "reach start step s \<Longrightarrow> inv s"
  by (induction rule: reach.induct) (auto intro: inv_start inv_step)

lemma inv_steps: "step\<^sup>*\<^sup>* s t \<Longrightarrow> inv s \<Longrightarrow> inv t"
  by (induction rule: rtranclp_induct) (auto intro: inv_step)

end

text \<open>
  A quantity that no step decreases (a sequence number, a generation, a cursor), and a property
  of states that no step undoes (a terminal state).
\<close>

locale monotone_system = invariant_system start step inv
  for start :: "'s \<Rightarrow> bool" and step :: "'s \<Rightarrow> 's \<Rightarrow> bool" and inv :: "'s \<Rightarrow> bool" +
  fixes level :: "'s \<Rightarrow> 'm::order"
  assumes level_step: "inv s \<Longrightarrow> step s t \<Longrightarrow> level s \<le> level t"
begin

lemma level_steps: "step\<^sup>*\<^sup>* s t \<Longrightarrow> inv s \<Longrightarrow> level s \<le> level t"
proof (induction rule: rtranclp_induct)
  case base
  show ?case by simp
next
  case (step t u)
  then have "inv t" by (blast intro: inv_steps)
  with step show ?case by (blast intro: level_step order_trans)
qed

end

locale absorbing_system = invariant_system start step inv
  for start :: "'s \<Rightarrow> bool" and step :: "'s \<Rightarrow> 's \<Rightarrow> bool" and inv :: "'s \<Rightarrow> bool" +
  fixes final :: "'s \<Rightarrow> bool"
  assumes final_step: "inv s \<Longrightarrow> final s \<Longrightarrow> step s t \<Longrightarrow> final t"
begin

lemma final_steps: "step\<^sup>*\<^sup>* s t \<Longrightarrow> inv s \<Longrightarrow> final s \<Longrightarrow> final t"
proof (induction rule: rtranclp_induct)
  case base
  then show ?case by simp
next
  case (step t u)
  then have "inv t" by (blast intro: inv_steps)
  with step show ?case by (blast intro: final_step)
qed

end

text \<open>
  A system that implements another: under an abstraction, each of its steps is a sequence of steps of
  the other, so what holds along every run of the other holds along its runs.
\<close>

locale refining_system =
  fixes start :: "'s \<Rightarrow> bool"
    and step :: "'s \<Rightarrow> 's \<Rightarrow> bool"
    and abstraction :: "'s \<Rightarrow> 'a"
    and astart :: "'a \<Rightarrow> bool"
    and astep :: "'a \<Rightarrow> 'a \<Rightarrow> bool"
  assumes start_refines: "start s \<Longrightarrow> astart (abstraction s)"
    and step_refines: "step s t \<Longrightarrow> astep\<^sup>*\<^sup>* (abstraction s) (abstraction t)"
begin

lemma steps_refine: "step\<^sup>*\<^sup>* s t \<Longrightarrow> astep\<^sup>*\<^sup>* (abstraction s) (abstraction t)"
  by (induction rule: rtranclp_induct) (auto intro: rtranclp_trans step_refines)

lemma reach_refines: "reach start step s \<Longrightarrow> reach astart astep (abstraction s)"
proof (induction rule: reach.induct)
  case (reach_start s)
  then show ?case by (intro reach.reach_start start_refines)
next
  case (reach_step s t)
  have "reach astart astep u" if "astep\<^sup>*\<^sup>* (abstraction s) u" for u
    using that by (induction rule: rtranclp_induct) (auto intro: reach_step.IH reach.reach_step)
  then show ?case using step_refines [OF reach_step.hyps(2)] by blast
qed

end

end
