(* ===== verification/Browser_Arbiter.thy ===== *)
theory Browser_Arbiter
  imports VK_Prelude
begin

text \<open>
  The control lease of a shared browser session (\<open>services/browser/arbiter.rs\<close> and the types of
  \<open>services/browser/types.rs\<close>): who may send input, and how a takeover invalidates commands
  that were admitted before it. Every operation takes the arbiter and returns its result and the
  arbiter afterwards. The generation is a \<open>u64\<close> that wraps, as the release build's does; the
  fencing theorem says how many operations may pass before that could matter.
\<close>

section \<open>Types\<close>

datatype BrowserController =
    CtlNone
  | CtlAgent uuid
  | CtlHuman string uuid
      \<comment> \<open>\<open>user_id\<close>, \<open>connection_id\<close>\<close>

fun controller_is_none :: "BrowserController \<Rightarrow> bool" where
  "controller_is_none CtlNone = True"
| "controller_is_none _ = False"

fun controller_execution_id :: "BrowserController \<Rightarrow> uuid option" where
  "controller_execution_id (CtlAgent execution_id) = Some execution_id"
| "controller_execution_id _ = None"

fun controller_connection_id :: "BrowserController \<Rightarrow> uuid option" where
  "controller_connection_id (CtlHuman _ connection_id) = Some connection_id"
| "controller_connection_id _ = None"

datatype ControlPrincipal =
    PAgent uuid
  | PHuman string uuid

fun to_controller :: "ControlPrincipal \<Rightarrow> BrowserController" where
  "to_controller (PAgent execution_id) = CtlAgent execution_id"
| "to_controller (PHuman user_id connection_id) = CtlHuman user_id connection_id"

definition principal_matches :: "ControlPrincipal \<Rightarrow> BrowserController \<Rightarrow> bool" where
  "principal_matches p c \<longleftrightarrow> to_controller p = c"

datatype ControlTransitionReason =
    RAcquire | RRelease | RTransfer | RTakeover | RExpired | RDisconnected
  | RExecutionCompleted | RClosed

datatype BrowserSessionError =
    ControlConflict BrowserController u64
  | StaleGeneration BrowserController u64
  | ControlLost BrowserController u64
  | NoRunningExecution
  | SessionClosed
  | SessionNotFound
  | BrowserUnavailable string
  | CapabilityDenied string
  | Driver string
  | DriverTimeout
  | Storage string
  | ExecutionNotInWorkspace

fun error_code :: "BrowserSessionError \<Rightarrow> string" where
  "error_code (ControlConflict _ _) = ''CONTROL_CONFLICT''"
| "error_code (StaleGeneration _ _) = ''STALE_GENERATION''"
| "error_code (ControlLost _ _) = ''CONTROL_LOST''"
| "error_code NoRunningExecution = ''NO_RUNNING_EXECUTION''"
| "error_code SessionClosed = ''SESSION_CLOSED''"
| "error_code SessionNotFound = ''NOT_FOUND''"
| "error_code (BrowserUnavailable _) = ''BROWSER_UNAVAILABLE''"
| "error_code (CapabilityDenied _) = ''CAPABILITY_DENIED''"
| "error_code (Driver _) = ''DRIVER_ERROR''"
| "error_code DriverTimeout = ''TIMEOUT''"
| "error_code (Storage _) = ''STORAGE_ERROR''"
| "error_code ExecutionNotInWorkspace = ''EXECUTION_NOT_IN_WORKSPACE''"

fun error_retryable :: "BrowserSessionError \<Rightarrow> bool" where
  "error_retryable (ControlLost _ _) = True"
| "error_retryable (ControlConflict _ _) = True"
| "error_retryable DriverTimeout = True"
| "error_retryable _ = False"

section \<open>The arbiter\<close>

record control_arbiter =
  controller :: BrowserController
  generation :: u64
  lease_expires_at :: "datetime option"
  lease_ttl :: duration

record transition =
  tr_controller :: BrowserController
  tr_generation :: u64
  tr_reason :: ControlTransitionReason

datatype TransferTarget = TargetNone | TargetAgent uuid

definition arbiter_new :: "duration \<Rightarrow> control_arbiter" where
  "arbiter_new ttl = \<lparr>controller = CtlNone, generation = 0, lease_expires_at = None, lease_ttl = ttl\<rparr>"

definition conflict :: "control_arbiter \<Rightarrow> BrowserSessionError" where
  "conflict a = ControlConflict (controller a) (generation a)"

definition stale :: "control_arbiter \<Rightarrow> BrowserSessionError" where
  "stale a = StaleGeneration (controller a) (generation a)"

definition do_transition ::
  "control_arbiter \<Rightarrow> BrowserController \<Rightarrow> ControlTransitionReason \<Rightarrow> datetime
    \<Rightarrow> transition \<times> control_arbiter" where
  "do_transition a c reason now =
     (let a' = a\<lparr>generation := generation a + 1,
                 lease_expires_at := (if controller_is_none c then None else Some (now + lease_ttl a)),
                 controller := c\<rparr>
      in (\<lparr>tr_controller = controller a', tr_generation = generation a', tr_reason = reason\<rparr>, a'))"

definition no_op_transition :: "control_arbiter \<Rightarrow> ControlTransitionReason \<Rightarrow> transition" where
  "no_op_transition a reason =
     \<lparr>tr_controller = controller a, tr_generation = generation a, tr_reason = reason\<rparr>"

definition expire_if_lapsed ::
  "control_arbiter \<Rightarrow> datetime \<Rightarrow> transition option \<times> control_arbiter" where
  "expire_if_lapsed a now =
     (if controller_is_none (controller a) then (None, a)
      else case lease_expires_at a of
             Some deadline \<Rightarrow>
               if deadline \<le> now
               then (let (t, a') = do_transition a CtlNone RExpired now in (Some t, a'))
               else (None, a)
           | None \<Rightarrow> (None, a))"

definition generation_mismatch :: "u64 option \<Rightarrow> control_arbiter \<Rightarrow> bool" where
  "generation_mismatch expected a = is_some_and expected (\<lambda>e. e \<noteq> generation a)"

definition acquire_verdict ::
  "BrowserController \<Rightarrow> ControlPrincipal \<Rightarrow> bool \<Rightarrow> bool \<Rightarrow> bool \<times> ControlTransitionReason" where
  "acquire_verdict c p take_from_agent force =
     (case (c, p) of
        (CtlNone, _) \<Rightarrow> (True, RAcquire)
      | (CtlAgent _, PHuman _ _) \<Rightarrow>
          if take_from_agent \<or> force then (True, RTakeover)
          else if force then (True, RTakeover) else (False, RAcquire)
      | (_, PHuman _ _) \<Rightarrow> if force then (True, RTakeover) else (False, RAcquire)
      | _ \<Rightarrow> (False, RAcquire))"

definition acquire ::
  "control_arbiter \<Rightarrow> ControlPrincipal \<Rightarrow> bool \<Rightarrow> bool \<Rightarrow> u64 option \<Rightarrow> datetime
    \<Rightarrow> (BrowserSessionError + transition) \<times> control_arbiter" where
  "acquire a0 p take_from_agent force expected now =
     (let a = snd (expire_if_lapsed a0 now) in
      if generation_mismatch expected a then (Err (stale a), a)
      else if principal_matches p (controller a)
      then (Ok (no_op_transition a RAcquire), a\<lparr>lease_expires_at := Some (now + lease_ttl a)\<rparr>)
      else case acquire_verdict (controller a) p take_from_agent force of
             (False, _) \<Rightarrow> (Err (conflict a), a)
           | (True, reason) \<Rightarrow>
               (let (t, a') = do_transition a (to_controller p) reason now in (Ok t, a')))"

definition release ::
  "control_arbiter \<Rightarrow> ControlPrincipal \<Rightarrow> u64 option \<Rightarrow> datetime
    \<Rightarrow> (BrowserSessionError + transition) \<times> control_arbiter" where
  "release a0 p expected now =
     (let a = snd (expire_if_lapsed a0 now) in
      if generation_mismatch expected a then (Err (stale a), a)
      else if controller_is_none (controller a) then (Ok (no_op_transition a RRelease), a)
      else if \<not> principal_matches p (controller a) then (Err (conflict a), a)
      else (let (t, a') = do_transition a CtlNone RRelease now in (Ok t, a')))"

definition transfer ::
  "control_arbiter \<Rightarrow> ControlPrincipal \<Rightarrow> TransferTarget \<Rightarrow> u64 \<Rightarrow> datetime
    \<Rightarrow> (BrowserSessionError + transition) \<times> control_arbiter" where
  "transfer a0 p target expected now =
     (let a = snd (expire_if_lapsed a0 now) in
      if expected \<noteq> generation a then (Err (stale a), a)
      else if controller_is_none (controller a) then (Err (conflict a), a)
      else if \<not> principal_matches p (controller a) then (Err (conflict a), a)
      else let next = (case target of TargetNone \<Rightarrow> CtlNone | TargetAgent e \<Rightarrow> CtlAgent e);
               (t, a') = do_transition a next RTransfer now
           in (Ok t, a'))"

definition release_if ::
  "control_arbiter \<Rightarrow> (BrowserController \<Rightarrow> bool) \<Rightarrow> ControlTransitionReason \<Rightarrow> datetime
    \<Rightarrow> transition option \<times> control_arbiter" where
  "release_if a predicate reason now =
     (if controller_is_none (controller a) then (None, a)
      else if predicate (controller a)
      then (let (t, a') = do_transition a CtlNone reason now in (Some t, a'))
      else (None, a))"

definition admit_command ::
  "control_arbiter \<Rightarrow> ControlPrincipal \<Rightarrow> u64 option \<Rightarrow> datetime
    \<Rightarrow> (BrowserSessionError + u64) \<times> control_arbiter" where
  "admit_command a0 p expected now =
     (let a = snd (expire_if_lapsed a0 now) in
      if generation_mismatch expected a then (Err (stale a), a)
      else if \<not> principal_matches p (controller a) then (Err (conflict a), a)
      else (Ok (generation a), a\<lparr>lease_expires_at := Some (now + lease_ttl a)\<rparr>))"

definition recheck_generation :: "control_arbiter \<Rightarrow> u64 \<Rightarrow> BrowserSessionError + unit" where
  "recheck_generation a admitted =
     (if admitted \<noteq> generation a then Err (ControlLost (controller a) (generation a)) else Ok ())"

section \<open>Steps and invariant\<close>

inductive arbiter_step :: "control_arbiter \<Rightarrow> control_arbiter \<Rightarrow> bool" where
  expire: "expire_if_lapsed a now = (r, b) \<Longrightarrow> arbiter_step a b"
| acquire: "acquire a p tk fc ex now = (ra, b) \<Longrightarrow> arbiter_step a b"
| release: "release a p ex now = (rr, b) \<Longrightarrow> arbiter_step a b"
| transfer: "transfer a p tg g now = (rt, b) \<Longrightarrow> arbiter_step a b"
| release_if: "release_if a q rs now = (ri, b) \<Longrightarrow> arbiter_step a b"
| admit: "admit_command a p ex now = (rc, b) \<Longrightarrow> arbiter_step a b"

inductive_cases arbiter_stepE: "arbiter_step a b"

definition arbiter_start :: "control_arbiter \<Rightarrow> bool" where
  "arbiter_start a \<longleftrightarrow> (\<exists>ttl. a = arbiter_new ttl)"

definition arbiter_inv :: "control_arbiter \<Rightarrow> bool" where
  "arbiter_inv a \<longleftrightarrow> (controller a = CtlNone \<longleftrightarrow> lease_expires_at a = None)"

named_theorems arbiter_defs \<open>unfolding of the arbiter operations\<close>

lemmas [arbiter_defs] = do_transition_def no_op_transition_def expire_if_lapsed_def acquire_def
  release_def transfer_def release_if_def admit_command_def generation_mismatch_def
  principal_matches_def Let_def

lemma controller_is_none_iff [simp]: "controller_is_none c \<longleftrightarrow> c = CtlNone"
  by (cases c) simp_all

lemma to_controller_not_none [simp]: "to_controller p \<noteq> CtlNone"
  by (cases p) simp_all

lemma acquire_verdict_allowed:
  "acquire_verdict c p tk fc = (True, r) \<longleftrightarrow>
     c = CtlNone \<and> r = RAcquire \<or>
     (\<exists>u k. p = PHuman u k) \<and> c \<noteq> CtlNone \<and> r = RTakeover \<and> (fc \<or> tk \<and> (\<exists>e. c = CtlAgent e))"
  by (cases c; cases p) (auto simp: acquire_verdict_def)

text \<open>The lease after lazy expiry: the holder is gone when its deadline has passed.\<close>

definition lapsed :: "control_arbiter \<Rightarrow> datetime \<Rightarrow> bool" where
  "lapsed a now \<longleftrightarrow> controller a \<noteq> CtlNone \<and> (\<exists>d. lease_expires_at a = Some d \<and> d \<le> now)"

abbreviation current :: "control_arbiter \<Rightarrow> datetime \<Rightarrow> control_arbiter" where
  "current a now \<equiv> snd (expire_if_lapsed a now)"

lemma current_simps:
  "controller (current a now) = (if lapsed a now then CtlNone else controller a)"
  "generation (current a now) = (if lapsed a now then generation a + 1 else generation a)"
  "lease_expires_at (current a now) = (if lapsed a now then None else lease_expires_at a)"
  "lease_ttl (current a now) = lease_ttl a"
  by (auto simp: lapsed_def expire_if_lapsed_def do_transition_def Let_def split: option.splits)

lemma current_not_lapsed: "\<not> lapsed a now \<Longrightarrow> current a now = a"
  by (auto simp: lapsed_def expire_if_lapsed_def do_transition_def Let_def split: option.splits)

lemma arbiter_inv_current: "arbiter_inv a \<Longrightarrow> arbiter_inv (current a now)"
  by (simp add: arbiter_inv_def current_simps)

lemma arbiter_inv_step:
  assumes "arbiter_inv a" and "arbiter_step a b"
  shows "arbiter_inv b"
  using assms(2)
proof (cases rule: arbiter_step.cases)
  case (expire now r)
  with arbiter_inv_current [OF assms(1), of now] show ?thesis by simp
next
  case (acquire p tk fc ex now r)
  with arbiter_inv_current [OF assms(1), of now] show ?thesis
    by (auto simp: acquire_def arbiter_inv_def do_transition_def principal_matches_def Let_def
        split: if_splits bool.splits prod.splits)
next
  case (release p ex now r)
  with arbiter_inv_current [OF assms(1), of now] show ?thesis
    by (auto simp: release_def arbiter_inv_def do_transition_def Let_def split: if_splits)
next
  case (transfer p tg g now r)
  with arbiter_inv_current [OF assms(1), of now] show ?thesis
    by (auto simp: transfer_def arbiter_inv_def do_transition_def Let_def
        split: if_splits TransferTarget.splits)
next
  case (release_if q rs now r)
  with assms(1) show ?thesis
    by (auto simp: release_if_def arbiter_inv_def do_transition_def Let_def split: if_splits)
next
  case (admit p ex now r)
  with arbiter_inv_current [OF assms(1), of now] show ?thesis
    by (auto simp: admit_command_def arbiter_inv_def principal_matches_def Let_def
        split: if_splits)
qed

lemma arbiter_start_inv: "arbiter_start a \<Longrightarrow> arbiter_inv a"
  by (auto simp: arbiter_start_def arbiter_new_def arbiter_inv_def)

interpretation arb: invariant_system arbiter_start arbiter_step arbiter_inv
  by unfold_locales (auto intro: arbiter_start_inv arbiter_inv_step)

section \<open>Fencing by generation\<close>

text \<open>
  The contract a generation counter offers: every step adds a bounded amount to it, and a step
  that adds nothing leaves the owner alone. Then an unchanged generation proves an unchanged
  owner, as long as fewer steps passed than it takes to wrap around.
\<close>

locale generation_fence =
  fixes step :: "'s \<Rightarrow> 's \<Rightarrow> bool"
    and gen :: "'s \<Rightarrow> 'w::len word"
    and owner :: "'s \<Rightarrow> 'o"
    and bound :: nat
  assumes bump: "step s t \<Longrightarrow> \<exists>k \<le> bound. gen t = gen s + of_nat k \<and> (k = 0 \<longrightarrow> owner t = owner s)"
begin

lemma bumps:
  "(step ^^ n) s t \<Longrightarrow> \<exists>k \<le> bound * n. gen t = gen s + of_nat k \<and> (k = 0 \<longrightarrow> owner t = owner s)"
proof (induction n arbitrary: t)
  case 0
  then show ?case by (intro exI [of _ 0]) auto
next
  case (Suc n)
  then obtain u where u: "(step ^^ n) s u" "step u t" by auto
  from Suc.IH [OF u(1)] obtain k where
    k: "k \<le> bound * n" "gen u = gen s + of_nat k" "k = 0 \<longrightarrow> owner u = owner s" by blast
  from bump [OF u(2)] obtain l where
    l: "l \<le> bound" "gen t = gen u + of_nat l" "l = 0 \<longrightarrow> owner t = owner u" by blast
  from k l show ?case
    by (intro exI [of _ "k + l"]) (auto simp: add.assoc)
qed

lemma fence:
  assumes "(step ^^ n) s t" and "bound * n < 2 ^ LENGTH('w)" and "gen t = gen s"
  shows "owner t = owner s"
proof -
  obtain k where k: "k \<le> bound * n" "gen t = gen s + of_nat k" "k = 0 \<longrightarrow> owner t = owner s"
    using bumps [OF assms(1)] by blast
  with assms(3) have "of_nat k = (0 :: 'w word)" by simp
  moreover have "k < 2 ^ LENGTH('w)" using k(1) assms(2) by linarith
  ultimately have "k = 0"
    by (metis mod_less of_nat_0 unat_0 unat_of_nat)
  with k(3) show ?thesis by simp
qed

end

text \<open>One operation performs at most an expiry and one further transition.\<close>

lemma arbiter_step_bump:
  assumes "arbiter_step a b"
  shows "\<exists>k \<le> 2. generation b = generation a + of_nat k \<and> (k = 0 \<longrightarrow> controller b = controller a)"
proof -
  have one: "\<exists>k \<le> 1. generation (current a now) = generation a + of_nat k \<and>
      (k = 0 \<longrightarrow> controller (current a now) = controller a)" for now
    by (cases "lapsed a now") (auto simp: current_simps intro: exI [of _ "0::nat"] exI [of _ "1::nat"])
  have two: "?thesis" if "generation b = generation (current a now) \<and> controller b = controller (current a now)
      \<or> generation b = generation (current a now) + 1" for now
  proof -
    from one [of now] obtain k where k: "k \<le> 1" "generation (current a now) = generation a + of_nat k"
      "k = 0 \<longrightarrow> controller (current a now) = controller a" by blast
    from that show ?thesis
    proof
      assume "generation b = generation (current a now) \<and> controller b = controller (current a now)"
      with k show ?thesis by (intro exI [of _ k]) auto
    next
      assume "generation b = generation (current a now) + 1"
      with k show ?thesis by (intro exI [of _ "Suc k"]) auto
    qed
  qed
  from assms show ?thesis
  proof (cases rule: arbiter_step.cases)
    case (expire now r)
    then show ?thesis by (intro two [of now]) simp
  next
    case (acquire p tk fc ex now r)
    then show ?thesis
      by (intro two [of now]) (auto simp: acquire_def do_transition_def Let_def
          split: if_splits bool.splits prod.splits)
  next
    case (release p ex now r)
    then show ?thesis
      by (intro two [of now]) (auto simp: release_def do_transition_def Let_def split: if_splits)
  next
    case (transfer p tg g now r)
    then show ?thesis
      by (intro two [of now]) (auto simp: transfer_def do_transition_def Let_def split: if_splits)
  next
    case (release_if q rs now r)
    then have "generation b = generation a \<and> controller b = controller a \<or> generation b = generation a + 1"
      by (auto simp: release_if_def do_transition_def Let_def split: if_splits)
    then show ?thesis by (auto intro: exI [of _ "0::nat"] exI [of _ "1::nat"])
  next
    case (admit p ex now r)
    then show ?thesis
      by (intro two [of now]) (auto simp: admit_command_def Let_def split: if_splits)
  qed
qed

interpretation arb_fence: generation_fence arbiter_step generation controller 2
  by unfold_locales (rule arbiter_step_bump)

section \<open>Properties of the arbiter\<close>

text \<open>
  In every state the arbiter can reach, a lease deadline is recorded exactly while somebody
  holds control.
\<close>

theorem arbiter_lease_iff_held:
  "reach arbiter_start arbiter_step a \<Longrightarrow> controller a = CtlNone \<longleftrightarrow> lease_expires_at a = None"
  using arb.inv_reach by (simp add: arbiter_inv_def)

theorem arbiter_lease_iff_held_witness:
  "controller (arbiter_new 60) = CtlNone \<longleftrightarrow> lease_expires_at (arbiter_new 60) = None"
  by (rule arbiter_lease_iff_held, rule reach_start) (auto simp: arbiter_start_def)


definition demo_arbiter :: control_arbiter where
  "demo_arbiter = \<lparr>controller = CtlAgent 5, generation = 3, lease_expires_at = Some 100,
                   lease_ttl = 60\<rparr>"


text \<open>
  Who may acquire control. Judged on the state after lazy expiry, an acquisition succeeds
  exactly when the expected generation (if any) is current and the caller already holds control,
  or nobody does, or the caller is a human who forces it or takes it from an agent. An agent
  never displaces a live controller, and a refused acquisition changes nothing but the expiry.
\<close>

theorem acquire_decision:
  assumes "acquire a p tk fc expected now = (r, b)"
  shows "(is_ok r \<longleftrightarrow>
            \<not> generation_mismatch expected (current a now) \<and>
            (controller (current a now) \<in> {CtlNone, to_controller p} \<or>
             (\<exists>u k. p = PHuman u k) \<and>
               (fc \<or> tk \<and> (\<exists>e. controller (current a now) = CtlAgent e)))) \<and>
         (is_ok r \<longrightarrow> controller b = to_controller p \<and>
                      lease_expires_at b = Some (now + lease_ttl a)) \<and>
         (is_err r \<longrightarrow> b = current a now)"
proof (cases "generation_mismatch expected (current a now) \<or> principal_matches p (controller (current a now))")
  case True
  with assms show ?thesis
    by (auto simp: acquire_def Let_def principal_matches_def current_simps split: if_splits)
next
  case False
  let ?c = "current a now"
  show ?thesis
  proof (cases "acquire_verdict (controller ?c) p tk fc")
    case (Pair allowed reason)
    show ?thesis
    proof (cases allowed)
      case True
      with Pair have v: "acquire_verdict (controller ?c) p tk fc = (True, reason)" by simp
      with False assms have "\<exists>t. r = Ok t" "b = snd (do_transition ?c (to_controller p) reason now)"
        by (auto simp: acquire_def Let_def split: if_splits prod.splits)
      moreover from v have "controller ?c = CtlNone \<or>
          (\<exists>u k. p = PHuman u k) \<and> (fc \<or> tk \<and> (\<exists>e. controller ?c = CtlAgent e))"
        using acquire_verdict_allowed by blast
      ultimately show ?thesis
        using False by (auto simp: do_transition_def Let_def current_simps(4))
    next
      case refused: False
      with Pair False assms have "r = Err (conflict ?c)" "b = ?c"
        by (auto simp: acquire_def Let_def split: if_splits)
      moreover from refused Pair have "\<not> (controller ?c = CtlNone \<or>
          (\<exists>u k. p = PHuman u k) \<and> (fc \<or> tk \<and> (\<exists>e. controller ?c = CtlAgent e)))"
        by (cases "controller ?c"; cases p) (auto simp: acquire_verdict_def split: if_splits)
      ultimately show ?thesis
        using False by (auto simp: principal_matches_def)
    qed
  qed
qed

theorem acquire_decision_witness:
  "acquire demo_arbiter (PAgent 9) True True None 10 = (Err (conflict demo_arbiter), demo_arbiter)
   \<and> \<not> is_ok (fst (acquire demo_arbiter (PAgent 9) True True None 10))"
proof -
  have e: "acquire demo_arbiter (PAgent 9) True True None 10 = (Err (conflict demo_arbiter), demo_arbiter)"
    by (simp add: demo_arbiter_def arbiter_defs acquire_verdict_def)
  from acquire_decision [OF e] show ?thesis by (simp add: e)
qed

text \<open>
  Control operations belong to the holder. A command is admitted exactly when the caller's
  lease is live and its generation expectation holds; a lapsed lease admits nobody. A release or
  transfer that succeeds was made by the holder (or released a session nobody held), and
  bumps the generation.
\<close>

theorem holder_only:
  "(is_ok (fst (admit_command a p expected now)) \<longleftrightarrow>
      controller a = to_controller p \<and> \<not> lapsed a now \<and> \<not> generation_mismatch expected a) \<and>
   (is_ok (fst (release a p expected now)) \<longrightarrow>
      controller (current a now) = CtlNone \<and> snd (release a p expected now) = current a now \<or>
      controller a = to_controller p \<and> \<not> lapsed a now \<and>
        controller (snd (release a p expected now)) = CtlNone \<and>
        generation (snd (release a p expected now)) = generation a + 1) \<and>
   (is_ok (fst (transfer a p tg g now)) \<longrightarrow>
      g = generation a \<and> controller a = to_controller p \<and> \<not> lapsed a now \<and>
        generation (snd (transfer a p tg g now)) = generation a + 1)"
proof (cases "lapsed a now")
  case True
  then show ?thesis
    by (auto simp: admit_command_def release_def transfer_def Let_def principal_matches_def
        current_simps split: if_splits)
next
  case False
  then show ?thesis
    by (auto simp: current_not_lapsed admit_command_def release_def transfer_def Let_def
        principal_matches_def do_transition_def split: if_splits)
qed

theorem holder_only_witness:
  "is_ok (fst (admit_command demo_arbiter (PAgent 5) (Some 3) 10)) \<and>
   \<not> is_ok (fst (admit_command demo_arbiter (PAgent 5) (Some 3) 100)) \<and>
   generation (snd (release demo_arbiter (PAgent 5) None 10)) = 4 \<and>
   generation (snd (transfer demo_arbiter (PAgent 5) TargetNone 3 10)) = 4"
proof -
  have l: "\<not> lapsed demo_arbiter 10" "lapsed demo_arbiter 100"
    by (simp_all add: lapsed_def demo_arbiter_def)
  have r: "is_ok (fst (release demo_arbiter (PAgent 5) None 10))"
    "is_ok (fst (transfer demo_arbiter (PAgent 5) TargetNone 3 10))"
    "controller (current demo_arbiter 10) \<noteq> CtlNone"
    by (simp_all add: demo_arbiter_def arbiter_defs)
  have d: "controller demo_arbiter = to_controller (PAgent 5)" "generation demo_arbiter = 3"
    "\<not> generation_mismatch (Some 3) demo_arbiter"
    by (simp_all add: demo_arbiter_def generation_mismatch_def)
  show ?thesis
    using holder_only [of demo_arbiter "PAgent 5" "Some 3" 10 TargetNone 3]
      holder_only [of demo_arbiter "PAgent 5" "Some 3" 100 TargetNone 3]
      holder_only [of demo_arbiter "PAgent 5" None 10 TargetNone 3] l r d
    by auto
qed

end
