(* ===== verification/Queued_Message.thy ===== *)
theory Queued_Message
  imports VK_Prelude "HOL-Library.Sublist"
begin

text \<open>
  The in-memory queue of follow-up messages (\<open>services/queued_message.rs\<close>): at most one message per
  session, restart reservations that hide a message from finalization, and the workspace-restart
  bookkeeping around it. A \<open>DashMap\<close> is a map; a method is one step. The clock reading and the
  fresh reservation id a method obtains are arguments. \<open>Notify\<close> only wakes waiters, so a waiting
  method is \<open>None\<close> while its condition keeps it asleep. The follow-up payload
  (\<open>DraftFollowUpData\<close>) is passed through unread, a type parameter.
\<close>

section \<open>State and operations\<close>

record 'd queued_message =
  qm_session_id :: uuid
  qm_data :: 'd
  qm_queued_at :: datetime
  qm_restart_agent :: bool
  qm_restart_reservation :: "uuid option"
  qm_remove_on_cancel :: bool

datatype 'd QueueStatus = QueueEmpty | QueueQueued "'d queued_message"

record 'd queue_service =
  qs_queue :: "uuid \<rightharpoonup> 'd queued_message"
  qs_blocked :: "uuid \<rightharpoonup> unit"
  qs_workspace :: "uuid \<rightharpoonup> datetime"
  qs_cancelled :: "uuid \<rightharpoonup> datetime"

definition queue_new :: "'d queue_service" where
  "queue_new = \<lparr>qs_queue = Map.empty, qs_blocked = Map.empty, qs_workspace = Map.empty,
                qs_cancelled = Map.empty\<rparr>"

definition is_workspace_mcp_restart :: "'d queue_service \<Rightarrow> uuid \<Rightarrow> bool" where
  "is_workspace_mcp_restart q s \<longleftrightarrow> qs_workspace q s \<noteq> None"

definition is_mcp_restart_start_blocked :: "'d queue_service \<Rightarrow> uuid \<Rightarrow> bool" where
  "is_mcp_restart_start_blocked q s \<longleftrightarrow> qs_blocked q s \<noteq> None"

definition queue_message ::
  "'d queue_service \<Rightarrow> uuid \<Rightarrow> 'd \<Rightarrow> datetime \<Rightarrow> 'd queued_message \<times> 'd queue_service" where
  "queue_message q s d now =
     (let workspace_restart = is_workspace_mcp_restart q s;
          replaces = workspace_restart \<and> qs_queue q s \<noteq> None;
          queued = \<lparr>qm_session_id = s, qm_data = d, qm_queued_at = now, qm_restart_agent = replaces,
                    qm_restart_reservation = None, qm_remove_on_cancel = False\<rparr>;
          q = (if replaces then q\<lparr>qs_workspace := (qs_workspace q)(s \<mapsto> qm_queued_at queued)\<rparr> else q)
      in (queued, q\<lparr>qs_queue := (qs_queue q)(s \<mapsto> queued)\<rparr>))"

definition reserve_mcp_restart ::
  "'d queue_service \<Rightarrow> uuid \<Rightarrow> 'd \<Rightarrow> uuid \<Rightarrow> datetime \<Rightarrow> uuid \<times> 'd queue_service" where
  "reserve_mcp_restart q s d reservation now =
     (let m = (case qs_queue q s of
                 Some m \<Rightarrow> m\<lparr>qm_restart_reservation := Some reservation, qm_remove_on_cancel := False\<rparr>
               | None \<Rightarrow> \<lparr>qm_session_id = s, qm_data = d, qm_queued_at = now,
                          qm_restart_agent = False, qm_restart_reservation = Some reservation,
                          qm_remove_on_cancel = True\<rparr>);
          q = q\<lparr>qs_queue := (qs_queue q)(s \<mapsto> m)\<rparr>
      in (reservation,
          if is_mcp_restart_start_blocked q s
          then q\<lparr>qs_workspace := (qs_workspace q)(s \<mapsto> qm_queued_at m)\<rparr> else q))"

definition commit_mcp_restart ::
  "'d queue_service \<Rightarrow> uuid \<Rightarrow> uuid \<Rightarrow> datetime option \<times> 'd queue_service" where
  "commit_mcp_restart q s reservation =
     (case qs_queue q s of
        Some m \<Rightarrow>
          if qm_restart_reservation m = Some reservation
          then (Some (qm_queued_at m),
                q\<lparr>qs_queue := (qs_queue q)
                   (s \<mapsto> m\<lparr>qm_restart_agent := True, qm_restart_reservation := None\<rparr>)\<rparr>)
          else (None, q)
      | None \<Rightarrow> (None, q))"

definition take_committed_mcp_restart ::
  "'d queue_service \<Rightarrow> uuid \<Rightarrow> datetime \<Rightarrow> 'd queued_message option \<times> 'd queue_service" where
  "take_committed_mcp_restart q s queued_at =
     (case qs_queue q s of
        Some m \<Rightarrow>
          if qm_queued_at m = queued_at \<and> qm_restart_agent m \<and> qm_restart_reservation m = None
          then (Some m, q\<lparr>qs_queue := (qs_queue q)(s := None)\<rparr>)
          else (None, q)
      | None \<Rightarrow> (None, q))"

definition cancel_mcp_restart :: "'d queue_service \<Rightarrow> uuid \<Rightarrow> uuid \<Rightarrow> 'd queue_service" where
  "cancel_mcp_restart q s reservation =
     (case qs_queue q s of
        Some m \<Rightarrow>
          if qm_restart_reservation m = Some reservation
          then if qm_remove_on_cancel m
               then q\<lparr>qs_queue := (qs_queue q)(s := None)\<rparr>
               else q\<lparr>qs_queue := (qs_queue q)
                       (s \<mapsto> m\<lparr>qm_restart_reservation := None, qm_remove_on_cancel := False\<rparr>)\<rparr>
          else q
      | None \<Rightarrow> q)"

definition take_mcp_restart ::
  "'d queue_service \<Rightarrow> uuid \<Rightarrow> uuid \<Rightarrow> 'd queued_message option \<times> 'd queue_service" where
  "take_mcp_restart q s reservation =
     (case qs_queue q s of
        Some m \<Rightarrow>
          if qm_restart_reservation m = Some reservation
          then (Some (m\<lparr>qm_restart_agent := True, qm_restart_reservation := None,
                        qm_remove_on_cancel := False\<rparr>),
                q\<lparr>qs_queue := (qs_queue q)(s := None)\<rparr>)
          else (None, q)
      | None \<Rightarrow> (None, q))"

definition cancel_queued ::
  "'d queue_service \<Rightarrow> uuid \<Rightarrow> 'd queued_message option \<times> 'd queue_service" where
  "cancel_queued q s = (qs_queue q s, q\<lparr>qs_queue := (qs_queue q)(s := None)\<rparr>)"

definition supersede_mcp_restart :: "'d queue_service \<Rightarrow> uuid \<Rightarrow> 'd queue_service" where
  "supersede_mcp_restart q s =
     (case qs_queue q s of
        Some m \<Rightarrow>
          if qm_remove_on_cancel m then q\<lparr>qs_queue := (qs_queue q)(s := None)\<rparr>
          else q\<lparr>qs_queue := (qs_queue q)
                  (s \<mapsto> m\<lparr>qm_restart_agent := False, qm_restart_reservation := None\<rparr>)\<rparr>
      | None \<Rightarrow> q)"

definition get_queued :: "'d queue_service \<Rightarrow> uuid \<Rightarrow> 'd queued_message option" where
  "get_queued q s = qs_queue q s"

definition take_queued ::
  "'d queue_service \<Rightarrow> uuid \<Rightarrow> 'd queued_message option \<times> 'd queue_service" where
  "take_queued q s =
     (case qs_queue q s of
        Some m \<Rightarrow>
          if qm_restart_reservation m = None
          then (Some m, q\<lparr>qs_queue := (qs_queue q)(s := None)\<rparr>) else (None, q)
      | None \<Rightarrow> (None, q))"

definition has_queued :: "'d queue_service \<Rightarrow> uuid \<Rightarrow> bool" where
  "has_queued q s \<longleftrightarrow> qs_queue q s \<noteq> None"

definition has_pending_restart :: "'d queue_service \<Rightarrow> uuid \<Rightarrow> bool" where
  "has_pending_restart q s = is_some_and (qs_queue q s) (\<lambda>m. qm_restart_reservation m \<noteq> None)"

definition has_mcp_restart :: "'d queue_service \<Rightarrow> uuid \<Rightarrow> bool" where
  "has_mcp_restart q s =
     is_some_and (qs_queue q s) (\<lambda>m. qm_restart_agent m \<or> qm_restart_reservation m \<noteq> None)"

definition block_mcp_restart_start :: "'d queue_service \<Rightarrow> uuid \<Rightarrow> 'd queue_service" where
  "block_mcp_restart_start q s =
     (let q = q\<lparr>qs_cancelled := (qs_cancelled q)(s := None),
                qs_blocked := (qs_blocked q)(s \<mapsto> ())\<rparr>
      in case qs_queue q s of
           Some m \<Rightarrow> q\<lparr>qs_workspace := (qs_workspace q)(s \<mapsto> qm_queued_at m)\<rparr>
         | None \<Rightarrow> q)"

definition unblock_mcp_restart_start :: "'d queue_service \<Rightarrow> uuid \<Rightarrow> 'd queue_service" where
  "unblock_mcp_restart_start q s = q\<lparr>qs_blocked := (qs_blocked q)(s := None)\<rparr>"

definition has_deferred_mcp_restart :: "'d queue_service \<Rightarrow> uuid \<Rightarrow> bool" where
  "has_deferred_mcp_restart q s \<longleftrightarrow> qs_workspace q s \<noteq> None \<and> qs_queue q s = None"

definition finish_workspace_mcp_restart :: "'d queue_service \<Rightarrow> uuid \<Rightarrow> 'd queue_service" where
  "finish_workspace_mcp_restart q s =
     q\<lparr>qs_workspace := (qs_workspace q)(s := None), qs_cancelled := (qs_cancelled q)(s := None)\<rparr>"

definition cancel_workspace_mcp_restart :: "'d queue_service \<Rightarrow> uuid \<Rightarrow> 'd queue_service" where
  "cancel_workspace_mcp_restart q s =
     (let q = (case qs_workspace q s of
                 Some queued_at \<Rightarrow>
                   q\<lparr>qs_workspace := (qs_workspace q)(s := None),
                     qs_cancelled := (qs_cancelled q)(s \<mapsto> queued_at)\<rparr>
               | None \<Rightarrow> q)
      in unblock_mcp_restart_start q s)"

definition cancel_deferred_mcp_restart :: "'d queue_service \<Rightarrow> uuid \<Rightarrow> bool \<times> 'd queue_service" where
  "cancel_deferred_mcp_restart q s =
     (case qs_workspace q s of
        Some queued_at \<Rightarrow> (True, q\<lparr>qs_cancelled := (qs_cancelled q)(s \<mapsto> queued_at)\<rparr>)
      | None \<Rightarrow> (False, q))"

text \<open>\<open>None\<close>: still asleep, because the session's restart is blocked.\<close>

definition wait_for_mcp_restart_start ::
  "'d queue_service \<Rightarrow> uuid \<Rightarrow> datetime \<Rightarrow> (bool \<times> 'd queue_service) option" where
  "wait_for_mcp_restart_start q s queued_at =
     (if is_mcp_restart_start_blocked q s then None
      else if is_some_and (qs_cancelled q s) (\<lambda>at. at = queued_at)
      then Some (False, q\<lparr>qs_cancelled := (qs_cancelled q)(s := None)\<rparr>)
      else Some (True, q))"

definition wait_for_restart_resolution :: "'d queue_service \<Rightarrow> uuid \<Rightarrow> unit option" where
  "wait_for_restart_resolution q s = (if has_pending_restart q s then None else Some ())"

definition get_status :: "'d queue_service \<Rightarrow> uuid \<Rightarrow> 'd QueueStatus" where
  "get_status q s = (case get_queued q s of Some m \<Rightarrow> QueueQueued m | None \<Rightarrow> QueueEmpty)"

section \<open>Operations as steps\<close>

text \<open>
  The calls that change the service, with their arguments, the step each performs and the message
  (if any) it hands to its caller for execution.
\<close>

datatype 'd queue_op =
    OpQueue uuid 'd datetime
  | OpReserve uuid 'd uuid datetime
  | OpCommit uuid uuid
  | OpTakeCommitted uuid datetime
  | OpCancel uuid uuid
  | OpTakeRestart uuid uuid
  | OpCancelQueued uuid
  | OpSupersede uuid
  | OpTake uuid
  | OpBlock uuid
  | OpUnblock uuid
  | OpFinishWorkspace uuid
  | OpCancelWorkspace uuid
  | OpCancelDeferred uuid
  | OpWaitStart uuid datetime

fun queue_step :: "'d queue_op \<Rightarrow> 'd queue_service \<Rightarrow> 'd queued_message option \<times> 'd queue_service" where
  "queue_step (OpQueue s d now) q = (None, snd (queue_message q s d now))"
| "queue_step (OpReserve s d r now) q = (None, snd (reserve_mcp_restart q s d r now))"
| "queue_step (OpCommit s r) q = (None, snd (commit_mcp_restart q s r))"
| "queue_step (OpTakeCommitted s t) q = take_committed_mcp_restart q s t"
| "queue_step (OpCancel s r) q = (None, cancel_mcp_restart q s r)"
| "queue_step (OpTakeRestart s r) q = take_mcp_restart q s r"
| "queue_step (OpCancelQueued s) q = (None, snd (cancel_queued q s))"
| "queue_step (OpSupersede s) q = (None, supersede_mcp_restart q s)"
| "queue_step (OpTake s) q = take_queued q s"
| "queue_step (OpBlock s) q = (None, block_mcp_restart_start q s)"
| "queue_step (OpUnblock s) q = (None, unblock_mcp_restart_start q s)"
| "queue_step (OpFinishWorkspace s) q = (None, finish_workspace_mcp_restart q s)"
| "queue_step (OpCancelWorkspace s) q = (None, cancel_workspace_mcp_restart q s)"
| "queue_step (OpCancelDeferred s) q = (None, snd (cancel_deferred_mcp_restart q s))"
| "queue_step (OpWaitStart s t) q =
     (None, case wait_for_mcp_restart_start q s t of Some (_, q') \<Rightarrow> q' | None \<Rightarrow> q)"

fun op_session :: "'d queue_op \<Rightarrow> uuid" where
  "op_session (OpQueue s _ _) = s"
| "op_session (OpReserve s _ _ _) = s"
| "op_session (OpCommit s _) = s"
| "op_session (OpTakeCommitted s _) = s"
| "op_session (OpCancel s _) = s"
| "op_session (OpTakeRestart s _) = s"
| "op_session (OpCancelQueued s) = s"
| "op_session (OpSupersede s) = s"
| "op_session (OpTake s) = s"
| "op_session (OpBlock s) = s"
| "op_session (OpUnblock s) = s"
| "op_session (OpFinishWorkspace s) = s"
| "op_session (OpCancelWorkspace s) = s"
| "op_session (OpCancelDeferred s) = s"
| "op_session (OpWaitStart s _) = s"

text \<open>The identity of a message: who it is for, what it says and when it was queued.\<close>

definition ident :: "'d queued_message \<Rightarrow> uuid \<times> 'd \<times> datetime" where
  "ident m = (qm_session_id m, qm_data m, qm_queued_at m)"

fun op_inserts :: "'d queue_op \<Rightarrow> 'd queue_service \<Rightarrow> (uuid \<times> 'd \<times> datetime) list" where
  "op_inserts (OpQueue s d now) q = [(s, d, now)]"
| "op_inserts (OpReserve s d r now) q = (if qs_queue q s = None then [(s, d, now)] else [])"
| "op_inserts _ q = []"

fun queue_run :: "'d queue_op list \<Rightarrow> 'd queue_service \<Rightarrow> 'd queue_service" where
  "queue_run [] q = q"
| "queue_run (op # ops) q = queue_run ops (snd (queue_step op q))"

fun delivered :: "uuid \<Rightarrow> 'd queue_op list \<Rightarrow> 'd queue_service \<Rightarrow> (uuid \<times> 'd \<times> datetime) list" where
  "delivered s [] q = []"
| "delivered s (op # ops) q =
     (if op_session op = s then map ident (option_list (fst (queue_step op q))) else [])
     @ delivered s ops (snd (queue_step op q))"

fun inserted :: "uuid \<Rightarrow> 'd queue_op list \<Rightarrow> 'd queue_service \<Rightarrow> (uuid \<times> 'd \<times> datetime) list" where
  "inserted s [] q = []"
| "inserted s (op # ops) q =
     (if op_session op = s then op_inserts op q else []) @ inserted s ops (snd (queue_step op q))"

section \<open>Slots\<close>

named_theorems queue_defs \<open>unfolding of the queue operations\<close>

lemmas [queue_defs] = queue_message_def reserve_mcp_restart_def commit_mcp_restart_def
  take_committed_mcp_restart_def cancel_mcp_restart_def take_mcp_restart_def cancel_queued_def
  supersede_mcp_restart_def take_queued_def block_mcp_restart_start_def
  unblock_mcp_restart_start_def finish_workspace_mcp_restart_def cancel_workspace_mcp_restart_def
  cancel_deferred_mcp_restart_def wait_for_mcp_restart_start_def is_mcp_restart_start_blocked_def
  is_workspace_mcp_restart_def Let_def

definition slot :: "'d queue_service \<Rightarrow> uuid \<Rightarrow> (uuid \<times> 'd \<times> datetime) list" where
  "slot q s = map ident (option_list (qs_queue q s))"

lemma queue_step_other:
  "op_session op \<noteq> s \<Longrightarrow> qs_queue (snd (queue_step op q)) s = qs_queue q s"
  by (cases op) (auto simp: queue_defs split: option.splits if_splits)

lemma queue_step_slot:
  "subseq (map ident (option_list (fst (queue_step op q))) @ slot (snd (queue_step op q)) (op_session op))
          (slot q (op_session op) @ op_inserts op q)"
proof (cases "qs_queue q (op_session op)")
  case None
  then show ?thesis
    by (cases op) (auto simp: queue_defs slot_def ident_def split: option.splits)
next
  case (Some m)
  then show ?thesis
    by (cases op) (auto simp: queue_defs slot_def ident_def split: option.splits)
qed

text \<open>A queued message sits in the slot of its own session.\<close>

definition queue_inv :: "'d queue_service \<Rightarrow> bool" where
  "queue_inv q \<longleftrightarrow> (\<forall>s m. qs_queue q s = Some m \<longrightarrow> qm_session_id m = s)"

definition queue_rel :: "'d queue_service \<Rightarrow> 'd queue_service \<Rightarrow> bool" where
  "queue_rel q q' \<longleftrightarrow> (\<exists>op. q' = snd (queue_step op q))"

lemma queue_step_inv: "queue_inv q \<Longrightarrow> queue_inv (snd (queue_step op q))"
  unfolding queue_inv_def
proof (intro allI impI)
  fix s m
  assume inv: "\<forall>s m. qs_queue q s = Some m \<longrightarrow> qm_session_id m = s"
    and m: "qs_queue (snd (queue_step op q)) s = Some m"
  show "qm_session_id m = s"
  proof (cases "op_session op = s")
    case False
    with inv m show ?thesis by (simp add: queue_step_other)
  next
    case True
    with inv m show ?thesis
      by (cases op) (auto simp: queue_defs split: option.splits if_splits)
  qed
qed

interpretation queue: invariant_system "\<lambda>q. q = queue_new" queue_rel queue_inv
proof unfold_locales
  show "queue_inv q" if "q = queue_new" for q :: "'a queue_service"
    using that by (simp add: queue_inv_def queue_new_def)
qed (auto simp: queue_rel_def intro: queue_step_inv)

lemma delivered_subseq:
  "subseq (delivered s ops q @ slot (queue_run ops q) s) (slot q s @ inserted s ops q)"
proof (induction ops arbitrary: q)
  case Nil
  show ?case by simp
next
  case (Cons op ops)
  let ?q = "snd (queue_step op q)"
  show ?case
  proof (cases "op_session op = s")
    case True
    let ?d = "map ident (option_list (fst (queue_step op q)))"
    have "subseq (?d @ (delivered s ops ?q @ slot (queue_run ops ?q) s))
        (?d @ (slot ?q s @ inserted s ops ?q))"
      using Cons.IH [of ?q] by (simp add: subseq_append')
    moreover have "subseq (?d @ slot ?q s) (slot q s @ op_inserts op q)"
      using queue_step_slot [of op q] True by simp
    then have "subseq ((?d @ slot ?q s) @ inserted s ops ?q)
        ((slot q s @ op_inserts op q) @ inserted s ops ?q)"
      by (rule list_emb_append_mono) simp
    ultimately show ?thesis
      using True by (auto intro: subseq_order.trans)
  next
    case False
    then have "slot ?q s = slot q s" by (simp add: slot_def queue_step_other)
    with False Cons.IH [of ?q] show ?thesis by simp
  qed
qed

text \<open>The calls that may touch a message reserved with \<open>r\<close>: a replacement, a withdrawal, another
  reservation, or the holder's own commit, cancel or take.\<close>

fun disturbs :: "uuid \<Rightarrow> uuid \<Rightarrow> 'd queue_op \<Rightarrow> bool" where
  "disturbs s r (OpQueue s' _ _) = (s' = s)"
| "disturbs s r (OpReserve s' _ _ _) = (s' = s)"
| "disturbs s r (OpCancelQueued s') = (s' = s)"
| "disturbs s r (OpSupersede s') = (s' = s)"
| "disturbs s r (OpCommit s' r') = (s' = s \<and> r' = r)"
| "disturbs s r (OpCancel s' r') = (s' = s \<and> r' = r)"
| "disturbs s r (OpTakeRestart s' r') = (s' = s \<and> r' = r)"
| "disturbs s r _ = False"

lemma reserved_step:
  assumes "qs_queue q s = Some m" and "qm_restart_reservation m = Some r" and "\<not> disturbs s r op"
  shows "qs_queue (snd (queue_step op q)) s = Some m"
    and "op_session op = s \<Longrightarrow> fst (queue_step op q) = None"
proof -
  show "op_session op = s \<Longrightarrow> fst (queue_step op q) = None"
    using assms by (cases op) (auto simp: queue_defs split: option.splits if_splits)
  show "qs_queue (snd (queue_step op q)) s = Some m"
  proof (cases "op_session op = s")
    case False
    with assms(1) show ?thesis by (simp add: queue_step_other)
  next
    case True
    with assms show ?thesis
      by (cases op) (auto simp: queue_defs split: option.splits if_splits)
  qed
qed

section \<open>Properties of the message queue\<close>


text \<open>
  A reservation hides its message. While a message is reserved, no call other than the holder's
  own, a replacement, a withdrawal or a new reservation changes or delivers it; the holder's
  take then still obtains exactly that message, marked as an agent restart.
\<close>

theorem reservation_protects:
  assumes "qs_queue q s = Some m" and "qm_restart_reservation m = Some r"
    and "\<forall>op \<in> set ops. \<not> disturbs s r op"
  shows "delivered s ops q = [] \<and> qs_queue (queue_run ops q) s = Some m \<and>
         fst (take_mcp_restart (queue_run ops q) s r) =
           Some (m\<lparr>qm_restart_agent := True, qm_restart_reservation := None,
                   qm_remove_on_cancel := False\<rparr>)"
proof -
  have "delivered s ops q = [] \<and> qs_queue (queue_run ops q) s = Some m"
    using assms(1,3)
  proof (induction ops arbitrary: q)
    case Nil
    then show ?case by simp
  next
    case (Cons op ops)
    then show ?case
      using reserved_step [OF Cons.prems(1) assms(2), of op] by simp
  qed
  with assms(2) show ?thesis by (simp add: take_mcp_restart_def)
qed

definition demo_queue :: "nat queue_service" where
  "demo_queue = snd (reserve_mcp_restart queue_new 1 42 8 100)"

definition demo_message :: "nat queued_message" where
  "demo_message = \<lparr>qm_session_id = 1, qm_data = 42, qm_queued_at = 100, qm_restart_agent = False,
                   qm_restart_reservation = Some 8, qm_remove_on_cancel = True\<rparr>"

lemma demo_queue_slot: "qs_queue demo_queue 1 = Some demo_message"
  by (simp add: demo_queue_def demo_message_def queue_defs queue_new_def)

theorem reservation_protects_witness:
  "delivered 1 [OpTake 1, OpQueue 2 7 101, OpTakeCommitted 1 100] demo_queue = [] \<and>
   is_some_and (fst (take_mcp_restart
     (queue_run [OpTake 1, OpQueue 2 7 101, OpTakeCommitted 1 100] demo_queue) 1 8)) qm_restart_agent"
proof -
  have "qm_restart_reservation demo_message = Some 8" by (simp add: demo_message_def)
  from reservation_protects [OF demo_queue_slot this,
      of "[OpTake 1, OpQueue 2 7 101, OpTakeCommitted 1 100]"]
  show ?thesis by simp
qed

text \<open>
  Reserving and then cancelling the reservation gives back the queue as it was, for a session
  with no message or with a message nobody had reserved: the placeholder a reservation creates
  is removed, a user's message survives.
\<close>

theorem reserve_cancel_roundtrip:
  assumes "is_none_or (qs_queue q s)
             (\<lambda>m. qm_restart_reservation m = None \<and> \<not> qm_remove_on_cancel m)"
  shows "qs_queue (cancel_mcp_restart (snd (reserve_mcp_restart q s d r now)) s r) = qs_queue q"
  using assms by (cases "qs_queue q s") (auto simp: queue_defs fun_eq_iff)

theorem reserve_cancel_roundtrip_witness:
  "qs_queue (cancel_mcp_restart demo_queue 1 8) = qs_queue queue_new"
  using reserve_cancel_roundtrip [of "queue_new :: nat queue_service" 1 42 8 100]
  by (simp add: demo_queue_def queue_new_def)

text \<open>
  Overlapping restart requests on one session interfere. When a second request reserves before
  the first has finished, the first can neither commit nor take its restart, and if the second is
  then cancelled, the first request's message stays queued as an ordinary message that
  finalization delivers without restarting the agent.
\<close>

theorem overlapping_reservations_lose_restart:
  assumes "qs_queue q s = None" and "r1 \<noteq> r2"
    and "q1 = snd (reserve_mcp_restart q s d1 r1 t1)"
    and "q2 = snd (reserve_mcp_restart q1 s d2 r2 t2)"
  shows "fst (commit_mcp_restart q2 s r1) = None \<and> fst (take_mcp_restart q2 s r1) = None \<and>
         fst (take_queued (cancel_mcp_restart q2 s r2) s) =
           Some \<lparr>qm_session_id = s, qm_data = d1, qm_queued_at = t1, qm_restart_agent = False,
                 qm_restart_reservation = None, qm_remove_on_cancel = False\<rparr>"
  using assms by (auto simp: queue_defs)

theorem overlapping_reservations_lose_restart_witness:
  "fst (commit_mcp_restart (snd (reserve_mcp_restart demo_queue 1 43 9 101)) 1 8) = None"
  using overlapping_reservations_lose_restart [of "queue_new :: nat queue_service" 1 8 9 demo_queue 42 100
      "snd (reserve_mcp_restart demo_queue 1 43 9 101)" 43 101]
  by (simp add: demo_queue_def queue_new_def)

text \<open>
  Cancelling a deferred restart is seen by its waiter exactly once: once the session is
  unblocked, the wait for that restart reports cancellation, and the marker is then gone.
\<close>

theorem deferred_cancel_observed_once:
  assumes "qs_workspace q s = Some t" and "\<not> is_mcp_restart_start_blocked q s"
  shows "fst (cancel_deferred_mcp_restart q s) \<and>
         (\<exists>q'. wait_for_mcp_restart_start (snd (cancel_deferred_mcp_restart q s)) s t = Some (False, q') \<and>
               wait_for_mcp_restart_start q' s t = Some (True, q') \<and> qs_queue q' = qs_queue q)"
  using assms by (auto simp: queue_defs)

theorem deferred_cancel_observed_once_witness:
  "fst (cancel_deferred_mcp_restart (demo_queue\<lparr>qs_workspace := [1 \<mapsto> 100]\<rparr>) 1)"
  using deferred_cancel_observed_once [of "demo_queue\<lparr>qs_workspace := [1 \<mapsto> 100]\<rparr>" 1 100]
  by (simp add: demo_queue_def queue_new_def queue_defs)

end
