(* ===== verification/Approvals.thy ===== *)
theory Approvals
  imports VK_Prelude
begin

text \<open>
  Tool approvals and questions (\<open>services/approvals.rs\<close>, \<open>utils/approvals.rs\<close>). The service keeps
  two concurrent maps; the answer reaches the executor through a one-shot channel whose sender
  lives in the pending entry and moves with it. Because \<open>respond\<close>, \<open>cancel\<close> and the timeout
  watcher touch the maps in several separate operations, the model splits each into its atomic
  map operations: \<open>respond\<close> and \<open>cancel\<close> as whole functions are the uninterrupted
  compositions, and the step relation interleaves the pieces freely. The front-end patches that
  are broadcast beside each change are not part of the state.
\<close>

section \<open>State\<close>

datatype ApprovalOutcome =
    Approved
  | Denied "string option"
  | Answered "(string \<times> string list) list"
  | TimedOut

datatype ApprovalError =
    ApprovalNotFound
  | AlreadyCompleted
  | NoExecutorSession string
  | InvalidStatus
  | CustomError string

record approval_request =
  ar_id :: string
  ar_tool_name :: string
  ar_execution_process_id :: uuid
  ar_created_at :: datetime
  ar_timeout_at :: datetime

record pending_approval =
  pa_execution_process_id :: uuid
  pa_tool_name :: string
  pa_is_question :: bool
  pa_created_at :: datetime
  pa_timeout_at :: datetime

record tool_context =
  tc_tool_name :: string
  tc_execution_process_id :: uuid

record approval_info =
  ai_approval_id :: string
  ai_tool_name :: string
  ai_execution_process_id :: uuid
  ai_is_question :: bool
  ai_created_at :: datetime
  ai_timeout_at :: datetime

text \<open>The one-shot channel of an approval, seen from the waiting executor.\<close>

datatype channel = ChOpen | ChSent ApprovalOutcome | ChDropped

text \<open>
  Where the timeout task is: waiting in its \<open>select\<close>, with an outcome chosen, after recording
  the outcome, or finished.
\<close>

datatype watcher =
    WWaiting
  | WChosen ApprovalOutcome
  | WInserted ApprovalOutcome
  | WDone

text \<open>
  A caller that has removed the pending entry, and so owns its sender: a response before and after
  it is recorded as completed, a cancellation likewise.
\<close>

datatype holder =
    Responding pending_approval ApprovalOutcome
  | Responded pending_approval ApprovalOutcome
  | Cancelling pending_approval
  | Cancelled pending_approval

record approvals =
  ap_pending :: "string \<rightharpoonup> pending_approval"
  ap_completed :: "string \<rightharpoonup> ApprovalOutcome"
  ap_channel :: "string \<rightharpoonup> channel"
  ap_watcher :: "string \<rightharpoonup> watcher"
  ap_holder :: "string \<rightharpoonup> holder"

definition approvals_new :: approvals where
  "approvals_new = \<lparr>ap_pending = Map.empty, ap_completed = Map.empty, ap_channel = Map.empty,
                    ap_watcher = Map.empty, ap_holder = Map.empty\<rparr>"

text \<open>What the waiter of an approval resolves to: a dropped sender counts as a timeout.\<close>

fun waiter_outcome :: "channel \<Rightarrow> ApprovalOutcome option" where
  "waiter_outcome ChOpen = None"
| "waiter_outcome (ChSent o') = Some o'"
| "waiter_outcome ChDropped = Some TimedOut"

section \<open>Operations\<close>

definition pending_of :: "approval_request \<Rightarrow> bool \<Rightarrow> pending_approval" where
  "pending_of r is_question =
     \<lparr>pa_execution_process_id = ar_execution_process_id r, pa_tool_name = ar_tool_name r,
      pa_is_question = is_question, pa_created_at = ar_created_at r, pa_timeout_at = ar_timeout_at r\<rparr>"

definition create_with_waiter :: "approvals \<Rightarrow> approval_request \<Rightarrow> bool \<Rightarrow> approvals" where
  "create_with_waiter a r is_question =
     a\<lparr>ap_pending := (ap_pending a)(ar_id r \<mapsto> pending_of r is_question),
       ap_channel := (ap_channel a)(ar_id r \<mapsto> ChOpen),
       ap_watcher := (ap_watcher a)(ar_id r \<mapsto> WWaiting)\<rparr>"

fun validate_approval_response :: "ApprovalOutcome \<Rightarrow> bool \<Rightarrow> ApprovalError + unit" where
  "validate_approval_response Approved is_question = (if is_question then Err InvalidStatus else Ok ())"
| "validate_approval_response (Denied _) is_question = (if is_question then Err InvalidStatus else Ok ())"
| "validate_approval_response (Answered _) is_question =
     (if \<not> is_question then Err InvalidStatus else Ok ())"
| "validate_approval_response TimedOut is_question = Ok ()"

text \<open>The pieces of \<open>respond\<close>, in order.\<close>

definition respond_remove :: "approvals \<Rightarrow> string \<Rightarrow> ApprovalOutcome \<Rightarrow> pending_approval \<Rightarrow> approvals" where
  "respond_remove a i status p =
     a\<lparr>ap_pending := (ap_pending a)(i := None), ap_holder := (ap_holder a)(i \<mapsto> Responding p status)\<rparr>"

definition respond_reinsert :: "approvals \<Rightarrow> string \<Rightarrow> pending_approval \<Rightarrow> approvals" where
  "respond_reinsert a i p =
     a\<lparr>ap_pending := (ap_pending a)(i \<mapsto> p), ap_holder := (ap_holder a)(i := None)\<rparr>"

definition respond_complete :: "approvals \<Rightarrow> string \<Rightarrow> pending_approval \<Rightarrow> ApprovalOutcome \<Rightarrow> approvals" where
  "respond_complete a i p status =
     a\<lparr>ap_completed := (ap_completed a)(i \<mapsto> status),
       ap_holder := (ap_holder a)(i \<mapsto> Responded p status)\<rparr>"

definition respond_send :: "approvals \<Rightarrow> string \<Rightarrow> ApprovalOutcome \<Rightarrow> approvals" where
  "respond_send a i status =
     a\<lparr>ap_channel := (ap_channel a)(i \<mapsto> ChSent status), ap_holder := (ap_holder a)(i := None)\<rparr>"

definition respond ::
  "approvals \<Rightarrow> string \<Rightarrow> ApprovalOutcome \<Rightarrow> (ApprovalError + ApprovalOutcome \<times> tool_context) \<times> approvals"
  where
  "respond a i status =
     (case ap_pending a i of
        Some p \<Rightarrow>
          let a = respond_remove a i status p in
          (case validate_approval_response status (pa_is_question p) of
             Inl e \<Rightarrow> (Err e, respond_reinsert a i p)
           | Inr _ \<Rightarrow>
               let a = respond_complete a i p status;
                   a = respond_send a i status
               in (Ok (status, \<lparr>tc_tool_name = pa_tool_name p,
                                tc_execution_process_id = pa_execution_process_id p\<rparr>), a))
      | None \<Rightarrow>
          if ap_completed a i \<noteq> None then (Err AlreadyCompleted, a) else (Err ApprovalNotFound, a))"

text \<open>The pieces of the timeout task. \<open>resolved\<close> wins over the deadline (\<open>biased\<close>).\<close>

definition watcher_select :: "approvals \<Rightarrow> string \<Rightarrow> bool \<Rightarrow> ApprovalOutcome option" where
  "watcher_select a i deadline_passed =
     (case ap_channel a i of
        Some c \<Rightarrow> (case waiter_outcome c of
                     Some o' \<Rightarrow> Some o'
                   | None \<Rightarrow> if deadline_passed then Some TimedOut else None)
      | None \<Rightarrow> None)"

definition watcher_insert :: "approvals \<Rightarrow> string \<Rightarrow> ApprovalOutcome \<Rightarrow> approvals" where
  "watcher_insert a i o' =
     a\<lparr>ap_completed := (ap_completed a)(i \<mapsto> o'), ap_watcher := (ap_watcher a)(i \<mapsto> WInserted o')\<rparr>"

definition watcher_finish :: "approvals \<Rightarrow> string \<Rightarrow> ApprovalOutcome \<Rightarrow> approvals" where
  "watcher_finish a i o' =
     (let a = a\<lparr>ap_watcher := (ap_watcher a)(i \<mapsto> WDone)\<rparr> in
      if o' = TimedOut \<and> ap_pending a i \<noteq> None
      then a\<lparr>ap_pending := (ap_pending a)(i := None), ap_channel := (ap_channel a)(i \<mapsto> ChSent o')\<rparr>
      else a)"

text \<open>The pieces of \<open>cancel\<close>: the entry, and with it the sender, is dropped at the end.\<close>

definition cancel_remove :: "approvals \<Rightarrow> string \<Rightarrow> pending_approval \<Rightarrow> approvals" where
  "cancel_remove a i p =
     a\<lparr>ap_pending := (ap_pending a)(i := None), ap_holder := (ap_holder a)(i \<mapsto> Cancelling p)\<rparr>"

definition cancel_complete :: "approvals \<Rightarrow> string \<Rightarrow> pending_approval \<Rightarrow> approvals" where
  "cancel_complete a i p =
     a\<lparr>ap_completed := (ap_completed a)(i \<mapsto> Denied (Some ''Cancelled'')),
       ap_holder := (ap_holder a)(i \<mapsto> Cancelled p)\<rparr>"

definition cancel_drop :: "approvals \<Rightarrow> string \<Rightarrow> approvals" where
  "cancel_drop a i =
     a\<lparr>ap_channel := (ap_channel a)(i \<mapsto> ChDropped), ap_holder := (ap_holder a)(i := None)\<rparr>"

definition cancel :: "approvals \<Rightarrow> string \<Rightarrow> approvals" where
  "cancel a i =
     (case ap_pending a i of
        Some p \<Rightarrow> cancel_drop (cancel_complete (cancel_remove a i p) i p) i
      | None \<Rightarrow> a)"

definition get_pending_execution_process_ids :: "approvals \<Rightarrow> uuid list \<Rightarrow> uuid set" where
  "get_pending_execution_process_ids a ids = set ids \<inter> pa_execution_process_id ` ran (ap_pending a)"

section \<open>Interleaved steps\<close>

inductive approval_step :: "approvals \<Rightarrow> approvals \<Rightarrow> bool" where
  create: "ap_channel a (ar_id r) = None \<Longrightarrow> approval_step a (create_with_waiter a r q)"
| remove: "ap_pending a i = Some p \<Longrightarrow> approval_step a (respond_remove a i st p)"
| reinsert: "ap_holder a i = Some (Responding p st) \<Longrightarrow>
    is_err (validate_approval_response st (pa_is_question p)) \<Longrightarrow> approval_step a (respond_reinsert a i p)"
| complete: "ap_holder a i = Some (Responding p st) \<Longrightarrow>
    is_ok (validate_approval_response st (pa_is_question p)) \<Longrightarrow>
    approval_step a (respond_complete a i p st)"
| send: "ap_holder a i = Some (Responded p st) \<Longrightarrow> approval_step a (respond_send a i st)"
| select: "ap_watcher a i = Some WWaiting \<Longrightarrow> watcher_select a i dl = Some o' \<Longrightarrow>
    approval_step a (a\<lparr>ap_watcher := (ap_watcher a)(i \<mapsto> WChosen o')\<rparr>)"
| insert: "ap_watcher a i = Some (WChosen o') \<Longrightarrow> approval_step a (watcher_insert a i o')"
| finish: "ap_watcher a i = Some (WInserted o') \<Longrightarrow> approval_step a (watcher_finish a i o')"
| cancel_remove: "ap_pending a i = Some p \<Longrightarrow> approval_step a (cancel_remove a i p)"
| cancel_complete: "ap_holder a i = Some (Cancelling p) \<Longrightarrow> approval_step a (cancel_complete a i p)"
| cancel_drop: "ap_holder a i = Some (Cancelled p) \<Longrightarrow> approval_step a (cancel_drop a i)"

text \<open>
  The sender of an approval is in exactly one place: in the pending entry, in the hands of one
  caller, or spent (the channel is no longer open). What was sent fits the kind of request:
  \<open>kind\<close> is fixed when the approval is created.
\<close>

fun holder_pending :: "holder \<Rightarrow> pending_approval" where
  "holder_pending (Responding p _) = p"
| "holder_pending (Responded p _) = p"
| "holder_pending (Cancelling p) = p"
| "holder_pending (Cancelled p) = p"

definition approval_ok :: "approvals \<Rightarrow> string \<Rightarrow> bool" where
  "approval_ok a i \<longleftrightarrow>
     (ap_channel a i = Some ChOpen \<longleftrightarrow> ap_pending a i \<noteq> None \<or> ap_holder a i \<noteq> None) \<and>
     \<not> (ap_pending a i \<noteq> None \<and> ap_holder a i \<noteq> None) \<and>
     (\<forall>p st. ap_holder a i = Some (Responded p st) \<longrightarrow>
        is_ok (validate_approval_response st (pa_is_question p))) \<and>
     (ap_watcher a i \<noteq> None \<longleftrightarrow> ap_channel a i \<noteq> None)"

definition approvals_inv :: "approvals \<Rightarrow> bool" where
  "approvals_inv a \<longleftrightarrow> (\<forall>i. approval_ok a i)"

named_theorems approval_defs \<open>unfolding of the pieces of the approval operations\<close>

lemmas [approval_defs] = create_with_waiter_def respond_remove_def respond_reinsert_def
  respond_complete_def respond_send_def watcher_insert_def watcher_finish_def cancel_remove_def
  cancel_complete_def cancel_drop_def Let_def

lemma approvals_inv_new: "approvals_inv approvals_new"
  by (simp add: approvals_inv_def approval_ok_def approvals_new_def)

lemma approval_ok_step: "approval_step a b \<Longrightarrow> approval_ok a i \<Longrightarrow> approval_ok b i"
  by (induction rule: approval_step.induct) (auto simp: approval_ok_def approval_defs split: if_splits)

lemma approvals_inv_step: "approvals_inv a \<Longrightarrow> approval_step a b \<Longrightarrow> approvals_inv b"
  by (auto simp: approvals_inv_def intro: approval_ok_step)

interpretation approvals: invariant_system "\<lambda>a. a = approvals_new" approval_step approvals_inv
  by unfold_locales (auto simp: approvals_inv_new intro: approvals_inv_step)

text \<open>A resolved channel never changes again: nobody is left who owns its sender.\<close>

lemma resolved_step:
  "approval_step a b \<Longrightarrow> approval_ok a i \<Longrightarrow> ap_channel a i = Some c \<Longrightarrow> c \<noteq> ChOpen \<Longrightarrow>
   ap_channel b i = Some c"
  by (induction rule: approval_step.induct) (auto simp: approval_ok_def approval_defs split: if_splits)

interpretation resolved: absorbing_system "\<lambda>a. a = approvals_new" approval_step approvals_inv
  "\<lambda>a. ap_channel a i = Some c \<and> c \<noteq> ChOpen" for i c
  by unfold_locales (auto simp: approvals_inv_def intro: resolved_step)

text \<open>The kind of request follows the sender wherever it goes.\<close>

definition kind_ok :: "string \<Rightarrow> bool \<Rightarrow> approvals \<Rightarrow> bool" where
  "kind_ok i q a \<longleftrightarrow>
     ap_channel a i \<noteq> None \<and>
     (\<forall>p. ap_pending a i = Some p \<longrightarrow> pa_is_question p = q) \<and>
     (\<forall>h. ap_holder a i = Some h \<longrightarrow> pa_is_question (holder_pending h) = q) \<and>
     (\<forall>o'. ap_channel a i = Some (ChSent o') \<longrightarrow> is_ok (validate_approval_response o' q))"

lemma kind_ok_step:
  "approval_step a b \<Longrightarrow> approval_ok a i \<Longrightarrow> kind_ok i q a \<Longrightarrow> kind_ok i q b"
  by (induction rule: approval_step.induct)
    (auto simp: approval_ok_def kind_ok_def approval_defs split: if_splits)

interpretation kind: absorbing_system "\<lambda>a. a = approvals_new" approval_step approvals_inv
  "kind_ok i q" for i q
  by unfold_locales (auto simp: approvals_inv_def intro: kind_ok_step)

text \<open>The uninterrupted \<open>respond\<close> and \<open>cancel\<close> are runs of the step relation.\<close>

lemma cancel_steps: "approval_step\<^sup>*\<^sup>* a (cancel a i)"
proof (cases "ap_pending a i")
  case None
  then show ?thesis by (simp add: cancel_def)
next
  case (Some p)
  let ?b = "cancel_remove a i p" let ?c = "cancel_complete ?b i p"
  have "approval_step a ?b" using Some by (rule approval_step.cancel_remove)
  moreover have "approval_step ?b ?c"
    by (rule approval_step.cancel_complete) (simp add: cancel_remove_def)
  moreover have "approval_step ?c (cancel_drop ?c i)"
    by (rule approval_step.cancel_drop [where p = p]) (simp add: cancel_complete_def)
  ultimately have "approval_step\<^sup>*\<^sup>* a (cancel_drop ?c i)"
    by (meson rtranclp.rtrancl_into_rtrancl rtranclp.rtrancl_refl)
  with Some show ?thesis by (simp add: cancel_def)
qed

lemma respond_steps: "approval_step\<^sup>*\<^sup>* a (snd (respond a i st))"
proof (cases "ap_pending a i")
  case None
  then show ?thesis by (simp add: respond_def)
next
  case (Some p)
  let ?b = "respond_remove a i st p" let ?c = "respond_complete ?b i p st"
  have b: "approval_step a ?b" "ap_holder ?b i = Some (Responding p st)"
    using approval_step.remove [OF Some] by (simp_all add: respond_remove_def)
  show ?thesis
  proof (cases "validate_approval_response st (pa_is_question p)")
    case (Inl e)
    then have "approval_step ?b (respond_reinsert ?b i p)"
      using b(2) by (auto intro: approval_step.reinsert)
    with b(1) have "approval_step\<^sup>*\<^sup>* a (respond_reinsert ?b i p)"
      by (meson rtranclp.rtrancl_into_rtrancl r_into_rtranclp)
    with Inl Some show ?thesis by (simp add: respond_def Let_def)
  next
    case (Inr u)
    then have "approval_step ?b ?c"
      using b(2) by (auto intro: approval_step.complete)
    moreover have "approval_step ?c (respond_send ?c i st)"
      by (rule approval_step.send [where p = p]) (simp add: respond_complete_def)
    ultimately have "approval_step\<^sup>*\<^sup>* a (respond_send ?c i st)"
      using b(1) by (meson rtranclp.rtrancl_into_rtrancl r_into_rtranclp)
    with Inr Some show ?thesis by (simp add: respond_def Let_def)
  qed
qed

section \<open>Properties of approvals\<close>

text \<open>
  C7: an approval is answered at most once. However responses, cancellations and timeouts
  interleave, the sender of an approval is pending, or held by one caller, or spent, and never
  two of these; once the waiter has resolved, no later step changes what it resolved to.
\<close>

theorem approval_resolved_once:
  assumes "reach (\<lambda>a. a = approvals_new) approval_step a"
  shows "approvals_inv a \<and>
         (\<forall>i c b. ap_channel a i = Some c \<longrightarrow> c \<noteq> ChOpen \<longrightarrow> approval_step\<^sup>*\<^sup>* a b \<longrightarrow>
            ap_channel b i = Some c \<and> ap_pending b i = None \<and> ap_holder b i = None)"
proof -
  have inv: "approvals_inv a" using assms by (rule approvals.inv_reach)
  have "ap_channel b i = Some c \<and> ap_pending b i = None \<and> ap_holder b i = None"
    if c: "ap_channel a i = Some c" "c \<noteq> ChOpen" and steps: "approval_step\<^sup>*\<^sup>* a b" for i c b
  proof -
    have "ap_channel b i = Some c" using resolved.final_steps [OF steps inv, of i c] c by simp
    moreover have "approval_ok b i"
      using approvals.inv_steps [OF steps inv] by (simp add: approvals_inv_def)
    ultimately show ?thesis using c(2) by (auto simp: approval_ok_def)
  qed
  with inv show ?thesis by blast
qed

definition demo_request :: approval_request where
  "demo_request = \<lparr>ar_id = ''a'', ar_tool_name = ''bash'', ar_execution_process_id = 4,
                   ar_created_at = 0, ar_timeout_at = 36000\<rparr>"

definition demo_created :: "bool \<Rightarrow> approvals" where
  "demo_created q = create_with_waiter approvals_new demo_request q"

lemma demo_created_step: "approval_step approvals_new (demo_created q)"
  unfolding demo_created_def by (rule approval_step.create) (simp add: approvals_new_def)

lemma demo_created_reach: "reach (\<lambda>a. a = approvals_new) approval_step (demo_created q)"
  using demo_created_step by (rule reach_step [rotated]) (simp add: reach_start)

theorem approval_resolved_once_witness:
  "ap_channel (snd (respond (demo_created False) ''a'' Approved)) ''a'' = Some (ChSent Approved) \<and>
   ap_pending (cancel (snd (respond (demo_created False) ''a'' Approved)) ''a'') ''a'' = None"
proof -
  let ?b = "snd (respond (demo_created False) ''a'' Approved)"
  have b: "reach (\<lambda>a. a = approvals_new) approval_step ?b"
    by (rule reach_rtranclp [OF demo_created_reach respond_steps])
  have c: "ap_channel ?b ''a'' = Some (ChSent Approved)"
    by (simp add: demo_created_def demo_request_def respond_def approval_defs pending_of_def)
  from approval_resolved_once [OF b] c cancel_steps [of ?b "''a''"] show ?thesis by blast
qed

text \<open>
  The executor waiting on a question is never sent a plain approval or denial, and one waiting
  on a tool permission is never sent answers, whatever callers respond with and however their
  calls interleave with the timeout.
\<close>

theorem approval_answer_kind:
  assumes "reach (\<lambda>a. a = approvals_new) approval_step a" and "ap_channel a (ar_id r) = None"
    and "approval_step\<^sup>*\<^sup>* (create_with_waiter a r q) b"
    and "ap_channel b (ar_id r) = Some (ChSent o')"
  shows "validate_approval_response o' q = Ok ()"
proof -
  have inv: "approvals_inv a" using assms(1) by (rule approvals.inv_reach)
  then have "approvals_inv (create_with_waiter a r q)"
    by (rule approvals_inv_step) (rule approval_step.create [OF assms(2)])
  moreover have "kind_ok (ar_id r) q (create_with_waiter a r q)"
    using inv [unfolded approvals_inv_def, THEN spec, of "ar_id r"] assms(2)
    by (auto simp: kind_ok_def create_with_waiter_def pending_of_def approval_ok_def)
  ultimately have "kind_ok (ar_id r) q b" by (rule kind.final_steps [OF assms(3)])
  with assms(4) show ?thesis by (auto simp: kind_ok_def is_ok_iff)
qed

theorem approval_answer_kind_witness:
  "validate_approval_response (Answered []) True = Ok ()"
proof (rule approval_answer_kind [where a = approvals_new and r = demo_request])
  show "reach (\<lambda>a. a = approvals_new) approval_step approvals_new" by (simp add: reach_start)
  show "ap_channel approvals_new (ar_id demo_request) = None" by (simp add: approvals_new_def)
  show "approval_step\<^sup>*\<^sup>* (create_with_waiter approvals_new demo_request True)
      (snd (respond (demo_created True) ''a'' (Answered [])))"
    using respond_steps [of "demo_created True"] by (simp add: demo_created_def)
  show "ap_channel (snd (respond (demo_created True) ''a'' (Answered []))) (ar_id demo_request) =
      Some (ChSent (Answered []))"
    by (simp add: demo_created_def demo_request_def respond_def approval_defs pending_of_def)
qed

text \<open>
  What \<open>respond\<close> returns. A pending approval given a fitting outcome is completed with it and
  the waiter receives it; an unfitting one is refused and leaves the service as it was; a second
  response is told the approval is already completed; an unknown id is not found.
\<close>

theorem respond_spec:
  assumes "approvals_inv a"
  shows "(\<forall>p. ap_pending a i = Some p \<longrightarrow> is_ok (validate_approval_response st (pa_is_question p)) \<longrightarrow>
            fst (respond a i st) = Ok (st, \<lparr>tc_tool_name = pa_tool_name p,
                                          tc_execution_process_id = pa_execution_process_id p\<rparr>) \<and>
            ap_channel (snd (respond a i st)) i = Some (ChSent st) \<and>
            ap_completed (snd (respond a i st)) i = Some st \<and>
            fst (respond (snd (respond a i st)) i st') = Err AlreadyCompleted) \<and>
         (\<forall>p. ap_pending a i = Some p \<longrightarrow> is_err (validate_approval_response st (pa_is_question p)) \<longrightarrow>
            respond a i st = (Err InvalidStatus, a)) \<and>
         (ap_pending a i = None \<longrightarrow>
            respond a i st = (Err (if ap_completed a i = None then ApprovalNotFound else AlreadyCompleted), a))"
proof -
  have none: "ap_holder a i = None" if "ap_pending a i \<noteq> None"
    using assms [unfolded approvals_inv_def, THEN spec, of i] that by (auto simp: approval_ok_def)
  have err: "validate_approval_response st q = Err e \<Longrightarrow> e = InvalidStatus" for q e
    by (cases st) (auto split: if_splits)
  have same: "respond_reinsert (respond_remove a i st p) i p = a" if "ap_pending a i = Some p" for p
    using that none by (simp add: approval_defs fun_upd_idem)
  show ?thesis
    using same err
    by (auto simp: is_ok_iff is_err_iff respond_def approval_defs split: option.splits)
qed

theorem respond_spec_witness:
  "respond (demo_created True) ''a'' Approved = (Err InvalidStatus, demo_created True)"
proof -
  have "approvals_inv (demo_created True)" using demo_created_reach by (rule approvals.inv_reach)
  from respond_spec [OF this, of "''a''" Approved] show ?thesis
    by (simp add: demo_created_def demo_request_def create_with_waiter_def pending_of_def)
qed

text \<open>
  An approval can be left pending with no timer behind it. If the deadline passes while a caller
  with an unfitting outcome holds the entry between its removal and its re-insertion, the timeout
  task finds nothing to remove and ends; the re-inserted approval then waits with an open
  channel and a finished watcher, so it never times out.
\<close>

theorem approval_stuck_after_timeout:
  "\<exists>a. reach (\<lambda>a. a = approvals_new) approval_step a \<and>
       ap_pending a ''a'' \<noteq> None \<and> ap_watcher a ''a'' = Some WDone \<and>
       ap_channel a ''a'' = Some ChOpen \<and> ap_completed a ''a'' = Some TimedOut"
proof -
  let ?p = "pending_of demo_request True"
  let ?a = "demo_created True"
  let ?b = "respond_remove ?a ''a'' Approved ?p"
  let ?c = "?b\<lparr>ap_watcher := (ap_watcher ?b)(''a'' \<mapsto> WChosen TimedOut)\<rparr>"
  let ?d = "watcher_insert ?c ''a'' TimedOut"
  let ?e = "watcher_finish ?d ''a'' TimedOut"
  let ?f = "respond_reinsert ?e ''a'' ?p"
  note defs = demo_created_def demo_request_def approval_defs pending_of_def approvals_new_def
  have "approval_step ?a ?b"
    by (rule approval_step.remove) (simp add: defs)
  moreover have "approval_step ?b ?c"
    by (rule approval_step.select [where dl = True]) (simp_all add: defs watcher_select_def)
  moreover have "approval_step ?c ?d"
    by (rule approval_step.insert) simp
  moreover have "approval_step ?d ?e"
    by (rule approval_step.finish) (simp add: watcher_insert_def)
  moreover have "approval_step ?e ?f"
    by (rule approval_step.reinsert [where st = Approved]) (simp_all add: defs)
  ultimately have "approval_step\<^sup>*\<^sup>* ?a ?f"
    by (meson rtranclp.rtrancl_into_rtrancl r_into_rtranclp)
  then have "reach (\<lambda>a. a = approvals_new) approval_step ?f"
    by (rule reach_rtranclp [OF demo_created_reach])
  moreover have "ap_pending ?f ''a'' \<noteq> None \<and> ap_watcher ?f ''a'' = Some WDone \<and>
       ap_channel ?f ''a'' = Some ChOpen \<and> ap_completed ?f ''a'' = Some TimedOut"
    by (simp add: defs)
  ultimately show ?thesis by blast
qed

end
