(* ===== verification/Data_Model.thy ===== *)
theory Data_Model
  imports Complex_Main VK_Prelude
    "HOL-Library.Char_ord" "HOL-Library.List_Lexorder" "HOL-Library.Product_Lexorder"
begin

text \<open>
  The data layer the coordinator's components share: SQL tables as lists of rows with the statements
  the models issue against them, JSON values (\<open>serde_json::Value\<close>), and the double-precision
  numbers the scheduler ranks workers by.
\<close>

section \<open>Tables\<close>

text \<open>
  A table is the list of its rows. \<open>UPDATE ... SET ... WHERE p\<close> maps the rows that satisfy \<open>p\<close>
  and reports how many they were; a key is unique among the rows.
\<close>

definition sql_update :: "('r \<Rightarrow> bool) \<Rightarrow> ('r \<Rightarrow> 'r) \<Rightarrow> 'r list \<Rightarrow> nat \<times> 'r list" where
  "sql_update p f rows = (length (filter p rows), map (\<lambda>r. if p r then f r else r) rows)"

definition sql_find :: "('r \<Rightarrow> 'k) \<Rightarrow> 'k \<Rightarrow> 'r list \<Rightarrow> 'r option" where
  "sql_find key k rows = find (\<lambda>r. key r = k) rows"

definition keyed :: "('r \<Rightarrow> 'k) \<Rightarrow> 'r list \<Rightarrow> bool" where
  "keyed key rows \<longleftrightarrow> distinct (map key rows)"

lemma sql_find_simps [simp]:
  "sql_find key k [] = None"
  "sql_find key k (r # rows) = (if key r = k then Some r else sql_find key k rows)"
  by (simp_all add: sql_find_def)

lemma sql_find_Some: "sql_find key k rows = Some r \<Longrightarrow> r \<in> set rows \<and> key r = k"
  by (induction rows) (auto split: if_splits)

lemma sql_find_None: "sql_find key k rows = None \<longleftrightarrow> k \<notin> key ` set rows"
  by (induction rows) auto

lemma sql_find_append:
  "sql_find key k (rows @ rows') =
     (case sql_find key k rows of Some r \<Rightarrow> Some r | None \<Rightarrow> sql_find key k rows')"
  by (induction rows) auto

lemma sql_find_mem: "keyed key rows \<Longrightarrow> r \<in> set rows \<Longrightarrow> sql_find key (key r) rows = Some r"
  by (induction rows) (auto simp: keyed_def)

lemma set_sql_update:
  "set (snd (sql_update p f rows)) = (\<lambda>r. if p r then f r else r) ` set rows"
  by (auto simp: sql_update_def)

lemma keyed_sql_update:
  "(\<And>r. key (f r) = key r) \<Longrightarrow> keyed key rows \<Longrightarrow> keyed key (snd (sql_update p f rows))"
  unfolding keyed_def sql_update_def
  by (simp add: comp_def if_distrib [of key] cong: if_cong)

lemma sql_find_update:
  assumes "\<And>r. key (f r) = key r"
  shows "sql_find key k (snd (sql_update p f rows)) =
    map_option (\<lambda>r. if p r then f r else r) (sql_find key k rows)"
  using assms by (induction rows) (auto simp: sql_update_def)

lemma sql_update_count_key:
  "keyed key rows \<Longrightarrow> fst (sql_update (\<lambda>r. key r = k) f rows) = (if k \<in> key ` set rows then 1 else 0)"
  by (induction rows) (auto simp: keyed_def sql_update_def)

text \<open>
  The contract of a store of rows by key: changing the row of one key leaves the others alone.
  Components that update rows by primary key rely on this only.
\<close>

locale keyed_store =
  fixes lookup :: "'t \<Rightarrow> 'k \<Rightarrow> 'r option"
    and modify :: "'t \<Rightarrow> 'k \<Rightarrow> ('r \<Rightarrow> 'r) \<Rightarrow> 't"
    and allowed :: "('r \<Rightarrow> 'r) \<Rightarrow> bool"
  assumes lookup_modify: "allowed f \<Longrightarrow>
      lookup (modify t k f) k' = (if k' = k then map_option f (lookup t k) else lookup t k')"
begin

lemma lookup_modify_same: "allowed f \<Longrightarrow> lookup t k = Some r \<Longrightarrow> lookup (modify t k f) k = Some (f r)"
  by (simp add: lookup_modify)

lemma lookup_modify_other: "allowed f \<Longrightarrow> k' \<noteq> k \<Longrightarrow> lookup (modify t k f) k' = lookup t k'"
  by (simp add: lookup_modify)

lemma modify_twice: "allowed f \<Longrightarrow> allowed g \<Longrightarrow> allowed (g \<circ> f) \<Longrightarrow>
    lookup (modify (modify t k f) k g) k' = lookup (modify t k (g \<circ> f)) k'"
  by (simp add: lookup_modify option.map_comp)

end

text \<open>Rows in a list, updated by key: the store every table of the model is.\<close>

definition sql_modify :: "('r \<Rightarrow> 'k) \<Rightarrow> 'r list \<Rightarrow> 'k \<Rightarrow> ('r \<Rightarrow> 'r) \<Rightarrow> 'r list" where
  "sql_modify key rows k f = snd (sql_update (\<lambda>r. key r = k) f rows)"

definition keeps_key :: "('r \<Rightarrow> 'k) \<Rightarrow> ('r \<Rightarrow> 'r) \<Rightarrow> bool" where
  "keeps_key key f \<longleftrightarrow> (\<forall>r. key (f r) = key r)"

lemma sql_find_modify:
  assumes "keeps_key key f"
  shows "sql_find key k' (sql_modify key rows k f) =
    (if k' = k then map_option f (sql_find key k rows) else sql_find key k' rows)"
proof -
  have "sql_find key k' (sql_modify key rows k f) =
      map_option (\<lambda>r. if key r = k then f r else r) (sql_find key k' rows)"
    unfolding sql_modify_def by (rule sql_find_update) (use assms in \<open>simp add: keeps_key_def\<close>)
  then show ?thesis
    by (cases "sql_find key k' rows") (auto dest: sql_find_Some)
qed

section \<open>Numbers\<close>

text \<open>
  A double is a rational, an infinity or not a number; both zeros are \<open>FFin 0\<close>. Arithmetic
  rounds the exact result with \<open>rnd\<close>, which is a parameter wherever it matters. The order is
  the one \<open>f64::total_cmp\<close> has on these values.
\<close>

datatype f64 = FNegInf | FFin rat | FInf | FNaN

fun f64_rank :: "f64 \<Rightarrow> nat \<times> rat" where
  "f64_rank FNegInf = (0, 0)"
| "f64_rank (FFin x) = (1, x)"
| "f64_rank FInf = (2, 0)"
| "f64_rank FNaN = (3, 0)"

instantiation f64 :: linorder
begin

definition less_eq_f64 :: "f64 \<Rightarrow> f64 \<Rightarrow> bool" where
  "less_eq_f64 a b \<longleftrightarrow> f64_rank a \<le> f64_rank b"

definition less_f64 :: "f64 \<Rightarrow> f64 \<Rightarrow> bool" where
  "less_f64 a b \<longleftrightarrow> f64_rank a < f64_rank b"

instance
proof
  fix x y z :: f64
  show "x < y \<longleftrightarrow> x \<le> y \<and> \<not> y \<le> x" by (auto simp: less_eq_f64_def less_f64_def)
  show "x \<le> x" by (simp add: less_eq_f64_def)
  show "x \<le> y \<Longrightarrow> y \<le> z \<Longrightarrow> x \<le> z" by (simp add: less_eq_f64_def)
  show "x \<le> y \<Longrightarrow> y \<le> x \<Longrightarrow> x = y"
    by (cases x; cases y) (auto simp: less_eq_f64_def)
  show "x \<le> y \<or> y \<le> x" by (auto simp: less_eq_f64_def)
qed

end

lemma f64_le_simps [simp]:
  "FFin a \<le> FFin b \<longleftrightarrow> a \<le> b" "FFin a \<le> FInf" "\<not> FInf \<le> FFin a"
  "FFin a < FFin b \<longleftrightarrow> a < b" "FFin a < FInf" "\<not> FInf < FFin a" "\<not> FInf < FInf"
  by (auto simp: less_eq_f64_def less_f64_def)

fun is_finite :: "f64 \<Rightarrow> bool" where
  "is_finite (FFin _) = True"
| "is_finite _ = False"

type_synonym rounding = "rat \<Rightarrow> f64"

fun fadd :: "rounding \<Rightarrow> f64 \<Rightarrow> f64 \<Rightarrow> f64" where
  "fadd rnd FNaN _ = FNaN"
| "fadd rnd _ FNaN = FNaN"
| "fadd rnd (FFin a) (FFin b) = rnd (a + b)"
| "fadd rnd FInf FNegInf = FNaN"
| "fadd rnd FNegInf FInf = FNaN"
| "fadd rnd FInf _ = FInf"
| "fadd rnd _ FInf = FInf"
| "fadd rnd FNegInf _ = FNegInf"
| "fadd rnd _ FNegInf = FNegInf"

definition inf_of_sign :: "rat \<Rightarrow> f64" where
  "inf_of_sign s = (if s > 0 then FInf else if s < 0 then FNegInf else FNaN)"

fun fmul :: "rounding \<Rightarrow> f64 \<Rightarrow> f64 \<Rightarrow> f64" where
  "fmul rnd FNaN _ = FNaN"
| "fmul rnd _ FNaN = FNaN"
| "fmul rnd (FFin a) (FFin b) = rnd (a * b)"
| "fmul rnd FInf (FFin b) = inf_of_sign b"
| "fmul rnd (FFin a) FInf = inf_of_sign a"
| "fmul rnd FNegInf (FFin b) = inf_of_sign (- b)"
| "fmul rnd (FFin a) FNegInf = inf_of_sign (- a)"
| "fmul rnd FInf FInf = FInf"
| "fmul rnd FNegInf FNegInf = FInf"
| "fmul rnd FInf FNegInf = FNegInf"
| "fmul rnd FNegInf FInf = FNegInf"

section \<open>JSON\<close>

datatype json =
    JNull
  | JBool bool
  | JNum rat
  | JStr string
  | JArr "json list"
  | JObj "(string \<times> json) list"

fun json_get :: "string \<Rightarrow> json \<Rightarrow> json option" where
  "json_get name (JObj fields) = map_of fields name"
| "json_get name _ = None"

fun as_bool :: "json \<Rightarrow> bool option" where
  "as_bool (JBool b) = Some b"
| "as_bool _ = None"

fun as_f64 :: "rounding \<Rightarrow> json \<Rightarrow> f64 option" where
  "as_f64 rnd (JNum x) = Some (rnd x)"
| "as_f64 rnd _ = None"

fun as_str :: "json \<Rightarrow> string option" where
  "as_str (JStr s) = Some s"
| "as_str _ = None"

fun as_array :: "json \<Rightarrow> json list option" where
  "as_array (JArr xs) = Some xs"
| "as_array _ = None"

text \<open>A double serializes as a number when it is finite and as null otherwise.\<close>

fun json_f64 :: "f64 \<Rightarrow> json" where
  "json_f64 (FFin x) = JNum x"
| "json_f64 _ = JNull"

definition json_option :: "('a \<Rightarrow> json) \<Rightarrow> 'a option \<Rightarrow> json" where
  "json_option f v = (case v of None \<Rightarrow> JNull | Some x \<Rightarrow> f x)"

end
