(* ===== verification/Rust_Strings.thy ===== *)
theory Rust_Strings
  imports VK_Prelude "HOL-Library.Char_ord"
begin

text \<open>
  The operations of \<open>str\<close> the sources call, on UTF-8 byte lists: \<open>trim\<close>, \<open>split\<close>,
  \<open>split_once\<close>, \<open>strip_prefix\<close>, \<open>replace\<close>, \<open>to_ascii_lowercase\<close>, decimal and octal digits,
  and \<open>parse::<u64>\<close>. Paths (\<open>PathBuf\<close>) are strings too, read through their components.
\<close>

section \<open>Prefixes and splitting\<close>

fun strip_prefix :: "string \<Rightarrow> string \<Rightarrow> string option" where
  "strip_prefix [] s = Some s"
| "strip_prefix (p # ps) [] = None"
| "strip_prefix (p # ps) (c # cs) = (if p = c then strip_prefix ps cs else None)"

lemma strip_prefix_Some: "strip_prefix p s = Some r \<longleftrightarrow> s = p @ r"
  by (induction p s rule: strip_prefix.induct) auto

lemma strip_prefix_append [simp]: "strip_prefix p (p @ r) = Some r"
  by (simp add: strip_prefix_Some)

text \<open>\<open>s.split(c)\<close> for a single-byte separator: never empty, one part more than separators.\<close>

fun split_on :: "char \<Rightarrow> string \<Rightarrow> string list" where
  "split_on sep [] = [[]]"
| "split_on sep (c # cs) = (if c = sep then [] # split_on sep cs
     else (case split_on sep cs of [] \<Rightarrow> [[c]] | p # ps \<Rightarrow> (c # p) # ps))"

lemma split_on_nonempty [simp]: "split_on sep s \<noteq> []"
  by (induction s) (auto split: list.splits)

lemma split_on_no_sep: "sep \<notin> set s \<Longrightarrow> split_on sep s = [s]"
  by (induction s) auto

lemma split_on_append_sep:
  "sep \<notin> set p \<Longrightarrow> split_on sep (p @ sep # s) = p # split_on sep s"
  by (induction p) auto

lemma split_on_parts: "p \<in> set (split_on sep s) \<Longrightarrow> sep \<notin> set p"
  by (induction s arbitrary: p) (auto split: if_splits list.splits)

text \<open>\<open>s.split_once(c)\<close>.\<close>

fun split_once :: "char \<Rightarrow> string \<Rightarrow> (string \<times> string) option" where
  "split_once sep [] = None"
| "split_once sep (c # cs) = (if c = sep then Some ([], cs)
     else map_option (\<lambda>(a, b). (c # a, b)) (split_once sep cs))"

lemma split_once_Some: "split_once sep s = Some (a, b) \<longleftrightarrow> s = a @ sep # b \<and> sep \<notin> set a"
  by (induction s arbitrary: a b) (auto simp: Cons_eq_append_conv)

lemma split_once_None: "split_once sep s = None \<longleftrightarrow> sep \<notin> set s"
  by (induction s) auto

lemma split_once_append [simp]: "sep \<notin> set a \<Longrightarrow> split_once sep (a @ sep # b) = Some (a, b)"
  by (simp add: split_once_Some)

section \<open>White space\<close>

text \<open>The UTF-8 encodings of the Unicode \<open>White_Space\<close> characters, which \<open>str::trim\<close> removes.\<close>

definition white_space :: "string list" where
  "white_space = [
    [CHR 0x09], [CHR 0x0A], [CHR 0x0B], [CHR 0x0C], [CHR 0x0D], [CHR 0x20],
    [CHR 0xC2, CHR 0x85], [CHR 0xC2, CHR 0xA0], [CHR 0xE1, CHR 0x9A, CHR 0x80],
    [CHR 0xE2, CHR 0x80, CHR 0x80], [CHR 0xE2, CHR 0x80, CHR 0x81],
    [CHR 0xE2, CHR 0x80, CHR 0x82], [CHR 0xE2, CHR 0x80, CHR 0x83],
    [CHR 0xE2, CHR 0x80, CHR 0x84], [CHR 0xE2, CHR 0x80, CHR 0x85],
    [CHR 0xE2, CHR 0x80, CHR 0x86], [CHR 0xE2, CHR 0x80, CHR 0x87],
    [CHR 0xE2, CHR 0x80, CHR 0x88], [CHR 0xE2, CHR 0x80, CHR 0x89],
    [CHR 0xE2, CHR 0x80, CHR 0x8A], [CHR 0xE2, CHR 0x80, CHR 0xA8],
    [CHR 0xE2, CHR 0x80, CHR 0xA9], [CHR 0xE2, CHR 0x80, CHR 0xAF],
    [CHR 0xE2, CHR 0x81, CHR 0x9F], [CHR 0xE3, CHR 0x80, CHR 0x80]]"

fun strip_any :: "string list \<Rightarrow> string \<Rightarrow> string option" where
  "strip_any [] s = None"
| "strip_any (p # ps) s = (case strip_prefix p s of Some r \<Rightarrow> Some r | None \<Rightarrow> strip_any ps s)"

lemma strip_any_length:
  "[] \<notin> set ps \<Longrightarrow> strip_any ps s = Some r \<Longrightarrow> length r < length s"
  by (induction ps) (auto simp: strip_prefix_Some split: option.splits)

lemma strip_any_suffix: "strip_any ps s = Some r \<Longrightarrow> \<exists>p. s = p @ r"
  by (induction ps) (auto simp: strip_prefix_Some split: option.splits)

lemma white_space_nonempty: "[] \<notin> set white_space" "[] \<notin> set (map rev white_space)"
  by (simp_all add: white_space_def)

function trim_start :: "string \<Rightarrow> string" where
  "trim_start s = (case strip_any white_space s of None \<Rightarrow> s | Some r \<Rightarrow> trim_start r)"
  by pat_completeness auto
termination
  by (relation "measure length") (auto dest: strip_any_length [OF white_space_nonempty(1)])

function trim_rev :: "string \<Rightarrow> string" where
  "trim_rev s = (case strip_any (map rev white_space) s of None \<Rightarrow> s | Some r \<Rightarrow> trim_rev r)"
  by pat_completeness auto
termination
  by (relation "measure length") (auto dest: strip_any_length [OF white_space_nonempty(2)])

declare trim_start.simps [simp del] trim_rev.simps [simp del]

definition trim :: "string \<Rightarrow> string" where
  "trim s = rev (trim_rev (rev (trim_start s)))"

lemma trim_start_fixed: "strip_any white_space (trim_start s) = None"
proof (induction s rule: trim_start.induct)
  case (1 s)
  then show ?case by (subst trim_start.simps) (auto split: option.splits)
qed

lemma trim_rev_fixed: "strip_any (map rev white_space) (trim_rev s) = None"
proof (induction s rule: trim_rev.induct)
  case (1 s)
  then show ?case by (subst trim_rev.simps) (auto split: option.splits)
qed

lemma trim_rev_suffix: "\<exists>p. s = p @ trim_rev s"
proof (induction s rule: trim_rev.induct)
  case (1 s)
  show ?case
  proof (cases "strip_any (map rev white_space) s")
    case None
    then show ?thesis by (subst trim_rev.simps) auto
  next
    case (Some r)
    with 1 obtain p where "r = p @ trim_rev r" by blast
    moreover from Some obtain q where "s = q @ r" using strip_any_suffix by blast
    moreover have "trim_rev s = trim_rev r" using Some by (subst trim_rev.simps) simp
    ultimately have "s = (q @ p) @ trim_rev s" by (metis append.assoc)
    then show ?thesis ..
  qed
qed

lemma trim_no_white_space_end: "strip_any (map rev white_space) (rev (trim s)) = None"
  by (simp add: trim_def trim_rev_fixed)

text \<open>\<open>str::split_whitespace\<close>: the maximal runs of bytes that are not white space.\<close>

function split_ws :: "string \<Rightarrow> string \<Rightarrow> string list" where
  "split_ws acc s =
     (case s of
        [] \<Rightarrow> if acc = [] then [] else [rev acc]
      | c # cs \<Rightarrow> (case strip_any white_space s of
            Some r \<Rightarrow> (if acc = [] then [] else [rev acc]) @ split_ws [] r
          | None \<Rightarrow> split_ws (c # acc) cs))"
  by pat_completeness auto
termination
  by (relation "measure (\<lambda>(acc, s). length s)")
    (auto dest: strip_any_length [OF white_space_nonempty(1)])

declare split_ws.simps [simp del]

definition split_whitespace :: "string \<Rightarrow> string list" where
  "split_whitespace s = split_ws [] s"

section \<open>Lines and substrings\<close>

text \<open>\<open>str::lines\<close>: the parts between line feeds, a final empty one dropped, one trailing carriage
  return removed from each.\<close>

definition strip_cr :: "string \<Rightarrow> string" where
  "strip_cr s = (if s \<noteq> [] \<and> last s = CHR 0x0D then butlast s else s)"

definition str_lines :: "string \<Rightarrow> string list" where
  "str_lines s = (let ps = split_on (CHR 0x0A) s
     in map strip_cr (if last ps = [] then butlast ps else ps))"

text \<open>\<open>split_once\<close> with a string pattern, and \<open>replace\<close>: leftmost matches, without overlap.\<close>

fun split_once_str :: "string \<Rightarrow> string \<Rightarrow> (string \<times> string) option" where
  "split_once_str pat s = (case strip_prefix pat s of
     Some r \<Rightarrow> Some ([], r)
   | None \<Rightarrow> (case s of [] \<Rightarrow> None
       | c # cs \<Rightarrow> map_option (\<lambda>(a, b). (c # a, b)) (split_once_str pat cs)))"

declare split_once_str.simps [simp del]

lemma split_once_str_sound: "split_once_str pat s = Some (a, b) \<Longrightarrow> s = a @ pat @ b"
proof (induction s arbitrary: a)
  case Nil
  then show ?case
    by (auto simp: split_once_str.simps [of pat "[]"] strip_prefix_Some split: option.splits)
next
  case (Cons c s)
  then show ?case
    by (auto simp: split_once_str.simps [of pat "c # s"] strip_prefix_Some split: option.splits)
qed

function replace_str :: "string \<Rightarrow> string \<Rightarrow> string \<Rightarrow> string" where
  "replace_str pat new s = (case s of [] \<Rightarrow> []
     | c # cs \<Rightarrow> (case (if pat = [] then None else strip_prefix pat s) of
           Some r \<Rightarrow> new @ replace_str pat new r
         | None \<Rightarrow> c # replace_str pat new cs))"
  by pat_completeness auto
termination
  by (relation "measure (\<lambda>(pat, new, s). length s)")
    (auto simp: strip_prefix_Some Cons_eq_append_conv split: if_splits)

declare replace_str.simps [simp del]

lemma replace_str_Nil [simp]: "replace_str pat new [] = []"
  by (subst replace_str.simps) simp

lemma replace_str_match:
  "pat \<noteq> [] \<Longrightarrow> replace_str pat new (pat @ s) = new @ replace_str pat new s"
  by (cases pat) (simp_all add: replace_str.simps [of "_ # _" new "_ # _"])

lemma replace_str_skip:
  "strip_prefix pat (c # s) = None \<Longrightarrow> replace_str pat new (c # s) = c # replace_str pat new s"
  by (subst replace_str.simps) auto

text \<open>\<open>str::contains\<close>, and SQL's \<open>instr(hay, needle) > 0\<close>.\<close>

definition str_contains :: "string \<Rightarrow> string \<Rightarrow> bool" where
  "str_contains hay needle \<longleftrightarrow> split_once_str needle hay \<noteq> None"

lemma str_contains_iff: "str_contains hay needle \<longleftrightarrow> (\<exists>a b. hay = a @ needle @ b)"
proof
  show "\<exists>a b. hay = a @ needle @ b" if "str_contains hay needle"
    using that split_once_str_sound [of needle hay] by (auto simp: str_contains_def)
  have "split_once_str needle (a @ needle @ b) \<noteq> None" for a b
  proof (induction a)
    case Nil
    show ?case by (subst split_once_str.simps) simp
  next
    case (Cons c a)
    then show ?case by (subst split_once_str.simps) (auto split: option.splits)
  qed
  then show "str_contains hay needle" if "\<exists>a b. hay = a @ needle @ b"
    using that by (auto simp: str_contains_def)
qed

section \<open>Characters and joining\<close>

text \<open>A character is counted and cut at the bytes that do not continue one.\<close>

definition is_continuation :: "char \<Rightarrow> bool" where
  "is_continuation c \<longleftrightarrow> 128 \<le> (of_char c :: nat) \<and> (of_char c :: nat) < 192"

definition char_count :: "string \<Rightarrow> nat" where
  "char_count s = length (filter (\<lambda>c. \<not> is_continuation c) s)"

fun take_chars :: "nat \<Rightarrow> string \<Rightarrow> string" where
  "take_chars n [] = []"
| "take_chars n (c # cs) = (if is_continuation c then c # take_chars n cs
     else case n of 0 \<Rightarrow> [] | Suc m \<Rightarrow> c # take_chars m cs)"

lemma take_chars_count: "char_count (take_chars n s) \<le> n"
  by (induction n s rule: take_chars.induct) (auto simp: char_count_def split: nat.splits)

text \<open>\<open>join\<close> of a slice of strings.\<close>

fun join :: "string \<Rightarrow> string list \<Rightarrow> string" where
  "join sep [] = []"
| "join sep [x] = x"
| "join sep (x # y # xs) = x @ sep @ join sep (y # xs)"

text \<open>The lines of a text with a line feed in it.\<close>

lemma join_split_on: "join [sep] (split_on sep s) = s"
proof (induction s)
  case (Cons c s)
  obtain q qs where q: "split_on sep s = q # qs" by (cases "split_on sep s") auto
  with Cons show ?case by (cases qs) auto
qed simp

lemma split_on_substring: "p \<in> set (split_on sep s) \<Longrightarrow> \<exists>a b. s = a @ p @ b"
proof (induction s arbitrary: p)
  case (Cons c s)
  obtain q qs where q: "split_on sep s = q # qs" by (cases "split_on sep s") auto
  show ?case
  proof (cases "c = sep \<or> p \<noteq> c # q")
    case True
    then have "p = [] \<or> p \<in> set (split_on sep s)" using Cons.prems q by (auto split: if_splits)
    then show ?thesis
    proof
      assume "p \<in> set (split_on sep s)"
      then obtain a b where "s = a @ p @ b" using Cons.IH by blast
      then have "c # s = (c # a) @ p @ b" by simp
      then show ?thesis by blast
    qed (metis append_Nil)
  next
    case False
    obtain b where "s = q @ b" using join_split_on [of sep s] q by (cases qs) auto
    with False have "c # s = [] @ p @ b" by simp
    then show ?thesis by blast
  qed
qed auto

lemma split_on_lines: "split_on sep (a @ sep # b) = split_on sep a @ split_on sep b"
proof (induction a)
  case (Cons c a)
  then show ?case by (cases "split_on sep a") (auto split: list.splits)
qed simp

lemma str_lines_append: "str_lines (a @ CHR 0x0A # b) = map strip_cr (split_on (CHR 0x0A) a) @ str_lines b"
  by (simp add: str_lines_def split_on_lines Let_def butlast_append)

lemma strip_cr_same: "CHR 0x0D \<notin> set l \<Longrightarrow> strip_cr l = l"
  by (auto simp: strip_cr_def dest: last_in_set)

section \<open>ASCII case and digits\<close>

definition ascii_lower :: "char \<Rightarrow> char" where
  "ascii_lower c = (if 65 \<le> (of_char c :: nat) \<and> (of_char c :: nat) \<le> 90
     then char_of ((of_char c :: nat) + 32) else c)"

definition to_ascii_lowercase :: "string \<Rightarrow> string" where
  "to_ascii_lowercase = map ascii_lower"

definition digit_of :: "char \<Rightarrow> nat option" where
  "digit_of c = (let n = of_char c :: nat in if 48 \<le> n \<and> n \<le> 57 then Some (n - 48) else None)"

text \<open>
  \<open>parse::<u64>\<close>: an optional plus sign, then at least one digit and nothing else, with a value
  below \<open>2 ^ 64\<close>.
\<close>

fun parse_digits :: "nat \<Rightarrow> string \<Rightarrow> nat option" where
  "parse_digits acc [] = Some acc"
| "parse_digits acc (c # cs) = (case digit_of c of None \<Rightarrow> None
     | Some d \<Rightarrow> parse_digits (10 * acc + d) cs)"

definition parse_nat :: "string \<Rightarrow> nat option" where
  "parse_nat s = (let ds = (if s \<noteq> [] \<and> hd s = CHR ''+'' then tl s else s)
     in if ds = [] then None else parse_digits 0 ds)"

definition parse_u64 :: "string \<Rightarrow> u64 option" where
  "parse_u64 s = (case parse_nat s of None \<Rightarrow> None
     | Some n \<Rightarrow> if n < 2 ^ 64 then Some (word_of_nat n) else None)"

definition parse_u8 :: "string \<Rightarrow> 8 word option" where
  "parse_u8 s = (case parse_nat s of None \<Rightarrow> None
     | Some n \<Rightarrow> if n < 2 ^ 8 then Some (word_of_nat n) else None)"

text \<open>The decimal text of an unsigned integer.\<close>

definition digit_char :: "nat \<Rightarrow> char" where
  "digit_char d = char_of (48 + d)"

fun show_nat :: "nat \<Rightarrow> string" where
  "show_nat n = (if n < 10 then [digit_char n] else show_nat (n div 10) @ [digit_char (n mod 10)])"

declare show_nat.simps [simp del]

lemma digit_of_digit_char: "d < 10 \<Longrightarrow> digit_of (digit_char d) = Some d"
  by (simp add: digit_of_def digit_char_def Let_def)

lemma parse_digits_append:
  "parse_digits acc (s @ t) = (case parse_digits acc s of None \<Rightarrow> None | Some n \<Rightarrow> parse_digits n t)"
  by (induction s arbitrary: acc) (auto split: option.splits)

lemma parse_digits_show_nat: "parse_digits 0 (show_nat n) = Some n"
proof (induction n rule: show_nat.induct)
  case (1 n)
  then show ?case
    by (subst show_nat.simps) (auto simp: parse_digits_append digit_of_digit_char)
qed

lemma digit_char_digit: "d < 10 \<Longrightarrow> 48 \<le> (of_char (digit_char d) :: nat) \<and> (of_char (digit_char d) :: nat) \<le> 57"
  by (simp add: digit_char_def)

lemma show_nat_digits: "c \<in> set (show_nat n) \<Longrightarrow> 48 \<le> (of_char c :: nat) \<and> (of_char c :: nat) \<le> 57"
proof (induction n rule: show_nat.induct)
  case (1 n)
  then show ?case by (subst (asm) (2) show_nat.simps) (auto simp: digit_char_digit split: if_splits)
qed

lemma show_nat_nonempty [simp]: "show_nat n \<noteq> []"
  by (subst show_nat.simps) simp

lemma parse_nat_show_nat: "parse_nat (show_nat n) = Some n"
proof -
  have "hd (show_nat n) \<noteq> CHR ''+''"
    using show_nat_digits [of "hd (show_nat n)" n] by (auto simp: hd_in_set)
  then show ?thesis by (simp add: parse_nat_def parse_digits_show_nat)
qed

lemma show_nat_inject [simp]: "show_nat m = show_nat n \<longleftrightarrow> m = n"
  by (metis option.inject parse_digits_show_nat)

lemma show_nat_length: "n < 10 ^ k \<Longrightarrow> 0 < k \<Longrightarrow> length (show_nat n) \<le> k"
proof (induction n arbitrary: k rule: show_nat.induct)
  case (1 n)
  show ?case
  proof (cases "n < 10")
    case True
    then show ?thesis using 1(3) by (subst show_nat.simps) simp
  next
    case False
    obtain j where j: "k = Suc j" using 1(3) by (cases k) auto
    have "0 < j" using False 1(2) j by (cases j) auto
    moreover have "n div 10 < 10 ^ j" using 1(2) j by (simp add: div_less_iff_less_mult mult.commute)
    ultimately have "length (show_nat (n div 10)) \<le> j" using 1(1) False by blast
    then show ?thesis using False j by (subst show_nat.simps) simp
  qed
qed

text \<open>The decimal text of a signed integer.\<close>

definition show_int :: "int \<Rightarrow> string" where
  "show_int n = (if n < 0 then CHR ''-'' # show_nat (nat (- n)) else show_nat (nat n))"

lemma show_nat_no_minus: "CHR ''-'' \<notin> set (show_nat n)"
  using show_nat_digits [of "CHR ''-''" n] by auto

lemma show_int_inject [simp]: "show_int m = show_int n \<longleftrightarrow> m = n"
proof -
  have "show_nat k \<noteq> CHR ''-'' # s" for k s using show_nat_no_minus [of k] by auto
  then show ?thesis by (simp add: show_int_def) (metis neg_equal_iff_equal nat_0_le not_less less_imp_le neg_0_le_iff_le)
qed

text \<open>Texts built of fields between separators: the first and the last field are determined.\<close>

lemma first_field:
  assumes "c \<notin> set a" "c \<notin> set b"
  shows "a @ c # x = b @ c # y \<longleftrightarrow> a = b \<and> x = y"
proof
  assume eq: "a @ c # x = b @ c # y"
  have "takeWhile (\<lambda>d. d \<noteq> c) (a @ c # x) = a" "takeWhile (\<lambda>d. d \<noteq> c) (b @ c # y) = b"
    using assms by (auto simp: takeWhile_append takeWhile_eq_all_conv)
  then have "a = b" using eq by metis
  then show "a = b \<and> x = y" using eq by simp
qed simp

lemma last_field:
  assumes "c \<notin> set x" "c \<notin> set y"
  shows "a @ c # x = b @ c # y \<longleftrightarrow> a = b \<and> x = y"
proof -
  have "a @ c # x = b @ c # y \<longleftrightarrow> rev x @ c # rev a = rev y @ c # rev b"
    by (metis append.assoc append_Cons append_Nil rev.simps(2) rev_append rev_rev_ident)
  also have "\<dots> \<longleftrightarrow> rev x = rev y \<and> rev a = rev b" by (rule first_field) (use assms in auto)
  finally show ?thesis by auto
qed

section \<open>Paths\<close>

definition path_is_absolute :: "string \<Rightarrow> bool" where
  "path_is_absolute p \<longleftrightarrow> p \<noteq> [] \<and> hd p = CHR ''/''"

text \<open>
  \<open>Path::components\<close>: the root, then the names between slashes; empty names and \<open>.\<close> are
  dropped, except a leading \<open>.\<close> of a relative path.
\<close>

datatype path_component = RootDir | CurDir | ParentDir | Normal string

fun name_component :: "string \<Rightarrow> path_component option" where
  "name_component s = (if s = [] \<or> s = ''.'' then None
     else if s = ''..'' then Some ParentDir else Some (Normal s))"

definition path_components :: "string \<Rightarrow> path_component list" where
  "path_components p =
     (if path_is_absolute p then [RootDir]
      else if hd (split_on (CHR ''/'') p) = ''.'' then [CurDir] else [])
     @ List.map_filter name_component (split_on (CHR ''/'') p)"

text \<open>\<open>Path::join\<close>: an absolute second path replaces the first.\<close>

definition path_join :: "string \<Rightarrow> string \<Rightarrow> string" where
  "path_join base p = (if path_is_absolute p then p
     else if base = [] then p
     else if last base = CHR ''/'' then base @ p else base @ CHR ''/'' # p)"

text \<open>\<open>Path::starts_with\<close>: whole components, never part of a name.\<close>

fun list_starts_with :: "'a list \<Rightarrow> 'a list \<Rightarrow> bool" where
  "list_starts_with xs [] = True"
| "list_starts_with [] (y # ys) = False"
| "list_starts_with (x # xs) (y # ys) = (x = y \<and> list_starts_with xs ys)"

lemma list_starts_with_iff: "list_starts_with xs ys \<longleftrightarrow> (\<exists>zs. xs = ys @ zs)"
  by (induction xs ys rule: list_starts_with.induct) auto

definition path_starts_with :: "string \<Rightarrow> string \<Rightarrow> bool" where
  "path_starts_with p base = list_starts_with (path_components p) (path_components base)"

lemma path_starts_with_refl [simp]: "path_starts_with p p"
  by (simp add: path_starts_with_def list_starts_with_iff)

lemma path_starts_with_trans:
  "path_starts_with a b \<Longrightarrow> path_starts_with b c \<Longrightarrow> path_starts_with a c"
  by (auto simp: path_starts_with_def list_starts_with_iff)

end
