(* ===== verification/Cluster_Config.thy ===== *)
theory Cluster_Config
  imports Data_Model Rust_Strings
begin

text \<open>
  The coordinator's cluster configuration (\<open>crates/services/src/services/cluster/config.rs\<close>),
  read from environment variables. The URL, UUID, address and floating-point parsers are a
  parameter (\<open>parsers\<close>): the configuration only filters what they return. A \<open>Duration\<close> here is
  its number of seconds, since every value comes from \<open>Duration::from_secs\<close>.
\<close>

definition CLUSTER_ENABLED_ENV :: string where
  "CLUSTER_ENABLED_ENV = ''VK_CLUSTER_ENABLED''"
definition COORDINATOR_ID_ENV :: string where
  "COORDINATOR_ID_ENV = ''VK_CLUSTER_COORDINATOR_ID''"
definition SHARED_ROOT_ENV :: string where
  "SHARED_ROOT_ENV = ''VK_CLUSTER_SHARED_ROOT''"
definition EXPECTED_FILESYSTEM_ID_ENV :: string where
  "EXPECTED_FILESYSTEM_ID_ENV = ''VK_CLUSTER_EXPECTED_FILESYSTEM_ID''"
definition WORKER_ENDPOINTS_ENV :: string where
  "WORKER_ENDPOINTS_ENV = ''VK_CLUSTER_WORKER_ENDPOINTS''"
definition WORKER_SOURCE_ADDRESSES_ENV :: string where
  "WORKER_SOURCE_ADDRESSES_ENV = ''VK_CLUSTER_WORKER_SOURCE_ADDRESSES''"
definition HEARTBEAT_INTERVAL_SECONDS_ENV :: string where
  "HEARTBEAT_INTERVAL_SECONDS_ENV = ''VK_CLUSTER_HEARTBEAT_INTERVAL_SECONDS''"
definition LEASE_DURATION_SECONDS_ENV :: string where
  "LEASE_DURATION_SECONDS_ENV = ''VK_CLUSTER_LEASE_DURATION_SECONDS''"
definition LOAD_WEIGHT_ENV :: string where
  "LOAD_WEIGHT_ENV = ''VK_CLUSTER_LOAD_WEIGHT''"
definition ACTIVE_EXECUTION_WEIGHT_ENV :: string where
  "ACTIVE_EXECUTION_WEIGHT_ENV = ''VK_CLUSTER_ACTIVE_EXECUTION_WEIGHT''"

lemmas env_names = CLUSTER_ENABLED_ENV_def COORDINATOR_ID_ENV_def SHARED_ROOT_ENV_def
  EXPECTED_FILESYSTEM_ID_ENV_def WORKER_ENDPOINTS_ENV_def WORKER_SOURCE_ADDRESSES_ENV_def
  HEARTBEAT_INTERVAL_SECONDS_ENV_def LEASE_DURATION_SECONDS_ENV_def LOAD_WEIGHT_ENV_def
  ACTIVE_EXECUTION_WEIGHT_ENV_def

record scheduling_weights =
  sw_load :: f64
  sw_active_executions :: f64

record ('url, 'ip) cluster_config =
  cc_enabled :: bool
  cc_coordinator_id :: "uuid option"
  cc_shared_root :: string
  cc_expected_filesystem_id :: string
  cc_worker_endpoints :: "'url list"
  cc_worker_source_addresses :: "'ip list"
  cc_heartbeat_interval :: u64
  cc_lease_duration :: u64
  cc_scheduling_weights :: scheduling_weights

definition default_weights :: scheduling_weights where
  "default_weights = \<lparr> sw_load = FFin 1, sw_active_executions = FFin 1 \<rparr>"

definition default_config :: "('url, 'ip) cluster_config" where
  "default_config = \<lparr> cc_enabled = False, cc_coordinator_id = None,
     cc_shared_root = ''/srv/vibe-kanban-shared'',
     cc_expected_filesystem_id = ''172.16.0.99:/var/nfs/shared/VibeKanban'',
     cc_worker_endpoints = [], cc_worker_source_addresses = [],
     cc_heartbeat_interval = 10, cc_lease_duration = 30,
     cc_scheduling_weights = default_weights \<rparr>"

datatype ClusterConfigError =
    InvalidValue string string string
      \<comment> \<open>name, value, reason\<close>
  | MissingCoordinatorId
  | SharedRootNotAbsolute
  | LeaseNotLongerThanHeartbeat

record ('url, 'ip) parsers =
  p_uuid :: "string \<Rightarrow> uuid option"
  p_url :: "string \<Rightarrow> 'url option"
  p_url_scheme :: "'url \<Rightarrow> string"
  p_url_host :: "'url \<Rightarrow> string option"
  p_ip :: "string \<Rightarrow> 'ip option"
  p_f64 :: "string \<Rightarrow> f64 option"

section \<open>Field parsers\<close>

definition nonempty :: "string option \<Rightarrow> string option" where
  "nonempty v = (case map_option trim v of None \<Rightarrow> None
     | Some s \<Rightarrow> if s = [] then None else Some s)"

definition parse_bool :: "string \<Rightarrow> string \<Rightarrow> ClusterConfigError + bool" where
  "parse_bool name v = (let l = to_ascii_lowercase v in
     if l \<in> {''1'', ''true'', ''yes'', ''on''} then Ok True
     else if l \<in> {''0'', ''false'', ''no'', ''off''} then Ok False
     else Err (InvalidValue name v ''expected a boolean''))"

definition parse_positive_u64 :: "string \<Rightarrow> string \<Rightarrow> ClusterConfigError + u64" where
  "parse_positive_u64 name v =
     ok_or (case parse_u64 v of None \<Rightarrow> None | Some n \<Rightarrow> if n > 0 then Some n else None)
       (InvalidValue name v ''expected a positive integer'')"

definition weight_ok :: "f64 \<Rightarrow> bool" where
  "weight_ok w \<longleftrightarrow> is_finite w \<and> FFin 0 \<le> w"

definition parse_weight ::
  "('url, 'ip) parsers \<Rightarrow> string \<Rightarrow> string \<Rightarrow> ClusterConfigError + f64" where
  "parse_weight P name v =
     ok_or (case p_f64 P v of None \<Rightarrow> None | Some w \<Rightarrow> if weight_ok w then Some w else None)
       (InvalidValue name v ''expected a finite non-negative number'')"

text \<open>\<open>iter.map(f).collect::<Result<Vec<_>, _>>()\<close>: the first error wins.\<close>

fun collect_results :: "('a \<Rightarrow> 'e + 'b) \<Rightarrow> 'a list \<Rightarrow> 'e + 'b list" where
  "collect_results f [] = Ok []"
| "collect_results f (x # xs) =
     try_bind (f x) (\<lambda>y. try_bind (collect_results f xs) (\<lambda>ys. Ok (y # ys)))"

definition comma_parts :: "string \<Rightarrow> string list" where
  "comma_parts v = filter (\<lambda>s. s \<noteq> []) (map trim (split_on (CHR '','') v))"

definition parse_worker_endpoint ::
  "('url, 'ip) parsers \<Rightarrow> string \<Rightarrow> ClusterConfigError + 'url" where
  "parse_worker_endpoint P endpoint =
     (let bad = InvalidValue WORKER_ENDPOINTS_ENV endpoint
        ''expected a comma-separated list of absolute HTTP(S) URLs'' in
      try_bind (ok_or (p_url P endpoint) bad) (\<lambda>url.
        if p_url_scheme P url \<in> {''http'', ''https''} \<and> p_url_host P url \<noteq> None
        then Ok url else Err bad))"

definition parse_worker_endpoints ::
  "('url, 'ip) parsers \<Rightarrow> string \<Rightarrow> ClusterConfigError + 'url list" where
  "parse_worker_endpoints P v = collect_results (parse_worker_endpoint P) (comma_parts v)"

definition parse_worker_source_addresses ::
  "('url, 'ip) parsers \<Rightarrow> string \<Rightarrow> ClusterConfigError + 'ip list" where
  "parse_worker_source_addresses P v = collect_results
     (\<lambda>address. ok_or (p_ip P address) (InvalidValue WORKER_SOURCE_ADDRESSES_ENV address
        ''expected a comma-separated list of IP addresses'')) (comma_parts v)"

section \<open>Reading the environment\<close>

text \<open>\<open>if let Some(value) = nonempty(lookup(name)) { ... }\<close>.\<close>

definition when_set ::
  "(string \<Rightarrow> string option) \<Rightarrow> string \<Rightarrow> (string \<Rightarrow> 'c \<Rightarrow> 'e + 'c) \<Rightarrow> 'c \<Rightarrow> 'e + 'c" where
  "when_set lookup name f c = (case nonempty (lookup name) of None \<Rightarrow> Ok c | Some v \<Rightarrow> f v c)"

definition validate_config :: "('url, 'ip) cluster_config \<Rightarrow> ClusterConfigError + unit" where
  "validate_config c =
     (if cc_enabled c \<and> cc_coordinator_id c = None then Err MissingCoordinatorId
      else if \<not> path_is_absolute (cc_shared_root c) then Err SharedRootNotAbsolute
      else if cc_lease_duration c \<le> cc_heartbeat_interval c then Err LeaseNotLongerThanHeartbeat
      else Ok ())"

definition set_load_weight :: "f64 \<Rightarrow> ('url, 'ip) cluster_config \<Rightarrow> ('url, 'ip) cluster_config" where
  "set_load_weight w c = c\<lparr> cc_scheduling_weights := (cc_scheduling_weights c)\<lparr> sw_load := w \<rparr> \<rparr>"

definition set_active_weight :: "f64 \<Rightarrow> ('url, 'ip) cluster_config \<Rightarrow> ('url, 'ip) cluster_config" where
  "set_active_weight w c =
     c\<lparr> cc_scheduling_weights := (cc_scheduling_weights c)\<lparr> sw_active_executions := w \<rparr> \<rparr>"

definition from_lookup :: "('url, 'ip) parsers \<Rightarrow> (string \<Rightarrow> string option)
    \<Rightarrow> ClusterConfigError + ('url, 'ip) cluster_config" where
  "from_lookup P lookup =
     try_bind (when_set lookup CLUSTER_ENABLED_ENV (\<lambda>v c.
       try_bind (parse_bool CLUSTER_ENABLED_ENV v) (\<lambda>b. Ok (c\<lparr> cc_enabled := b \<rparr>))) default_config) (\<lambda>c.
     try_bind (when_set lookup COORDINATOR_ID_ENV (\<lambda>v c.
       try_bind (ok_or (p_uuid P v) (InvalidValue COORDINATOR_ID_ENV v ''expected a UUID'')) (\<lambda>u.
         Ok (c\<lparr> cc_coordinator_id := Some u \<rparr>))) c) (\<lambda>c.
     try_bind (when_set lookup SHARED_ROOT_ENV (\<lambda>v c. Ok (c\<lparr> cc_shared_root := v \<rparr>)) c) (\<lambda>c.
     try_bind (when_set lookup EXPECTED_FILESYSTEM_ID_ENV
       (\<lambda>v c. Ok (c\<lparr> cc_expected_filesystem_id := v \<rparr>)) c) (\<lambda>c.
     try_bind (when_set lookup WORKER_ENDPOINTS_ENV (\<lambda>v c.
       try_bind (parse_worker_endpoints P v) (\<lambda>us. Ok (c\<lparr> cc_worker_endpoints := us \<rparr>))) c) (\<lambda>c.
     try_bind (when_set lookup WORKER_SOURCE_ADDRESSES_ENV (\<lambda>v c.
       try_bind (parse_worker_source_addresses P v) (\<lambda>us.
         Ok (c\<lparr> cc_worker_source_addresses := us \<rparr>))) c) (\<lambda>c.
     try_bind (when_set lookup HEARTBEAT_INTERVAL_SECONDS_ENV (\<lambda>v c.
       try_bind (parse_positive_u64 HEARTBEAT_INTERVAL_SECONDS_ENV v) (\<lambda>n.
         Ok (c\<lparr> cc_heartbeat_interval := n \<rparr>))) c) (\<lambda>c.
     try_bind (when_set lookup LEASE_DURATION_SECONDS_ENV (\<lambda>v c.
       try_bind (parse_positive_u64 LEASE_DURATION_SECONDS_ENV v) (\<lambda>n.
         Ok (c\<lparr> cc_lease_duration := n \<rparr>))) c) (\<lambda>c.
     try_bind (when_set lookup LOAD_WEIGHT_ENV (\<lambda>v c.
       try_bind (parse_weight P LOAD_WEIGHT_ENV v) (\<lambda>w. Ok (set_load_weight w c))) c) (\<lambda>c.
     try_bind (when_set lookup ACTIVE_EXECUTION_WEIGHT_ENV (\<lambda>v c.
       try_bind (parse_weight P ACTIVE_EXECUTION_WEIGHT_ENV v) (\<lambda>w. Ok (set_active_weight w c))) c) (\<lambda>c.
     try_bind (validate_config c) (\<lambda>_. Ok c)))))))))))"

section \<open>What an accepted configuration satisfies\<close>

definition fields_ok :: "('url, 'ip) parsers \<Rightarrow> ('url, 'ip) cluster_config \<Rightarrow> bool" where
  "fields_ok P c \<longleftrightarrow> 0 < cc_heartbeat_interval c \<and> 0 < cc_lease_duration c
     \<and> weight_ok (sw_load (cc_scheduling_weights c))
     \<and> weight_ok (sw_active_executions (cc_scheduling_weights c))
     \<and> (\<forall>u \<in> set (cc_worker_endpoints c).
          p_url_scheme P u \<in> {''http'', ''https''} \<and> p_url_host P u \<noteq> None)"

lemma when_set_keeps:
  assumes "when_set lookup name f c = Inr c'" "Q c"
    and "\<And>v d d'. Q d \<Longrightarrow> f v d = Inr d' \<Longrightarrow> Q d'"
  shows "Q c'"
  using assms by (auto simp: when_set_def split: option.splits)

lemma collect_results_all:
  "collect_results f xs = Inr ys \<Longrightarrow> (\<And>x y. f x = Inr y \<Longrightarrow> Q y) \<Longrightarrow> \<forall>y \<in> set ys. Q y"
  by (induction xs arbitrary: ys) auto

lemma parse_positive_u64_pos: "parse_positive_u64 name v = Inr n \<Longrightarrow> 0 < n"
  by (auto simp: parse_positive_u64_def split: option.splits if_splits)

lemma parse_weight_ok: "parse_weight P name v = Inr w \<Longrightarrow> weight_ok w"
  by (auto simp: parse_weight_def split: option.splits if_splits)

lemma parse_worker_endpoints_ok:
  "parse_worker_endpoints P v = Inr us \<Longrightarrow>
    \<forall>u \<in> set us. p_url_scheme P u \<in> {''http'', ''https''} \<and> p_url_host P u \<noteq> None"
  unfolding parse_worker_endpoints_def
  by (erule collect_results_all) (auto simp: parse_worker_endpoint_def Let_def split: if_splits)

lemma fields_ok_default: "fields_ok P default_config"
  by (simp add: fields_ok_def default_config_def default_weights_def weight_ok_def)

lemma fields_ok_updates:
  "fields_ok P c \<Longrightarrow> fields_ok P (c\<lparr> cc_enabled := b \<rparr>)"
  "fields_ok P c \<Longrightarrow> fields_ok P (c\<lparr> cc_coordinator_id := u \<rparr>)"
  "fields_ok P c \<Longrightarrow> fields_ok P (c\<lparr> cc_shared_root := s \<rparr>)"
  "fields_ok P c \<Longrightarrow> fields_ok P (c\<lparr> cc_expected_filesystem_id := s \<rparr>)"
  "fields_ok P c \<Longrightarrow> fields_ok P (c\<lparr> cc_worker_source_addresses := ips \<rparr>)"
  "fields_ok P c \<Longrightarrow> 0 < n \<Longrightarrow> fields_ok P (c\<lparr> cc_heartbeat_interval := n \<rparr>)"
  "fields_ok P c \<Longrightarrow> 0 < n \<Longrightarrow> fields_ok P (c\<lparr> cc_lease_duration := n \<rparr>)"
  "fields_ok P c \<Longrightarrow> weight_ok w \<Longrightarrow> fields_ok P (set_load_weight w c)"
  "fields_ok P c \<Longrightarrow> weight_ok w \<Longrightarrow> fields_ok P (set_active_weight w c)"
  "fields_ok P c \<Longrightarrow> parse_worker_endpoints P v = Inr us \<Longrightarrow>
     fields_ok P (c\<lparr> cc_worker_endpoints := us \<rparr>)"
  by (auto simp: fields_ok_def set_load_weight_def set_active_weight_def
      dest: parse_worker_endpoints_ok)

lemma from_lookup_fields_ok:
  assumes "from_lookup P lookup = Inr c"
  shows "fields_ok P c \<and> validate_config c = Inr ()"
  using assms unfolding from_lookup_def
  by (auto elim!: when_set_keeps [where Q = "fields_ok P"]
      intro!: fields_ok_default fields_ok_updates parse_positive_u64_pos parse_weight_ok)

text \<open>
  A configuration the coordinator accepts names a coordinator whenever clustering is
  enabled, has an absolute shared root, a lease strictly longer than a positive heartbeat
  interval, finite non-negative scheduling weights, and only HTTP(S) worker endpoints with a
  host.
\<close>

theorem from_lookup_accepted:
  assumes "from_lookup P lookup = Ok c"
  shows "(cc_enabled c \<longrightarrow> cc_coordinator_id c \<noteq> None)
    \<and> path_is_absolute (cc_shared_root c)
    \<and> 0 < cc_heartbeat_interval c \<and> cc_heartbeat_interval c < cc_lease_duration c
    \<and> weight_ok (sw_load (cc_scheduling_weights c))
    \<and> weight_ok (sw_active_executions (cc_scheduling_weights c))
    \<and> (\<forall>u \<in> set (cc_worker_endpoints c).
         p_url_scheme P u \<in> {''http'', ''https''} \<and> p_url_host P u \<noteq> None)"
  using from_lookup_fields_ok [OF assms]
  by (auto simp: validate_config_def fields_ok_def split: if_splits)

definition demo_parsers :: "(string, string) parsers" where
  "demo_parsers = \<lparr> p_uuid = (\<lambda>s. map_option ucast (parse_u64 s)),
     p_url = (\<lambda>s. Some s), p_url_scheme = (\<lambda>_. ''http''), p_url_host = (\<lambda>s. Some s),
     p_ip = (\<lambda>s. Some s), p_f64 = (\<lambda>s. map_option (\<lambda>n. FFin (of_nat n)) (parse_nat s)) \<rparr>"

definition demo_env :: "string \<Rightarrow> string option" where
  "demo_env = map_of [(CLUSTER_ENABLED_ENV, ''yes''), (COORDINATOR_ID_ENV, ''7''),
     (HEARTBEAT_INTERVAL_SECONDS_ENV, '' 15 ''), (LEASE_DURATION_SECONDS_ENV, ''+45''),
     (LOAD_WEIGHT_ENV, ''2'')]"

definition demo_config :: "(string, string) cluster_config" where
  "demo_config = default_config\<lparr> cc_enabled := True, cc_coordinator_id := Some 7,
     cc_heartbeat_interval := 15, cc_lease_duration := 45,
     cc_scheduling_weights := \<lparr> sw_load = FFin 2, sw_active_executions = FFin 1 \<rparr> \<rparr>"

lemma demo_trim:
  "trim ''yes'' = ''yes''" "trim ''7'' = ''7''" "trim '' 15 '' = ''15''" "trim ''+45'' = ''+45''"
  "trim ''2'' = ''2''"
  by (simp_all add: trim_def trim_start.simps trim_rev.simps white_space_def)

lemma demo_numbers:
  "parse_nat ''7'' = Some 7" "parse_nat ''15'' = Some 15" "parse_nat ''+45'' = Some 45"
  "parse_nat ''2'' = Some 2" "to_ascii_lowercase ''yes'' = ''yes''"
  by code_simp+

lemma demo_config_accepted: "from_lookup demo_parsers demo_env = Inr demo_config"
  by (simp add: from_lookup_def demo_env_def demo_parsers_def demo_config_def env_names
      when_set_def nonempty_def demo_trim demo_numbers parse_bool_def parse_positive_u64_def
      parse_u64_def parse_weight_def weight_ok_def set_load_weight_def validate_config_def
      default_config_def default_weights_def path_is_absolute_def)

theorem from_lookup_accepted_witness:
  "cc_enabled demo_config \<and> cc_coordinator_id demo_config \<noteq> None
    \<and> cc_heartbeat_interval demo_config < cc_lease_duration demo_config"
  using from_lookup_accepted [OF demo_config_accepted] by (simp add: demo_config_def)

end
