(* ===== verification/Cluster_Protocol.thy ===== *)
theory Cluster_Protocol
  imports VK_Prelude
begin

text \<open>
  The messages between the coordinator and a worker (\<open>crates/cluster-protocol\<close>), as far as the
  modelled components exchange them: request authority, job states, execution events and their
  batches, terminal evidence, mount probes and mount health, leases.
  Payloads the modelled code only passes through (base64 output, prompts) are strings.
\<close>

definition PROTOCOL_VERSION :: u16 where
  "PROTOCOL_VERSION = 1"

record request_authority =
  protocol_version :: u16
  coordinator_id :: uuid
  authority_worker_node_id :: uuid
  correlation_id :: uuid
  issued_at :: datetime
  nonce :: string

section \<open>Jobs\<close>

datatype JobState =
    JobAccepted
  | JobStarting
  | JobRunning
  | JobCancelling
  | JobCompleted
  | JobFailed
  | JobKilled
  | JobInterrupted
  | JobIndeterminate
  | JobQuarantined

fun JobState_is_terminal :: "JobState \<Rightarrow> bool" where
  "JobState_is_terminal JobCompleted = True"
| "JobState_is_terminal JobFailed = True"
| "JobState_is_terminal JobKilled = True"
| "JobState_is_terminal JobInterrupted = True"
| "JobState_is_terminal JobIndeterminate = True"
| "JobState_is_terminal JobQuarantined = True"
| "JobState_is_terminal _ = False"

datatype TerminalState = TermCompleted | TermFailed | TermKilled | TermInterrupted

record terminal_evidence =
  te_state :: TerminalState
  te_exit_code :: "int option"
  te_signal :: "int option"
  te_observed_at :: datetime

record job_summary =
  js_execution_id :: uuid
  js_worker_job_id :: uuid
  js_workspace_id :: uuid
  js_request_digest :: string
  js_state :: JobState
  js_last_sequence :: u64
  js_terminal :: "terminal_evidence option"

record dispatch_accepted =
  da_execution_id :: uuid
  da_worker_job_id :: uuid
  da_request_digest :: string
  da_state :: JobState
  da_last_sequence :: u64

section \<open>Execution events\<close>

datatype DisconnectPolicy = FailClosed | Pause | Timeout

record interaction_request =
  ir_interaction_id :: uuid
  ir_kind :: string
  ir_prompt :: string
  ir_expires_at :: "datetime option"
  ir_disconnect_policy :: DisconnectPolicy

record preview_target =
  pt_workspace_id :: uuid
  pt_worker_job_id :: uuid
  pt_port :: u16
  pt_generation :: u64

datatype ExecutionEventPayload =
    EvAccepted
  | EvStarting
  | EvStdout string
  | EvStderr string
  | EvStructured string
  | EvInteractionRequested interaction_request
  | EvInteractionAcknowledged uuid
  | EvPreview preview_target
  | EvCompleted terminal_evidence
  | EvFailed terminal_evidence
  | EvKilled terminal_evidence
  | EvInterrupted terminal_evidence
  | EvIndeterminate string

record execution_event =
  ev_execution_id :: uuid
  ev_sequence :: u64
  ev_worker_timestamp :: datetime
  ev_payload :: ExecutionEventPayload

record event_batch =
  eb_execution_id :: uuid
  eb_requested_after :: u64
  eb_earliest_available :: u64
  eb_latest_available :: u64
  eb_replay_gap :: bool
  eb_events :: "execution_event list"

section \<open>Mounts and leases\<close>

datatype MountFailureReason =
    MfMissing
  | MfLocalFallback
  | MfWrongFilesystem
  | MfProbeNotVisible
  | MfReadOnly
  | MfOwnershipMismatch
  | MfIoError

datatype MountHealth =
    Healthy string string
      \<comment> \<open>\<open>filesystem_id\<close>, \<open>probe_id\<close>\<close>
  | Unhealthy MountFailureReason string

record mount_probe =
  probe_id :: string
  probe_relative_path :: string
  probe_expected_contents_digest :: string

record coordinator_lease =
  accepted_protocol_version :: u16
  heartbeat_interval_seconds :: u32
  lease_expires :: datetime
  lease_draining :: bool
  lease_probe :: mount_probe

end
