(* ===== verification/Worker_Registry.thy ===== *)
theory Worker_Registry
  imports Cluster_Config Cluster_Protocol
begin

text \<open>
  The coordinator's registry of workers: the \<open>worker_nodes\<close> table with the statements of
  \<open>crates/db/src/models/worker_node.rs\<close>, and the registration and heartbeat handlers of
  \<open>crates/services/src/services/cluster/registry.rs\<close>.

  The table has a primary key (\<open>id\<close>) and a unique index on \<open>hostname\<close>; a statement that
  would break either is refused and changes nothing. \<open>clock\<close> stands for the database's
  \<open>datetime('now', 'subsec')\<close>. The addition of a lease duration to a time stamp is the one of
  the \<open>chrono\<close> crate, a parameter that has no value where the crate panics; a handler that
  panics returns \<open>None\<close>.
\<close>

section \<open>The table\<close>

datatype WorkerNodeStatus = Online | Offline | Draining

datatype WorkerMountStatus =
    MsHealthy | MsMissing | MsLocalFallback | MsWrongFilesystem | MsProbeNotVisible
  | MsReadOnly | MsOwnershipMismatch | MsIoError

record worker_node =
  wn_id :: uuid
  wn_hostname :: string
  wn_status :: WorkerNodeStatus
  wn_worker_version :: string
  wn_vibe_version :: string
  wn_capabilities :: json
  wn_resource_snapshot :: json
  wn_labels :: json
  wn_mount_status :: WorkerMountStatus
  wn_mount_message :: "string option"
  wn_last_heartbeat_at :: "datetime option"
  wn_lease_expires_at :: "datetime option"
  wn_created_at :: datetime
  wn_updated_at :: datetime

record upsert_worker_node =
  uw_id :: uuid
  uw_hostname :: string
  uw_worker_version :: string
  uw_vibe_version :: string
  uw_capabilities :: json
  uw_resource_snapshot :: json
  uw_labels :: json
  uw_mount_status :: WorkerMountStatus
  uw_mount_message :: "string option"
  uw_heartbeat_at :: datetime
  uw_lease_expires_at :: datetime

type_synonym worker_table = "worker_node list"

datatype db_error = RowNotFound | UniqueViolation

definition worker_table_ok :: "worker_table \<Rightarrow> bool" where
  "worker_table_ok t \<longleftrightarrow> keyed wn_id t \<and> keyed wn_hostname t"

definition find_worker :: "uuid \<Rightarrow> worker_table \<Rightarrow> worker_node option" where
  "find_worker i t = sql_find wn_id i t"

text \<open>\<open>ORDER BY hostname, id\<close>.\<close>

definition fetch_all_workers :: "worker_table \<Rightarrow> worker_node list" where
  "fetch_all_workers t = sort_key (\<lambda>w. (wn_hostname w, wn_id w)) t"

definition inserted_row :: "datetime \<Rightarrow> upsert_worker_node \<Rightarrow> worker_node" where
  "inserted_row clock w = \<lparr> wn_id = uw_id w, wn_hostname = uw_hostname w, wn_status = Online,
     wn_worker_version = uw_worker_version w, wn_vibe_version = uw_vibe_version w,
     wn_capabilities = uw_capabilities w, wn_resource_snapshot = uw_resource_snapshot w,
     wn_labels = uw_labels w, wn_mount_status = uw_mount_status w,
     wn_mount_message = uw_mount_message w, wn_last_heartbeat_at = Some (uw_heartbeat_at w),
     wn_lease_expires_at = Some (uw_lease_expires_at w),
     wn_created_at = clock, wn_updated_at = clock \<rparr>"

definition heartbeat_row :: "datetime \<Rightarrow> upsert_worker_node \<Rightarrow> worker_node \<Rightarrow> worker_node" where
  "heartbeat_row clock w r = r\<lparr> wn_hostname := uw_hostname w,
     wn_status := (if wn_status r = Draining then Draining else Online),
     wn_worker_version := uw_worker_version w, wn_vibe_version := uw_vibe_version w,
     wn_capabilities := uw_capabilities w, wn_resource_snapshot := uw_resource_snapshot w,
     wn_labels := uw_labels w, wn_mount_status := uw_mount_status w,
     wn_mount_message := uw_mount_message w, wn_last_heartbeat_at := Some (uw_heartbeat_at w),
     wn_lease_expires_at := Some (uw_lease_expires_at w), wn_updated_at := clock \<rparr>"

definition hostname_taken :: "upsert_worker_node \<Rightarrow> worker_table \<Rightarrow> bool" where
  "hostname_taken w t \<longleftrightarrow> (\<exists>r \<in> set t. wn_hostname r = uw_hostname w \<and> wn_id r \<noteq> uw_id w)"

definition upsert_heartbeat ::
  "datetime \<Rightarrow> upsert_worker_node \<Rightarrow> worker_table \<Rightarrow> (db_error + worker_node) \<times> worker_table" where
  "upsert_heartbeat clock w t =
     (if hostname_taken w t then (Err UniqueViolation, t)
      else let t' = (case find_worker (uw_id w) t of
               None \<Rightarrow> t @ [inserted_row clock w]
             | Some _ \<Rightarrow> sql_modify wn_id t (uw_id w) (heartbeat_row clock w))
        in (ok_or (find_worker (uw_id w) t') RowNotFound, t'))"

definition stamp_status :: "datetime \<Rightarrow> WorkerNodeStatus \<Rightarrow> worker_node \<Rightarrow> worker_node" where
  "stamp_status clock s r = r\<lparr> wn_status := s, wn_updated_at := clock \<rparr>"

definition set_draining :: "datetime \<Rightarrow> uuid \<Rightarrow> bool \<Rightarrow> worker_table \<Rightarrow> bool \<times> worker_table" where
  "set_draining clock i draining t =
     (let (n, t') = sql_update (\<lambda>r. wn_id r = i)
        (stamp_status clock (if draining then Draining else Offline)) t in (n = 1, t'))"

definition lease_lapsed :: "datetime \<Rightarrow> worker_node \<Rightarrow> bool" where
  "lease_lapsed now r \<longleftrightarrow> is_none_or (wn_lease_expires_at r) (\<lambda>e. e \<le> now)"

definition expire_leases :: "datetime \<Rightarrow> datetime \<Rightarrow> worker_table \<Rightarrow> nat \<times> worker_table" where
  "expire_leases clock now t =
     sql_update (\<lambda>r. wn_status r = Online \<and> lease_lapsed now r) (stamp_status clock Offline) t"

definition mark_offline :: "datetime \<Rightarrow> uuid \<Rightarrow> worker_table \<Rightarrow> bool \<times> worker_table" where
  "mark_offline clock i t =
     (let (n, t') = sql_update (\<lambda>r. wn_id r = i) (stamp_status clock Offline) t in (n = 1, t'))"

section \<open>Mount evidence\<close>

definition MAX_MOUNT_ID_BYTES :: nat where "MAX_MOUNT_ID_BYTES = 256"
definition MAX_MOUNT_MESSAGE_BYTES :: nat where "MAX_MOUNT_MESSAGE_BYTES = 512"

record mount_challenge =
  ch_probe :: mount_probe
  ch_expected_filesystem_id :: string

datatype MountEvidenceError =
    InvalidField string
  | ProbeMismatch string string
      \<comment> \<open>expected, actual\<close>
  | FilesystemMismatch string string

definition bounded_field :: "string \<Rightarrow> string \<Rightarrow> nat \<Rightarrow> MountEvidenceError + unit" where
  "bounded_field field v mx =
     (if v = [] \<or> length v > mx then Err (InvalidField field) else Ok ())"

fun failure_status :: "MountFailureReason \<Rightarrow> WorkerMountStatus" where
  "failure_status MfMissing = MsMissing"
| "failure_status MfLocalFallback = MsLocalFallback"
| "failure_status MfWrongFilesystem = MsWrongFilesystem"
| "failure_status MfProbeNotVisible = MsProbeNotVisible"
| "failure_status MfReadOnly = MsReadOnly"
| "failure_status MfOwnershipMismatch = MsOwnershipMismatch"
| "failure_status MfIoError = MsIoError"

definition validate_mount_evidence :: "MountHealth \<Rightarrow> mount_challenge
    \<Rightarrow> MountEvidenceError + WorkerMountStatus \<times> string option" where
  "validate_mount_evidence evidence ch =
     try_bind (bounded_field ''challenge probe ID'' (probe_id (ch_probe ch)) MAX_MOUNT_ID_BYTES) (\<lambda>_.
     try_bind (bounded_field ''challenge filesystem ID'' (ch_expected_filesystem_id ch) MAX_MOUNT_ID_BYTES) (\<lambda>_.
     case evidence of
       Healthy fs probe \<Rightarrow>
         try_bind (bounded_field ''filesystem ID'' fs MAX_MOUNT_ID_BYTES) (\<lambda>_.
         try_bind (bounded_field ''probe ID'' probe MAX_MOUNT_ID_BYTES) (\<lambda>_.
         if probe \<noteq> probe_id (ch_probe ch)
         then Err (ProbeMismatch (probe_id (ch_probe ch)) probe)
         else if fs \<noteq> ch_expected_filesystem_id ch
         then Err (FilesystemMismatch (ch_expected_filesystem_id ch) fs)
         else Ok (MsHealthy, None)))
     | Unhealthy reason msg \<Rightarrow>
         if length msg > MAX_MOUNT_MESSAGE_BYTES then Err (InvalidField ''mount diagnostic'')
         else Ok (failure_status reason, if msg = [] then None else Some msg)))"

section \<open>Registration and heartbeats\<close>

record worker_capabilities =
  wc_executor_profiles :: "string list"
  wc_terminal :: bool
  wc_preview :: bool
  wc_persistent_process_adoption :: bool

record resource_snapshot =
  rs_cpu_count :: u32
  rs_load_1m :: f64
  rs_available_memory_bytes :: u64
  rs_active_execution_count :: u32
  rs_memory_pressure_full_avg60 :: "f64 option"
  rs_io_pressure_full_avg60 :: "f64 option"
  rs_admission_refusing :: bool

record worker_registration =
  wr_authority :: request_authority
  wr_hostname :: string
  wr_worker_version :: string
  wr_vibe_version :: string
  wr_capabilities :: worker_capabilities
  wr_resources :: resource_snapshot
  wr_labels :: "(string \<times> string) list"
  wr_mount :: MountHealth

record worker_heartbeat =
  wh_authority :: request_authority
  wh_resources :: resource_snapshot
  wh_mount :: MountHealth
  wh_jobs :: "job_summary list"

text \<open>\<open>serde_json::to_value\<close> of the three payloads, which cannot fail on these types.\<close>

definition capabilities_to_value :: "worker_capabilities \<Rightarrow> json" where
  "capabilities_to_value c = JObj [
     (''executor_profiles'', JArr (map JStr (wc_executor_profiles c))),
     (''terminal'', JBool (wc_terminal c)), (''preview'', JBool (wc_preview c)),
     (''persistent_process_adoption'', JBool (wc_persistent_process_adoption c))]"

definition resources_to_value :: "resource_snapshot \<Rightarrow> json" where
  "resources_to_value r = JObj [
     (''cpu_count'', JNum (of_nat (unat (rs_cpu_count r)))),
     (''load_1m'', json_f64 (rs_load_1m r)),
     (''available_memory_bytes'', JNum (of_nat (unat (rs_available_memory_bytes r)))),
     (''active_execution_count'', JNum (of_nat (unat (rs_active_execution_count r)))),
     (''memory_pressure_full_avg60'', json_option json_f64 (rs_memory_pressure_full_avg60 r)),
     (''io_pressure_full_avg60'', json_option json_f64 (rs_io_pressure_full_avg60 r)),
     (''admission_refusing'', JBool (rs_admission_refusing r))]"

definition labels_to_value :: "(string \<times> string) list \<Rightarrow> json" where
  "labels_to_value ls = JObj (map (\<lambda>(k, v). (k, JStr v)) ls)"

datatype WorkerRegistryError =
    RegMissingCoordinatorId
  | UnsupportedProtocol u16 u16
      \<comment> \<open>actual, expected\<close>
  | WrongCoordinator uuid uuid
      \<comment> \<open>actual, expected\<close>
  | WorkerNotRegistered uuid
  | InvalidMountEvidence MountEvidenceError
  | Database db_error

definition validate_authority ::
  "('url, 'ip) cluster_config \<Rightarrow> u16 \<Rightarrow> uuid \<Rightarrow> WorkerRegistryError + unit" where
  "validate_authority cfg version coordinator =
     (if version \<noteq> PROTOCOL_VERSION then Err (UnsupportedProtocol version PROTOCOL_VERSION)
      else try_bind (ok_or (cc_coordinator_id cfg) RegMissingCoordinatorId) (\<lambda>expected.
        if coordinator \<noteq> expected then Err (WrongCoordinator coordinator expected) else Ok ()))"

text \<open>
  \<open>received_at + TimeDelta::from_std(lease_duration)\<close>, where both the conversion and the
  addition may panic.
\<close>

type_synonym chrono_add = "datetime \<Rightarrow> u64 \<Rightarrow> datetime option"

definition lease_expires_at ::
  "chrono_add \<Rightarrow> ('url, 'ip) cluster_config \<Rightarrow> datetime \<Rightarrow> datetime option" where
  "lease_expires_at add cfg received_at = add received_at (cc_lease_duration cfg)"

text \<open>The lease; \<open>None\<close> when the heartbeat interval does not fit \<open>u32\<close> and \<open>expect\<close> panics.\<close>

definition lease_of :: "('url, 'ip) cluster_config \<Rightarrow> worker_node \<Rightarrow> mount_probe \<Rightarrow> datetime
    \<Rightarrow> coordinator_lease option" where
  "lease_of cfg worker probe expires =
     (if unat (cc_heartbeat_interval cfg) < 2 ^ 32
      then Some \<lparr> accepted_protocol_version = PROTOCOL_VERSION,
        heartbeat_interval_seconds = ucast (cc_heartbeat_interval cfg),
        lease_expires = expires, lease_draining = (wn_status worker = Draining),
        lease_probe = probe \<rparr>
      else None)"

text \<open>
  What the two handlers share from the lease on: the upsert and the answer. \<open>row\<close> builds the
  row to upsert from the lease's expiry.
\<close>

type_synonym registry_answer = "(WorkerRegistryError + worker_node \<times> coordinator_lease) option"

definition upsert_and_lease :: "chrono_add \<Rightarrow> ('url, 'ip) cluster_config \<Rightarrow> datetime
    \<Rightarrow> mount_challenge \<Rightarrow> datetime \<Rightarrow> (datetime \<Rightarrow> upsert_worker_node) \<Rightarrow> worker_table
    \<Rightarrow> registry_answer \<times> worker_table" where
  "upsert_and_lease add cfg clock ch received_at row t =
     (case lease_expires_at add cfg received_at of
        None \<Rightarrow> (None, t)
      | Some expires \<Rightarrow> (case upsert_heartbeat clock (row expires) t of
            (Inl e, t') \<Rightarrow> (Some (Err (Database e)), t')
          | (Inr worker, t') \<Rightarrow>
              (map_option (\<lambda>l. Ok (worker, l)) (lease_of cfg worker (ch_probe ch) expires), t')))"

definition registration_row ::
  "worker_registration \<Rightarrow> WorkerMountStatus \<times> string option \<Rightarrow> datetime \<Rightarrow> datetime \<Rightarrow> upsert_worker_node" where
  "registration_row reg mount received_at expires =
     \<lparr> uw_id = authority_worker_node_id (wr_authority reg), uw_hostname = wr_hostname reg,
       uw_worker_version = wr_worker_version reg, uw_vibe_version = wr_vibe_version reg,
       uw_capabilities = capabilities_to_value (wr_capabilities reg),
       uw_resource_snapshot = resources_to_value (wr_resources reg),
       uw_labels = labels_to_value (wr_labels reg), uw_mount_status = fst mount,
       uw_mount_message = snd mount, uw_heartbeat_at = received_at,
       uw_lease_expires_at = expires \<rparr>"

definition register :: "chrono_add \<Rightarrow> ('url, 'ip) cluster_config \<Rightarrow> datetime \<Rightarrow> worker_registration
    \<Rightarrow> mount_challenge \<Rightarrow> datetime \<Rightarrow> worker_table \<Rightarrow> registry_answer \<times> worker_table" where
  "register add cfg clock reg ch received_at t =
     (case try_bind (validate_authority cfg (protocol_version (wr_authority reg))
                       (coordinator_id (wr_authority reg)))
             (\<lambda>_. map_err InvalidMountEvidence (validate_mount_evidence (wr_mount reg) ch)) of
        Inl e \<Rightarrow> (Some (Err e), t)
      | Inr mount \<Rightarrow> upsert_and_lease add cfg clock ch received_at
          (registration_row reg mount received_at) t)"

definition heartbeat_upsert :: "worker_heartbeat \<Rightarrow> worker_node
    \<Rightarrow> WorkerMountStatus \<times> string option \<Rightarrow> datetime \<Rightarrow> datetime \<Rightarrow> upsert_worker_node" where
  "heartbeat_upsert hb current mount received_at expires =
     \<lparr> uw_id = authority_worker_node_id (wh_authority hb), uw_hostname = wn_hostname current,
       uw_worker_version = wn_worker_version current, uw_vibe_version = wn_vibe_version current,
       uw_capabilities = wn_capabilities current,
       uw_resource_snapshot = resources_to_value (wh_resources hb),
       uw_labels = wn_labels current, uw_mount_status = fst mount,
       uw_mount_message = snd mount, uw_heartbeat_at = received_at,
       uw_lease_expires_at = expires \<rparr>"

definition heartbeat :: "chrono_add \<Rightarrow> ('url, 'ip) cluster_config \<Rightarrow> datetime \<Rightarrow> worker_heartbeat
    \<Rightarrow> mount_challenge \<Rightarrow> datetime \<Rightarrow> worker_table \<Rightarrow> registry_answer \<times> worker_table" where
  "heartbeat add cfg clock hb ch received_at t =
     (let i = authority_worker_node_id (wh_authority hb) in
      case try_bind (validate_authority cfg (protocol_version (wh_authority hb))
                       (coordinator_id (wh_authority hb))) (\<lambda>_.
           try_bind (ok_or (find_worker i t) (WorkerNotRegistered i)) (\<lambda>current.
           map_err InvalidMountEvidence (try_bind (validate_mount_evidence (wh_mount hb) ch) (\<lambda>mount.
             Ok (current, mount))))) of
        Inl e \<Rightarrow> (Some (Err e), t)
      | Inr (current, mount) \<Rightarrow> upsert_and_lease add cfg clock ch received_at
          (heartbeat_upsert hb current mount received_at) t)"

section \<open>Keys and rows\<close>

interpretation workers: keyed_store "\<lambda>t i. find_worker i t" "sql_modify wn_id" "keeps_key wn_id"
  by unfold_locales (simp add: find_worker_def sql_find_modify)

lemma heartbeat_row_simps [simp]:
  "wn_id (heartbeat_row clock w r) = wn_id r"
  "wn_hostname (heartbeat_row clock w r) = uw_hostname w"
  "wn_status (heartbeat_row clock w r) = (if wn_status r = Draining then Draining else Online)"
  "wn_lease_expires_at (heartbeat_row clock w r) = Some (uw_lease_expires_at w)"
  "wn_last_heartbeat_at (heartbeat_row clock w r) = Some (uw_heartbeat_at w)"
  "wn_mount_status (heartbeat_row clock w r) = uw_mount_status w"
  "wn_worker_version (heartbeat_row clock w r) = uw_worker_version w"
  "wn_vibe_version (heartbeat_row clock w r) = uw_vibe_version w"
  "wn_capabilities (heartbeat_row clock w r) = uw_capabilities w"
  "wn_labels (heartbeat_row clock w r) = uw_labels w"
  "wn_created_at (heartbeat_row clock w r) = wn_created_at r"
  by (simp_all add: heartbeat_row_def)

lemma inserted_row_simps [simp]:
  "wn_id (inserted_row clock w) = uw_id w"
  "wn_hostname (inserted_row clock w) = uw_hostname w"
  "wn_status (inserted_row clock w) = Online"
  "wn_lease_expires_at (inserted_row clock w) = Some (uw_lease_expires_at w)"
  "wn_mount_status (inserted_row clock w) = uw_mount_status w"
  by (simp_all add: inserted_row_def)

lemma stamp_status_simps [simp]:
  "wn_id (stamp_status clock s r) = wn_id r"
  "wn_hostname (stamp_status clock s r) = wn_hostname r"
  "wn_status (stamp_status clock s r) = s"
  "wn_lease_expires_at (stamp_status clock s r) = wn_lease_expires_at r"
  by (simp_all add: stamp_status_def)

lemma keeps_id [simp]:
  "keeps_key wn_id (heartbeat_row clock w)" "keeps_key wn_id (stamp_status clock s)"
  by (simp_all add: keeps_key_def)

lemma find_worker_id: "find_worker i t = Some r \<Longrightarrow> wn_id r = i \<and> r \<in> set t"
  by (auto simp: find_worker_def dest: sql_find_Some)

lemma find_worker_mem: "worker_table_ok t \<Longrightarrow> r \<in> set t \<Longrightarrow> find_worker (wn_id r) t = Some r"
  by (simp add: find_worker_def sql_find_mem worker_table_ok_def)

lemma find_worker_append:
  "find_worker i (t @ [r]) = (case find_worker i t of Some r' \<Rightarrow> Some r'
     | None \<Rightarrow> if wn_id r = i then Some r else None)"
  by (simp add: find_worker_def sql_find_append split: option.splits)

lemma mark_offline_table: "snd (mark_offline clock i t) = sql_modify wn_id t i (stamp_status clock Offline)"
  by (simp add: mark_offline_def sql_modify_def split_beta)

lemma set_draining_table:
  "snd (set_draining clock i d t) =
     sql_modify wn_id t i (stamp_status clock (if d then Draining else Offline))"
  by (simp add: set_draining_def sql_modify_def split_beta)

section \<open>The upsert\<close>

lemma upsert_heartbeat_cases:
  obtains (Taken) "hostname_taken w t" "upsert_heartbeat clock w t = (Err UniqueViolation, t)"
  | (Insert) "\<not> hostname_taken w t" "find_worker (uw_id w) t = None"
      "upsert_heartbeat clock w t = (Ok (inserted_row clock w), t @ [inserted_row clock w])"
  | (Update) r where "\<not> hostname_taken w t" "find_worker (uw_id w) t = Some r"
      "upsert_heartbeat clock w t =
         (Ok (heartbeat_row clock w r), sql_modify wn_id t (uw_id w) (heartbeat_row clock w))"
proof (cases "hostname_taken w t")
  case True
  then show ?thesis by (intro Taken) (simp_all add: upsert_heartbeat_def)
next
  case fresh: False
  show ?thesis
  proof (cases "find_worker (uw_id w) t")
    case None
    with fresh show ?thesis
      by (intro Insert) (simp_all add: upsert_heartbeat_def find_worker_append)
  next
    case (Some r)
    with fresh show ?thesis
      by (intro Update) (simp_all add: upsert_heartbeat_def workers.lookup_modify)
  qed
qed

lemma upsert_heartbeat_other:
  "upsert_heartbeat clock w t = (x, t') \<Longrightarrow> i \<noteq> uw_id w \<Longrightarrow> find_worker i t' = find_worker i t"
  by (cases rule: upsert_heartbeat_cases [of w t clock])
    (auto simp: find_worker_append workers.lookup_modify split: option.splits)

lemma distinct_map_replace:
  assumes "distinct (map f t)" "distinct (map g t)"
    and "\<And>r. g (h r) = a" "\<And>r. r \<in> set t \<Longrightarrow> g r = a \<Longrightarrow> f r = i"
  shows "distinct (map g (map (\<lambda>r. if f r = i then h r else r) t))"
proof -
  have "inj_on (\<lambda>r. if f r = i then a else g r) (set t)"
    using assms by (auto simp: inj_on_def distinct_map)
  then have "distinct (map (\<lambda>r. if f r = i then a else g r) t)"
    using assms(1) by (simp add: distinct_map)
  moreover have "map g (map (\<lambda>r. if f r = i then h r else r) t)
      = map (\<lambda>r. if f r = i then a else g r) t"
    using assms(3) by simp
  ultimately show ?thesis by (simp only:)
qed

lemma upsert_heartbeat_table_ok:
  assumes "worker_table_ok t" "upsert_heartbeat clock w t = (x, t')"
  shows "worker_table_ok t'"
proof (cases rule: upsert_heartbeat_cases [of w t clock])
  case Taken
  with assms show ?thesis by simp
next
  case Insert
  have "uw_hostname w \<notin> wn_hostname ` set t" "uw_id w \<notin> wn_id ` set t"
    using Insert(1,2)
    by (auto simp: hostname_taken_def find_worker_def sql_find_None) (metis image_eqI)
  with Insert assms show ?thesis by (auto simp: worker_table_ok_def keyed_def)
next
  case (Update r)
  have "keyed wn_id t'"
    using Update assms unfolding worker_table_ok_def sql_modify_def
    by (auto intro!: keyed_sql_update)
  moreover have "distinct (map wn_hostname
      (map (\<lambda>r. if wn_id r = uw_id w then heartbeat_row clock w r else r) t))"
    by (rule distinct_map_replace [where a = "uw_hostname w"])
      (use Update assms in \<open>auto simp: worker_table_ok_def keyed_def hostname_taken_def\<close>)
  ultimately show ?thesis
    using Update assms
    by (simp add: worker_table_ok_def keyed_def sql_modify_def sql_update_def)
qed

section \<open>Invariant\<close>

text \<open>Everything that writes the table.\<close>

inductive registry_step :: "chrono_add \<Rightarrow> ('url, 'ip) cluster_config \<Rightarrow> worker_table \<Rightarrow> worker_table \<Rightarrow> bool"
  for add :: chrono_add and cfg :: "('url, 'ip) cluster_config" where
  step_register: "registry_step add cfg t (snd (register add cfg clock reg ch now t))"
| step_heartbeat: "registry_step add cfg t (snd (heartbeat add cfg clock hb ch now t))"
| step_set_draining: "registry_step add cfg t (snd (set_draining clock i d t))"
| step_expire: "registry_step add cfg t (snd (expire_leases clock now t))"
| step_mark_offline: "registry_step add cfg t (snd (mark_offline clock i t))"

lemma upsert_and_lease_table_ok:
  "worker_table_ok t \<Longrightarrow> worker_table_ok (snd (upsert_and_lease add cfg clock ch now row t))"
  by (auto simp: upsert_and_lease_def dest: upsert_heartbeat_table_ok
      split: option.splits prod.splits sum.splits)

lemma stamped_table_ok:
  "worker_table_ok t \<Longrightarrow> worker_table_ok (snd (sql_update p (stamp_status clock s) t))"
  by (auto simp: worker_table_ok_def intro!: keyed_sql_update)

interpretation registry: invariant_system "\<lambda>t. t = []" "registry_step add cfg" worker_table_ok
  for add :: chrono_add and cfg :: "('url, 'ip) cluster_config"
proof
  show "s = [] \<Longrightarrow> worker_table_ok s" for s
    by (simp add: worker_table_ok_def keyed_def)
  show "worker_table_ok s \<Longrightarrow> registry_step add cfg s t \<Longrightarrow> worker_table_ok t" for s t
    by (auto elim!: registry_step.cases
        simp: register_def heartbeat_def Let_def upsert_and_lease_table_ok mark_offline_table
          set_draining_table sql_modify_def expire_leases_def stamped_table_ok split: sum.splits)
qed

text \<open>
  C40: in every state the registry can reach from an empty table, a worker id and a host name
  each belong to at most one row, so a lookup by id returns the one row that has it.
\<close>

theorem registry_rows_unique:
  assumes "reach (\<lambda>t. t = []) (registry_step add cfg) t" "r \<in> set t"
  shows "find_worker (wn_id r) t = Some r
    \<and> (\<forall>r' \<in> set t. wn_hostname r' = wn_hostname r \<longrightarrow> r' = r)"
proof -
  have ok: "worker_table_ok t" using assms(1) by (rule registry.inv_reach)
  then have "find_worker (wn_id r) t = Some r" using assms(2) by (rule find_worker_mem)
  moreover have "\<forall>r' \<in> set t. wn_hostname r' = wn_hostname r \<longrightarrow> r' = r"
    using ok assms(2) by (auto simp: worker_table_ok_def keyed_def distinct_map dest: inj_onD)
  ultimately show ?thesis ..
qed

section \<open>Admission of a request\<close>

lemma validate_authority_Ok:
  "validate_authority cfg v c = Inr u \<longleftrightarrow> v = PROTOCOL_VERSION \<and> cc_coordinator_id cfg = Some c"
  by (auto simp: validate_authority_def split: if_splits)

lemma bounded_field_Ok: "bounded_field f v mx = Inr u \<longleftrightarrow> v \<noteq> [] \<and> length v \<le> mx"
  by (auto simp: bounded_field_def)

text \<open>
  Mount evidence makes a worker healthy exactly when it echoes the challenged probe and
  the expected file system identifier, both non-empty and within 256 bytes; every other
  evidence is an error or a failure status.
\<close>

theorem healthy_evidence_exact:
  "validate_mount_evidence evidence ch = Ok (MsHealthy, m) \<longleftrightarrow>
     m = None \<and> evidence = Healthy (ch_expected_filesystem_id ch) (probe_id (ch_probe ch))
     \<and> ch_expected_filesystem_id ch \<noteq> [] \<and> length (ch_expected_filesystem_id ch) \<le> 256
     \<and> probe_id (ch_probe ch) \<noteq> [] \<and> length (probe_id (ch_probe ch)) \<le> 256"
proof (cases evidence)
  case (Healthy fs p)
  then show ?thesis
    by (auto simp: validate_mount_evidence_def bounded_field_Ok MAX_MOUNT_ID_BYTES_def)
next
  case (Unhealthy reason msg)
  then show ?thesis
    by (cases reason) (auto simp: validate_mount_evidence_def)
qed

lemma upsert_and_lease_Err:
  "upsert_and_lease add cfg clock ch now row t = (Some (Inl e), t') \<Longrightarrow> t' = t"
  by (auto simp: upsert_and_lease_def upsert_heartbeat_def Let_def
      split: option.splits sum.splits prod.splits if_splits)
    (simp_all add: find_worker_append workers.lookup_modify)

text \<open>
  A registration or heartbeat that is answered with an error (wrong protocol version,
  wrong or missing coordinator, unknown worker, bad mount evidence, host name owned by another
  worker) leaves the table as it was.
\<close>

theorem refused_requests_change_nothing:
  "(register add cfg clock reg ch now t = (Some (Err e), t') \<longrightarrow> t' = t)
    \<and> (heartbeat add cfg clock hb ch now t = (Some (Err e), t') \<longrightarrow> t' = t)"
  by (auto simp: register_def heartbeat_def Let_def split: sum.splits
      dest: upsert_and_lease_Err)

lemma upsert_and_lease_Ok:
  assumes "upsert_and_lease add cfg clock ch now row t = (Some (Inr (w, l)), t')"
  obtains expires where
    "add now (cc_lease_duration cfg) = Some expires"
    "upsert_heartbeat clock (row expires) t = (Inr w, t')"
    "lease_of cfg w (ch_probe ch) expires = Some l"
  using assms
  by (auto simp: upsert_and_lease_def lease_expires_at_def split: option.splits sum.splits prod.splits)

text \<open>
  An accepted heartbeat comes from a registered worker of this coordinator and protocol;
  it keeps the worker's host name, versions, capabilities and labels, keeps a draining worker
  draining and makes every other one online, renews the lease by exactly the configured
  duration, tells the worker whether it is draining, and changes no other row.
\<close>

theorem heartbeat_effect:
  assumes "heartbeat add cfg clock hb ch now t = (Some (Ok (w, l)), t')"
  shows "\<exists>current expires.
    protocol_version (wh_authority hb) = PROTOCOL_VERSION
    \<and> cc_coordinator_id cfg = Some (coordinator_id (wh_authority hb))
    \<and> find_worker (authority_worker_node_id (wh_authority hb)) t = Some current
    \<and> find_worker (authority_worker_node_id (wh_authority hb)) t' = Some w
    \<and> (wn_hostname w, wn_worker_version w, wn_vibe_version w, wn_capabilities w, wn_labels w)
      = (wn_hostname current, wn_worker_version current, wn_vibe_version current,
         wn_capabilities current, wn_labels current)
    \<and> wn_status w = (if wn_status current = Draining then Draining else Online)
    \<and> add now (cc_lease_duration cfg) = Some expires
    \<and> wn_lease_expires_at w = Some expires \<and> lease_expires l = expires
    \<and> lease_draining l = (wn_status current = Draining)
    \<and> (\<forall>i. i \<noteq> authority_worker_node_id (wh_authority hb) \<longrightarrow> find_worker i t' = find_worker i t)"
proof -
  let ?i = "authority_worker_node_id (wh_authority hb)"
  obtain current mount where
    adm: "protocol_version (wh_authority hb) = PROTOCOL_VERSION"
      "cc_coordinator_id cfg = Some (coordinator_id (wh_authority hb))"
      "find_worker ?i t = Some current"
    and up: "upsert_and_lease add cfg clock ch now (heartbeat_upsert hb current mount now) t
        = (Some (Inr (w, l)), t')"
    using assms
    by (auto simp: heartbeat_def Let_def validate_authority_Ok split: sum.splits)
  obtain expires where e: "add now (cc_lease_duration cfg) = Some expires"
    and u: "upsert_heartbeat clock (heartbeat_upsert hb current mount now expires) t = (Inr w, t')"
    and l: "lease_of cfg w (ch_probe ch) expires = Some l"
    using up by (rule upsert_and_lease_Ok)
  let ?u = "heartbeat_upsert hb current mount now expires"
  have id: "uw_id ?u = ?i" by (simp add: heartbeat_upsert_def)
  have w: "w = heartbeat_row clock ?u current"
    and t': "t' = sql_modify wn_id t ?i (heartbeat_row clock ?u)"
    using u adm(3) id by (cases rule: upsert_heartbeat_cases [of ?u t clock]; auto)+
  have "find_worker ?i t' = Some w"
    using adm(3) by (simp add: t' w workers.lookup_modify)
  moreover have "\<forall>i. i \<noteq> ?i \<longrightarrow> find_worker i t' = find_worker i t"
    by (simp add: t' workers.lookup_modify)
  moreover have "lease_expires l = expires" "lease_draining l = (wn_status w = Draining)"
    using l by (auto simp: lease_of_def split: if_splits)
  ultimately show ?thesis
    using adm e by (intro exI [of _ current] exI [of _ expires])
      (auto simp: w heartbeat_upsert_def)
qed

section \<open>Lease expiry\<close>

text \<open>
  Expiring leases turns exactly the online workers whose lease is missing or not after
  \<open>now\<close> offline, reports how many they were, and leaves draining, offline and live workers as
  they are.
\<close>

theorem expire_leases_exact:
  assumes "expire_leases clock now t = (n, t')"
  shows "n = length (filter (\<lambda>r. wn_status r = Online \<and> lease_lapsed now r) t)
    \<and> (\<forall>i. find_worker i t' = (case find_worker i t of None \<Rightarrow> None
         | Some r \<Rightarrow> Some (if wn_status r = Online \<and> lease_lapsed now r
                           then stamp_status clock Offline r else r)))"
proof -
  have t': "t' = snd (sql_update (\<lambda>r. wn_status r = Online \<and> lease_lapsed now r)
      (stamp_status clock Offline) t)"
    using assms by (simp add: expire_leases_def)
  have "find_worker i t' = map_option (\<lambda>r. if wn_status r = Online \<and> lease_lapsed now r
      then stamp_status clock Offline r else r) (find_worker i t)" for i
    unfolding t' find_worker_def by (rule sql_find_update) simp
  moreover have "n = length (filter (\<lambda>r. wn_status r = Online \<and> lease_lapsed now r) t)"
    using assms by (simp add: expire_leases_def sql_update_def)
  ultimately show ?thesis by (auto split: option.splits)
qed

section \<open>Two behaviours the code does not mean\<close>

text \<open>
  Draining is lost when a draining worker is marked offline: after the next accepted
  heartbeat the worker is online, not draining. (\<open>mark_offline\<close> overwrites the status without
  looking at it, and a heartbeat only preserves the value \<open>draining\<close>.)
\<close>

theorem drain_lost_after_mark_offline:
  assumes "find_worker (authority_worker_node_id (wh_authority hb)) t = Some r"
    and "wn_status r = Draining"
    and "heartbeat add cfg clock' hb ch now
      (snd (mark_offline clock (authority_worker_node_id (wh_authority hb)) t)) = (Some (Ok (w, l)), t')"
  shows "wn_status w = Online \<and> \<not> lease_draining l"
proof -
  let ?t = "snd (mark_offline clock (authority_worker_node_id (wh_authority hb)) t)"
  have off: "find_worker (authority_worker_node_id (wh_authority hb)) ?t = Some (stamp_status clock Offline r)"
    using assms(1) by (simp add: mark_offline_table workers.lookup_modify)
  obtain mount where
    up: "upsert_and_lease add cfg clock' ch now
        (heartbeat_upsert hb (stamp_status clock Offline r) mount now) ?t = (Some (Inr (w, l)), t')"
    using assms(3) off by (auto simp: heartbeat_def Let_def split: sum.splits)
  obtain expires where
    u: "upsert_heartbeat clock' (heartbeat_upsert hb (stamp_status clock Offline r) mount now expires) ?t
       = (Inr w, t')" (is "upsert_heartbeat clock' ?u ?t = _")
    and l: "lease_of cfg w (ch_probe ch) expires = Some l"
    using up by (rule upsert_and_lease_Ok)
  have "uw_id ?u = authority_worker_node_id (wh_authority hb)" by (simp add: heartbeat_upsert_def)
  then have "wn_status w = Online"
    using u off by (cases rule: upsert_heartbeat_cases [of ?u ?t clock']) auto
  with l show ?thesis by (auto simp: lease_of_def split: if_splits)
qed

text \<open>
  The configuration check does not bound the heartbeat interval, so with an interval of
  \<open>2 ^ 32\<close> seconds or more a registration that passes every check writes its row and then
  panics instead of answering.
\<close>

theorem register_panics_on_long_interval:
  assumes "validate_config cfg = Ok ()" "2 ^ 32 \<le> unat (cc_heartbeat_interval cfg)"
    and "protocol_version (wr_authority reg) = PROTOCOL_VERSION"
    and "cc_coordinator_id cfg = Some (coordinator_id (wr_authority reg))"
    and "validate_mount_evidence (wr_mount reg) ch = Ok mount"
    and "add now (cc_lease_duration cfg) = Some expires"
    and "\<not> hostname_taken (registration_row reg mount now expires) t"
  shows "\<exists>w t'. register add cfg clock reg ch now t = (None, t')
    \<and> find_worker (authority_worker_node_id (wr_authority reg)) t' = Some w
    \<and> wn_hostname w = wr_hostname reg"
proof -
  let ?u = "registration_row reg mount now expires"
  have [simp]: "uw_id ?u = authority_worker_node_id (wr_authority reg)"
    "uw_hostname ?u = wr_hostname reg" by (simp_all add: registration_row_def)
  have "validate_authority cfg (protocol_version (wr_authority reg))
      (coordinator_id (wr_authority reg)) = Inr ()"
    using assms(3,4) by (simp add: validate_authority_Ok)
  then have "register add cfg clock reg ch now t
      = upsert_and_lease add cfg clock ch now (registration_row reg mount now) t"
    using assms(5) by (simp add: register_def)
  then show ?thesis
    using assms(2,6,7)
    by (cases rule: upsert_heartbeat_cases [of ?u t clock])
      (auto simp: upsert_and_lease_def lease_expires_at_def lease_of_def find_worker_append
        workers.lookup_modify)
qed

section \<open>Witnesses\<close>

definition demo_authority :: request_authority where
  "demo_authority = \<lparr> protocol_version = 1, coordinator_id = 7, authority_worker_node_id = 3,
     correlation_id = 0, issued_at = 0, nonce = ''n'' \<rparr>"

definition demo_probe :: mount_probe where
  "demo_probe = \<lparr> probe_id = ''p1'', probe_relative_path = ''probe'',
     probe_expected_contents_digest = ''d'' \<rparr>"

definition demo_challenge :: mount_challenge where
  "demo_challenge = \<lparr> ch_probe = demo_probe, ch_expected_filesystem_id = ''nfs:x'' \<rparr>"

definition demo_resources :: resource_snapshot where
  "demo_resources = \<lparr> rs_cpu_count = 8, rs_load_1m = FFin 1, rs_available_memory_bytes = 1024,
     rs_active_execution_count = 2, rs_memory_pressure_full_avg60 = None,
     rs_io_pressure_full_avg60 = None, rs_admission_refusing = False \<rparr>"

definition demo_registration :: worker_registration where
  "demo_registration = \<lparr> wr_authority = demo_authority, wr_hostname = ''think3'',
     wr_worker_version = ''1'', wr_vibe_version = ''1'',
     wr_capabilities = \<lparr> wc_executor_profiles = [''CLAUDE_CODE''], wc_terminal = True,
       wc_preview = True, wc_persistent_process_adoption = False \<rparr>,
     wr_resources = demo_resources, wr_labels = [], wr_mount = Healthy ''nfs:x'' ''p1'' \<rparr>"

definition demo_heartbeat :: worker_heartbeat where
  "demo_heartbeat = \<lparr> wh_authority = demo_authority, wh_resources = demo_resources,
     wh_mount = Healthy ''nfs:x'' ''p1'', wh_jobs = [] \<rparr>"

definition demo_add :: chrono_add where
  "demo_add t s = Some (t + int (unat s))"

definition demo_cluster :: "(string, string) cluster_config" where
  "demo_cluster = default_config\<lparr> cc_enabled := True, cc_coordinator_id := Some 7 \<rparr>"

definition demo_row :: "WorkerNodeStatus \<Rightarrow> worker_node" where
  "demo_row s = (inserted_row 0 (registration_row demo_registration (MsHealthy, None) 100 130))\<lparr>
     wn_status := s \<rparr>"

lemmas demo_defs = demo_authority_def demo_probe_def demo_challenge_def demo_resources_def
  demo_registration_def demo_heartbeat_def demo_add_def demo_cluster_def demo_row_def
  default_config_def default_weights_def PROTOCOL_VERSION_def

lemmas registry_eval = register_def heartbeat_def Let_def upsert_and_lease_def lease_expires_at_def
  lease_of_def upsert_heartbeat_def hostname_taken_def find_worker_def sql_modify_def sql_update_def
  validate_authority_def validate_mount_evidence_def bounded_field_def MAX_MOUNT_ID_BYTES_def
  inserted_row_def heartbeat_row_def registration_row_def heartbeat_upsert_def

lemma demo_register:
  "register demo_add demo_cluster 0 demo_registration demo_challenge 100 [] =
    (Some (Inr (demo_row Online, \<lparr> accepted_protocol_version = 1, heartbeat_interval_seconds = 10,
       lease_expires = 130, lease_draining = False, lease_probe = demo_probe \<rparr>)), [demo_row Online])"
  by (simp add: registry_eval demo_defs)

theorem registry_rows_unique_witness:
  "find_worker 3 [demo_row Online] = Some (demo_row Online)"
proof -
  have "registry_step demo_add demo_cluster [] [demo_row Online]"
    using step_register [of demo_add demo_cluster "[]" 0 demo_registration demo_challenge 100]
    by (simp add: demo_register)
  then have "reach (\<lambda>t. t = []) (registry_step demo_add demo_cluster) [demo_row Online]"
    by (rule reach_step [rotated]) (simp add: reach_start)
  from registry_rows_unique [OF this, of "demo_row Online"]
  show ?thesis by (simp add: demo_defs registration_row_def)
qed

lemma demo_refused_register:
  "register demo_add demo_cluster 0 (demo_registration\<lparr> wr_mount := Healthy ''nfs:x'' ''p2'' \<rparr>)
     demo_challenge 100 [] = (Some (Inl (InvalidMountEvidence (ProbeMismatch ''p1'' ''p2''))), [])"
  by (simp add: registry_eval demo_defs)

theorem refused_requests_change_nothing_witness:
  "snd (register demo_add demo_cluster 0 (demo_registration\<lparr> wr_mount := Healthy ''nfs:x'' ''p2'' \<rparr>)
     demo_challenge 100 []) = []"
  using refused_requests_change_nothing
    [THEN conjunct1, THEN mp, OF demo_refused_register] demo_refused_register by simp

definition demo_drained :: worker_node where
  "demo_drained = fst (projr (the (fst (heartbeat demo_add demo_cluster 5 demo_heartbeat
     demo_challenge 110 [demo_row Draining]))))"

lemma demo_heartbeat_draining:
  "heartbeat demo_add demo_cluster 5 demo_heartbeat demo_challenge 110 [demo_row Draining] =
    (Some (Inr (demo_drained, \<lparr> accepted_protocol_version = 1, heartbeat_interval_seconds = 10,
       lease_expires = 140, lease_draining = True, lease_probe = demo_probe \<rparr>)), [demo_drained])"
  by (simp add: demo_drained_def registry_eval demo_defs)

theorem heartbeat_effect_witness:
  "wn_status demo_drained = Draining \<and> wn_lease_expires_at demo_drained = Some 140"
  using heartbeat_effect [OF demo_heartbeat_draining]
  by (auto simp: demo_heartbeat_def demo_authority_def demo_row_def find_worker_def
      inserted_row_def registration_row_def demo_registration_def)

theorem expire_leases_exact_witness:
  "find_worker 3 (snd (expire_leases 9 130 [demo_row Online]))
     = Some (stamp_status 9 Offline (demo_row Online))"
proof -
  have "expire_leases 9 130 [demo_row Online]
      = (fst (expire_leases 9 130 [demo_row Online]), snd (expire_leases 9 130 [demo_row Online]))"
    by simp
  from expire_leases_exact [OF this, THEN conjunct2, THEN spec, of 3]
  show ?thesis
    by (simp add: find_worker_def demo_row_def inserted_row_def registration_row_def
        demo_registration_def demo_authority_def lease_lapsed_def)
qed

definition demo_undrained :: worker_node where
  "demo_undrained = fst (projr (the (fst (heartbeat demo_add demo_cluster 5 demo_heartbeat
     demo_challenge 110 (snd (mark_offline 4 3 [demo_row Draining]))))))"

theorem drain_lost_after_mark_offline_witness:
  "wn_status demo_undrained = Online"
proof -
  have hb: "heartbeat demo_add demo_cluster 5 demo_heartbeat demo_challenge 110
      (snd (mark_offline 4 (authority_worker_node_id (wh_authority demo_heartbeat)) [demo_row Draining]))
    = (Some (Inr (demo_undrained, \<lparr> accepted_protocol_version = 1, heartbeat_interval_seconds = 10,
       lease_expires = 140, lease_draining = False, lease_probe = demo_probe \<rparr>)), [demo_undrained])"
    by (simp add: demo_undrained_def registry_eval demo_defs mark_offline_def stamp_status_def)
  have "find_worker (authority_worker_node_id (wh_authority demo_heartbeat)) [demo_row Draining]
      = Some (demo_row Draining)"
    by (simp add: registry_eval demo_defs)
  from drain_lost_after_mark_offline [OF this _ hb] show ?thesis
    by (simp add: demo_row_def)
qed

theorem register_panics_on_long_interval_witness:
  "fst (register demo_add (demo_cluster\<lparr> cc_heartbeat_interval := 0x100000000,
       cc_lease_duration := 0x100000001 \<rparr>) 0 demo_registration demo_challenge 100 []) = None"
proof -
  let ?cfg = "demo_cluster\<lparr> cc_heartbeat_interval := 0x100000000, cc_lease_duration := 0x100000001 \<rparr>"
  have "validate_config ?cfg = Inr ()" "2 ^ 32 \<le> unat (cc_heartbeat_interval ?cfg)"
    "protocol_version (wr_authority demo_registration) = PROTOCOL_VERSION"
    "cc_coordinator_id ?cfg = Some (coordinator_id (wr_authority demo_registration))"
    "validate_mount_evidence (wr_mount demo_registration) demo_challenge = Inr (MsHealthy, None)"
    "demo_add 100 (cc_lease_duration ?cfg) = Some 4294967397"
    "\<not> hostname_taken (registration_row demo_registration (MsHealthy, None) 100 4294967397) []"
    by (simp_all add: demo_defs registry_eval validate_config_def path_is_absolute_def)
  from register_panics_on_long_interval [where add = demo_add and now = 100 and clock = 0, OF this]
  show ?thesis by auto
qed

end
