(* ===== verification/Scheduler.thy ===== *)
theory Scheduler
  imports Worker_Registry
begin

text \<open>
  Placement of workspaces on workers (\<open>crates/services/src/services/cluster/scheduler.rs\<close>):
  which workers are eligible, which of them is chosen, and whether a workspace's assigned
  worker can still be dispatched to. Double-precision arithmetic rounds with the parameter
  \<open>rnd\<close>; the texts of a time stamp and of a UUID are parameters of the error message.
\<close>

definition ADMISSION_REFUSING_PENALTY :: f64 where
  "ADMISSION_REFUSING_PENALTY = FFin 1000"

datatype IneligibleReason = NotOnline | UnhealthyMount | MissingOrExpiredLease | MissingExecutor

datatype SchedulingError =
    NoEligibleWorkers string
  | RequestedWorkerNotFound uuid
  | RequestedWorkerIneligible uuid IneligibleReason

section \<open>Eligibility\<close>

definition advertises_executor_profile :: "string \<Rightarrow> string \<Rightarrow> bool" where
  "advertises_executor_profile advertised requested \<longleftrightarrow>
     advertised = requested \<or>
     (CHR '':'' \<notin> set advertised \<and>
      is_some_and (split_once (CHR '':'') requested) (\<lambda>(executor, _). executor = advertised))"

definition advertised_profiles :: "worker_node \<Rightarrow> string list option" where
  "advertised_profiles w = map_option (List.map_filter as_str)
     (Option.bind (json_get ''executor_profiles'' (wn_capabilities w)) as_array)"

definition eligibility :: "worker_node \<Rightarrow> string \<Rightarrow> datetime \<Rightarrow> IneligibleReason + unit" where
  "eligibility w profile now =
     (if wn_status w \<noteq> Online then Err NotOnline
      else if wn_mount_status w \<noteq> MsHealthy then Err UnhealthyMount
      else if is_none_or (wn_lease_expires_at w) (\<lambda>e. e \<le> now) then Err MissingOrExpiredLease
      else if \<not> is_some_and (advertised_profiles w)
                 (\<lambda>ps. \<exists>p \<in> set ps. advertises_executor_profile p profile)
      then Err MissingExecutor
      else Ok ())"

section \<open>Ranking\<close>

definition metric :: "rounding \<Rightarrow> worker_node \<Rightarrow> string \<Rightarrow> f64 option" where
  "metric rnd w name =
     (case Option.bind (json_get name (wn_resource_snapshot w)) (as_f64 rnd) of
        None \<Rightarrow> None
      | Some v \<Rightarrow> if is_finite v \<and> FFin 0 \<le> v then Some v else None)"

definition refusing :: "worker_node \<Rightarrow> bool" where
  "refusing w = (case Option.bind (json_get ''admission_refusing'' (wn_resource_snapshot w)) as_bool of
     None \<Rightarrow> False | Some b \<Rightarrow> b)"

definition score :: "rounding \<Rightarrow> scheduling_weights \<Rightarrow> worker_node \<Rightarrow> f64" where
  "score rnd wts w =
     (let penalty = (if refusing w then ADMISSION_REFUSING_PENALTY else FFin 0) in
      case (metric rnd w ''load_1m'', metric rnd w ''active_execution_count'') of
        (Some load, Some active) \<Rightarrow>
          fadd rnd (fadd rnd (fmul rnd (sw_load wts) load)
                             (fmul rnd (sw_active_executions wts) active)) penalty
      | _ \<Rightarrow> FInf)"

definition rank :: "rounding \<Rightarrow> scheduling_weights \<Rightarrow> worker_node \<Rightarrow> f64 \<times> uuid" where
  "rank rnd wts w = (score rnd wts w, wn_id w)"

definition select :: "rounding \<Rightarrow> scheduling_weights \<Rightarrow> worker_node list \<Rightarrow> string \<Rightarrow> uuid option
    \<Rightarrow> datetime \<Rightarrow> SchedulingError + worker_node" where
  "select rnd wts workers profile requested now =
     (case requested of
        Some i \<Rightarrow>
          try_bind (ok_or (find (\<lambda>w. wn_id w = i) workers) (RequestedWorkerNotFound i)) (\<lambda>w.
            case eligibility w profile now of
              Inr _ \<Rightarrow> Ok w
            | Inl reason \<Rightarrow> Err (RequestedWorkerIneligible i reason))
      | None \<Rightarrow>
          ok_or (min_by_key (rank rnd wts)
                   (filter (\<lambda>w. is_ok (eligibility w profile now)) workers))
            (NoEligibleWorkers profile))"

section \<open>Dispatching to an assigned worker\<close>

datatype WorkerUnavailableReason = NotRegistered | UnavOffline | LeaseExpired | Refusing string

record worker_unavailable =
  wu_worker :: string
  wu_worker_node_id :: "uuid option"
  wu_last_heartbeat_at :: "datetime option"
  wu_reason :: WorkerUnavailableReason

definition unavailable_message :: "(datetime \<Rightarrow> string) \<Rightarrow> worker_unavailable \<Rightarrow> string" where
  "unavailable_message format_time u =
     (let last_seen = (case wu_last_heartbeat_at u of Some t \<Rightarrow> format_time t | None \<Rightarrow> ''never'');
          state = ''Execution server '' @ wu_worker u @
            (case wu_reason u of
               NotRegistered \<Rightarrow> '' is not registered with this coordinator.''
             | UnavOffline \<Rightarrow> '' is offline (last heartbeat '' @ last_seen @ '').''
             | LeaseExpired \<Rightarrow> '' has stopped responding (last heartbeat '' @ last_seen @ '').''
             | Refusing detail \<Rightarrow> '' is not accepting new executions: '' @ detail)
      in state @ '' Move this workspace to another execution server, or retry once ''
           @ wu_worker u @ '' recovers.'')"

definition dispatch_liveness ::
  "(uuid \<Rightarrow> string) \<Rightarrow> uuid \<Rightarrow> worker_node option \<Rightarrow> datetime \<Rightarrow> worker_unavailable + unit" where
  "dispatch_liveness uuid_text i worker now =
     (case worker of
        None \<Rightarrow> Err \<lparr> wu_worker = uuid_text i, wu_worker_node_id = Some i,
                   wu_last_heartbeat_at = None, wu_reason = NotRegistered \<rparr>
      | Some w \<Rightarrow>
          (let refuse = (\<lambda>reason. Err \<lparr> wu_worker = wn_hostname w, wu_worker_node_id = Some i,
                 wu_last_heartbeat_at = wn_last_heartbeat_at w, wu_reason = reason \<rparr>) in
           if wn_status w = Offline then refuse UnavOffline
           else if is_none_or (wn_lease_expires_at w) (\<lambda>e. e \<le> now) then refuse LeaseExpired
           else Ok ()))"

section \<open>Which workers are eligible\<close>

lemma advertises_iff:
  "advertises_executor_profile a r \<longleftrightarrow>
     a = r \<or> (CHR '':'' \<notin> set a \<and> (\<exists>variant. r = a @ CHR '':'' # variant))"
  unfolding advertises_executor_profile_def is_some_and_iff by (auto simp: split_once_Some)

text \<open>
  A worker is eligible exactly when it is online with a healthy mount and a lease that ends
  after now, and advertises either the requested profile itself or, unqualified, the executor
  of which the request names a variant.
\<close>

theorem eligibility_exact:
  "eligibility w profile now = Ok () \<longleftrightarrow>
     wn_status w = Online \<and> wn_mount_status w = MsHealthy
     \<and> (\<exists>e. wn_lease_expires_at w = Some e \<and> now < e)
     \<and> (\<exists>ps a. advertised_profiles w = Some ps \<and> a \<in> set ps
          \<and> (a = profile \<or> CHR '':'' \<notin> set a \<and> (\<exists>variant. profile = a @ CHR '':'' # variant)))"
  by (auto simp: eligibility_def advertises_iff is_some_and_def is_none_or_def split: option.splits
      if_splits)

section \<open>Which eligible worker is chosen\<close>

text \<open>
  Without a requested worker, selection returns an eligible worker of least score, ties
  broken by the least id, and fails only when no worker is eligible.
\<close>

theorem select_optimal:
  "case select rnd wts workers profile None now of
     Inl e \<Rightarrow> e = NoEligibleWorkers profile \<and> (\<forall>w \<in> set workers. is_err (eligibility w profile now))
   | Inr w \<Rightarrow> w \<in> set workers \<and> eligibility w profile now = Ok ()
       \<and> (\<forall>w' \<in> set workers. is_ok (eligibility w' profile now) \<longrightarrow>
            score rnd wts w < score rnd wts w'
            \<or> score rnd wts w = score rnd wts w' \<and> wn_id w \<le> wn_id w')"
proof (cases "min_by_key (rank rnd wts) (filter (\<lambda>w. is_ok (eligibility w profile now)) workers)")
  case None
  then have "\<forall>w \<in> set workers. \<not> is_ok (eligibility w profile now)"
    by (simp only: min_by_key_None filter_empty_conv)
  then have "\<forall>w \<in> set workers. is_err (eligibility w profile now)"
    by (auto simp: is_ok_def is_err_def split: sum.splits)
  with None show ?thesis by (simp add: select_def)
next
  case (Some w)
  from min_by_key_Some [OF this] show ?thesis
    using Some by (auto simp: select_def rank_def is_ok_iff less_eq_prod_def)
qed

text \<open>
  The choice does not depend on the order in which the workers are listed: two lists with
  the same workers, ids unique, give the same answer.
\<close>

theorem select_order_independent:
  assumes "set workers = set workers'" "inj_on wn_id (set workers)"
  shows "select rnd wts workers profile requested now = select rnd wts workers' profile requested now"
proof (cases requested)
  case None
  let ?E = "filter (\<lambda>w. is_ok (eligibility w profile now))"
  have sets: "set (?E workers) = set (?E workers')" using assms(1) by auto
  have "min_by_key (rank rnd wts) (?E workers) = min_by_key (rank rnd wts) (?E workers')"
  proof (cases "min_by_key (rank rnd wts) (?E workers)")
    case None
    then have "?E workers = []" by (simp only: min_by_key_None)
    then have "?E workers' = []" using sets by (metis set_empty)
    with \<open>?E workers = []\<close> show ?thesis by simp
  next
    case (Some m)
    have "inj_on (rank rnd wts) (set (?E workers'))"
      using assms by (auto simp: inj_on_def rank_def)
    then have "min_by_key (rank rnd wts) (?E workers') = Some m"
      using min_by_key_Some [OF Some] sets by (intro min_by_key_unique) auto
    with Some show ?thesis by simp
  qed
  with None show ?thesis by (simp add: select_def)
next
  case (Some i)
  have "find (\<lambda>w. wn_id w = i) workers = find (\<lambda>w. wn_id w = i) workers'"
  proof (cases "find (\<lambda>w. wn_id w = i) workers'")
    case None
    then have "find (\<lambda>w. wn_id w = i) workers = None" using assms(1) by (auto simp: find_None_iff)
    with None show ?thesis by simp
  next
    case (Some w)
    then have w: "w \<in> set workers" "wn_id w = i" using assms(1) by (auto simp: find_Some_iff)
    then obtain w' where "find (\<lambda>w. wn_id w = i) workers = Some w'"
      by (cases "find (\<lambda>w. wn_id w = i) workers") (auto simp: find_None_iff)
    moreover from this have "w' \<in> set workers" "wn_id w' = i" by (auto simp: find_Some_iff)
    ultimately show ?thesis using w assms(2) Some by (auto dest: inj_onD)
  qed
  with Some show ?thesis by (simp add: select_def)
qed

text \<open>
  A requested worker is never replaced by another: the answer is that worker when it is
  eligible, and otherwise the error naming it and the first eligibility rule it breaks, or that
  it is not listed.
\<close>

theorem select_requested_exact:
  assumes "inj_on wn_id (set workers)"
  shows "(\<forall>w \<in> set workers. select rnd wts workers profile (Some (wn_id w)) now =
      (case eligibility w profile now of
         Inr _ \<Rightarrow> Ok w
       | Inl reason \<Rightarrow> Err (RequestedWorkerIneligible (wn_id w) reason)))
    \<and> (i \<notin> wn_id ` set workers \<longrightarrow>
      select rnd wts workers profile (Some i) now = Err (RequestedWorkerNotFound i))"
proof -
  have "find (\<lambda>v. wn_id v = wn_id w) workers = Some w" if "w \<in> set workers" for w
    using assms that by (induction workers) (auto dest: inj_onD)
  moreover have "find (\<lambda>v. wn_id v = i) workers = None" if "i \<notin> wn_id ` set workers"
    using that by (auto simp: find_None_iff)
  ultimately show ?thesis by (auto simp: select_def)
qed

section \<open>Workers that refuse admission\<close>

text \<open>What the ranking needs of rounding: it is monotone and exact on 0 and 1000.\<close>

definition rounding_ok :: "rounding \<Rightarrow> bool" where
  "rounding_ok rnd \<longleftrightarrow> (\<forall>a b. a \<le> b \<longrightarrow> rnd a \<le> rnd b) \<and> rnd 0 = FFin 0 \<and> rnd 1000 = FFin 1000"

lemma rounding_ok_mono: "rounding_ok rnd \<Longrightarrow> a \<le> b \<Longrightarrow> rnd a \<le> rnd b"
  by (simp add: rounding_ok_def)

lemma rounding_ok_ge: "rounding_ok rnd \<Longrightarrow> 0 \<le> a \<Longrightarrow> FFin 0 \<le> rnd a"
  unfolding rounding_ok_def by metis

lemma f64_ge0_cases:
  assumes "FFin 0 \<le> x"
  obtains (Fin) a where "x = FFin a" "0 \<le> a" | (Inf) "x = FInf" | (NaN) "x = FNaN"
  using assms by (cases x) (auto simp: less_eq_f64_def)

lemma f64_top [simp]: "FFin a \<le> FNaN" "\<not> FNaN < FFin a" "\<not> FNaN \<le> FFin a"
  by (simp_all add: less_eq_f64_def less_f64_def)

lemma fadd_ge0: "rounding_ok rnd \<Longrightarrow> FFin 0 \<le> x \<Longrightarrow> FFin 0 \<le> y \<Longrightarrow> FFin 0 \<le> fadd rnd x y"
  by (elim f64_ge0_cases) (auto simp: rounding_ok_ge)

lemma fmul_ge0:
  assumes "rounding_ok rnd" "weight_ok w" "is_finite x" "FFin 0 \<le> x"
  shows "FFin 0 \<le> fmul rnd w x"
  using assms by (cases w; cases x) (auto simp: weight_ok_def rounding_ok_ge)

lemma fadd_penalty:
  assumes "rounding_ok rnd" "FFin 0 \<le> x"
  shows "FFin 1000 \<le> fadd rnd x (FFin 1000)"
  using assms(2)
proof (cases rule: f64_ge0_cases)
  case (Fin a)
  have "rnd 1000 \<le> rnd (a + 1000)" by (rule rounding_ok_mono [OF assms(1)]) (simp add: Fin)
  moreover have "rnd 1000 = FFin 1000" using assms(1) by (simp add: rounding_ok_def)
  ultimately show ?thesis using Fin by simp
qed simp_all

lemma metric_Some: "metric rnd w name = Some v \<Longrightarrow> is_finite v \<and> FFin 0 \<le> v"
  by (auto simp: metric_def split: option.splits if_splits)

lemma refusing_score:
  assumes "rounding_ok rnd" "weight_ok (sw_load wts)" "weight_ok (sw_active_executions wts)"
    and "refusing w"
  shows "FFin 1000 \<le> score rnd wts w"
proof (cases "metric rnd w ''load_1m''"; cases "metric rnd w ''active_execution_count''")
  fix l a assume m: "metric rnd w ''load_1m'' = Some l" "metric rnd w ''active_execution_count'' = Some a"
  have "FFin 0 \<le> fadd rnd (fmul rnd (sw_load wts) l) (fmul rnd (sw_active_executions wts) a)"
    using assms metric_Some [OF m(1)] metric_Some [OF m(2)] by (simp add: fadd_ge0 fmul_ge0)
  then show ?thesis
    using assms m by (simp add: score_def Let_def ADMISSION_REFUSING_PENALTY_def fadd_penalty)
qed (simp_all add: score_def Let_def)

text \<open>
  With weights the configuration accepts, a worker that refuses admission is not chosen
  while some eligible worker that does not refuse scores below the penalty of 1000.
\<close>

theorem refusing_worker_last_resort:
  assumes "rounding_ok rnd" "weight_ok (sw_load wts)" "weight_ok (sw_active_executions wts)"
    and "select rnd wts workers profile None now = Ok w"
    and "w0 \<in> set workers" "eligibility w0 profile now = Ok ()" "score rnd wts w0 < FFin 1000"
  shows "\<not> refusing w"
proof
  assume "refusing w"
  then have "FFin 1000 \<le> score rnd wts w" using assms(1-3) by (rule refusing_score [rotated 3])
  moreover have "score rnd wts w \<le> score rnd wts w0"
  proof -
    have "min_by_key (rank rnd wts) (filter (\<lambda>w. is_ok (eligibility w profile now)) workers) = Some w"
      using assms(4) by (simp add: select_def)
    from min_by_key_Some [OF this] have "rank rnd wts w \<le> rank rnd wts w0"
      using assms(5,6) by auto
    then show ?thesis by (auto simp: rank_def less_eq_prod_def)
  qed
  ultimately show False using assms(7) by auto
qed

text \<open>
  The penalty does not rank a refusing worker after every other eligible one: an eligible
  worker that does not refuse but whose snapshot lacks the load metric scores infinity, and a
  refusing worker with a finite score is chosen before it.
\<close>

theorem refusing_worker_chosen_first:
  assumes "eligibility idle profile now = Ok ()" "\<not> refusing idle" "metric rnd idle ''load_1m'' = None"
    and "eligibility busy profile now = Ok ()" "refusing busy" "score rnd wts busy < FInf"
  shows "select rnd wts [idle, busy] profile None now = Ok busy"
proof -
  have "score rnd wts idle = FInf" using assms(3) by (simp add: score_def Let_def)
  then show ?thesis using assms by (simp add: select_def rank_def less_prod_def)
qed

section \<open>Dispatch\<close>

text \<open>
  Dispatch to an assigned worker is let through exactly when the worker is registered, not
  offline, and has a lease that ends after now; so every worker eligible for placement passes,
  and a draining worker with a live lease passes too.
\<close>

theorem dispatch_liveness_exact:
  "(dispatch_liveness uuid_text i worker now = Ok () \<longleftrightarrow>
      (\<exists>w e. worker = Some w \<and> wn_status w \<noteq> Offline \<and> wn_lease_expires_at w = Some e \<and> now < e))
   \<and> (eligibility w profile now = Ok () \<longrightarrow> dispatch_liveness uuid_text i (Some w) now = Ok ())"
  by (auto simp: dispatch_liveness_def eligibility_def Let_def is_none_or_def
      split: option.splits if_splits)

section \<open>Witnesses\<close>

definition demo_caps :: json where
  "demo_caps = capabilities_to_value \<lparr> wc_executor_profiles = [''CLAUDE_CODE''], wc_terminal = True,
     wc_preview = True, wc_persistent_process_adoption = False \<rparr>"

definition demo_worker :: "uuid \<Rightarrow> string \<Rightarrow> json \<Rightarrow> worker_node" where
  "demo_worker i host res = \<lparr> wn_id = i, wn_hostname = host, wn_status = Online,
     wn_worker_version = ''1'', wn_vibe_version = ''1'', wn_capabilities = demo_caps,
     wn_resource_snapshot = res, wn_labels = JObj [], wn_mount_status = MsHealthy,
     wn_mount_message = None, wn_last_heartbeat_at = Some 0, wn_lease_expires_at = Some 30,
     wn_created_at = 0, wn_updated_at = 0 \<rparr>"

definition demo_busy :: worker_node where
  "demo_busy = demo_worker 1 ''a'' (resources_to_value (demo_resources\<lparr> rs_admission_refusing := True \<rparr>))"

definition demo_calm :: worker_node where
  "demo_calm = demo_worker 2 ''b'' (resources_to_value demo_resources)"

definition demo_silent :: worker_node where
  "demo_silent = demo_worker 3 ''c'' (JObj [])"

lemma demo_eligible:
  "eligibility (demo_worker i host res) ''CLAUDE_CODE:DEFAULT'' 10 = Inr ()"
  by (simp add: eligibility_exact demo_worker_def advertised_profiles_def demo_caps_def
      capabilities_to_value_def map_filter_def)

lemma demo_scores:
  "score FFin default_weights demo_busy = FFin 1003"
  "score FFin default_weights demo_calm = FFin 3"
  "score FFin default_weights demo_silent = FInf"
  by (simp_all add: score_def metric_def refusing_def demo_busy_def demo_calm_def demo_silent_def
      demo_worker_def demo_resources_def resources_to_value_def default_weights_def
      ADMISSION_REFUSING_PENALTY_def)

lemma rounding_ok_exact: "rounding_ok FFin"
  by (simp add: rounding_ok_def)

lemma demo_select:
  "select FFin default_weights [demo_busy, demo_calm] ''CLAUDE_CODE:DEFAULT'' None 10 = Inr demo_calm"
  by (simp add: select_def rank_def demo_busy_def demo_calm_def demo_eligible less_prod_def
      demo_scores [unfolded demo_busy_def demo_calm_def])

theorem select_optimal_witness:
  "select FFin default_weights [demo_busy, demo_calm] ''CLAUDE_CODE:DEFAULT'' None 10 = Inr demo_calm
    \<and> score FFin default_weights demo_calm < score FFin default_weights demo_busy"
  using select_optimal [where rnd = FFin and wts = default_weights
      and workers = "[demo_busy, demo_calm]" and profile = "''CLAUDE_CODE:DEFAULT''" and now = 10]
  by (simp add: demo_select demo_scores)

theorem select_order_independent_witness:
  "select FFin default_weights [demo_calm, demo_busy] ''CLAUDE_CODE:DEFAULT'' None 10 = Inr demo_calm"
  using select_order_independent [of "[demo_calm, demo_busy]" "[demo_busy, demo_calm]" FFin
      default_weights "''CLAUDE_CODE:DEFAULT''" None 10]
  by (simp add: demo_select insert_commute) (simp add: demo_calm_def demo_busy_def demo_worker_def)

theorem select_requested_exact_witness:
  "select FFin default_weights [demo_busy] ''CODEX'' (Some 9) 10 = Err (RequestedWorkerNotFound 9)"
  using select_requested_exact [of "[demo_busy]" FFin default_weights "''CODEX''" 10 9]
  by (simp add: demo_busy_def demo_worker_def)

theorem refusing_worker_last_resort_witness: "\<not> refusing demo_calm"
  using refusing_worker_last_resort [OF rounding_ok_exact _ _ demo_select, of demo_calm]
  by (simp add: demo_scores demo_calm_def demo_eligible default_weights_def weight_ok_def
      demo_scores [unfolded demo_calm_def default_weights_def])

theorem refusing_worker_chosen_first_witness:
  "select FFin default_weights [demo_silent, demo_busy] ''CLAUDE_CODE:DEFAULT'' None 10 = Inr demo_busy"
proof (rule refusing_worker_chosen_first)
  show "score FFin default_weights demo_busy < FInf" by (simp add: demo_scores)
  show "eligibility demo_silent ''CLAUDE_CODE:DEFAULT'' 10 = Ok ()"
    and "eligibility demo_busy ''CLAUDE_CODE:DEFAULT'' 10 = Ok ()"
    by (simp_all add: demo_silent_def demo_busy_def demo_eligible)
qed (simp_all add: demo_silent_def demo_busy_def refusing_def metric_def demo_worker_def
    resources_to_value_def)

theorem dispatch_liveness_exact_witness:
  "dispatch_liveness (\<lambda>_. ''id'') 2 (Some demo_calm) 10 = Ok ()"
  using dispatch_liveness_exact [THEN conjunct2, THEN mp, OF demo_eligible]
  by (simp add: demo_calm_def)

end
