(* ===== verification/Execution_Process.thy ===== *)
theory Execution_Process
  imports Data_Model
begin

text \<open>
  The rows of executions (\<open>crates/db/src/models/execution_process.rs\<close>), of the sessions they belong
  to (\<open>session.rs\<close>) and of turn boundaries (\<open>session_turn_boundary.rs\<close>), with the queries and
  statements the coordinator issues. A query that orders by a time stamp sorts stably, so rows with
  equal time stamps keep the order of the table; \<open>clock\<close> is the database's or the caller's time.
  An executor action is the JSON text stored in its column.
\<close>

section \<open>Rows\<close>

datatype ExecutionProcessStatus =
    EpRunning | EpCompleted | EpFailed | EpKilled | EpInterrupted | EpIndeterminate

datatype ExecutionProcessRunReason =
    SetupScript | CleanupScript | ArchiveScript | CodingAgent | DevServer | BackgroundHelper

fun is_persistent :: "ExecutionProcessRunReason \<Rightarrow> bool" where
  "is_persistent DevServer = True"
| "is_persistent BackgroundHelper = True"
| "is_persistent _ = False"

record execution_process =
  ep_id :: uuid
  ep_session_id :: uuid
  ep_run_reason :: ExecutionProcessRunReason
  ep_executor_action :: string
  ep_status :: ExecutionProcessStatus
  ep_exit_code :: "int option"
  ep_pgid :: "int option"
  ep_dropped :: bool
  ep_started_at :: datetime
  ep_completed_at :: "datetime option"
  ep_created_at :: datetime
  ep_updated_at :: datetime

type_synonym process_table = "execution_process list"

record session =
  se_id :: uuid
  se_workspace_id :: uuid
  se_name :: "string option"
  se_executor :: "string option"
  se_agent_working_dir :: "string option"
  se_created_at :: datetime
  se_updated_at :: datetime

type_synonym session_table = "session list"

text \<open>\<open>ORDER BY created_at DESC\<close>, and its first row.\<close>

definition newest_first :: "('r \<Rightarrow> datetime) \<Rightarrow> 'r list \<Rightarrow> 'r list" where
  "newest_first key rows = sort_key (\<lambda>r. - key r) rows"

definition first_row :: "'r list \<Rightarrow> 'r option" where
  "first_row rows = (case rows of [] \<Rightarrow> None | r # _ \<Rightarrow> Some r)"

lemma first_row_simps [simp]: "first_row [] = None" "first_row (r # rs) = Some r"
  by (simp_all add: first_row_def)

lemma first_row_None [simp]: "first_row rows = None \<longleftrightarrow> rows = []"
  by (cases rows) auto

lemma first_row_mem: "first_row rows = Some r \<Longrightarrow> r \<in> set rows"
  by (cases rows) auto

lemma newest_first_mem [simp]: "set (newest_first key rows) = set rows"
  by (simp add: newest_first_def)

lemma newest_first_Nil [simp]: "newest_first key rows = [] \<longleftrightarrow> rows = []"
  by (metis newest_first_mem set_empty)

lemma first_sorted_min:
  fixes key :: "'r \<Rightarrow> 'k::linorder"
  assumes "first_row (sort_key key rows) = Some r"
  shows "r \<in> set rows" "q \<in> set rows \<Longrightarrow> key r \<le> key q"
proof -
  obtain rs where rs: "sort_key key rows = r # rs"
    using assms by (cases "sort_key key rows") auto
  have "set (r # rs) = set rows" by (metis rs set_sort)
  then show "r \<in> set rows" by auto
  have "sorted (map key (r # rs))" by (metis rs sorted_sort_key)
  then show "key r \<le> key q" if "q \<in> set rows"
    using that \<open>set (r # rs) = set rows\<close> by auto
qed

lemma newest_first_max:
  assumes "first_row (newest_first key rows) = Some r"
  shows "r \<in> set rows" "q \<in> set rows \<Longrightarrow> key q \<le> key r"
  using first_sorted_min [OF assms [unfolded newest_first_def]] by auto

section \<open>Queries\<close>

definition find_process :: "uuid \<Rightarrow> process_table \<Rightarrow> execution_process option" where
  "find_process i t = sql_find ep_id i t"

interpretation processes: keyed_store "\<lambda>t i. find_process i t" "sql_modify ep_id" "keeps_key ep_id"
  by unfold_locales (simp add: find_process_def sql_find_modify)

definition find_by_session_id :: "uuid \<Rightarrow> bool \<Rightarrow> process_table \<Rightarrow> process_table" where
  "find_by_session_id s show_soft_deleted t = sort_key ep_created_at
     (filter (\<lambda>p. ep_session_id p = s \<and> (show_soft_deleted \<or> \<not> ep_dropped p)) t)"

definition find_running :: "process_table \<Rightarrow> process_table" where
  "find_running t = sort_key ep_created_at (filter (\<lambda>p. ep_status p = EpRunning) t)"

definition is_agent_turn_of :: "uuid \<Rightarrow> execution_process \<Rightarrow> bool" where
  "is_agent_turn_of s p \<longleftrightarrow> ep_session_id p = s \<and> ep_run_reason p = CodingAgent \<and> \<not> ep_dropped p"

definition latest_coding_agent_turn_for_session ::
  "uuid \<Rightarrow> process_table \<Rightarrow> (uuid \<times> ExecutionProcessStatus \<times> datetime option) option" where
  "latest_coding_agent_turn_for_session s t =
     map_option (\<lambda>p. (ep_id p, ep_status p, ep_completed_at p))
       (first_row (newest_first ep_created_at (filter (is_agent_turn_of s) t)))"

definition has_running_coding_agent_for_session :: "uuid \<Rightarrow> process_table \<Rightarrow> bool" where
  "has_running_coding_agent_for_session s t \<longleftrightarrow>
     length (filter (\<lambda>p. ep_session_id p = s \<and> ep_status p = EpRunning \<and> ep_run_reason p = CodingAgent) t) > 0"

definition find_session :: "uuid \<Rightarrow> session_table \<Rightarrow> session option" where
  "find_session i t = sql_find se_id i t"

text \<open>\<open>JOIN sessions s ON ep.session_id = s.id WHERE s.workspace_id = w\<close>.\<close>

definition in_workspace :: "uuid \<Rightarrow> session_table \<Rightarrow> execution_process \<Rightarrow> bool" where
  "in_workspace w sessions p \<longleftrightarrow>
     is_some_and (find_session (ep_session_id p) sessions) (\<lambda>s. se_workspace_id s = w)"

definition has_running_non_persistent_processes_for_workspace ::
  "uuid \<Rightarrow> session_table \<Rightarrow> process_table \<Rightarrow> bool" where
  "has_running_non_persistent_processes_for_workspace w sessions t \<longleftrightarrow>
     length (filter (\<lambda>p. in_workspace w sessions p \<and> ep_status p = EpRunning
       \<and> ep_run_reason p \<notin> {DevServer, BackgroundHelper}) t) > 0"

definition find_running_by_workspace_and_run_reason ::
  "uuid \<Rightarrow> ExecutionProcessRunReason \<Rightarrow> session_table \<Rightarrow> process_table \<Rightarrow> process_table" where
  "find_running_by_workspace_and_run_reason w reason sessions t = newest_first ep_created_at
     (filter (\<lambda>p. in_workspace w sessions p \<and> ep_status p = EpRunning \<and> ep_run_reason p = reason) t)"

definition find_all_running_by_workspace ::
  "uuid \<Rightarrow> session_table \<Rightarrow> process_table \<Rightarrow> process_table" where
  "find_all_running_by_workspace w sessions t = newest_first ep_created_at
     (filter (\<lambda>p. in_workspace w sessions p \<and> ep_status p \<in> {EpRunning, EpIndeterminate}) t)"

definition find_running_coding_agents_by_workspace ::
  "uuid \<Rightarrow> session_table \<Rightarrow> process_table \<Rightarrow> process_table" where
  "find_running_coding_agents_by_workspace w sessions t =
     find_running_by_workspace_and_run_reason w CodingAgent sessions t"

definition find_running_dev_servers_by_workspace ::
  "uuid \<Rightarrow> session_table \<Rightarrow> process_table \<Rightarrow> process_table" where
  "find_running_dev_servers_by_workspace w sessions t =
     find_running_by_workspace_and_run_reason w DevServer sessions t"

section \<open>Statements\<close>

datatype process_db_error = ProcessUniqueViolation

definition new_process ::
  "datetime \<Rightarrow> uuid \<Rightarrow> ExecutionProcessRunReason \<Rightarrow> string \<Rightarrow> uuid \<Rightarrow> execution_process" where
  "new_process now s reason action i = \<lparr> ep_id = i, ep_session_id = s, ep_run_reason = reason,
     ep_executor_action = action, ep_status = EpRunning, ep_exit_code = None, ep_pgid = None,
     ep_dropped = False, ep_started_at = now, ep_completed_at = None, ep_created_at = now,
     ep_updated_at = now \<rparr>"

definition create_process :: "datetime \<Rightarrow> uuid \<Rightarrow> ExecutionProcessRunReason \<Rightarrow> string \<Rightarrow> uuid
    \<Rightarrow> process_table \<Rightarrow> (process_db_error + execution_process) \<times> process_table" where
  "create_process now s reason action i t =
     (case find_process i t of
        Some _ \<Rightarrow> (Err ProcessUniqueViolation, t)
      | None \<Rightarrow> (let p = new_process now s reason action i in (Ok p, t @ [p])))"

definition was_stopped :: "uuid \<Rightarrow> process_table \<Rightarrow> bool" where
  "was_stopped i t \<longleftrightarrow> is_some_and (find_process i t)
     (\<lambda>p. ep_status p = EpKilled \<or> ep_status p = EpInterrupted \<or> ep_status p = EpCompleted)"

definition update_pgid :: "uuid \<Rightarrow> int \<Rightarrow> process_table \<Rightarrow> process_table" where
  "update_pgid i pgid t = sql_modify ep_id t i (\<lambda>p. p\<lparr> ep_pgid := Some pgid \<rparr>)"

definition completion_row ::
  "datetime \<Rightarrow> ExecutionProcessStatus \<Rightarrow> int option \<Rightarrow> execution_process \<Rightarrow> execution_process" where
  "completion_row now status exit_code p = p\<lparr> ep_status := status, ep_exit_code := exit_code,
     ep_completed_at := (if status = EpRunning then None else Some now) \<rparr>"

definition update_completion :: "datetime \<Rightarrow> uuid \<Rightarrow> ExecutionProcessStatus \<Rightarrow> int option
    \<Rightarrow> process_table \<Rightarrow> process_table" where
  "update_completion now i status exit_code t =
     sql_modify ep_id t i (completion_row now status exit_code)"

text \<open>A comparison with the time stamp of a missing boundary row is not true of any row.\<close>

definition drop_at_and_after :: "uuid \<Rightarrow> uuid \<Rightarrow> process_table \<Rightarrow> nat \<times> process_table" where
  "drop_at_and_after s boundary t =
     sql_update (\<lambda>p. ep_session_id p = s
         \<and> is_some_and (find_process boundary t) (\<lambda>b. ep_created_at b \<le> ep_created_at p)
         \<and> \<not> ep_dropped p)
       (\<lambda>p. p\<lparr> ep_dropped := True \<rparr>) t"

section \<open>Sessions\<close>

text \<open>The most recent execution of a session that is neither persistent nor dropped.\<close>

definition last_used :: "process_table \<Rightarrow> session \<Rightarrow> datetime" where
  "last_used t s = (case first_row (newest_first ep_created_at
        (filter (\<lambda>p. ep_session_id p = se_id s \<and> \<not> is_persistent (ep_run_reason p) \<and> \<not> ep_dropped p) t)) of
     Some p \<Rightarrow> ep_created_at p
   | None \<Rightarrow> se_created_at s)"

definition sessions_by_workspace_id :: "uuid \<Rightarrow> process_table \<Rightarrow> session_table \<Rightarrow> session_table" where
  "sessions_by_workspace_id w t sessions =
     newest_first (last_used t) (filter (\<lambda>s. se_workspace_id s = w) sessions)"

definition latest_session_by_workspace_id ::
  "uuid \<Rightarrow> process_table \<Rightarrow> session_table \<Rightarrow> session option" where
  "latest_session_by_workspace_id w t sessions = first_row (sessions_by_workspace_id w t sessions)"

definition first_session_by_workspace_id :: "uuid \<Rightarrow> session_table \<Rightarrow> session option" where
  "first_session_by_workspace_id w sessions =
     first_row (sort_key (\<lambda>s. (se_created_at s, se_id s)) (filter (\<lambda>s. se_workspace_id s = w) sessions))"

definition session_update :: "datetime \<Rightarrow> uuid \<Rightarrow> string option \<Rightarrow> session_table \<Rightarrow> session_table" where
  "session_update clock i name sessions = sql_modify se_id sessions i (\<lambda>s. s\<lparr>
     se_name := (case name of None \<Rightarrow> se_name s | Some n \<Rightarrow> if n = [] then None else Some n),
     se_updated_at := clock \<rparr>)"

definition update_executor :: "datetime \<Rightarrow> uuid \<Rightarrow> string \<Rightarrow> session_table \<Rightarrow> session_table" where
  "update_executor clock i executor sessions = sql_modify se_id sessions i (\<lambda>s. s\<lparr>
     se_executor := Some executor, se_updated_at := clock \<rparr>)"

section \<open>Turn boundaries\<close>

text \<open>One row per session: the turn whose boundary was recorded last, and when.\<close>

type_synonym boundary_table = "uuid \<rightharpoonup> uuid \<times> datetime"

definition boundary_write :: "datetime \<Rightarrow> uuid \<Rightarrow> uuid \<Rightarrow> boundary_table \<Rightarrow> boundary_table" where
  "boundary_write now s turn b = b(s \<mapsto> (turn, now))"

definition boundary_record :: "datetime \<Rightarrow> uuid \<Rightarrow> process_table \<Rightarrow> boundary_table \<Rightarrow> boundary_table" where
  "boundary_record now s t b = (case latest_coding_agent_turn_for_session s t of
     None \<Rightarrow> b | Some (turn, _, _) \<Rightarrow> boundary_write now s turn b)"

definition boundary_record_finalized ::
  "datetime \<Rightarrow> uuid \<Rightarrow> uuid \<Rightarrow> process_table \<Rightarrow> boundary_table \<Rightarrow> boundary_table" where
  "boundary_record_finalized now s process_id t b = boundary_write now s
     (case latest_coding_agent_turn_for_session s t of Some (turn, _, _) \<Rightarrow> turn | None \<Rightarrow> process_id) b"

definition finalized_turn :: "uuid \<Rightarrow> boundary_table \<Rightarrow> uuid option" where
  "finalized_turn s b = map_option fst (b s)"

section \<open>Properties\<close>

lemma latest_turn_Some:
  assumes "latest_coding_agent_turn_for_session s t = Some (i, st, done_at)"
  obtains p where "p \<in> set t" "is_agent_turn_of s p" "ep_id p = i" "ep_status p = st"
    "ep_completed_at p = done_at" "\<And>q. q \<in> set t \<Longrightarrow> is_agent_turn_of s q \<Longrightarrow> ep_created_at q \<le> ep_created_at p"
proof -
  obtain p where p: "first_row (newest_first ep_created_at (filter (is_agent_turn_of s) t)) = Some p"
    and "ep_id p = i" "ep_status p = st" "ep_completed_at p = done_at"
    using assms by (auto simp: latest_coding_agent_turn_for_session_def)
  moreover have "p \<in> set t" "is_agent_turn_of s p"
    using newest_first_max(1) [OF p] by auto
  moreover have "ep_created_at q \<le> ep_created_at p" if "q \<in> set t" "is_agent_turn_of s q" for q
    using newest_first_max(2) [OF p, of q] that by simp
  ultimately show thesis using that by blast
qed

lemma latest_turn_None:
  "latest_coding_agent_turn_for_session s t = None \<longleftrightarrow> (\<forall>p \<in> set t. \<not> is_agent_turn_of s p)"
  by (auto simp: latest_coding_agent_turn_for_session_def filter_empty_conv)

lemma has_running_iff:
  "has_running_coding_agent_for_session s t \<longleftrightarrow>
     (\<exists>p \<in> set t. ep_session_id p = s \<and> ep_status p = EpRunning \<and> ep_run_reason p = CodingAgent)"
  by (auto simp: has_running_coding_agent_for_session_def filter_empty_conv)

lemma completion_row_simps [simp]:
  "ep_id (completion_row now st x p) = ep_id p" "ep_session_id (completion_row now st x p) = ep_session_id p"
  "ep_status (completion_row now st x p) = st"
  by (simp_all add: completion_row_def)

text \<open>
  Trimming a session's history at a boundary execution: afterwards the session's latest turn is
  strictly older than the boundary, and turns of other sessions are what they were.
\<close>

theorem drop_at_and_after_trims:
  assumes "find_process b t = Some bp"
  shows "latest_coding_agent_turn_for_session s (snd (drop_at_and_after s b t)) = Some (i, st, c) \<longrightarrow>
      (\<exists>p \<in> set t. ep_id p = i \<and> ep_created_at p < ep_created_at bp)"
    and "s' \<noteq> s \<Longrightarrow> filter (is_agent_turn_of s') (snd (drop_at_and_after s b t)) = filter (is_agent_turn_of s') t"
proof -
  let ?t = "snd (drop_at_and_after s b t)"
  have t: "?t = map (\<lambda>p. if ep_session_id p = s \<and> ep_created_at bp \<le> ep_created_at p \<and> \<not> ep_dropped p
      then p\<lparr> ep_dropped := True \<rparr> else p) t"
    by (simp add: drop_at_and_after_def sql_update_def assms)
  show "latest_coding_agent_turn_for_session s ?t = Some (i, st, c) \<longrightarrow>
      (\<exists>p \<in> set t. ep_id p = i \<and> ep_created_at p < ep_created_at bp)"
  proof
    assume "latest_coding_agent_turn_for_session s ?t = Some (i, st, c)"
    then obtain p where p: "p \<in> set ?t" "is_agent_turn_of s p" "ep_id p = i"
      by (rule latest_turn_Some) blast
    then obtain q where q: "q \<in> set t"
      "p = (if ep_session_id q = s \<and> ep_created_at bp \<le> ep_created_at q \<and> \<not> ep_dropped q
        then q\<lparr> ep_dropped := True \<rparr> else q)"
      unfolding t by auto
    with p have "\<not> (ep_session_id q = s \<and> ep_created_at bp \<le> ep_created_at q \<and> \<not> ep_dropped q)" "p = q"
      by (simp_all add: is_agent_turn_of_def split: if_splits)
    with p q(1) show "\<exists>p \<in> set t. ep_id p = i \<and> ep_created_at p < ep_created_at bp"
      by (intro bexI [of _ q]) (auto simp: is_agent_turn_of_def)
  qed
  show "filter (is_agent_turn_of s') ?t = filter (is_agent_turn_of s') t" if "s' \<noteq> s"
    unfolding t using that by (induction t) (auto simp: is_agent_turn_of_def)
qed

text \<open>
  A recorded boundary names the session's latest coding-agent turn at the time of recording, so a
  later turn is never taken for finalized by it.
\<close>

theorem boundary_names_latest_turn:
  "finalized_turn s (boundary_record_finalized now s process_id t b) =
    (case latest_coding_agent_turn_for_session s t of Some (turn, _, _) \<Rightarrow> Some turn | None \<Rightarrow> Some process_id)"
  by (simp add: boundary_record_finalized_def boundary_write_def finalized_turn_def split: option.split)

lemma boundary_other_session:
  "s' \<noteq> s \<Longrightarrow> finalized_turn s' (boundary_record_finalized now s process_id t b) = finalized_turn s' b"
  by (simp add: boundary_record_finalized_def boundary_write_def finalized_turn_def)

end
