(* ===== verification/Reconcile.thy ===== *)
theory Reconcile
  imports Worker_Registry Execution_Process
begin

text \<open>
  The coordinator's record of remote executions: the \<open>execution_worker_jobs\<close> table
  (\<open>crates/db/src/models/execution_worker_job.rs\<close>), the status columns of
  \<open>execution_processes\<close>, and the pass that reconciles both with what the workers report
  (\<open>crates/services/src/services/cluster/reconcile.rs\<close>).

  The workers' answers are parameters: \<open>inventory i\<close> is the job list of worker \<open>i\<close>, or \<open>None\<close>
  when the request fails, and \<open>quarantine_ok i e\<close> tells whether worker \<open>i\<close> takes the order to
  quarantine execution \<open>e\<close>. The pass uses one time stamp, \<open>now\<close>.
\<close>

section \<open>Rows\<close>

datatype ExecutionWorkerDispatchState =
    DsPending | DsAccepted | DsStarting | DsRunning | DsCancelling | DsCompleted | DsFailed
  | DsKilled | DsInterrupted | DsIndeterminate | DsQuarantined

fun DispatchState_is_terminal :: "ExecutionWorkerDispatchState \<Rightarrow> bool" where
  "DispatchState_is_terminal DsCompleted = True"
| "DispatchState_is_terminal DsFailed = True"
| "DispatchState_is_terminal DsKilled = True"
| "DispatchState_is_terminal DsInterrupted = True"
| "DispatchState_is_terminal DsIndeterminate = True"
| "DispatchState_is_terminal DsQuarantined = True"
| "DispatchState_is_terminal _ = False"

record execution_worker_job =
  ej_execution_process_id :: uuid
  ej_worker_node_id :: uuid
  ej_worker_job_id :: uuid
  ej_request_digest :: string
  ej_dispatch_state :: ExecutionWorkerDispatchState
  ej_last_event_sequence :: int
  ej_worker_last_sequence :: int
  ej_lease_expires_at :: "datetime option"
  ej_output_complete :: bool
  ej_terminal_evidence :: "terminal_evidence option"
  ej_dispatched_at :: datetime
  ej_accepted_at :: "datetime option"
  ej_completed_at :: "datetime option"
  ej_updated_at :: datetime

type_synonym job_table = "execution_worker_job list"

definition find_job :: "uuid \<Rightarrow> job_table \<Rightarrow> execution_worker_job option" where
  "find_job i t = sql_find ej_execution_process_id i t"

interpretation jobs: keyed_store "\<lambda>t i. find_job i t" "sql_modify ej_execution_process_id"
  "keeps_key ej_execution_process_id"
  by unfold_locales (simp add: find_job_def sql_find_modify)

section \<open>Statements on worker jobs\<close>

datatype job_db_error = JobRowNotFound | JobUniqueViolation | JobForeignKey | JobProtocol string

definition pending_row :: "datetime \<Rightarrow> uuid \<Rightarrow> uuid \<Rightarrow> string \<Rightarrow> execution_worker_job" where
  "pending_row clock i worker digest = \<lparr> ej_execution_process_id = i, ej_worker_node_id = worker,
     ej_worker_job_id = i, ej_request_digest = digest, ej_dispatch_state = DsPending,
     ej_last_event_sequence = 0, ej_worker_last_sequence = 0, ej_lease_expires_at = None,
     ej_output_complete = True, ej_terminal_evidence = None, ej_dispatched_at = clock,
     ej_accepted_at = None, ej_completed_at = None, ej_updated_at = clock \<rparr>"

text \<open>The unique index on \<open>(worker_node_id, worker_job_id)\<close>.\<close>

definition job_slot_taken :: "uuid \<Rightarrow> uuid \<Rightarrow> uuid \<Rightarrow> job_table \<Rightarrow> bool" where
  "job_slot_taken i worker job t \<longleftrightarrow> (\<exists>j \<in> set t. ej_worker_node_id j = worker
     \<and> ej_worker_job_id j = job \<and> ej_execution_process_id j \<noteq> i)"

text \<open>
  \<open>INSERT OR IGNORE\<close>: a row that would break a uniqueness constraint is dropped silently, one
  that refers to a missing process or worker is an error.
\<close>

definition create_pending :: "process_table \<Rightarrow> worker_table \<Rightarrow> datetime \<Rightarrow> uuid \<Rightarrow> uuid \<Rightarrow> string
    \<Rightarrow> job_table \<Rightarrow> (job_db_error + execution_worker_job) \<times> job_table" where
  "create_pending procs workers clock i worker digest t =
     (let fresh = (find_job i t = None \<and> \<not> job_slot_taken i worker i t) in
      if fresh \<and> (find_process i procs = None \<or> find_worker worker workers = None)
      then (Err JobForeignKey, t)
      else let t' = (if fresh then t @ [pending_row clock i worker digest] else t)
        in (try_bind (ok_or (find_job i t') JobRowNotFound) (\<lambda>job.
            if ej_worker_node_id job \<noteq> worker \<or> ej_request_digest job \<noteq> digest
            then Err (JobProtocol ''existing worker dispatch does not match the retried request'')
            else Ok job), t'))"

definition find_nonterminal_for_worker :: "uuid \<Rightarrow> job_table \<Rightarrow> execution_worker_job list" where
  "find_nonterminal_for_worker worker t = sort_key ej_execution_process_id
     (filter (\<lambda>j. ej_worker_node_id j = worker \<and> \<not> DispatchState_is_terminal (ej_dispatch_state j)) t)"

definition has_unsafe_for_workspace ::
  "(uuid \<Rightarrow> uuid option) \<Rightarrow> uuid \<Rightarrow> job_table \<Rightarrow> process_table \<Rightarrow> bool" where
  "has_unsafe_for_workspace session_workspace workspace jobs procs \<longleftrightarrow>
     (\<exists>j \<in> set jobs. \<exists>p \<in> set procs. ep_id p = ej_execution_process_id j
        \<and> session_workspace (ep_session_id p) = Some workspace
        \<and> ej_dispatch_state j \<notin> {DsCompleted, DsFailed, DsKilled})"

definition acknowledge_sequence ::
  "datetime \<Rightarrow> uuid \<Rightarrow> int \<Rightarrow> int \<Rightarrow> job_table \<Rightarrow> bool \<times> job_table" where
  "acknowledge_sequence clock i sequence worker_last t =
     (let (n, t') = sql_update
        (\<lambda>j. ej_execution_process_id j = i \<and> ej_last_event_sequence j \<le> sequence)
        (\<lambda>j. j\<lparr> ej_last_event_sequence := sequence,
           ej_worker_last_sequence := max (ej_worker_last_sequence j) worker_last,
           ej_updated_at := clock \<rparr>) t in (n = 1, t'))"

definition observe_row :: "datetime \<Rightarrow> int \<Rightarrow> execution_worker_job \<Rightarrow> execution_worker_job" where
  "observe_row clock worker_last j = j\<lparr> ej_worker_last_sequence :=
     max (ej_worker_last_sequence j) worker_last, ej_updated_at := clock \<rparr>"

definition observe_worker_sequence :: "datetime \<Rightarrow> uuid \<Rightarrow> int \<Rightarrow> job_table \<Rightarrow> bool \<times> job_table" where
  "observe_worker_sequence clock i worker_last t =
     (let (n, t') = sql_update (\<lambda>j. ej_execution_process_id j = i) (observe_row clock worker_last) t
      in (n = 1, t'))"

definition state_row :: "datetime \<Rightarrow> ExecutionWorkerDispatchState \<Rightarrow> terminal_evidence option
    \<Rightarrow> datetime option \<Rightarrow> execution_worker_job \<Rightarrow> execution_worker_job" where
  "state_row clock state evidence completed j = j\<lparr> ej_dispatch_state := state,
     ej_terminal_evidence := evidence,
     ej_accepted_at := (if state = DsAccepted \<and> ej_accepted_at j = None then Some clock
                        else ej_accepted_at j),
     ej_completed_at := (case completed of Some c \<Rightarrow> Some c | None \<Rightarrow> ej_completed_at j),
     ej_updated_at := clock \<rparr>"

definition update_state :: "datetime \<Rightarrow> uuid \<Rightarrow> ExecutionWorkerDispatchState
    \<Rightarrow> terminal_evidence option \<Rightarrow> datetime option \<Rightarrow> job_table \<Rightarrow> bool \<times> job_table" where
  "update_state clock i state evidence completed t =
     (let (n, t') = sql_update (\<lambda>j. ej_execution_process_id j = i)
        (state_row clock state evidence completed) t in (n = 1, t'))"

definition record_acceptance ::
  "datetime \<Rightarrow> uuid \<Rightarrow> uuid \<Rightarrow> int \<Rightarrow> job_table \<Rightarrow> (job_db_error + bool) \<times> job_table" where
  "record_acceptance clock i worker_job worker_last t =
     (let p = (\<lambda>j. ej_execution_process_id j = i \<and> ej_dispatch_state j = DsPending) in
      if \<exists>j \<in> set t. p j \<and> job_slot_taken i (ej_worker_node_id j) worker_job t
      then (Err JobUniqueViolation, t)
      else let (n, t') = sql_update p (\<lambda>j. j\<lparr> ej_worker_job_id := worker_job,
          ej_dispatch_state := DsAccepted,
          ej_worker_last_sequence := max (ej_worker_last_sequence j) worker_last,
          ej_accepted_at := (case ej_accepted_at j of Some a \<Rightarrow> Some a | None \<Rightarrow> Some clock),
          ej_updated_at := clock \<rparr>) t
        in (Ok (n = 1), t'))"

definition mark_output_incomplete :: "datetime \<Rightarrow> uuid \<Rightarrow> job_table \<Rightarrow> bool \<times> job_table" where
  "mark_output_incomplete clock i t =
     (let (n, t') = sql_update (\<lambda>j. ej_execution_process_id j = i)
        (\<lambda>j. j\<lparr> ej_output_complete := False, ej_updated_at := clock \<rparr>) t in (n = 1, t'))"

section \<open>The pass\<close>

record reconciliation_report =
  rr_workers_reached :: nat
  rr_workers_unreachable :: "uuid list"
  rr_jobs_reconciled :: nat
  rr_jobs_missing :: nat
  rr_jobs_quarantined :: nat
  rr_conflicts :: nat
  rr_jobs_deferred :: nat

definition empty_report :: reconciliation_report where
  "empty_report = \<lparr> rr_workers_reached = 0, rr_workers_unreachable = [], rr_jobs_reconciled = 0,
     rr_jobs_missing = 0, rr_jobs_quarantined = 0, rr_conflicts = 0, rr_jobs_deferred = 0 \<rparr>"

text \<open>The coordinator's tables, the quarantine orders sent, and the report being filled.\<close>

record coordinator =
  co_workers :: worker_table
  co_jobs :: job_table
  co_processes :: process_table
  co_quarantines :: "(uuid \<times> uuid) list"
    \<comment> \<open>worker, execution\<close>
  co_report :: reconciliation_report

record worker_answers =
  wa_inventory :: "uuid \<Rightarrow> job_summary list option"
  wa_quarantine_ok :: "uuid \<Rightarrow> uuid \<Rightarrow> bool"

fun dispatch_state :: "JobState \<Rightarrow> ExecutionWorkerDispatchState" where
  "dispatch_state JobAccepted = DsAccepted"
| "dispatch_state JobStarting = DsStarting"
| "dispatch_state JobRunning = DsRunning"
| "dispatch_state JobCancelling = DsCancelling"
| "dispatch_state JobCompleted = DsCompleted"
| "dispatch_state JobFailed = DsFailed"
| "dispatch_state JobKilled = DsKilled"
| "dispatch_state JobInterrupted = DsInterrupted"
| "dispatch_state JobIndeterminate = DsIndeterminate"
| "dispatch_state JobQuarantined = DsQuarantined"

fun process_state :: "TerminalState \<Rightarrow> ExecutionProcessStatus" where
  "process_state TermCompleted = EpCompleted"
| "process_state TermFailed = EpFailed"
| "process_state TermKilled = EpKilled"
| "process_state TermInterrupted = EpInterrupted"

definition mark_indeterminate :: "datetime \<Rightarrow> uuid \<Rightarrow> coordinator \<Rightarrow> coordinator" where
  "mark_indeterminate now i c = c\<lparr>
     co_jobs := snd (update_state now i DsIndeterminate None (Some now) (co_jobs c)),
     co_processes := update_completion now i EpIndeterminate None (co_processes c) \<rparr>"

definition add_conflict :: "coordinator \<Rightarrow> coordinator" where
  "add_conflict c = c\<lparr> co_report := (co_report c)\<lparr> rr_conflicts := rr_conflicts (co_report c) + 1 \<rparr> \<rparr>"

definition quarantine_unknown :: "uuid \<Rightarrow> job_summary \<Rightarrow> coordinator \<Rightarrow> coordinator" where
  "quarantine_unknown worker summary c =
     c\<lparr> co_quarantines := co_quarantines c @ [(worker, js_execution_id summary)] \<rparr>"

definition apply_terminal_evidence ::
  "datetime \<Rightarrow> job_summary \<Rightarrow> terminal_evidence \<Rightarrow> coordinator \<Rightarrow> coordinator" where
  "apply_terminal_evidence now summary ev c =
     (let i = js_execution_id summary; process = find_process i (co_processes c);
          state = process_state (te_state ev) in
      if is_some_and process (\<lambda>p. ep_status p = EpRunning)
      then c\<lparr> co_report := (co_report c)\<lparr> rr_jobs_deferred := rr_jobs_deferred (co_report c) + 1 \<rparr> \<rparr>
      else if is_some_and process (\<lambda>p. ep_status p \<noteq> state)
      then add_conflict (mark_indeterminate now i c)
      else c\<lparr> co_jobs := snd (update_state now i (dispatch_state (js_state summary)) (Some ev)
                (Some (te_observed_at ev)) (co_jobs c)),
              co_processes := update_completion now i state (te_exit_code ev) (co_processes c) \<rparr>)"

text \<open>
  \<open>summary.last_sequence as i64\<close> reinterprets the 64-bit word, so a sequence of \<open>2 ^ 63\<close> or
  more is negative.
\<close>

definition apply_worker_evidence :: "datetime \<Rightarrow> job_summary \<Rightarrow> coordinator \<Rightarrow> coordinator" where
  "apply_worker_evidence now summary c =
     (let i = js_execution_id summary;
          c = c\<lparr> co_jobs := snd (observe_worker_sequence now i
                (sint (js_last_sequence summary)) (co_jobs c)) \<rparr> in
      if JobState_is_terminal (js_state summary)
      then (case js_terminal summary of
              None \<Rightarrow> add_conflict (mark_indeterminate now i c)
            | Some ev \<Rightarrow> apply_terminal_evidence now summary ev c)
      else c\<lparr> co_jobs := snd (update_state now i (dispatch_state (js_state summary)) None None
                (co_jobs c)) \<rparr>)"

definition job_matches :: "uuid \<Rightarrow> job_summary \<Rightarrow> execution_worker_job \<Rightarrow> bool" where
  "job_matches worker summary known \<longleftrightarrow> ej_worker_node_id known = worker
     \<and> ej_worker_job_id known = js_worker_job_id summary
     \<and> ej_request_digest known = js_request_digest summary"

definition reconcile_summary ::
  "worker_answers \<Rightarrow> datetime \<Rightarrow> uuid \<Rightarrow> job_summary \<Rightarrow> coordinator \<Rightarrow> coordinator" where
  "reconcile_summary ans now worker summary c =
     (let i = js_execution_id summary;
          conflict = add_conflict (quarantine_unknown worker summary (mark_indeterminate now i c)) in
      case find_job i (co_jobs c) of
        None \<Rightarrow>
          (let c' = quarantine_unknown worker summary c in
           if wa_quarantine_ok ans worker i
           then c'\<lparr> co_report := (co_report c')\<lparr> rr_jobs_quarantined := rr_jobs_quarantined (co_report c') + 1 \<rparr> \<rparr>
           else c')
      | Some known \<Rightarrow>
          if \<not> job_matches worker summary known then conflict
          else if \<not> JobState_is_terminal (js_state summary)
                  \<and> is_some_and (find_process i (co_processes c)) (\<lambda>p. ep_status p \<noteq> EpRunning)
          then conflict
          else (let c' = apply_worker_evidence now summary c in
            c'\<lparr> co_report := (co_report c')\<lparr> rr_jobs_reconciled := rr_jobs_reconciled (co_report c') + 1 \<rparr> \<rparr>))"

definition mark_missing :: "datetime \<Rightarrow> uuid \<Rightarrow> coordinator \<Rightarrow> coordinator" where
  "mark_missing now i c = (let c' = mark_indeterminate now i c in
     c'\<lparr> co_report := (co_report c')\<lparr> rr_jobs_missing := rr_jobs_missing (co_report c') + 1 \<rparr> \<rparr>)"

definition reconcile_worker ::
  "worker_answers \<Rightarrow> datetime \<Rightarrow> uuid \<Rightarrow> job_summary list \<Rightarrow> coordinator \<Rightarrow> coordinator" where
  "reconcile_worker ans now worker inventory c =
     (let expected = map ej_execution_process_id (find_nonterminal_for_worker worker (co_jobs c));
          reported = js_execution_id ` set inventory;
          c' = fold (reconcile_summary ans now worker) inventory c in
      fold (mark_missing now) (filter (\<lambda>i. i \<notin> reported) expected) c')"

definition reconcile_one :: "worker_answers \<Rightarrow> datetime \<Rightarrow> worker_node \<Rightarrow> coordinator \<Rightarrow> coordinator" where
  "reconcile_one ans now worker c =
     (if wn_status worker = Offline then c
      else case wa_inventory ans (wn_id worker) of
        None \<Rightarrow> c\<lparr> co_report := (co_report c)\<lparr>
                    rr_workers_unreachable := rr_workers_unreachable (co_report c) @ [wn_id worker] \<rparr>,
                  co_workers := snd (mark_offline now (wn_id worker) (co_workers c)) \<rparr>
      | Some inventory \<Rightarrow> reconcile_worker ans now (wn_id worker) inventory
          (c\<lparr> co_report := (co_report c)\<lparr> rr_workers_reached := rr_workers_reached (co_report c) + 1 \<rparr> \<rparr>))"

definition reconcile :: "worker_answers \<Rightarrow> datetime \<Rightarrow> coordinator \<Rightarrow> coordinator" where
  "reconcile ans now c =
     (let c' = fold (reconcile_one ans now) (fetch_all_workers (co_workers c))
                 (c\<lparr> co_report := empty_report \<rparr>) in
      c'\<lparr> co_report := (co_report c')\<lparr>
           rr_workers_unreachable := sort (rr_workers_unreachable (co_report c')) \<rparr> \<rparr>)"

section \<open>Rows through the statements\<close>

lemma row_keys [simp]:
  "keeps_key ej_execution_process_id (observe_row clock n)"
  "keeps_key ej_execution_process_id (state_row clock st ev done_at)"
  "keeps_key ep_id (completion_row now status code)"
  by (simp_all add: keeps_key_def observe_row_def state_row_def completion_row_def)

lemma job_tables [simp]:
  "snd (observe_worker_sequence clock i n t) = sql_modify ej_execution_process_id t i (observe_row clock n)"
  "snd (update_state clock i st ev done_at t) = sql_modify ej_execution_process_id t i (state_row clock st ev done_at)"
  by (simp_all add: observe_worker_sequence_def update_state_def sql_modify_def split_beta)

lemma row_simps [simp]:
  "ej_dispatch_state (state_row clock st ev done_at j) = st"
  "ej_terminal_evidence (state_row clock st ev done_at j) = ev"
  "ej_execution_process_id (state_row clock st ev done_at j) = ej_execution_process_id j"
  "ej_worker_node_id (state_row clock st ev done_at j) = ej_worker_node_id j"
  "ej_worker_job_id (state_row clock st ev done_at j) = ej_worker_job_id j"
  "ej_request_digest (state_row clock st ev done_at j) = ej_request_digest j"
  "ej_last_event_sequence (state_row clock st ev done_at j) = ej_last_event_sequence j"
  "ej_worker_last_sequence (state_row clock st ev done_at j) = ej_worker_last_sequence j"
  "ej_dispatch_state (observe_row clock n j) = ej_dispatch_state j"
  "ej_terminal_evidence (observe_row clock n j) = ej_terminal_evidence j"
  "ej_execution_process_id (observe_row clock n j) = ej_execution_process_id j"
  "ej_worker_node_id (observe_row clock n j) = ej_worker_node_id j"
  "ej_worker_job_id (observe_row clock n j) = ej_worker_job_id j"
  "ej_request_digest (observe_row clock n j) = ej_request_digest j"
  "ej_last_event_sequence (observe_row clock n j) = ej_last_event_sequence j"
  "ej_worker_last_sequence (observe_row clock n j) = max (ej_worker_last_sequence j) n"
  "ep_status (completion_row now status code p) = status"
  "ep_id (completion_row now status code p) = ep_id p"
  by (simp_all add: state_row_def observe_row_def completion_row_def)

lemma mark_indeterminate_simps [simp]:
  "co_jobs (mark_indeterminate now i c) =
     sql_modify ej_execution_process_id (co_jobs c) i (state_row now DsIndeterminate None (Some now))"
  "co_processes (mark_indeterminate now i c) =
     sql_modify ep_id (co_processes c) i (completion_row now EpIndeterminate None)"
  "co_workers (mark_indeterminate now i c) = co_workers c"
  "co_report (mark_indeterminate now i c) = co_report c"
  by (simp_all add: mark_indeterminate_def update_completion_def)

lemma add_conflict_simps [simp]:
  "co_jobs (add_conflict c) = co_jobs c" "co_processes (add_conflict c) = co_processes c"
  "co_workers (add_conflict c) = co_workers c"
  "co_jobs (quarantine_unknown w s c) = co_jobs c"
  "co_processes (quarantine_unknown w s c) = co_processes c"
  "co_workers (quarantine_unknown w s c) = co_workers c"
  "co_report (quarantine_unknown w s c) = co_report c"
  by (simp_all add: add_conflict_def quarantine_unknown_def)

lemmas reconcile_defs = reconcile_summary_def apply_worker_evidence_def apply_terminal_evidence_def
  update_completion_def mark_missing_def Let_def

section \<open>What the pass may do to a process\<close>

definition status_kept :: "execution_process \<Rightarrow> execution_process \<Rightarrow> bool" where
  "status_kept p p' \<longleftrightarrow> ep_status p' = ep_status p \<or> ep_status p' = EpIndeterminate"

definition status_evolves :: "coordinator \<Rightarrow> coordinator \<Rightarrow> bool" where
  "status_evolves c c' \<longleftrightarrow>
     (\<forall>i. rel_option status_kept (find_process i (co_processes c)) (find_process i (co_processes c')))"

lemma status_kept_refl: "status_kept p p"
  by (simp add: status_kept_def)

lemma status_evolves_refl: "status_evolves c c"
  by (simp add: status_evolves_def option.rel_refl status_kept_refl)

lemma status_evolves_trans: "status_evolves a b \<Longrightarrow> status_evolves b c \<Longrightarrow> status_evolves a c"
  unfolding status_evolves_def
  by (rule allI, drule spec, drule spec, erule (1) option.rel_transp [THEN transpD, rotated])
    (auto simp: transp_def status_kept_def)

lemma status_evolves_modify:
  assumes "co_processes c' = sql_modify ep_id (co_processes c) i (completion_row now st code)"
    and "\<And>p. find_process i (co_processes c) = Some p \<Longrightarrow> st = ep_status p \<or> st = EpIndeterminate"
  shows "status_evolves c c'"
  unfolding status_evolves_def
proof
  fix k
  show "rel_option status_kept (find_process k (co_processes c)) (find_process k (co_processes c'))"
    using assms by (cases "find_process k (co_processes c)")
      (auto simp: processes.lookup_modify status_kept_def)
qed

lemma status_evolves_indeterminate:
  "co_processes c' = sql_modify ep_id (co_processes c) i (completion_row now EpIndeterminate code)
    \<Longrightarrow> status_evolves c c'"
  by (rule status_evolves_modify) auto

lemma status_evolves_cong:
  "co_processes c' = co_processes c'' \<Longrightarrow> status_evolves c c' \<Longrightarrow> status_evolves c c''"
  by (simp add: status_evolves_def)

lemma status_evolves_same: "co_processes c' = co_processes c \<Longrightarrow> status_evolves c c'"
  by (rule status_evolves_cong [OF _ status_evolves_refl]) simp

lemma status_evolves_confirmed:
  "co_processes c' = sql_modify ep_id (co_processes c) i (completion_row now st code)
    \<Longrightarrow> \<not> is_some_and (find_process i (co_processes c)) (\<lambda>p. ep_status p \<noteq> st)
    \<Longrightarrow> status_evolves c c'"
  by (erule status_evolves_modify) (auto simp: is_some_and_def)

lemma status_evolves_terminal: "status_evolves c (apply_terminal_evidence now summary ev c)"
proof -
  let ?p = "find_process (js_execution_id summary) (co_processes c)"
  consider (running) "is_some_and ?p (\<lambda>p. ep_status p = EpRunning)"
    | (conflict) "\<not> is_some_and ?p (\<lambda>p. ep_status p = EpRunning)"
        "is_some_and ?p (\<lambda>p. ep_status p \<noteq> process_state (te_state ev))"
    | (confirm) "\<not> is_some_and ?p (\<lambda>p. ep_status p = EpRunning)"
        "\<not> is_some_and ?p (\<lambda>p. ep_status p \<noteq> process_state (te_state ev))"
    by blast
  then show ?thesis
  proof cases
    case running
    then show ?thesis by (intro status_evolves_same) (simp add: apply_terminal_evidence_def Let_def)
  next
    case conflict
    then show ?thesis
      by (intro status_evolves_indeterminate) (simp add: apply_terminal_evidence_def Let_def)
  next
    case confirm
    then have "co_processes (apply_terminal_evidence now summary ev c) =
        sql_modify ep_id (co_processes c) (js_execution_id summary)
          (completion_row now (process_state (te_state ev)) (te_exit_code ev))"
      unfolding apply_terminal_evidence_def Let_def update_completion_def by simp
    then show ?thesis using confirm(2) by (rule status_evolves_confirmed)
  qed
qed

lemma status_evolves_observed:
  "status_evolves (c\<lparr> co_jobs := js \<rparr>) c' \<Longrightarrow> status_evolves c c'"
  by (simp add: status_evolves_def)

lemma status_evolves_evidence: "status_evolves c (apply_worker_evidence now summary c)"
  unfolding apply_worker_evidence_def Let_def
  by (auto intro: status_evolves_same status_evolves_indeterminate
      intro!: status_evolves_observed [OF status_evolves_terminal] split: option.splits)

lemma status_evolves_summary: "status_evolves c (reconcile_summary ans now worker summary c)"
proof -
  have "status_evolves c ((apply_worker_evidence now summary c)\<lparr> co_report := r \<rparr>)" for r
    by (rule status_evolves_cong [OF _ status_evolves_evidence]) simp
  then show ?thesis
    unfolding reconcile_summary_def Let_def
    by (auto intro: status_evolves_same status_evolves_indeterminate split: option.splits)
qed

lemma status_evolves_missing: "status_evolves c (mark_missing now i c)"
  by (auto simp: mark_missing_def Let_def intro: status_evolves_indeterminate)

lemma status_evolves_fold:
  "(\<And>x c. status_evolves c (f x c)) \<Longrightarrow> status_evolves c (fold f xs c)"
  by (rule fold_rel [where R = status_evolves]) (auto intro: status_evolves_refl status_evolves_trans)

lemma status_evolves_worker: "status_evolves c (reconcile_worker ans now worker inventory c)"
  unfolding reconcile_worker_def Let_def
  by (rule status_evolves_trans [OF status_evolves_fold status_evolves_fold])
    (rule status_evolves_summary status_evolves_missing)+

lemma status_evolves_one: "status_evolves c (reconcile_one ans now worker c)"
  using status_evolves_worker [of "c\<lparr> co_report := r \<rparr>" ans now "wn_id worker" for r]
  by (auto simp: reconcile_one_def status_evolves_def option.rel_refl status_kept_refl
      split: option.splits)

text \<open>
  C3: reconciliation never invents an outcome: every process keeps its status or becomes
  indeterminate, and no process appears or disappears. In particular a process that is running
  stays running or becomes indeterminate, whatever the workers report.
\<close>

theorem reconcile_never_invents_outcome:
  "case find_process i (co_processes c) of
     None \<Rightarrow> find_process i (co_processes (reconcile ans now c)) = None
   | Some p \<Rightarrow> \<exists>p'. find_process i (co_processes (reconcile ans now c)) = Some p'
       \<and> (ep_status p' = ep_status p \<or> ep_status p' = EpIndeterminate)"
proof -
  have "status_evolves (c\<lparr> co_report := empty_report \<rparr>)
      (fold (reconcile_one ans now) (fetch_all_workers (co_workers c)) (c\<lparr> co_report := empty_report \<rparr>))"
    by (rule status_evolves_fold) (rule status_evolves_one)
  from this [unfolded status_evolves_def, THEN spec, of i] show ?thesis
    by (auto simp: reconcile_def Let_def status_kept_def option_rel_Some1 split: option.splits)
qed

section \<open>What the pass may do to a job\<close>

text \<open>The outcomes a dispatch can have that claim to know how the execution ended.\<close>

definition outcome_states :: "ExecutionWorkerDispatchState set" where
  "outcome_states = {DsCompleted, DsFailed, DsKilled, DsInterrupted}"

definition backed_by :: "uuid \<Rightarrow> job_summary set \<Rightarrow> uuid \<Rightarrow> execution_worker_job \<Rightarrow> bool" where
  "backed_by worker inventory i j \<longleftrightarrow> (\<exists>s \<in> inventory. \<exists>ev. js_execution_id s = i \<and> job_matches worker s j
     \<and> ej_dispatch_state j = dispatch_state (js_state s)
     \<and> js_terminal s = Some ev \<and> ej_terminal_evidence j = Some ev)"

definition job_evolved ::
  "uuid \<Rightarrow> job_summary set \<Rightarrow> uuid \<Rightarrow> execution_worker_job \<Rightarrow> execution_worker_job \<Rightarrow> bool" where
  "job_evolved worker inventory i j j' \<longleftrightarrow>
     ej_worker_node_id j' = ej_worker_node_id j \<and> ej_worker_job_id j' = ej_worker_job_id j
     \<and> ej_request_digest j' = ej_request_digest j
     \<and> ej_last_event_sequence j' = ej_last_event_sequence j
     \<and> ej_worker_last_sequence j \<le> ej_worker_last_sequence j'
     \<and> (ej_dispatch_state j' \<in> outcome_states \<longrightarrow>
          ej_dispatch_state j' = ej_dispatch_state j \<and> ej_terminal_evidence j' = ej_terminal_evidence j
          \<or> backed_by worker inventory i j')"

lemma job_evolved_refl: "job_evolved worker reps i j j"
  by (simp add: job_evolved_def)

lemma job_evolved_trans:
  assumes "job_evolved worker reps i a b" "job_evolved worker reps i b c"
  shows "job_evolved worker reps i a c"
proof -
  have "backed_by worker reps i c" if "backed_by worker reps i b"
    "ej_dispatch_state c = ej_dispatch_state b" "ej_terminal_evidence c = ej_terminal_evidence b"
    using that assms(2) by (auto simp: job_evolved_def backed_by_def job_matches_def)
  with assms show ?thesis by (auto simp: job_evolved_def)
qed

lemma job_evolved_indeterminate:
  "job_evolved worker reps i j (state_row now DsIndeterminate None d j)"
  by (simp add: job_evolved_def outcome_states_def)

definition jobs_evolved :: "uuid \<Rightarrow> job_summary set \<Rightarrow> coordinator \<Rightarrow> coordinator \<Rightarrow> bool" where
  "jobs_evolved worker reps c c' \<longleftrightarrow>
     (\<forall>i. rel_option (job_evolved worker reps i) (find_job i (co_jobs c)) (find_job i (co_jobs c')))"

lemma jobs_evolved_refl: "jobs_evolved worker reps c c"
  by (simp add: jobs_evolved_def option.rel_refl job_evolved_refl)

lemma jobs_evolved_trans:
  "jobs_evolved worker reps a b \<Longrightarrow> jobs_evolved worker reps b c \<Longrightarrow> jobs_evolved worker reps a c"
  unfolding jobs_evolved_def
  by (metis (no_types, opaque_lifting) job_evolved_trans option.rel_transp transpD transpI)

text \<open>A change of one row by a function that keeps the key.\<close>

lemma jobs_evolved_modify:
  assumes "co_jobs c' = sql_modify ej_execution_process_id (co_jobs c) i f"
    and "keeps_key ej_execution_process_id f"
    and "\<And>j. find_job i (co_jobs c) = Some j \<Longrightarrow> job_evolved worker reps i j (f j)"
  shows "jobs_evolved worker reps c c'"
  unfolding jobs_evolved_def
proof
  fix k
  show "rel_option (job_evolved worker reps k) (find_job k (co_jobs c)) (find_job k (co_jobs c'))"
    using assms
    by (cases "find_job k (co_jobs c)") (auto simp: jobs.lookup_modify job_evolved_refl)
qed

lemma jobs_evolved_same: "co_jobs c' = co_jobs c \<Longrightarrow> jobs_evolved worker reps c c'"
  using jobs_evolved_refl [of worker reps c] by (simp add: jobs_evolved_def)

lemma dispatch_outcome_terminal: "dispatch_state st \<in> outcome_states \<Longrightarrow> JobState_is_terminal st"
  by (cases st) (auto simp: outcome_states_def)

lemma apply_terminal_evidence_jobs:
  "co_jobs (apply_terminal_evidence now s ev c) = co_jobs c
  \<or> co_jobs (apply_terminal_evidence now s ev c) = sql_modify ej_execution_process_id (co_jobs c)
      (js_execution_id s) (state_row now DsIndeterminate None (Some now))
  \<or> co_jobs (apply_terminal_evidence now s ev c) = sql_modify ej_execution_process_id (co_jobs c)
      (js_execution_id s)
      (state_row now (dispatch_state (js_state s)) (Some ev) (Some (te_observed_at ev)))"
  by (simp add: apply_terminal_evidence_def Let_def)

lemma jobs_evolved_evidence:
  assumes known: "find_job (js_execution_id s) (co_jobs c) = Some known" "job_matches worker s known"
    and s: "s \<in> reps"
  shows "jobs_evolved worker reps c (apply_worker_evidence now s c)"
proof -
  let ?i = "js_execution_id s"
  let ?c = "c\<lparr> co_jobs := snd (observe_worker_sequence now ?i (sint (js_last_sequence s)) (co_jobs c)) \<rparr>"
  let ?j = "observe_row now (sint (js_last_sequence s)) known"
  have observed: "jobs_evolved worker reps c ?c"
    by (rule jobs_evolved_modify [where i = ?i and f = "observe_row now (sint (js_last_sequence s))"])
      (simp_all add: job_evolved_def)
  have j: "find_job ?i (co_jobs ?c) = Some ?j"
    using known(1) by (simp add: jobs.lookup_modify)
  have applied: "jobs_evolved worker reps ?c c'"
    if "co_jobs c' = sql_modify ej_execution_process_id (co_jobs ?c) ?i (state_row now st ev d)"
      "st = DsIndeterminate \<or> st = dispatch_state (js_state s)
         \<and> (st \<in> outcome_states \<longrightarrow> ev = js_terminal s \<and> ev \<noteq> None)" for c' st ev d
    by (rule jobs_evolved_modify [OF that(1)])
      (use that(2) j known s in \<open>auto simp: job_evolved_def backed_by_def job_matches_def outcome_states_def\<close>)
  have "jobs_evolved worker reps ?c (apply_worker_evidence now s c)"
  proof (cases "JobState_is_terminal (js_state s)")
    case False
    then show ?thesis
      by (intro applied [where st = "dispatch_state (js_state s)" and ev = None])
        (auto simp: apply_worker_evidence_def Let_def dest: dispatch_outcome_terminal)
  next
    case terminal: True
    show ?thesis
    proof (cases "js_terminal s")
      case None
      with terminal show ?thesis
        by (intro applied [where st = DsIndeterminate])
          (auto simp: apply_worker_evidence_def Let_def)
    next
      case (Some ev)
      with terminal have e: "apply_worker_evidence now s c = apply_terminal_evidence now s ev ?c"
        by (simp add: apply_worker_evidence_def Let_def)
      show ?thesis
        using apply_terminal_evidence_jobs [of now s ev ?c] unfolding e
        by (elim disjE) (auto simp only: Some intro: jobs_evolved_same applied)
    qed
  qed
  with observed show ?thesis by (rule jobs_evolved_trans)
qed

lemma jobs_evolved_cong:
  "co_jobs c' = co_jobs c'' \<Longrightarrow> jobs_evolved worker reps c c' \<Longrightarrow> jobs_evolved worker reps c c''"
  by (simp add: jobs_evolved_def)

lemma jobs_evolved_marked:
  "co_jobs c' = sql_modify ej_execution_process_id (co_jobs c) i (state_row now DsIndeterminate None d)
    \<Longrightarrow> jobs_evolved worker reps c c'"
  by (erule jobs_evolved_modify) (simp_all add: job_evolved_indeterminate)

lemma jobs_evolved_summary:
  assumes "s \<in> reps"
  shows "jobs_evolved worker reps c (reconcile_summary ans now worker s c)"
proof (cases "find_job (js_execution_id s) (co_jobs c)")
  case None
  then show ?thesis by (auto simp: reconcile_summary_def Let_def intro: jobs_evolved_same)
next
  case (Some known)
  have "jobs_evolved worker reps c ((apply_worker_evidence now s c)\<lparr> co_report := r \<rparr>)"
    if "job_matches worker s known" for r
    by (rule jobs_evolved_cong [OF _ jobs_evolved_evidence [OF Some that assms]]) simp
  with Some show ?thesis
    by (auto simp: reconcile_summary_def Let_def intro: jobs_evolved_marked)
qed

lemma jobs_evolved_fold:
  "(\<And>x c. x \<in> set xs \<Longrightarrow> jobs_evolved worker reps c (f x c)) \<Longrightarrow> jobs_evolved worker reps c (fold f xs c)"
  by (rule fold_rel [where R = "jobs_evolved worker reps"])
    (auto intro: jobs_evolved_refl jobs_evolved_trans)

lemma jobs_evolved_missing: "jobs_evolved worker reps c (mark_missing now i c)"
  by (auto simp: mark_missing_def Let_def intro: jobs_evolved_marked)

lemma jobs_evolved_worker:
  "jobs_evolved worker (set inventory) c (reconcile_worker ans now worker inventory c)"
  unfolding reconcile_worker_def Let_def
  by (rule jobs_evolved_trans [OF jobs_evolved_fold jobs_evolved_fold])
    (auto intro: jobs_evolved_summary jobs_evolved_missing)

text \<open>
  C4: reconciling one worker keeps each job's worker, worker job id, request digest and
  acknowledged cursor, never lowers the worker's cursor, and records an outcome (completed,
  failed, killed, interrupted) only if the job already had it with the same evidence or the
  worker's inventory has a summary of that execution with the same worker job id and digest,
  that state, and the terminal evidence that is stored.
\<close>

theorem reconcile_outcome_backed:
  assumes "find_job i (co_jobs (reconcile_worker ans now worker inventory c)) = Some j'"
  shows "\<exists>j. find_job i (co_jobs c) = Some j \<and> job_evolved worker (set inventory) i j j'"
  using jobs_evolved_worker [of worker inventory c ans now, unfolded jobs_evolved_def, THEN spec, of i] assms
  by (auto simp: option_rel_Some2)

section \<open>Jobs the worker no longer reports\<close>

lemma mark_missing_simps [simp]:
  "co_jobs (mark_missing now i c) =
     sql_modify ej_execution_process_id (co_jobs c) i (state_row now DsIndeterminate None (Some now))"
  "co_processes (mark_missing now i c) =
     sql_modify ep_id (co_processes c) i (completion_row now EpIndeterminate None)"
  by (simp_all add: mark_missing_def Let_def)

lemma mark_missing_fold:
  assumes "i \<in> set xs"
  shows "(\<forall>j. find_job i (co_jobs (fold (mark_missing now) xs c)) = Some j \<longrightarrow>
      ej_dispatch_state j = DsIndeterminate)
    \<and> (\<forall>p. find_process i (co_processes (fold (mark_missing now) xs c)) = Some p \<longrightarrow>
      ep_status p = EpIndeterminate)"
  using assms
proof (induction xs rule: rev_induct)
  case Nil
  then show ?case by simp
next
  case (snoc x xs)
  then show ?case
    by (cases "i = x") (auto simp: jobs.lookup_modify processes.lookup_modify)
qed

text \<open>
  Every execution that was dispatched to a worker, is not in a terminal state and is absent
  from the worker's inventory is indeterminate afterwards, both as a job and as a process.
\<close>

theorem missing_jobs_indeterminate:
  assumes "find_job i (co_jobs c) = Some j" "ej_worker_node_id j = worker"
    and "\<not> DispatchState_is_terminal (ej_dispatch_state j)"
    and "i \<notin> js_execution_id ` set inventory"
  shows "(\<exists>j'. find_job i (co_jobs (reconcile_worker ans now worker inventory c)) = Some j'
      \<and> ej_dispatch_state j' = DsIndeterminate)
    \<and> (\<forall>p. find_process i (co_processes (reconcile_worker ans now worker inventory c)) = Some p \<longrightarrow>
      ep_status p = EpIndeterminate)"
proof -
  let ?xs = "filter (\<lambda>i. i \<notin> js_execution_id ` set inventory)
    (map ej_execution_process_id (find_nonterminal_for_worker worker (co_jobs c)))"
  have "j \<in> set (co_jobs c)" "ej_execution_process_id j = i"
    using assms(1) by (auto simp: find_job_def dest: sql_find_Some)
  then have "i \<in> set ?xs" using assms(2-4) by (auto simp: find_nonterminal_for_worker_def)
  from mark_missing_fold [OF this] have
    "\<forall>j. find_job i (co_jobs (reconcile_worker ans now worker inventory c)) = Some j \<longrightarrow>
       ej_dispatch_state j = DsIndeterminate"
    "\<forall>p. find_process i (co_processes (reconcile_worker ans now worker inventory c)) = Some p \<longrightarrow>
       ep_status p = EpIndeterminate"
    by (simp_all only: reconcile_worker_def Let_def) blast+
  moreover obtain j' where "find_job i (co_jobs (reconcile_worker ans now worker inventory c)) = Some j'"
    using jobs_evolved_worker [of worker inventory c ans now, unfolded jobs_evolved_def, THEN spec, of i]
      assms(1) by (auto simp: option_rel_Some1)
  ultimately show ?thesis by blast
qed

section \<open>Cursors and acceptance\<close>

text \<open>
  Acknowledging a sequence sets a job's cursor to that sequence exactly when it is not
  behind it, so the cursor never goes back, nor does the worker's own cursor; other jobs are
  untouched.
\<close>

theorem acknowledge_sequence_monotone:
  "find_job k (snd (acknowledge_sequence clock i sequence worker_last t)) =
    (case find_job k t of None \<Rightarrow> None
     | Some j \<Rightarrow> Some (if k = i \<and> ej_last_event_sequence j \<le> sequence
         then j\<lparr> ej_last_event_sequence := sequence,
                 ej_worker_last_sequence := max (ej_worker_last_sequence j) worker_last,
                 ej_updated_at := clock \<rparr>
         else j))"
  (is "_ = ?rhs")
proof -
  let ?p = "\<lambda>j. ej_execution_process_id j = i \<and> ej_last_event_sequence j \<le> sequence"
  let ?f = "\<lambda>j. j\<lparr> ej_last_event_sequence := sequence,
      ej_worker_last_sequence := max (ej_worker_last_sequence j) worker_last, ej_updated_at := clock \<rparr>"
  have "find_job k (snd (sql_update ?p ?f t)) = map_option (\<lambda>j. if ?p j then ?f j else j) (find_job k t)"
    unfolding find_job_def by (rule sql_find_update) simp
  also have "\<dots> = ?rhs"
    by (cases "find_job k t") (auto simp: find_job_def dest: sql_find_Some)
  finally show ?thesis by (simp add: acknowledge_sequence_def split_beta)
qed

lemma find_job_append:
  "find_job k (t @ [j]) = (case find_job k t of Some x \<Rightarrow> Some x
     | None \<Rightarrow> if ej_execution_process_id j = k then Some j else None)"
  by (simp add: find_job_def sql_find_append split: option.splits)

text \<open>
  Creating the pending row is idempotent: after a successful call, repeating it returns the
  same row and changes nothing, and a call for the same execution with another worker or
  another request digest is an error that changes nothing.
\<close>

theorem create_pending_idempotent:
  assumes "create_pending procs workers clock i worker digest t = (Ok j, t')"
  shows "create_pending procs workers clock' i worker digest t' = (Ok j, t')
    \<and> (worker' \<noteq> worker \<or> digest' \<noteq> digest \<longrightarrow>
        create_pending procs workers clock' i worker' digest' t' =
          (Err (JobProtocol ''existing worker dispatch does not match the retried request''), t'))"
proof -
  have "find_job i t' = Some j \<and> ej_worker_node_id j = worker \<and> ej_request_digest j = digest"
    using assms by (auto simp: create_pending_def Let_def split: if_splits)
  then show ?thesis by (auto simp: create_pending_def Let_def)
qed

section \<open>Witnesses\<close>

definition demo_job :: "uuid \<Rightarrow> ExecutionWorkerDispatchState \<Rightarrow> execution_worker_job" where
  "demo_job i st = (pending_row 0 i 3 ''d'')\<lparr> ej_dispatch_state := st \<rparr>"

definition demo_process :: "uuid \<Rightarrow> ExecutionProcessStatus \<Rightarrow> execution_process" where
  "demo_process i st = \<lparr> ep_id = i, ep_session_id = 0, ep_run_reason = CodingAgent,
     ep_executor_action = [], ep_status = st, ep_exit_code = None, ep_pgid = None, ep_dropped = False,
     ep_started_at = 0, ep_completed_at = None, ep_created_at = 0, ep_updated_at = 0 \<rparr>"

definition demo_evidence :: terminal_evidence where
  "demo_evidence = \<lparr> te_state = TermCompleted, te_exit_code = Some 0, te_signal = None,
     te_observed_at = 9 \<rparr>"

definition demo_summary :: job_summary where
  "demo_summary = \<lparr> js_execution_id = 1, js_worker_job_id = 1, js_workspace_id = 0,
     js_request_digest = ''d'', js_state = JobCompleted, js_last_sequence = 5,
     js_terminal = Some demo_evidence \<rparr>"

text \<open>Execution 1 is done for both sides, execution 2 is unknown to the worker.\<close>

definition demo_coordinator :: coordinator where
  "demo_coordinator = \<lparr> co_workers = [], co_jobs = [demo_job 1 DsRunning, demo_job 2 DsRunning],
     co_processes = [demo_process 1 EpCompleted, demo_process 2 EpRunning],
     co_quarantines = [], co_report = empty_report \<rparr>"

definition demo_answers :: worker_answers where
  "demo_answers = \<lparr> wa_inventory = (\<lambda>_. None), wa_quarantine_ok = (\<lambda>_ _. True) \<rparr>"

definition demo_reconciled :: coordinator where
  "demo_reconciled = reconcile_worker demo_answers 10 3 [demo_summary] demo_coordinator"

lemmas demo_reconcile_defs = demo_job_def demo_process_def demo_evidence_def demo_summary_def
  demo_coordinator_def pending_row_def

lemma demo_reconciled_job:
  "\<exists>j. find_job 1 (co_jobs demo_reconciled) = Some j \<and> ej_dispatch_state j = DsCompleted"
  by (simp add: demo_reconciled_def reconcile_worker_def demo_reconcile_defs find_job_def find_process_def
      reconcile_summary_def job_matches_def apply_worker_evidence_def apply_terminal_evidence_def Let_def
      find_nonterminal_for_worker_def sql_modify_def sql_update_def mark_missing_def update_completion_def
      mark_indeterminate_def observe_row_def state_row_def completion_row_def update_state_def
      observe_worker_sequence_def)

theorem reconcile_outcome_backed_witness:
  "\<exists>j j'. find_job 1 (co_jobs demo_coordinator) = Some j
     \<and> find_job 1 (co_jobs demo_reconciled) = Some j' \<and> backed_by 3 {demo_summary} 1 j'"
proof -
  obtain j' where j': "find_job 1 (co_jobs demo_reconciled) = Some j'"
    and st: "ej_dispatch_state j' = DsCompleted"
    using demo_reconciled_job by blast
  obtain j where j: "find_job 1 (co_jobs demo_coordinator) = Some j"
    and e: "job_evolved 3 (set [demo_summary]) 1 j j'"
    using reconcile_outcome_backed [OF j' [unfolded demo_reconciled_def]] by blast
  have "ej_dispatch_state j = DsRunning"
    using j by (auto simp: demo_reconcile_defs find_job_def)
  with e st have "backed_by 3 {demo_summary} 1 j'"
    by (simp add: job_evolved_def outcome_states_def)
  with j j' show ?thesis by blast
qed

theorem missing_jobs_indeterminate_witness:
  "\<exists>j'. find_job 2 (co_jobs demo_reconciled) = Some j' \<and> ej_dispatch_state j' = DsIndeterminate"
proof -
  have "find_job 2 (co_jobs demo_coordinator) = Some (demo_job 2 DsRunning)"
    "ej_worker_node_id (demo_job 2 DsRunning) = 3"
    "\<not> DispatchState_is_terminal (ej_dispatch_state (demo_job 2 DsRunning))"
    "2 \<notin> js_execution_id ` set [demo_summary]"
    by (simp_all add: demo_reconcile_defs find_job_def)
  from missing_jobs_indeterminate [OF this] show ?thesis
    unfolding demo_reconciled_def by blast
qed

theorem create_pending_idempotent_witness:
  "create_pending [demo_process 1 EpRunning] [demo_row Online] 7 1 3 ''d'' [demo_job 1 DsPending] =
     (Ok (demo_job 1 DsPending), [demo_job 1 DsPending])"
proof -
  have "create_pending [demo_process 1 EpRunning] [demo_row Online] 0 1 3 ''d'' [] =
     (Ok (demo_job 1 DsPending), [demo_job 1 DsPending])"
    by (simp add: create_pending_def Let_def find_job_def find_process_def find_worker_def
        job_slot_taken_def demo_reconcile_defs demo_row_def inserted_row_def registration_row_def
        demo_registration_def demo_authority_def)
  from create_pending_idempotent [OF this] show ?thesis by blast
qed

end
