(* ===== verification/Workspace_Table.thy ===== *)
theory Workspace_Table
  imports Reconcile Rust_Strings
begin

text \<open>
  The \<open>workspaces\<close> table (\<open>crates/db/src/models/workspace.rs\<close>): the lifecycle of a workspace's creation,
  its placement on a worker, and the claim that lets one sweep reclaim its worktree. Every
  statement is a conditional update of one row; its result tells whether a row matched.
  \<open>clock\<close> is the database's time. Time stamps count nanoseconds.
\<close>

section \<open>Rows\<close>

datatype WorkspaceCreationStatus = CreationQueued | CreationRunning | CreationReady | CreationFailed

datatype WorkspacePlacementState =
    PlLocal | PlReserved | PlProvisioning | PlReady | PlFailed | PlCleaning

record workspace =
  ws_id :: uuid
  ws_task_id :: "uuid option"
  ws_container_ref :: "string option"
  ws_branch :: string
  ws_setup_completed_at :: "datetime option"
  ws_created_at :: datetime
  ws_updated_at :: datetime
  ws_archived :: bool
  ws_pinned :: bool
  ws_name :: "string option"
  ws_worktree_deleted :: bool
  ws_current_pipeline_stage :: "int option"
  ws_speckit_feature_key :: "string option"
  ws_speckit_host_repo_id :: "uuid option"
  ws_creation_status :: WorkspaceCreationStatus
  ws_creation_error :: "string option"
  ws_worker_node_id :: "uuid option"
  ws_placement_state :: WorkspacePlacementState
  ws_placed_at :: "datetime option"
  ws_placement_reason :: "string option"
  ws_requested_worker_node_id :: "uuid option"
  ws_placement_constraints :: "json option"

type_synonym workspace_table = "workspace list"

definition find_workspace :: "uuid \<Rightarrow> workspace_table \<Rightarrow> workspace option" where
  "find_workspace i t = sql_find ws_id i t"

interpretation workspaces: keyed_store "\<lambda>t i. find_workspace i t" "sql_modify ws_id" "keeps_key ws_id"
  by unfold_locales (simp add: find_workspace_def sql_find_modify)

text \<open>
  \<open>UPDATE workspaces SET ... WHERE id = i AND p\<close>, and whether exactly one row matched.
\<close>

definition ws_update :: "uuid \<Rightarrow> (workspace \<Rightarrow> bool) \<Rightarrow> (workspace \<Rightarrow> workspace)
    \<Rightarrow> workspace_table \<Rightarrow> bool \<times> workspace_table" where
  "ws_update i p f t = (let (n, t') = sql_update (\<lambda>w. ws_id w = i \<and> p w) f t in (n = 1, t'))"

section \<open>Creation\<close>

definition ws_new :: "datetime \<Rightarrow> string \<Rightarrow> string option \<Rightarrow> uuid \<Rightarrow> workspace" where
  "ws_new clock branch name i = \<lparr> ws_id = i, ws_task_id = None, ws_container_ref = None,
     ws_branch = branch, ws_setup_completed_at = None, ws_created_at = clock, ws_updated_at = clock,
     ws_archived = False, ws_pinned = False, ws_name = name, ws_worktree_deleted = False,
     ws_current_pipeline_stage = None, ws_speckit_feature_key = None, ws_speckit_host_repo_id = None,
     ws_creation_status = CreationReady, ws_creation_error = None, ws_worker_node_id = None,
     ws_placement_state = PlLocal, ws_placed_at = None, ws_placement_reason = None,
     ws_requested_worker_node_id = None, ws_placement_constraints = None \<rparr>"

datatype workspace_db_error = WorkspaceUniqueViolation

definition ws_create :: "datetime \<Rightarrow> string \<Rightarrow> string option \<Rightarrow> uuid \<Rightarrow> workspace_table
    \<Rightarrow> (workspace_db_error + workspace) \<times> workspace_table" where
  "ws_create clock branch name i t = (case find_workspace i t of
      Some _ \<Rightarrow> (Err WorkspaceUniqueViolation, t)
    | None \<Rightarrow> (let w = ws_new clock branch name i in (Ok w, t @ [w])))"

definition creation_row ::
  "datetime \<Rightarrow> WorkspaceCreationStatus \<Rightarrow> string option \<Rightarrow> workspace \<Rightarrow> workspace" where
  "creation_row clock st err w = w\<lparr> ws_creation_status := st, ws_creation_error := err, ws_updated_at := clock \<rparr>"

definition queue_creation :: "datetime \<Rightarrow> uuid \<Rightarrow> workspace_table \<Rightarrow> bool \<times> workspace_table" where
  "queue_creation clock i = ws_update i (\<lambda>w. ws_creation_status w = CreationReady)
     (creation_row clock CreationQueued None)"

definition claim_creation :: "datetime \<Rightarrow> uuid \<Rightarrow> workspace_table \<Rightarrow> bool \<times> workspace_table" where
  "claim_creation clock i = ws_update i (\<lambda>w. ws_creation_status w = CreationQueued)
     (creation_row clock CreationRunning None)"

definition finish_creation :: "datetime \<Rightarrow> uuid \<Rightarrow> workspace_table \<Rightarrow> bool \<times> workspace_table" where
  "finish_creation clock i = ws_update i (\<lambda>w. ws_creation_status w = CreationRunning)
     (creation_row clock CreationReady None)"

definition fail_creation :: "datetime \<Rightarrow> uuid \<Rightarrow> string \<Rightarrow> workspace_table \<Rightarrow> bool \<times> workspace_table" where
  "fail_creation clock i err = ws_update i
     (\<lambda>w. ws_creation_status w \<in> {CreationQueued, CreationRunning}) (creation_row clock CreationFailed (Some err))"

definition interrupted_creation_error :: string where
  "interrupted_creation_error =
     ''Workspace creation was interrupted by a server restart. Create a new workspace to try again.''"

definition fail_unfinished_creations :: "datetime \<Rightarrow> workspace_table \<Rightarrow> nat \<times> workspace_table" where
  "fail_unfinished_creations clock t = sql_update
     (\<lambda>w. ws_creation_status w \<in> {CreationQueued, CreationRunning})
     (creation_row clock CreationFailed (Some interrupted_creation_error)) t"

section \<open>Placement\<close>

definition reserve :: "datetime \<Rightarrow> uuid \<Rightarrow> uuid \<Rightarrow> uuid option \<Rightarrow> json option \<Rightarrow> string option
    \<Rightarrow> workspace_table \<Rightarrow> bool \<times> workspace_table" where
  "reserve clock i worker requested constraints reason = ws_update i
     (\<lambda>w. ws_placement_state w = PlLocal \<and> ws_worker_node_id w = None)
     (\<lambda>w. w\<lparr> ws_worker_node_id := Some worker, ws_placement_state := PlReserved,
        ws_placed_at := Some clock, ws_placement_reason := reason,
        ws_requested_worker_node_id := requested, ws_placement_constraints := constraints,
        ws_updated_at := clock \<rparr>)"

definition reassign :: "datetime \<Rightarrow> uuid \<Rightarrow> uuid option \<Rightarrow> uuid \<Rightarrow> uuid option \<Rightarrow> string
    \<Rightarrow> workspace_table \<Rightarrow> bool \<times> workspace_table" where
  "reassign clock i expected worker requested reason = ws_update i
     (\<lambda>w. ws_placement_state w \<noteq> PlLocal \<and> ws_worker_node_id w = expected)
     (\<lambda>w. w\<lparr> ws_worker_node_id := Some worker, ws_placement_state := PlReady,
        ws_placed_at := Some clock, ws_placement_reason := Some reason,
        ws_requested_worker_node_id := requested, ws_updated_at := clock \<rparr>)"

definition reassign_to_coordinator :: "datetime \<Rightarrow> uuid \<Rightarrow> uuid option \<Rightarrow> string
    \<Rightarrow> workspace_table \<Rightarrow> bool \<times> workspace_table" where
  "reassign_to_coordinator clock i expected reason = ws_update i
     (\<lambda>w. ws_worker_node_id w = expected)
     (\<lambda>w. w\<lparr> ws_worker_node_id := None, ws_placement_state := PlLocal, ws_placed_at := Some clock,
        ws_placement_reason := Some reason, ws_requested_worker_node_id := None, ws_updated_at := clock \<rparr>)"

definition placement_allowed :: "WorkspacePlacementState \<Rightarrow> WorkspacePlacementState \<Rightarrow> bool" where
  "placement_allowed expected nxt \<longleftrightarrow> (expected, nxt) \<in>
     {(PlReserved, PlProvisioning), (PlProvisioning, PlReady), (PlProvisioning, PlFailed)}"

definition placement_transition :: "datetime \<Rightarrow> uuid \<Rightarrow> WorkspacePlacementState \<Rightarrow> WorkspacePlacementState
    \<Rightarrow> string option \<Rightarrow> workspace_table \<Rightarrow> bool \<times> workspace_table" where
  "placement_transition clock i expected nxt reason t =
     (if \<not> placement_allowed expected nxt then (False, t)
      else ws_update i (\<lambda>w. ws_placement_state w = expected)
        (\<lambda>w. w\<lparr> ws_placement_state := nxt,
           ws_placement_reason := (case reason of Some r \<Rightarrow> Some r | None \<Rightarrow> ws_placement_reason w),
           ws_updated_at := clock \<rparr>) t)"

section \<open>Reclaiming worktrees\<close>

definition worker_cleanable :: "datetime \<Rightarrow> worker_node list \<Rightarrow> uuid option \<Rightarrow> bool" where
  "worker_cleanable now workers worker \<longleftrightarrow> is_some_and worker (\<lambda>i. list_ex (\<lambda>n. wn_id n = i
     \<and> wn_status n = Online \<and> wn_mount_status n = MsHealthy
     \<and> is_some_and (wn_lease_expires_at n) (\<lambda>e. now < e)) workers)"

definition workspace_has_open_jobs :: "session_table \<Rightarrow> process_table \<Rightarrow> job_table \<Rightarrow> workspace \<Rightarrow> bool" where
  "workspace_has_open_jobs sessions processes jobs w \<longleftrightarrow> list_ex (\<lambda>p. in_workspace (ws_id w) sessions p \<and>
     list_ex (\<lambda>j. ej_execution_process_id j = ep_id p
       \<and> ej_dispatch_state j \<notin> {DsCompleted, DsFailed, DsKilled}) jobs) processes"

definition begin_cleanup :: "datetime \<Rightarrow> datetime \<Rightarrow> worker_node list \<Rightarrow> session_table \<Rightarrow> process_table
    \<Rightarrow> job_table \<Rightarrow> uuid \<Rightarrow> workspace_table \<Rightarrow> bool \<times> workspace_table" where
  "begin_cleanup clock now workers sessions processes jobs i = ws_update i
     (\<lambda>w. ws_placement_state w = PlReady \<and> worker_cleanable now workers (ws_worker_node_id w)
        \<and> \<not> workspace_has_open_jobs sessions processes jobs w)
     (\<lambda>w. w\<lparr> ws_placement_state := PlCleaning, ws_updated_at := clock \<rparr>)"

definition finish_cleanup :: "datetime \<Rightarrow> uuid \<Rightarrow> workspace_table \<Rightarrow> bool \<times> workspace_table" where
  "finish_cleanup clock i = ws_update i
     (\<lambda>w. ws_placement_state w = PlCleaning \<and> ws_worktree_deleted w)
     (\<lambda>w. w\<lparr> ws_placement_state := PlReady, ws_updated_at := clock \<rparr>)"

definition cancel_cleanup :: "datetime \<Rightarrow> uuid \<Rightarrow> workspace_table \<Rightarrow> bool \<times> workspace_table" where
  "cancel_cleanup clock i = ws_update i
     (\<lambda>w. ws_placement_state w = PlCleaning \<and> \<not> ws_worktree_deleted w)
     (\<lambda>w. w\<lparr> ws_placement_state := PlReady, ws_updated_at := clock \<rparr>)"

definition mark_worktree_deleted :: "datetime \<Rightarrow> uuid \<Rightarrow> workspace_table \<Rightarrow> workspace_table" where
  "mark_worktree_deleted clock i t =
     sql_modify ws_id t i (\<lambda>w. w\<lparr> ws_worktree_deleted := True, ws_updated_at := clock \<rparr>)"

definition clear_worktree_deleted :: "datetime \<Rightarrow> uuid \<Rightarrow> workspace_table \<Rightarrow> workspace_table" where
  "clear_worktree_deleted clock i t =
     sql_modify ws_id t i (\<lambda>w. w\<lparr> ws_worktree_deleted := False, ws_updated_at := clock \<rparr>)"

text \<open>
  \<open>find_expired_for_cleanup\<close>. SQLite's \<open>datetime\<close> drops the fraction of a second; \<open>'localtime'\<close>
  adds the zone's offset, the parameter \<open>tz\<close> in seconds. A join row of a workspace is the completion
  time of one of its completed executions, or NULL for a session without any; the two-argument
  \<open>max\<close> is NULL when an argument is, the aggregate \<open>MAX\<close> ignores NULLs, and a comparison with NULL
  is not true.
\<close>

definition sqlite_seconds :: "datetime \<Rightarrow> int" where
  "sqlite_seconds x = x div 1000000000"

definition completed_in_session :: "process_table \<Rightarrow> session \<Rightarrow> datetime list" where
  "completed_in_session processes s = List.map_filter (\<lambda>p. if ep_session_id p = se_id s then ep_completed_at p else None) processes"

definition cleanup_join :: "session_table \<Rightarrow> process_table \<Rightarrow> workspace \<Rightarrow> datetime option list" where
  "cleanup_join sessions processes w =
     (let ss = filter (\<lambda>s. se_workspace_id s = ws_id w) sessions in
      if ss = [] then [None]
      else concat (map (\<lambda>s. let cs = completed_in_session processes s
                            in if cs = [] then [None] else map Some cs) ss))"

definition sql_max :: "int option list \<Rightarrow> int option" where
  "sql_max xs = (case List.map_filter id xs of [] \<Rightarrow> None | y # ys \<Rightarrow> Some (fold max ys y))"

definition last_activity :: "session_table \<Rightarrow> process_table \<Rightarrow> workspace \<Rightarrow> int option" where
  "last_activity sessions processes w = sql_max (map (map_option
     (\<lambda>c. max (sqlite_seconds (ws_updated_at w)) (sqlite_seconds c))) (cleanup_join sessions processes w))"

definition cleanup_age :: "workspace \<Rightarrow> int" where
  "cleanup_age w = (if ws_archived w then 3600 else 72 * 3600)"

definition workspace_expired ::
  "int \<Rightarrow> datetime \<Rightarrow> session_table \<Rightarrow> process_table \<Rightarrow> workspace \<Rightarrow> bool" where
  "workspace_expired tz now sessions processes w \<longleftrightarrow>
     ws_container_ref w \<noteq> None \<and> \<not> ws_worktree_deleted w
     \<and> \<not> list_ex (\<lambda>p. in_workspace (ws_id w) sessions p \<and> ep_completed_at p = None) processes
     \<and> is_some_and (last_activity sessions processes w)
         (\<lambda>a. a < sqlite_seconds now + tz - cleanup_age w)"

definition cleanup_order :: "session_table \<Rightarrow> process_table \<Rightarrow> workspace \<Rightarrow> int" where
  "cleanup_order sessions processes w =
     (case sql_max (map (\<lambda>c. Some (case c of Some x \<Rightarrow> x | None \<Rightarrow> ws_updated_at w))
        (cleanup_join sessions processes w)) of Some x \<Rightarrow> x | None \<Rightarrow> 0)"

definition find_expired_for_cleanup ::
  "int \<Rightarrow> datetime \<Rightarrow> session_table \<Rightarrow> process_table \<Rightarrow> workspace_table \<Rightarrow> workspace_table" where
  "find_expired_for_cleanup tz now sessions processes t =
     sort_key (cleanup_order sessions processes) (filter (workspace_expired tz now sessions processes) t)"

section \<open>Other statements\<close>

definition update_container_ref :: "datetime \<Rightarrow> uuid \<Rightarrow> string \<Rightarrow> workspace_table \<Rightarrow> workspace_table" where
  "update_container_ref now i r t =
     sql_modify ws_id t i (\<lambda>w. w\<lparr> ws_container_ref := Some r, ws_updated_at := now \<rparr>)"

definition touch :: "datetime \<Rightarrow> uuid \<Rightarrow> workspace_table \<Rightarrow> workspace_table" where
  "touch clock i t = sql_modify ws_id t i (\<lambda>w. w\<lparr> ws_updated_at := clock \<rparr>)"

definition update_branch_name :: "datetime \<Rightarrow> uuid \<Rightarrow> string \<Rightarrow> workspace_table \<Rightarrow> workspace_table" where
  "update_branch_name clock i branch t =
     sql_modify ws_id t i (\<lambda>w. w\<lparr> ws_branch := branch, ws_updated_at := clock \<rparr>)"

definition set_current_pipeline_stage :: "datetime \<Rightarrow> uuid \<Rightarrow> int option \<Rightarrow> workspace_table \<Rightarrow> workspace_table" where
  "set_current_pipeline_stage clock i stage t =
     sql_modify ws_id t i (\<lambda>w. w\<lparr> ws_current_pipeline_stage := stage, ws_updated_at := clock \<rparr>)"

definition set_speckit_provisioning :: "datetime \<Rightarrow> uuid \<Rightarrow> uuid \<Rightarrow> string
    \<Rightarrow> workspace_table \<Rightarrow> bool \<times> workspace_table" where
  "set_speckit_provisioning clock i host key t =
     (let (n, t') = sql_update (\<lambda>w. ws_id w = i \<and> ws_speckit_feature_key w = None)
        (\<lambda>w. w\<lparr> ws_speckit_host_repo_id := Some host, ws_speckit_feature_key := Some key,
           ws_updated_at := clock \<rparr>) t
      in (0 < n, t'))"

definition find_latest_by_task_id :: "uuid \<Rightarrow> workspace_table \<Rightarrow> workspace option" where
  "find_latest_by_task_id task t = first_row (newest_first ws_created_at
     (filter (\<lambda>w. ws_task_id w = Some task \<and> \<not> ws_worktree_deleted w) t))"

text \<open>The last of the candidates with the most path components (\<open>Iterator::max_by_key\<close>).\<close>

definition container_ref_matches :: "string \<Rightarrow> string \<Rightarrow> bool" where
  "container_ref_matches path r \<longleftrightarrow> path_starts_with path r \<or> path_starts_with r path"

definition best_matching_container_ref :: "string \<Rightarrow> (uuid \<times> string) list \<Rightarrow> uuid option" where
  "best_matching_container_ref path candidates = map_option fst (fold (\<lambda>c best. case best of
       None \<Rightarrow> Some c
     | Some b \<Rightarrow> if length (path_components (snd b)) \<le> length (path_components (snd c)) then Some c else Some b)
     (filter (\<lambda>c. container_ref_matches path (snd c)) candidates) None)"

datatype ref_error = RefRowNotFound

definition resolve_container_ref_by_prefix :: "string \<Rightarrow> workspace_table \<Rightarrow> ref_error + uuid" where
  "resolve_container_ref_by_prefix path t = ok_or (best_matching_container_ref path
     (List.map_filter (\<lambda>w. map_option (Pair (ws_id w)) (ws_container_ref w)) t)) RefRowNotFound"

section \<open>Statements as steps\<close>

lemma ws_update_table: "snd (ws_update i p f t) = map (\<lambda>w. if ws_id w = i \<and> p w then f w else w) t"
  by (simp add: ws_update_def sql_update_def Let_def)

lemma ws_update_keyed:
  assumes "keyed ws_id t" "\<And>w. ws_id (f w) = ws_id w"
  shows "fst (ws_update i p f t) \<longleftrightarrow> is_some_and (find_workspace i t) p"
    and "find_workspace j (snd (ws_update i p f t)) =
      (if j = i then map_option (\<lambda>w. if p w then f w else w) (find_workspace i t) else find_workspace j t)"
    and "keyed ws_id (snd (ws_update i p f t))"
proof -
  have "length (filter (\<lambda>w. ws_id w = i \<and> p w) t) = (if is_some_and (find_workspace i t) p then 1 else 0)"
    using assms(1)
  proof (induction t)
    case (Cons w t)
    have none: "filter (\<lambda>v. ws_id v = i \<and> p v) t = []" if "ws_id w = i"
      using Cons.prems that by (auto simp: keyed_def filter_empty_conv image_iff)
    from Cons none show ?case
      by (cases "ws_id w = i") (simp_all add: keyed_def find_workspace_def)
  qed (simp add: find_workspace_def)
  then show "fst (ws_update i p f t) \<longleftrightarrow> is_some_and (find_workspace i t) p"
    by (simp add: ws_update_def sql_update_def)
  have *: "snd (ws_update i p f t) = sql_modify ws_id t i (\<lambda>w. if p w then f w else w)"
    by (auto simp: ws_update_table sql_modify_def sql_update_def)
  show "find_workspace j (snd (ws_update i p f t)) =
      (if j = i then map_option (\<lambda>w. if p w then f w else w) (find_workspace i t) else find_workspace j t)"
    unfolding * by (rule workspaces.lookup_modify) (simp add: keeps_key_def assms(2))
  show "keyed ws_id (snd (ws_update i p f t))"
    unfolding * sql_modify_def by (rule keyed_sql_update) (simp_all add: assms)
qed

lemma ws_update_all:
  assumes "list_all P t" "\<And>w. P w \<Longrightarrow> p w \<Longrightarrow> P (f w)"
  shows "list_all P (snd (ws_update i p f t))"
  using assms by (auto simp: ws_update_table list_all_iff)

inductive workspace_step :: "workspace_table \<Rightarrow> workspace_table \<Rightarrow> bool" where
  step_create: "ws_create clock branch name i t = (r, t') \<Longrightarrow> workspace_step t t'"
| step_queue: "workspace_step t (snd (queue_creation clock i t))"
| step_claim: "workspace_step t (snd (claim_creation clock i t))"
| step_finish: "workspace_step t (snd (finish_creation clock i t))"
| step_fail: "workspace_step t (snd (fail_creation clock i err t))"
| step_fail_unfinished: "workspace_step t (snd (fail_unfinished_creations clock t))"
| step_reserve: "workspace_step t (snd (reserve clock i worker requested constraints reason t))"
| step_reassign: "workspace_step t (snd (reassign clock i expected worker requested why t))"
| step_coordinator: "workspace_step t (snd (reassign_to_coordinator clock i expected why t))"
| step_transition: "workspace_step t (snd (placement_transition clock i from_state to_state reason t))"
| step_begin_cleanup: "workspace_step t (snd (begin_cleanup clock now workers sessions processes jobs i t))"
| step_finish_cleanup: "workspace_step t (snd (finish_cleanup clock i t))"
| step_cancel_cleanup: "workspace_step t (snd (cancel_cleanup clock i t))"
| step_mark_deleted: "workspace_step t (mark_worktree_deleted clock i t)"
| step_clear_deleted: "workspace_step t (clear_worktree_deleted clock i t)"

lemmas creation_defs = queue_creation_def claim_creation_def finish_creation_def fail_creation_def creation_row_def
lemmas placement_defs = reserve_def reassign_def reassign_to_coordinator_def placement_transition_def
  begin_cleanup_def finish_cleanup_def cancel_cleanup_def

definition owner_ok :: "workspace \<Rightarrow> bool" where
  "owner_ok w \<longleftrightarrow> (ws_placement_state w = PlLocal \<longleftrightarrow> ws_worker_node_id w = None)"

definition workspace_inv :: "workspace_table \<Rightarrow> bool" where
  "workspace_inv t \<longleftrightarrow> keyed ws_id t \<and> list_all owner_ok t"

lemma workspace_inv_update:
  assumes "workspace_inv t" "\<And>w. ws_id (f w) = ws_id w" "\<And>w. owner_ok w \<Longrightarrow> p w \<Longrightarrow> owner_ok (f w)"
  shows "workspace_inv (snd (ws_update i p f t))"
  using assms ws_update_keyed(3) [of t f i p] ws_update_all [of owner_ok t p f i]
  by (simp add: workspace_inv_def)

lemma workspace_inv_modify:
  assumes "workspace_inv t" "\<And>w. ws_id (f w) = ws_id w" "\<And>w. owner_ok w \<Longrightarrow> owner_ok (f w)"
  shows "workspace_inv (sql_modify ws_id t i f)"
proof -
  have "sql_modify ws_id t i f = snd (ws_update i (\<lambda>_. True) f t)"
    by (simp add: sql_modify_def ws_update_def sql_update_def)
  then show ?thesis using workspace_inv_update [of t f "\<lambda>_. True" i] assms by simp
qed

lemma workspace_inv_fail_unfinished:
  assumes "workspace_inv t"
  shows "workspace_inv (snd (fail_unfinished_creations clock t))"
proof -
  have "keyed ws_id (snd (fail_unfinished_creations clock t))"
    unfolding fail_unfinished_creations_def
    by (rule keyed_sql_update) (use assms in \<open>simp_all add: workspace_inv_def creation_row_def\<close>)
  moreover have "list_all owner_ok (snd (fail_unfinished_creations clock t))"
    using assms by (auto simp: workspace_inv_def fail_unfinished_creations_def sql_update_def list_all_iff
        creation_row_def owner_ok_def)
  ultimately show ?thesis by (simp add: workspace_inv_def)
qed

lemma workspace_inv_create:
  "workspace_inv t \<Longrightarrow> ws_create clock branch name i t = (r, t') \<Longrightarrow> workspace_inv t'"
  by (auto simp: ws_create_def workspace_inv_def keyed_def ws_new_def owner_ok_def find_workspace_def
      sql_find_None Let_def split: option.splits)

lemma workspace_step_inv:
  assumes "workspace_inv t" "workspace_step t t'"
  shows "workspace_inv t'"
  using assms(2)
proof cases
  case step_create
  then show ?thesis using assms(1) by (auto intro: workspace_inv_create)
next
  case step_fail_unfinished
  then show ?thesis using assms(1) by (simp add: workspace_inv_fail_unfinished)
next
  case step_mark_deleted
  show ?thesis unfolding step_mark_deleted mark_worktree_deleted_def
    by (rule workspace_inv_modify [OF assms(1)]) (simp_all add: owner_ok_def)
next
  case step_clear_deleted
  show ?thesis unfolding step_clear_deleted clear_worktree_deleted_def
    by (rule workspace_inv_modify [OF assms(1)]) (simp_all add: owner_ok_def)
next
  case (step_begin_cleanup clock now workers sessions processes jobs i)
  show ?thesis unfolding step_begin_cleanup begin_cleanup_def
    by (rule workspace_inv_update [OF assms(1)]) (auto simp: owner_ok_def worker_cleanable_def)
next
  case (step_transition clock i from_state to_state reason)
  show ?thesis
  proof (cases "placement_allowed from_state to_state")
    case True
    show ?thesis unfolding step_transition placement_transition_def using True
      by simp (rule workspace_inv_update [OF assms(1)], auto simp: owner_ok_def placement_allowed_def)
  qed (use assms(1) step_transition in \<open>simp add: placement_transition_def\<close>)
qed (auto simp: creation_defs placement_defs owner_ok_def intro!: workspace_inv_update assms(1))

interpretation ws: invariant_system "\<lambda>t. t = []" workspace_step workspace_inv
proof
  show "workspace_inv t" if "t = []" for t using that by (simp add: workspace_inv_def keyed_def)
  show "workspace_inv t'" if "workspace_inv t" "workspace_step t t'" for t t'
    using that by (rule workspace_step_inv)
qed

lemma creation_failed_step:
  assumes "workspace_inv t" "workspace_step t t'"
    and "is_some_and (find_workspace i t) (\<lambda>w. ws_creation_status w = CreationFailed)"
  shows "is_some_and (find_workspace i t') (\<lambda>w. ws_creation_status w = CreationFailed)"
proof -
  let ?failed = "\<lambda>w. ws_creation_status w = CreationFailed"
  have keyed: "keyed ws_id t" using assms(1) by (simp add: workspace_inv_def)
  have update: "is_some_and (find_workspace i (snd (ws_update j p f t))) ?failed"
    if "\<And>w. ws_id (f w) = ws_id w" "\<And>w. ?failed w \<Longrightarrow> p w \<Longrightarrow> ?failed (f w)" for j p f
    using assms(3) ws_update_keyed(2) [OF keyed that(1), of i j p] that(2)
    by (cases "find_workspace i t") auto
  have modify: "is_some_and (find_workspace i (sql_modify ws_id t j f)) ?failed"
    if "\<And>w. ws_id (f w) = ws_id w" "\<And>w. ?failed w \<Longrightarrow> ?failed (f w)" for j f
    using assms(3) workspaces.lookup_modify [where f = f and t = t and k = j and k' = i] that
    by (cases "find_workspace i t") (auto simp: keeps_key_def)
  from assms(2) show ?thesis
  proof cases
    case step_create
    then show ?thesis using assms(3)
      by (auto simp: ws_create_def Let_def find_workspace_def sql_find_append is_some_and_iff
          split: option.splits)
  next
    case (step_fail_unfinished clock)
    have "find_workspace i t' = map_option (\<lambda>w. if ws_creation_status w \<in> {CreationQueued, CreationRunning}
        then creation_row clock CreationFailed (Some interrupted_creation_error) w else w) (find_workspace i t)"
      unfolding step_fail_unfinished fail_unfinished_creations_def find_workspace_def
      by (rule sql_find_update) (simp add: creation_row_def)
    then show ?thesis using assms(3) by (cases "find_workspace i t") auto
  next
    case step_transition
    then show ?thesis using assms(3) by (auto simp: placement_transition_def intro!: update)
  qed (auto simp: creation_defs placement_defs mark_worktree_deleted_def clear_worktree_deleted_def
      intro!: update modify)
qed

interpretation creation: absorbing_system "\<lambda>t. t = []" workspace_step workspace_inv
  "\<lambda>t. is_some_and (find_workspace i t) (\<lambda>w. ws_creation_status w = CreationFailed)"
  by unfold_locales (rule creation_failed_step)

section \<open>Properties\<close>

text \<open>
  In every state the statements can produce, a workspace has an owning worker exactly when it is not
  placed locally, and ids are unique.
\<close>

theorem placement_owner_iff_remote:
  assumes "reach (\<lambda>t. t = []) workspace_step t" "find_workspace i t = Some w"
  shows "ws_placement_state w = PlLocal \<longleftrightarrow> ws_worker_node_id w = None"
proof -
  have "workspace_inv t" using assms(1) by (rule ws.inv_reach)
  moreover have "w \<in> set t"
    using assms(2) by (auto simp: find_workspace_def dest: sql_find_Some)
  ultimately show ?thesis by (auto simp: workspace_inv_def owner_ok_def list_all_iff)
qed

lemma creation_claims:
  assumes "reach (\<lambda>t. t = []) workspace_step t"
  shows "fst (claim_creation c i t) \<Longrightarrow>
      is_some_and (find_workspace i (snd (claim_creation c i t))) (\<lambda>w. ws_creation_status w = CreationRunning)
      \<and> \<not> fst (claim_creation c' i (snd (claim_creation c i t)))"
    and "is_some_and (find_workspace i t) (\<lambda>w. ws_creation_status w = CreationFailed) \<Longrightarrow>
      workspace_step\<^sup>*\<^sup>* t t' \<Longrightarrow>
      is_some_and (find_workspace i t') (\<lambda>w. ws_creation_status w = CreationFailed)"
proof -
  have inv: "workspace_inv t" using assms by (rule ws.inv_reach)
  then have keyed: "keyed ws_id t" by (simp add: workspace_inv_def)
  let ?f = "creation_row c CreationRunning None" and ?p = "\<lambda>w. ws_creation_status w = CreationQueued"
  let ?t = "snd (claim_creation c i t)"
  assume "fst (claim_creation c i t)"
  then have "is_some_and (find_workspace i t) ?p"
    using ws_update_keyed(1) [OF keyed, of ?f i ?p] by (simp add: claim_creation_def creation_row_def)
  moreover have "find_workspace i ?t = map_option (\<lambda>w. if ?p w then ?f w else w) (find_workspace i t)"
    unfolding claim_creation_def using ws_update_keyed(2) [OF keyed, of ?f i i ?p]
    by (simp add: creation_row_def)
  ultimately have run: "is_some_and (find_workspace i ?t) (\<lambda>w. ws_creation_status w = CreationRunning)"
    by (auto simp: is_some_and_iff creation_row_def)
  have "keyed ws_id ?t"
    unfolding claim_creation_def by (rule ws_update_keyed(3) [OF keyed]) (simp add: creation_row_def)
  then have "fst (claim_creation c' i ?t) \<longleftrightarrow> is_some_and (find_workspace i ?t) ?p"
    unfolding claim_creation_def [of c'] by (rule ws_update_keyed(1)) (simp add: creation_row_def)
  with run show "is_some_and (find_workspace i ?t) (\<lambda>w. ws_creation_status w = CreationRunning)
      \<and> \<not> fst (claim_creation c' i ?t)"
    by (auto simp: is_some_and_iff)
next
  show "is_some_and (find_workspace i t') (\<lambda>w. ws_creation_status w = CreationFailed)"
    if "is_some_and (find_workspace i t) (\<lambda>w. ws_creation_status w = CreationFailed)" "workspace_step\<^sup>*\<^sup>* t t'"
    using creation.final_steps [OF that(2) ws.inv_reach [OF assms]] that(1) by simp
qed

text \<open>
  The creation of a workspace has one runner and one end: a claim that succeeds leaves the creation
  running and the next claim fails, and a failed creation stays failed under every sequence of
  statements.
\<close>

theorem creation_claimed_once:
  assumes "reach (\<lambda>t. t = []) workspace_step t"
  shows "(fst (claim_creation c i t) \<longrightarrow>
      is_some_and (find_workspace i (snd (claim_creation c i t))) (\<lambda>w. ws_creation_status w = CreationRunning)
      \<and> \<not> fst (claim_creation c' i (snd (claim_creation c i t))))
    \<and> (is_some_and (find_workspace i t) (\<lambda>w. ws_creation_status w = CreationFailed)
        \<and> workspace_step\<^sup>*\<^sup>* t t' \<longrightarrow>
      is_some_and (find_workspace i t') (\<lambda>w. ws_creation_status w = CreationFailed))"
  using creation_claims [OF assms] by blast

lemma fold_max_less: "fold max ys y < (b :: int) \<longleftrightarrow> y < b \<and> (\<forall>x \<in> set ys. x < b)"
  by (induction ys arbitrary: y) auto

lemma set_map_filter_id: "set (List.map_filter id xs) = {x. Some x \<in> set xs}"
  by (auto simp: map_filter_def image_iff) force

lemma sql_max_less:
  "is_some_and (sql_max xs) (\<lambda>a. a < b) \<longleftrightarrow> (\<exists>x. Some x \<in> set xs) \<and> (\<forall>x. Some x \<in> set xs \<longrightarrow> x < b)"
proof (cases "List.map_filter id xs")
  case Nil
  then have "{x. Some x \<in> set xs} = {}" by (metis list.set(1) set_map_filter_id)
  then show ?thesis using Nil by (auto simp: sql_max_def)
next
  case (Cons y ys)
  then have "{x. Some x \<in> set xs} = set (y # ys)" by (metis set_map_filter_id)
  then have "\<And>x. Some x \<in> set xs \<longleftrightarrow> x = y \<or> x \<in> set ys" by auto
  then show ?thesis using Cons by (auto simp: sql_max_def fold_max_less)
qed

text \<open>The completion times of a workspace's completed executions.\<close>

definition completions :: "session_table \<Rightarrow> process_table \<Rightarrow> workspace \<Rightarrow> datetime set" where
  "completions sessions processes w = {c. \<exists>s \<in> set sessions. \<exists>p \<in> set processes.
     se_workspace_id s = ws_id w \<and> ep_session_id p = se_id s \<and> ep_completed_at p = Some c}"

lemma set_completed_in_session:
  "set (completed_in_session processes s) =
     {c. \<exists>p \<in> set processes. ep_session_id p = se_id s \<and> ep_completed_at p = Some c}"
  by (auto simp: completed_in_session_def map_filter_def image_iff split: if_splits) force

lemma cleanup_join_mem:
  "Some c \<in> set (cleanup_join sessions processes w) \<longleftrightarrow> c \<in> completions sessions processes w"
proof -
  have "Some c \<in> set (cleanup_join sessions processes w) \<longleftrightarrow>
      (\<exists>s \<in> set sessions. se_workspace_id s = ws_id w \<and> c \<in> set (completed_in_session processes s))"
    by (auto simp: cleanup_join_def Let_def filter_empty_conv split: if_splits)
  then show ?thesis by (auto simp: completions_def set_completed_in_session)
qed

text \<open>
  When a workspace's worktree counts as expired: it has a worktree, none of its executions is
  unfinished, at least one has completed, and both its last update and every completion are older
  than an hour (archived) or 72 hours in the coordinator's local time. A workspace none of whose
  executions ever completed is never reclaimed, however old.
\<close>

theorem workspace_expired_exact:
  "workspace_expired tz now sessions processes w \<longleftrightarrow>
     ws_container_ref w \<noteq> None \<and> \<not> ws_worktree_deleted w
     \<and> (\<forall>p \<in> set processes. in_workspace (ws_id w) sessions p \<longrightarrow> ep_completed_at p \<noteq> None)
     \<and> completions sessions processes w \<noteq> {}
     \<and> sqlite_seconds (ws_updated_at w) < sqlite_seconds now + tz - cleanup_age w
     \<and> (\<forall>c \<in> completions sessions processes w. sqlite_seconds c < sqlite_seconds now + tz - cleanup_age w)"
proof -
  let ?cut = "sqlite_seconds now + tz - cleanup_age w" and ?u = "sqlite_seconds (ws_updated_at w)"
  let ?g = "\<lambda>c. max ?u (sqlite_seconds c)" and ?j = "cleanup_join sessions processes w"
  have mem: "Some x \<in> set (map (map_option ?g) ?j) \<longleftrightarrow> (\<exists>c \<in> completions sessions processes w. x = ?g c)" for x
  proof -
    have "Some x \<in> set (map (map_option ?g) ?j) \<longleftrightarrow> (\<exists>c. Some c \<in> set ?j \<and> x = ?g c)"
    proof
      assume "Some x \<in> set (map (map_option ?g) ?j)"
      then obtain y where "y \<in> set ?j" "map_option ?g y = Some x" by (auto simp del: map_option_eq_Some)
      then show "\<exists>c. Some c \<in> set ?j \<and> x = ?g c" by (cases y) auto
    next
      assume "\<exists>c. Some c \<in> set ?j \<and> x = ?g c"
      then obtain c where "Some c \<in> set ?j" "x = ?g c" by blast
      then show "Some x \<in> set (map (map_option ?g) ?j)" by (force simp: image_iff)
    qed
    then show ?thesis by (auto simp: cleanup_join_mem)
  qed
  have "is_some_and (last_activity sessions processes w) (\<lambda>a. a < ?cut) \<longleftrightarrow>
      completions sessions processes w \<noteq> {} \<and> ?u < ?cut
      \<and> (\<forall>c \<in> completions sessions processes w. sqlite_seconds c < ?cut)"
    unfolding last_activity_def sql_max_less mem by auto
  then show ?thesis
    by (auto simp: workspace_expired_def list_ex_iff)
qed

text \<open>
  The fence around a cleanup does not hold against a change of affinity: \<open>finish_cleanup\<close> reopens a
  workspace only once its worktree is marked deleted, but \<open>reassign\<close> with the worker it read
  reopens a workspace that is being cleaned, its worktree not marked deleted, and the cleanup's own
  end no longer finds its claim.
\<close>

theorem reassign_reopens_cleaning_workspace:
  assumes "reach (\<lambda>t. t = []) workspace_step t" "find_workspace i t = Some w"
    and "ws_placement_state w = PlCleaning"
    and "reassign c i (ws_worker_node_id w) worker requested why t = (ok, t')"
  shows "ok \<and> is_some_and (find_workspace i t')
      (\<lambda>v. ws_placement_state v = PlReady \<and> ws_worktree_deleted v = ws_worktree_deleted w)
    \<and> \<not> fst (finish_cleanup c' i t') \<and> \<not> fst (cancel_cleanup c' i t')"
proof -
  have keyed: "keyed ws_id t" using ws.inv_reach [OF assms(1)] by (simp add: workspace_inv_def)
  define p where "p = (\<lambda>v :: workspace. ws_placement_state v \<noteq> PlLocal \<and> ws_worker_node_id v = ws_worker_node_id w)"
  define f where "f = (\<lambda>v :: workspace. v\<lparr> ws_worker_node_id := Some worker, ws_placement_state := PlReady,
        ws_placed_at := Some c, ws_placement_reason := Some why,
        ws_requested_worker_node_id := requested, ws_updated_at := c \<rparr>)"
  have u: "ws_update i p f t = (ok, t')" using assms(4) by (simp add: reassign_def p_def f_def)
  have id: "ws_id (f v) = ws_id v" for v by (simp add: f_def)
  have "ok" using ws_update_keyed(1) [OF keyed id, of i p] u assms(2,3) by (simp add: p_def)
  moreover have found: "find_workspace i t' = Some (f w)"
    using ws_update_keyed(2) [OF keyed id, of i i p] u assms(2,3) by (simp add: p_def)
  moreover have keyed': "keyed ws_id t'" using ws_update_keyed(3) [OF keyed id, of i p] u by simp
  moreover have "\<not> fst (finish_cleanup c' i t')"
    using ws_update_keyed(1) [OF keyed'] found by (simp add: finish_cleanup_def f_def)
  moreover have "\<not> fst (cancel_cleanup c' i t')"
    using ws_update_keyed(1) [OF keyed'] found by (simp add: cancel_cleanup_def f_def)
  ultimately show ?thesis by (simp add: f_def)
qed

section \<open>Witnesses\<close>

definition demo_ready :: workspace where
  "demo_ready = (ws_new 1 ''vk/task'' None 5)\<lparr> ws_worker_node_id := Some 3, ws_placement_state := PlReady,
     ws_placed_at := Some 2, ws_updated_at := 4 \<rparr>"

definition demo_cleaning :: workspace where
  "demo_cleaning = demo_ready\<lparr> ws_placement_state := PlCleaning, ws_updated_at := 5 \<rparr>"

lemmas demo_workspace_defs = demo_ready_def demo_cleaning_def ws_new_def ws_update_def sql_update_def Let_def

lemma demo_ready_reach: "reach (\<lambda>t. t = []) workspace_step [demo_ready]"
proof -
  let ?w = "ws_new 1 ''vk/task'' None 5"
  let ?r = "?w\<lparr> ws_worker_node_id := Some 3, ws_placement_state := PlReserved, ws_placed_at := Some 2,
    ws_updated_at := 2 \<rparr>"
  let ?p = "?r\<lparr> ws_placement_state := PlProvisioning, ws_updated_at := 3 \<rparr>"
  have "reach (\<lambda>t. t = []) workspace_step []" by (rule reach_start) simp
  moreover have "workspace_step [] [?w]"
    by (rule step_create [of 1 "''vk/task''" None 5 "[]" "Ok ?w"])
      (simp add: ws_create_def find_workspace_def Let_def)
  moreover have "workspace_step [?w] [?r]"
    using step_reserve [of "[?w]" 2 5 3 None None None] by (simp add: reserve_def demo_workspace_defs)
  moreover have "workspace_step [?r] [?p]"
    using step_transition [of "[?r]" 3 5 PlReserved PlProvisioning None]
    by (simp add: placement_transition_def placement_allowed_def demo_workspace_defs)
  moreover have "workspace_step [?p] [demo_ready]"
    using step_transition [of "[?p]" 4 5 PlProvisioning PlReady None]
    by (simp add: placement_transition_def placement_allowed_def demo_workspace_defs)
  ultimately show ?thesis by (meson reach_step)
qed

lemma demo_cleaning_reach: "reach (\<lambda>t. t = []) workspace_step [demo_cleaning]"
proof -
  have "workspace_step [demo_ready] [demo_cleaning]"
    using step_begin_cleanup [of "[demo_ready]" 5 100 "[demo_row Online]" "[]" "[]" "[]" 5]
    by (simp add: begin_cleanup_def demo_workspace_defs worker_cleanable_def workspace_has_open_jobs_def
        demo_row_def inserted_row_def registration_row_def demo_registration_def demo_authority_def)
  with demo_ready_reach show ?thesis by (rule reach_step)
qed

theorem placement_owner_iff_remote_witness:
  "ws_placement_state demo_ready = PlReady \<and> ws_worker_node_id demo_ready = Some 3
    \<and> (ws_placement_state demo_ready = PlLocal \<longleftrightarrow> ws_worker_node_id demo_ready = None)"
  using placement_owner_iff_remote [OF demo_ready_reach, of 5 demo_ready]
  by (simp add: find_workspace_def demo_ready_def ws_new_def)

theorem creation_claimed_once_witness:
  "fst (claim_creation 7 5 (snd (queue_creation 6 5 [demo_ready])))
    \<and> \<not> fst (claim_creation 8 5 (snd (claim_creation 7 5 (snd (queue_creation 6 5 [demo_ready])))))"
proof -
  have "fst (claim_creation 7 5 (snd (queue_creation 6 5 [demo_ready])))"
    by (simp add: claim_creation_def queue_creation_def creation_row_def demo_workspace_defs)
  moreover have "reach (\<lambda>t. t = []) workspace_step (snd (queue_creation 6 5 [demo_ready]))"
    using demo_ready_reach step_queue by (rule reach_step)
  ultimately show ?thesis using creation_claimed_once [of _ 7 5 8] by blast
qed

theorem reassign_reopens_cleaning_workspace_witness:
  "fst (reassign 9 5 (Some 3) 4 None ''move'' [demo_cleaning])
    \<and> \<not> fst (finish_cleanup 10 5 (snd (reassign 9 5 (Some 3) 4 None ''move'' [demo_cleaning])))"
proof -
  have "find_workspace 5 [demo_cleaning] = Some demo_cleaning"
    by (simp add: find_workspace_def demo_cleaning_def demo_ready_def ws_new_def)
  moreover have "ws_placement_state demo_cleaning = PlCleaning" by (simp add: demo_cleaning_def)
  moreover have "ws_worker_node_id demo_cleaning = Some 3" by (simp add: demo_cleaning_def demo_ready_def)
  ultimately show ?thesis
    using reassign_reopens_cleaning_workspace [OF demo_cleaning_reach, of 5 demo_cleaning 9 4 None "''move''"
        "fst (reassign 9 5 (Some 3) 4 None ''move'' [demo_cleaning])"
        "snd (reassign 9 5 (Some 3) 4 None ''move'' [demo_cleaning])" 10]
    by simp
qed

end
