(* ===== verification/Comment_Dispatcher.thy ===== *)
theory Comment_Dispatcher
  imports Delivery_Store Workspace_Table
begin

text \<open>
  The dispatcher of issue comments (\<open>crates/server/src/issue_comment_delivery.rs\<close>): resolving a
  comment to one session, starting a turn that carries the due comments at the session's turn
  boundary, and recovering deliveries that a restart interrupted.

  The local database is one record. The remote server and the start of a turn are the source's own
  \<open>DeliveryBackend\<close> trait, here a record of functions; starting a turn may write the database. An
  operation holds its session's lock until its end and is one step; it uses one time stamp, \<open>now\<close>.
  Time stamps count nanoseconds. Statements of the database do not fail, apart from a missing row.
\<close>

section \<open>The database\<close>

record coding_agent_turn =
  ct_execution_process_id :: uuid
  ct_agent_session_id :: "string option"

record database =
  db_deliveries :: delivery_table
  db_processes :: process_table
  db_jobs :: job_table
  db_turns :: "coding_agent_turn list"
  db_sessions :: session_table
  db_workspaces :: workspace_table
  db_boundaries :: boundary_table
  db_wakeups :: wakeup_table

record marked_turn =
  mt_id :: uuid
  mt_status :: ExecutionProcessStatus
  mt_launched :: bool
  mt_uncertain :: bool

definition process_launched :: "database \<Rightarrow> execution_process \<Rightarrow> bool" where
  "process_launched db p \<longleftrightarrow> ep_pgid p \<noteq> None
     \<or> list_ex (\<lambda>j. ej_execution_process_id j = ep_id p \<and> ej_accepted_at j \<noteq> None) (db_jobs db)
     \<or> list_ex (\<lambda>t. ct_execution_process_id t = ep_id p \<and> ct_agent_session_id t \<noteq> None) (db_turns db)"

definition marked_turn_of :: "database \<Rightarrow> execution_process \<Rightarrow> marked_turn" where
  "marked_turn_of db p = \<lparr> mt_id = ep_id p, mt_status = ep_status p, mt_launched = process_launched db p,
     mt_uncertain = list_ex (\<lambda>j. ej_execution_process_id j = ep_id p) (db_jobs db) \<rparr>"

definition find_coding_agent_turns_with_marker :: "uuid \<Rightarrow> string \<Rightarrow> database \<Rightarrow> marked_turn list" where
  "find_coding_agent_turns_with_marker s marker db = map (marked_turn_of db) (sort_key ep_created_at
     (filter (\<lambda>p. ep_session_id p = s \<and> ep_run_reason p = CodingAgent
        \<and> str_contains (ep_executor_action p) marker) (db_processes db)))"

section \<open>The backend\<close>

datatype RemoteClientError =
    RemoteHttp nat string
  | RemoteOther string

definition is_status :: "RemoteClientError \<Rightarrow> nat \<Rightarrow> bool" where
  "is_status e code = (case e of RemoteHttp status _ \<Rightarrow> status = code | RemoteOther _ \<Rightarrow> False)"

record issue_comment =
  ic_id :: uuid
  ic_issue_id :: uuid
  ic_author_id :: "uuid option"
  ic_parent_id :: "uuid option"
  ic_message :: string
  ic_created_at :: datetime
  ic_updated_at :: datetime

record create_comment_request =
  cr_id :: uuid
  cr_issue_id :: uuid
  cr_message :: string
  cr_parent_id :: "uuid option"

record remote_workspace =
  rw_issue_id :: "uuid option"
  rw_local_workspace_id :: "uuid option"
  rw_archived :: bool

record issue_links =
  il_workspaces :: "remote_workspace list"
  il_archived_count :: int

record issue_info =
  ii_id :: uuid
  ii_simple_id :: string
  ii_title :: string
  ii_project_id :: uuid
  ii_active :: bool

record backend =
  be_get_comment :: "uuid \<Rightarrow> RemoteClientError + issue_comment"
  be_create_comment :: "create_comment_request \<Rightarrow> RemoteClientError + issue_comment"
  be_issue_workspaces :: "uuid \<Rightarrow> RemoteClientError + issue_links"
  be_workspace_link :: "uuid \<Rightarrow> RemoteClientError + remote_workspace option"
  be_issue_info :: "uuid \<Rightarrow> RemoteClientError + issue_info"
  be_member_names :: "uuid \<Rightarrow> uuid \<rightharpoonup> string"
  be_has_queued_message :: "uuid \<Rightarrow> bool"
  be_start_follow_up :: "uuid \<Rightarrow> string \<Rightarrow> database \<Rightarrow> (string + uuid) \<times> database"
  be_error_text :: "RemoteClientError \<Rightarrow> string"
  be_rfc3339 :: "datetime \<Rightarrow> string"
  be_texts :: texts

section \<open>Evidence and outcomes\<close>

datatype EarlierAttempt = Launched uuid | Uncertain uuid | NoAttempt

definition marked :: "backend \<Rightarrow> uuid \<Rightarrow> uuid \<Rightarrow> database \<Rightarrow> marked_turn list" where
  "marked be s c db = find_coding_agent_turns_with_marker s (stored_marker_needle (be_texts be) c) db"

definition earlier_attempt :: "backend \<Rightarrow> uuid \<Rightarrow> uuid \<Rightarrow> database \<Rightarrow> EarlierAttempt" where
  "earlier_attempt be s c db =
     (let turns = marked be s c db in
      case find mt_launched turns of
        Some t \<Rightarrow> Launched (mt_id t)
      | None \<Rightarrow> (case find mt_uncertain turns of Some t \<Rightarrow> Uncertain (mt_id t) | None \<Rightarrow> NoAttempt))"

definition latest_attempt :: "backend \<Rightarrow> uuid \<Rightarrow> uuid \<Rightarrow> database \<Rightarrow> EarlierAttempt" where
  "latest_attempt be s c db =
     (let turns = marked be s c db in
      if turns = [] then NoAttempt
      else if mt_launched (last turns) then Launched (mt_id (last turns))
      else if mt_uncertain (last turns) then Uncertain (mt_id (last turns))
      else NoAttempt)"

definition on_deliveries :: "(delivery_table \<Rightarrow> delivery_table) \<Rightarrow> database \<Rightarrow> database" where
  "on_deliveries f db = db\<lparr> db_deliveries := f (db_deliveries db) \<rparr>"

definition fail_uncertain :: "backend \<Rightarrow> issue_comment_delivery \<Rightarrow> uuid \<Rightarrow> datetime \<Rightarrow> database \<Rightarrow> database" where
  "fail_uncertain be row e now = on_deliveries (\<lambda>t. snd (finish_dispatch (dl_id row) DvFailed (Some LaunchUncertain)
     (Some (''execution '' @ tx_uuid (be_texts be) e @ '' was handed to a worker that never confirmed it started; ''
        @ ''check the session, then choose it explicitly to send the comment again'')) None now t))"

definition finish_all :: "issue_comment_delivery list \<Rightarrow> IssueCommentDeliveryState \<Rightarrow> IssueCommentDeliveryReason
    \<Rightarrow> datetime \<Rightarrow> database \<Rightarrow> database" where
  "finish_all rows st reason now =
     fold (\<lambda>row. on_deliveries (\<lambda>t. snd (finish_dispatch (dl_id row) st (Some reason) None None now t))) rows"

definition retry_or_fail :: "issue_comment_delivery \<Rightarrow> IssueCommentDeliveryReason \<Rightarrow> string \<Rightarrow> datetime
    \<Rightarrow> database \<Rightarrow> database" where
  "retry_or_fail row reason err now = on_deliveries (\<lambda>t. snd
     (case retry_delay (dl_attempt_count row + 1) of
        Some delay \<Rightarrow> finish_dispatch (dl_id row) DvPending (Some RetryScheduled) (Some err)
          (Some (now + int delay * 1000000000)) now t
      | None \<Rightarrow> finish_dispatch (dl_id row) DvFailed (Some reason) (Some err) None now t))"

section \<open>Delivering a claimed batch\<close>

definition wakeup_comment :: "backend \<Rightarrow> wakeup \<Rightarrow> datetime \<Rightarrow> issue_comment" where
  "wakeup_comment be w now = \<lparr> ic_id = wk_id w, ic_issue_id = 0, ic_author_id = None, ic_parent_id = None,
     ic_message = wakeup_message (tx_uuid (be_texts be)) (be_rfc3339 be) w now,
     ic_created_at = wk_created_at w, ic_updated_at = now \<rparr>"

definition read_failed :: "backend \<Rightarrow> issue_comment_delivery \<Rightarrow> RemoteClientError \<Rightarrow> datetime \<Rightarrow> database \<Rightarrow> database" where
  "read_failed be row e now db =
     (if is_status e 404 then finish_all [row] DvCancelled CommentDeleted now db
      else if is_status e 403 then on_deliveries (\<lambda>t. snd (finish_dispatch (dl_id row) DvFailed (Some Unauthorized)
        (Some (''not allowed to read comment '' @ tx_uuid (be_texts be) (dl_comment_id row) @ '': '' @ be_error_text be e))
        None now t)) db
      else retry_or_fail row RemoteUnavailable
        (''could not re-read comment '' @ tx_uuid (be_texts be) (dl_comment_id row) @ '': '' @ be_error_text be e) now db)"

type_synonym ready = "(issue_comment_delivery \<times> issue_comment) list"

definition prepare_row :: "backend \<Rightarrow> uuid \<Rightarrow> datetime \<Rightarrow> issue_comment_delivery
    \<Rightarrow> ready \<times> database \<Rightarrow> ready \<times> database" where
  "prepare_row be s now row st =
     (let (ready, db) = st;
          read = (case find_wakeup (dl_comment_id row) (db_wakeups db) of
              Some w \<Rightarrow> (ready @ [(row, wakeup_comment be w now)], db)
            | None \<Rightarrow> (case be_get_comment be (dl_comment_id row) of
                Inr c \<Rightarrow> (ready @ [(row, c)], db)
              | Inl e \<Rightarrow> (ready, read_failed be row e now db)))
      in (case earlier_attempt be s (dl_comment_id row) db of
            Launched e \<Rightarrow> (ready, on_deliveries (\<lambda>t. snd (mark_delivered (dl_id row) e
              (case dl_delivered_message row of Some m \<Rightarrow> m | None \<Rightarrow> [])
              (dl_delivered_comment_updated_at row) now t)) db)
          | Uncertain e \<Rightarrow> if \<not> dl_allow_stopped_target row then (ready, fail_uncertain be row e now db) else read
          | NoAttempt \<Rightarrow> read))"

text \<open>\<open>join\<close> of strings.\<close>

fun str_join :: "string \<Rightarrow> string list \<Rightarrow> string" where
  "str_join sep [] = []"
| "str_join sep [s] = s"
| "str_join sep (s # t # ts) = s @ sep @ str_join sep (t # ts)"

definition wakeup_block :: "backend \<Rightarrow> issue_comment \<Rightarrow> string" where
  "wakeup_block be c =
     str_join [LF] (map (\<lambda>line. ''> '' @ line) (str_lines (replace_str (''<!-- '' @ DELIVERY_MARKER_PREFIX)
        (''&lt;!-- '' @ DELIVERY_MARKER_PREFIX) (ic_message c))))
     @ [LF] @ ''<!-- '' @ delivery_marker (be_texts be) (ic_id c) @ '' -->''"

definition wakeup_prompt :: "backend \<Rightarrow> ready \<Rightarrow> string" where
  "wakeup_prompt be ready = str_join [LF, LF] (map (wakeup_block be \<circ> snd) ready)"

definition comment_prompt :: "backend \<Rightarrow> issue_info \<Rightarrow> ready \<Rightarrow> string" where
  "comment_prompt be issue ready =
     (let names = be_member_names be (ii_project_id issue) in
      compose_delivery_prompt (be_texts be)
        (ii_simple_id issue @ '' ('' @ [CHR 0x22] @ ii_title issue @ [CHR 0x22] @ '')'')
        (map (\<lambda>(_, c). \<lparr> dc_comment_id = ic_id c, dc_author_name = Option.bind (ic_author_id c) names,
           dc_created_at = ic_created_at c, dc_message = ic_message c \<rparr>) ready))"

text \<open>The prompt of a batch, or the database after its rows were finished without one.\<close>

definition batch_prompt :: "backend \<Rightarrow> session \<Rightarrow> datetime \<Rightarrow> ready \<Rightarrow> database \<Rightarrow> database + string" where
  "batch_prompt be session now ready db =
     (let rows = map fst ready; issue_id = dl_issue_id (hd rows) in
      if issue_id = 0 then Inr (wakeup_prompt be ready)
      else (case (be_issue_info be issue_id, be_workspace_link be (se_workspace_id session)) of
          (Inr issue, Inr link) \<Rightarrow>
            if \<not> ii_active issue then Inl (finish_all rows DvNoTarget IssueTerminal now db)
            else if is_some_and link (\<lambda>l. rw_issue_id l = Some issue_id \<and> rw_archived l)
              then Inl (finish_all rows DvNoTarget WorkspaceArchived now db)
            else if is_some_and link (\<lambda>l. rw_issue_id l = Some issue_id)
              then Inr (comment_prompt be issue ready)
            else Inl (finish_all rows DvNoTarget TargetNotLinked now db)
        | (info, link) \<Rightarrow>
            (let e = (case info of Inl e \<Rightarrow> e | Inr _ \<Rightarrow> (case link of Inl e \<Rightarrow> e | Inr _ \<Rightarrow> RemoteOther []))
             in Inl (fold (\<lambda>row. retry_or_fail row RemoteUnavailable
               (''could not re-check issue '' @ tx_uuid (be_texts be) issue_id @ '' and workspace ''
                @ tx_uuid (be_texts be) (se_workspace_id session) @ '': '' @ be_error_text be e) now) rows db))))"

definition record_snapshots :: "datetime \<Rightarrow> ready \<Rightarrow> database \<Rightarrow> database" where
  "record_snapshots now = fold (\<lambda>(row, c). on_deliveries
     (\<lambda>t. snd (record_snapshot (dl_id row) (ic_message c) (ic_updated_at c) now t)))"

definition delivered_by :: "issue_comment_delivery \<times> issue_comment \<Rightarrow> uuid \<Rightarrow> datetime \<Rightarrow> database \<Rightarrow> database" where
  "delivered_by rc e now = on_deliveries (\<lambda>t. snd (mark_delivered (dl_id (fst rc)) e (ic_message (snd rc))
     (Some (ic_updated_at (snd rc))) now t))"

definition start_failed :: "backend \<Rightarrow> session \<Rightarrow> string \<Rightarrow> datetime \<Rightarrow> issue_comment_delivery \<times> issue_comment
    \<Rightarrow> database \<Rightarrow> database" where
  "start_failed be session err now rc db =
     (case latest_attempt be (se_id session) (dl_comment_id (fst rc)) db of
        Launched e \<Rightarrow> delivered_by rc e now db
      | Uncertain e \<Rightarrow> fail_uncertain be (fst rc) e now db
      | NoAttempt \<Rightarrow> retry_or_fail (fst rc) StartFailed
          (''could not start a turn in session '' @ tx_uuid (be_texts be) (se_id session) @ '': '' @ err) now db)"

text \<open>A turn that was asked for: the session, the prompt, and the deliveries it carries.\<close>

type_synonym started = "uuid \<times> string \<times> issue_comment_delivery list"

definition deliver_claimed :: "backend \<Rightarrow> session \<Rightarrow> datetime \<Rightarrow> issue_comment_delivery list \<Rightarrow> database
    \<Rightarrow> started option \<times> database" where
  "deliver_claimed be session now claimed db =
     (let (ready, db) = fold (prepare_row be (se_id session) now) claimed ([], db) in
      if ready = [] then (None, db)
      else (case batch_prompt be session now ready db of
          Inl db \<Rightarrow> (None, db)
        | Inr prompt \<Rightarrow>
            (let db = record_snapshots now ready db;
                 (r, db) = be_start_follow_up be (se_id session) prompt db
             in (Some (se_id session, prompt, map fst ready),
                 (case r of
                    Inr e \<Rightarrow> fold (\<lambda>rc. delivered_by rc e now) ready db
                  | Inl err \<Rightarrow> fold (start_failed be session err now) ready db)))))"

section \<open>Dispatching a session\<close>

definition boundary_confirmed :: "datetime \<Rightarrow> database \<Rightarrow> uuid \<Rightarrow> uuid \<Rightarrow> datetime option \<Rightarrow> bool" where
  "boundary_confirmed reconciled_at db s turn completed_at \<longleftrightarrow>
     is_some_and completed_at (\<lambda>c. c < reconciled_at) \<or> finalized_turn s (db_boundaries db) = Some turn"

text \<open>The due rows of a session; a wake-up that waits for a receipt is not eligible before it has one.\<close>

definition wakeup_waits :: "wakeup_table \<Rightarrow> issue_comment_delivery \<Rightarrow> bool" where
  "wakeup_waits wakeups row \<longleftrightarrow> is_some_and (find_wakeup (dl_comment_id row) wakeups)
     (\<lambda>w. wk_receipt_path w \<noteq> None \<and> wk_trigger_context w = None)"

definition due_rows :: "datetime \<Rightarrow> uuid \<Rightarrow> database \<Rightarrow> issue_comment_delivery list" where
  "due_rows now s db = filter (\<lambda>row. \<not> wakeup_waits (db_wakeups db) row)
     (filter (\<lambda>row. is_none_or (dl_next_attempt_at row) (\<lambda>a. a \<le> now))
       (list_pending_for_session s (db_deliveries db)))"

definition finish_pending_all :: "issue_comment_delivery list \<Rightarrow> IssueCommentDeliveryReason \<Rightarrow> datetime
    \<Rightarrow> database \<Rightarrow> database" where
  "finish_pending_all rows reason now =
     fold (\<lambda>row. on_deliveries (\<lambda>t. snd (finish_pending (dl_id row) DvNoTarget reason now t))) rows"

definition busy_reason :: "backend \<Rightarrow> uuid \<Rightarrow> uuid \<Rightarrow> database \<Rightarrow> IssueCommentDeliveryReason option" where
  "busy_reason be s w db =
     (if has_running_coding_agent_for_session s (db_processes db) then Some AgentRunning
      else if be_has_queued_message be s then Some QueuedMessage
      else if has_running_non_persistent_processes_for_workspace w (db_sessions db) (db_processes db)
        then Some AgentRunning
      else None)"

definition note_busy :: "issue_comment_delivery list \<Rightarrow> IssueCommentDeliveryReason \<Rightarrow> datetime \<Rightarrow> database \<Rightarrow> database" where
  "note_busy rows reason now = fold (\<lambda>row.
     if dl_reason row \<noteq> Some reason \<and> dl_reason row \<noteq> Some RetryScheduled
     then on_deliveries (set_pending_reason (dl_id row) reason now) else id) rows"

definition own_attempt :: "backend \<Rightarrow> uuid \<Rightarrow> uuid \<Rightarrow> issue_comment_delivery list \<Rightarrow> database \<Rightarrow> bool" where
  "own_attempt be s latest_turn due db = list_ex (\<lambda>row. list_ex (\<lambda>t. mt_id t = latest_turn
     \<and> \<not> mt_launched t \<and> mt_status t \<noteq> EpRunning) (marked be s (dl_comment_id row) db)) due"

definition claim_row :: "bool \<Rightarrow> datetime \<Rightarrow> issue_comment_delivery
    \<Rightarrow> issue_comment_delivery list \<times> database \<Rightarrow> issue_comment_delivery list \<times> database" where
  "claim_row stopped now row st =
     (let (deliverable, db) = st in
      if stopped \<and> \<not> dl_allow_stopped_target row
        then (deliverable, on_deliveries (\<lambda>t. snd (finish_pending (dl_id row) DvNoTarget TurnStopped now t)) db)
      else (let (ok, t) = claim (dl_id row) now (db_deliveries db)
            in (if ok then deliverable @ [row] else deliverable, db\<lparr> db_deliveries := t \<rparr>)))"

definition dispatch_session :: "backend \<Rightarrow> datetime \<Rightarrow> datetime \<Rightarrow> uuid \<Rightarrow> database \<Rightarrow> started option \<times> database" where
  "dispatch_session be reconciled_at now s db =
     (let due = due_rows now s db in
      if due = [] then (None, db)
      else (case (find_session s (db_sessions db)) of
        None \<Rightarrow> (None, finish_pending_all due NoSessions now db)
      | Some session \<Rightarrow> (case find_workspace (se_workspace_id session) (db_workspaces db) of
        None \<Rightarrow> (None, finish_pending_all due NoSessions now db)
      | Some ws \<Rightarrow>
        if ws_archived ws then (None, finish_pending_all due WorkspaceArchived now db)
        else (case busy_reason be s (ws_id ws) db of
          Some reason \<Rightarrow> (None, note_busy due reason now db)
        | None \<Rightarrow> (case latest_coding_agent_turn_for_session s (db_processes db) of
            None \<Rightarrow> (None, finish_pending_all due NoSessions now db)
          | Some (turn, status, completed_at) \<Rightarrow>
              (let own = own_attempt be s turn due db in
               if \<not> own \<and> \<not> boundary_confirmed reconciled_at db s turn completed_at then (None, db)
               else (let stopped = (status \<noteq> EpCompleted \<and> \<not> own);
                         (deliverable, db) = fold (claim_row stopped now)
                           (filter (\<lambda>row. dl_issue_id row = dl_issue_id (hd due)) due) ([], db)
                     in if deliverable = [] then (None, db)
                        else deliver_claimed be session now deliverable db)))))))"

section \<open>Recovery and the sweep\<close>

definition recover_row :: "backend \<Rightarrow> datetime \<Rightarrow> issue_comment_delivery \<Rightarrow> database \<Rightarrow> database" where
  "recover_row be now row db =
     (case (case dl_session_id row of
              Some s \<Rightarrow> earlier_attempt be s (dl_comment_id row) db
            | None \<Rightarrow> NoAttempt) of
        Uncertain e \<Rightarrow> fail_uncertain be row e now db
      | Launched e \<Rightarrow> on_deliveries (\<lambda>t. snd (mark_delivered (dl_id row) e
          (case dl_delivered_message row of Some m \<Rightarrow> m | None \<Rightarrow> [])
          (dl_delivered_comment_updated_at row) now t)) db
      | NoAttempt \<Rightarrow> on_deliveries (\<lambda>t. snd (finish_dispatch (dl_id row) DvPending (Some RetryScheduled)
          (Some ''delivery was interrupted by a server restart'') None now t)) db)"

definition recover :: "backend \<Rightarrow> datetime \<Rightarrow> database \<Rightarrow> database" where
  "recover be now db = fold (recover_row be now) (list_dispatching (db_deliveries db)) db"

definition dispatch_all :: "backend \<Rightarrow> datetime \<Rightarrow> datetime \<Rightarrow> uuid list \<Rightarrow> database \<Rightarrow> started list \<times> database" where
  "dispatch_all be reconciled_at now sessions db = fold (\<lambda>s (log, db).
     let (st, db) = dispatch_session be reconciled_at now s db in (log @ option_list st, db)) sessions ([], db)"

section \<open>Resolving a target\<close>

record target_candidate =
  tc_workspace_id :: uuid
  tc_workspace_name :: "string option"
  tc_workspace_branch :: string
  tc_session_id :: uuid
  tc_session_name :: "string option"
  tc_agent_state :: AgentState
  tc_latest_execution_id :: "uuid option"

definition session_state :: "backend \<Rightarrow> database \<Rightarrow> session \<Rightarrow> AgentState \<times> uuid option" where
  "session_state be db s =
     (let latest = latest_coding_agent_turn_for_session (se_id s) (db_processes db) in
      (derive_agent_state (map_option (\<lambda>(_, status, _). status) latest)
         (has_running_coding_agent_for_session (se_id s) (db_processes db)) (be_has_queued_message be (se_id s)),
       map_option fst latest))"

definition workspace_candidates :: "backend \<Rightarrow> database \<Rightarrow> workspace \<Rightarrow> target_candidate list" where
  "workspace_candidates be db w = concat (map (\<lambda>s.
     let (st, latest) = session_state be db s in
     if st = AgNeverRun then []
     else [\<lparr> tc_workspace_id = ws_id w, tc_workspace_name = ws_name w, tc_workspace_branch = ws_branch w,
             tc_session_id = se_id s, tc_session_name = se_name s, tc_agent_state = st,
             tc_latest_execution_id = latest \<rparr>])
     (sessions_by_workspace_id (ws_id w) (db_processes db) (db_sessions db)))"

text \<open>One link of an issue: its candidates, and whether it counts as archived here or as on another host.\<close>

definition link_candidates :: "backend \<Rightarrow> database \<Rightarrow> remote_workspace
    \<Rightarrow> target_candidate list \<times> nat \<times> nat \<Rightarrow> target_candidate list \<times> nat \<times> nat" where
  "link_candidates be db link acc =
     (let (cs, archived, other) = acc in
      case rw_local_workspace_id link of
        None \<Rightarrow> (cs, archived, other + 1)
      | Some i \<Rightarrow> (case find_workspace i (db_workspaces db) of
          None \<Rightarrow> (cs, archived, other + 1)
        | Some w \<Rightarrow> if ws_archived w then (cs, archived + 1, other)
                    else (cs @ workspace_candidates be db w, archived, other)))"

record resolved_candidates =
  rc_issue :: issue_info
  rc_candidates :: "target_candidate list"
  rc_unavailable_reason :: "IssueCommentDeliveryReason option"

definition resolve_candidates :: "backend \<Rightarrow> database \<Rightarrow> uuid \<Rightarrow> RemoteClientError + resolved_candidates" where
  "resolve_candidates be db issue_id =
     try_bind (be_issue_info be issue_id) (\<lambda>issue.
     try_bind (be_issue_workspaces be issue_id) (\<lambda>links.
       let (cs, archived, other) = fold (link_candidates be db) (il_workspaces links) ([], 0, 0);
           reason =
             (if \<not> ii_active issue then Some IssueTerminal
              else if cs \<noteq> [] then None
              else if il_workspaces links = [] \<and> il_archived_count links = 0 then Some NoLinkedWorkspace
              else if 0 < archived \<or> (il_workspaces links = [] \<and> 0 < il_archived_count links) then Some WorkspaceArchived
              else if 0 < other then Some WorkspaceOtherHost
              else Some NoSessions)
       in Ok \<lparr> rc_issue = issue, rc_candidates = cs, rc_unavailable_reason = reason \<rparr>))"

definition to_session_candidates :: "target_candidate list \<Rightarrow> session_candidate list" where
  "to_session_candidates = map (\<lambda>c. \<lparr> sc_workspace_id = tc_workspace_id c, sc_session_id = tc_session_id c,
     sc_agent_state = tc_agent_state c \<rparr>)"

definition select_target_from :: "target_candidate list \<Rightarrow> uuid option \<Rightarrow> uuid option \<Rightarrow> TargetDecision" where
  "select_target_from cs explicit origin = select_target (to_session_candidates cs) explicit origin"

record issue_agent_targets =
  at_issue_id :: uuid
  at_issue_active :: bool
  at_candidates :: "target_candidate list"
  at_default_session_id :: "uuid option"
  at_unavailable_reason :: "IssueCommentDeliveryReason option"

definition agent_targets :: "backend \<Rightarrow> database \<Rightarrow> uuid \<Rightarrow> RemoteClientError + issue_agent_targets" where
  "agent_targets be db issue_id = try_bind (resolve_candidates be db issue_id) (\<lambda>r.
     Ok \<lparr> at_issue_id = issue_id, at_issue_active = ii_active (rc_issue r), at_candidates = rc_candidates r,
       at_default_session_id = (if rc_unavailable_reason r \<noteq> None then None
         else default_reply_session (to_session_candidates (rc_candidates r))),
       at_unavailable_reason = rc_unavailable_reason r \<rparr>)"

definition origin_session :: "database \<Rightarrow> uuid option \<Rightarrow> uuid option \<Rightarrow> uuid option" where
  "origin_session db origin_session_id origin_workspace_id =
     (case origin_session_id of
        Some s \<Rightarrow> Some s
      | None \<Rightarrow> (case origin_workspace_id of
          None \<Rightarrow> None
        | Some w \<Rightarrow> map_option ep_session_id
            (first_row (find_running_coding_agents_by_workspace w (db_sessions db) (db_processes db)))))"

definition origin_hop :: "database \<Rightarrow> uuid \<Rightarrow> int option" where
  "origin_hop db s = (case latest_coding_agent_turn_for_session s (db_processes db) of
     None \<Rightarrow> None
   | Some (turn, _, _) \<Rightarrow> map_option dl_hop_count (find_by_execution_process_id turn (db_deliveries db)))"

definition outcome :: "IssueCommentDeliveryState \<Rightarrow> IssueCommentDeliveryReason \<Rightarrow> string option \<Rightarrow> delivery_resolution" where
  "outcome st reason err = \<lparr> rn_state = st, rn_reason = Some reason, rn_error = err, rn_workspace_id = None,
     rn_session_id = None, rn_hop_count = 0, rn_allow_stopped_target = False \<rparr>"

definition decision_resolution :: "TargetDecision \<Rightarrow> int \<Rightarrow> delivery_resolution" where
  "decision_resolution d hop = (case d of
     Target c explicit \<Rightarrow> \<lparr> rn_state = DvPending, rn_reason = None, rn_error = None,
       rn_workspace_id = Some (sc_workspace_id c), rn_session_id = Some (sc_session_id c),
       rn_hop_count = hop, rn_allow_stopped_target = explicit \<rparr>
   | NeedsTarget \<Rightarrow> (outcome DvNeedsTarget Ambiguous None)\<lparr> rn_hop_count := hop \<rparr>
   | NoTarget reason \<Rightarrow> (outcome DvNoTarget reason None)\<lparr> rn_hop_count := hop \<rparr>
   | Blocked reason \<Rightarrow> outcome DvBlocked reason None)"

definition resolve :: "backend \<Rightarrow> database \<Rightarrow> uuid \<Rightarrow> uuid option \<Rightarrow> uuid option \<Rightarrow> bool \<Rightarrow> delivery_resolution" where
  "resolve be db issue_id explicit origin agent_origin =
     (let turn_hop = (case origin of Some s \<Rightarrow> if agent_origin then origin_hop db s else None | None \<Rightarrow> None) in
      case next_hop_count agent_origin turn_hop of
        Inl reason \<Rightarrow> outcome DvBlocked reason None
      | Inr hop \<Rightarrow> (case resolve_candidates be db issue_id of
          Inl e \<Rightarrow> outcome DvFailed (if is_status e 403 then Unauthorized else RemoteUnavailable)
            (Some (''could not resolve sessions linked to issue '' @ tx_uuid (be_texts be) issue_id @ '': '' @ be_error_text be e))
        | Inr r \<Rightarrow> (case rc_unavailable_reason r of
            Some reason \<Rightarrow> outcome DvNoTarget reason None
          | None \<Rightarrow> decision_resolution (select_target_from (rc_candidates r) explicit origin) hop)))"

section \<open>Requests\<close>

datatype DeliveryError =
    ErrRemote RemoteClientError
  | ErrDatabase delivery_db_error
  | ErrBadRequest string
  | ErrConflict string

record delivery_request =
  dr_comment_id :: uuid
  dr_issue_id :: uuid
  dr_target_session_id :: "uuid option"
  dr_source :: "IssueCommentDeliverySource option"
  dr_origin_session_id :: "uuid option"
  dr_origin_workspace_id :: "uuid option"

definition dispatch_if_pending :: "backend \<Rightarrow> datetime \<Rightarrow> datetime \<Rightarrow> delivery_resolution \<Rightarrow> database
    \<Rightarrow> started option \<times> database" where
  "dispatch_if_pending be reconciled_at now r db = (case (rn_state r, rn_session_id r) of
     (DvPending, Some s) \<Rightarrow> dispatch_session be reconciled_at now s db
   | _ \<Rightarrow> (None, db))"

definition stored_row :: "uuid \<Rightarrow> database \<Rightarrow> DeliveryError + issue_comment_delivery" where
  "stored_row i db = ok_or (find_delivery i (db_deliveries db)) (ErrDatabase DeliveryRowNotFound)"

type_synonym 'a answer = "(DeliveryError + 'a) \<times> started option \<times> database"

text \<open>A row for a comment that has none, and its dispatch: the end of \<open>request\<close> and of \<open>subtask_result\<close>.\<close>

definition insert_and_dispatch :: "backend \<Rightarrow> datetime \<Rightarrow> datetime \<Rightarrow> uuid \<Rightarrow> new_delivery \<Rightarrow> delivery_resolution
    \<Rightarrow> database \<Rightarrow> issue_comment_delivery answer" where
  "insert_and_dispatch be reconciled_at now fresh n r db =
     (case insert_if_absent fresh n r now (db_deliveries db) of
        (Inl e, t) \<Rightarrow> (Err (ErrDatabase e), None, db\<lparr> db_deliveries := t \<rparr>)
      | (Inr (row, created), t) \<Rightarrow>
          (let db = db\<lparr> db_deliveries := t \<rparr>;
               (st, db) = (if created then dispatch_if_pending be reconciled_at now r db else (None, db))
           in (stored_row (dl_id row) db, st, db)))"

definition request :: "backend \<Rightarrow> datetime \<Rightarrow> datetime \<Rightarrow> uuid \<Rightarrow> delivery_request \<Rightarrow> database
    \<Rightarrow> issue_comment_delivery answer" where
  "request be reconciled_at now fresh rq db =
     (case be_get_comment be (dr_comment_id rq) of
        Inl e \<Rightarrow> (Err (ErrRemote e), None, db)
      | Inr comment \<Rightarrow>
        if ic_issue_id comment \<noteq> dr_issue_id rq
        then (Err (ErrBadRequest (''comment '' @ tx_uuid (be_texts be) (dr_comment_id rq)
            @ '' does not belong to issue '' @ tx_uuid (be_texts be) (dr_issue_id rq))), None, db)
        else (case find_by_comment_id (ic_id comment) (db_deliveries db) of
            Some existing \<Rightarrow>
              if \<not> is_resolvable (dl_state existing) then (Ok existing, None, db)
              else
                (let r = resolve be db (dl_issue_id existing) (dr_target_session_id rq)
                       (dl_origin_session_id existing)
                       (dl_source existing = SourceMcp \<and> dl_origin_session_id existing \<noteq> None);
                     (applied, t) = apply_resolution (dl_id existing) [DvFailed, DvNoTarget, DvNeedsTarget] r now
                       (db_deliveries db);
                     db = db\<lparr> db_deliveries := t \<rparr>;
                     (st, db) = (if applied then dispatch_if_pending be reconciled_at now r db else (None, db))
                 in (stored_row (dl_id existing) db, st, db))
          | None \<Rightarrow>
              (let source = (case dr_source rq of Some x \<Rightarrow> x | None \<Rightarrow> SourceUi);
                   origin = origin_session db (dr_origin_session_id rq) (dr_origin_workspace_id rq);
                   r = resolve be db (ic_issue_id comment) (dr_target_session_id rq) origin
                     (source = SourceMcp \<and> origin \<noteq> None)
               in insert_and_dispatch be reconciled_at now fresh
                    \<lparr> nd_comment_id = ic_id comment, nd_issue_id = ic_issue_id comment, nd_source = source,
                      nd_origin_session_id = origin, nd_comment_author_id = ic_author_id comment,
                      nd_comment_created_at = ic_created_at comment \<rparr> r db)))"

datatype IssueCommentIntent = Note | ReplyToAgent

record comment_with_intent =
  ci_issue_id :: uuid
  ci_message :: string
  ci_intent :: IssueCommentIntent
  ci_parent_id :: "uuid option"
  ci_target_session_id :: "uuid option"
  ci_comment_id :: "uuid option"
  ci_origin_session_id :: "uuid option"
  ci_origin_workspace_id :: "uuid option"

text \<open>Saving the comment: a conflict is a retry of a create whose response was lost.\<close>

definition save_comment :: "backend \<Rightarrow> comment_with_intent \<Rightarrow> uuid \<Rightarrow> DeliveryError + issue_comment" where
  "save_comment be rq comment_id =
     (let message = trim (ci_message rq) in
      case be_create_comment be \<lparr> cr_id = comment_id, cr_issue_id = ci_issue_id rq, cr_message = message,
          cr_parent_id = ci_parent_id rq \<rparr> of
        Inr c \<Rightarrow> Ok c
      | Inl e \<Rightarrow> if is_status e 409
          then (case be_get_comment be comment_id of
              Inl e' \<Rightarrow> Err (ErrRemote e')
            | Inr existing \<Rightarrow> if ic_issue_id existing \<noteq> ci_issue_id rq \<or> ic_message existing \<noteq> message
                then Err (ErrConflict (''comment id '' @ tx_uuid (be_texts be) comment_id
                  @ '' is already used by a different comment''))
                else Ok existing)
          else Err (ErrRemote e))"

definition create_comment :: "backend \<Rightarrow> datetime \<Rightarrow> datetime \<Rightarrow> uuid \<Rightarrow> uuid \<Rightarrow> comment_with_intent \<Rightarrow> database
    \<Rightarrow> (issue_comment \<times> issue_info option \<times> issue_comment_delivery option) answer" where
  "create_comment be reconciled_at now fresh fresh_comment rq db =
     (if trim (ci_message rq) = [] then (Err (ErrBadRequest ''message must not be empty''), None, db)
      else (case save_comment be rq (case ci_comment_id rq of Some i \<Rightarrow> i | None \<Rightarrow> fresh_comment) of
          Inl e \<Rightarrow> (Err e, None, db)
        | Inr comment \<Rightarrow>
            (let issue = (case be_issue_info be (ic_issue_id comment) of Inr i \<Rightarrow> Some i | Inl _ \<Rightarrow> None) in
             case ci_intent rq of
               Note \<Rightarrow> (Ok (comment, issue, None), None, db)
             | ReplyToAgent \<Rightarrow>
                 (case request be reconciled_at now fresh \<lparr> dr_comment_id = ic_id comment,
                      dr_issue_id = ic_issue_id comment, dr_target_session_id = ci_target_session_id rq,
                      dr_source = Some SourceMcp, dr_origin_session_id = ci_origin_session_id rq,
                      dr_origin_workspace_id = ci_origin_workspace_id rq \<rparr> db of
                    (Inl e, st, db) \<Rightarrow> (Err e, st, db)
                  | (Inr d, st, db) \<Rightarrow> (Ok (comment, issue, Some d), st, db)))))"

section \<open>Results of background subtasks\<close>

definition next_subtask_hop :: "database \<Rightarrow> uuid \<Rightarrow> DeliveryError + int" where
  "next_subtask_hop db parent = map_err
     (\<lambda>_. ErrBadRequest ''Background subtask continuation limit reached; continue in the foreground'')
     (next_hop_count True (origin_hop db parent))"

definition subtask_resolution :: "delivery_resolution \<Rightarrow> int \<Rightarrow> delivery_resolution" where
  "subtask_resolution r hop =
     (let r = r\<lparr> rn_allow_stopped_target := False, rn_hop_count := hop \<rparr> in
      if 1 \<le> hop \<and> hop \<le> MAX_AGENT_HOPS then r
      else r\<lparr> rn_state := DvBlocked, rn_reason := Some LoopGuard \<rparr>)"

definition subtask_result :: "backend \<Rightarrow> datetime \<Rightarrow> datetime \<Rightarrow> uuid \<Rightarrow> uuid \<Rightarrow> uuid \<Rightarrow> uuid \<Rightarrow> string \<Rightarrow> int
    \<Rightarrow> database \<Rightarrow> issue_comment_delivery answer" where
  "subtask_result be reconciled_at now fresh issue_id session_id comment_id message hop db =
     (case create_comment be reconciled_at now fresh comment_id
          \<lparr> ci_issue_id = issue_id, ci_message = message, ci_intent = Note, ci_parent_id = None,
            ci_target_session_id = None, ci_comment_id = Some comment_id, ci_origin_session_id = None,
            ci_origin_workspace_id = None \<rparr> db of
        (Inl e, _) \<Rightarrow> (Err e, None, db)
      | (Inr (comment, _, _), _) \<Rightarrow>
          (case find_by_comment_id comment_id (db_deliveries db) of
             Some existing \<Rightarrow> (Ok existing, None, db)
           | None \<Rightarrow>
               (let r = resolve be db issue_id (Some session_id) None False in
                if rn_state r = DvFailed
                then (Err (ErrBadRequest (case rn_error r of Some e \<Rightarrow> e
                    | None \<Rightarrow> ''Could not resolve the parent session; notification retained for retry'')), None, db)
                else insert_and_dispatch be reconciled_at now fresh
                    \<lparr> nd_comment_id = comment_id, nd_issue_id = issue_id, nd_source = SourceMcp,
                      nd_origin_session_id = None, nd_comment_author_id = ic_author_id comment,
                      nd_comment_created_at = ic_created_at comment \<rparr> (subtask_resolution r hop) db)))"

section \<open>Comments with their deliveries\<close>

record comment_with_delivery =
  cd_comment :: issue_comment
  cd_author_name :: "string option"
  cd_delivery :: "issue_comment_delivery option"
  cd_edited_after_delivery :: bool

definition edited_after_delivery :: "issue_comment \<Rightarrow> issue_comment_delivery option \<Rightarrow> bool" where
  "edited_after_delivery c d \<longleftrightarrow> is_some_and d (\<lambda>d. dl_state d = DvDelivered
     \<and> is_some_and (dl_delivered_comment_updated_at d) (\<lambda>sent. sent < ic_updated_at c))"

text \<open>
  \<open>join_comments\<close>. The hash map from comments to deliveries has, for a comment id that occurs twice,
  the later delivery; a joined delivery is removed from it. The rest is sorted by the comment's time.
\<close>

definition deliveries_by_comment :: "issue_comment_delivery list \<Rightarrow> issue_comment_delivery list" where
  "deliveries_by_comment ds =
     fold (\<lambda>d acc. d # filter (\<lambda>e. dl_comment_id e \<noteq> dl_comment_id d) acc) ds []"

definition join_comment :: "(uuid \<rightharpoonup> string) \<Rightarrow> issue_comment
    \<Rightarrow> comment_with_delivery list \<times> issue_comment_delivery list
    \<Rightarrow> comment_with_delivery list \<times> issue_comment_delivery list" where
  "join_comment names c acc =
     (let (out, ds) = acc; d = find (\<lambda>d. dl_comment_id d = ic_id c) ds in
      (out @ [\<lparr> cd_comment = c, cd_author_name = Option.bind (ic_author_id c) names, cd_delivery = d,
         cd_edited_after_delivery = edited_after_delivery c d \<rparr>],
       filter (\<lambda>d. dl_comment_id d \<noteq> ic_id c) ds))"

definition join_comments :: "issue_comment list \<Rightarrow> issue_comment_delivery list \<Rightarrow> (uuid \<rightharpoonup> string)
    \<Rightarrow> comment_with_delivery list \<times> issue_comment_delivery list" where
  "join_comments comments deliveries names =
     (let (out, rest) = fold (join_comment names) comments ([], deliveries_by_comment deliveries) in
      (out, sort_key dl_comment_created_at
         (filter (\<lambda>d. dl_comment_id d \<notin> ic_id ` set comments) rest)))"

section \<open>No claim is left behind\<close>

definition dispatching_ids :: "delivery_table \<Rightarrow> uuid set" where
  "dispatching_ids t = dl_id ` {d \<in> set t. dl_state d = DvDispatching}"

abbreviation claims :: "database \<Rightarrow> uuid set" where
  "claims db \<equiv> dispatching_ids (db_deliveries db)"

lemma on_deliveries_simps [simp]:
  "db_deliveries (on_deliveries f db) = f (db_deliveries db)"
  "db_processes (on_deliveries f db) = db_processes db" "db_jobs (on_deliveries f db) = db_jobs db"
  "db_turns (on_deliveries f db) = db_turns db" "db_sessions (on_deliveries f db) = db_sessions db"
  "db_workspaces (on_deliveries f db) = db_workspaces db" "db_wakeups (on_deliveries f db) = db_wakeups db"
  "db_boundaries (on_deliveries f db) = db_boundaries db"
  by (simp_all add: on_deliveries_def)

lemma dispatching_ids_iff: "i \<in> dispatching_ids t \<longleftrightarrow> (\<exists>d \<in> set t. dl_id d = i \<and> dl_state d = DvDispatching)"
  by (auto simp: dispatching_ids_def)

lemma released:
  assumes "\<And>d. dl_id (f d) = dl_id d" "\<And>d. dl_state (f d) \<noteq> DvDispatching"
  shows "dispatching_ids (snd (dl_update i {DvDispatching} f t)) = dispatching_ids t - {i}"
proof -
  have "j \<in> dispatching_ids (snd (dl_update i {DvDispatching} f t)) \<longleftrightarrow> j \<in> dispatching_ids t \<and> j \<noteq> i" for j
    unfolding dispatching_ids_iff dl_update_table set_map bex_simps(7)
    using assms by (intro iffI; elim bexE conjE; force split: if_splits)
  then show ?thesis by blast
qed

lemma pending_only:
  assumes "\<And>d. dl_id (f d) = dl_id d" "\<And>d. dl_state d = DvPending \<Longrightarrow> dl_state (f d) \<noteq> DvDispatching"
  shows "dispatching_ids (snd (dl_update i {DvPending} f t)) = dispatching_ids t"
proof -
  have "j \<in> dispatching_ids (snd (dl_update i {DvPending} f t)) \<longleftrightarrow> j \<in> dispatching_ids t" for j
    unfolding dispatching_ids_iff dl_update_table set_map bex_simps(7)
    using assms by (intro iffI; elim bexE conjE; force split: if_splits)
  then show ?thesis by blast
qed

lemma claims_statements [simp]:
  "st \<noteq> DvDispatching \<Longrightarrow> dispatching_ids (snd (finish_dispatch i st why err nx now t)) = dispatching_ids t - {i}"
  "dispatching_ids (snd (mark_delivered i e m u now t)) = dispatching_ids t - {i}"
  "st \<noteq> DvDispatching \<Longrightarrow> dispatching_ids (snd (finish_pending i st why' now t)) = dispatching_ids t"
  "dispatching_ids (set_pending_reason i why' now t) = dispatching_ids t"
  unfolding finish_dispatch_def mark_delivered_def finish_pending_def set_pending_reason_def
  by (rule released pending_only; simp add: finished_row_def delivered_row_def)+

lemma claims_snapshot [simp]:
  "dispatching_ids (snd (record_snapshot i m u now t)) = dispatching_ids t"
proof -
  have "j \<in> dispatching_ids (snd (record_snapshot i m u now t)) \<longleftrightarrow> j \<in> dispatching_ids t" for j
    unfolding dispatching_ids_iff record_snapshot_def dl_update_table set_map bex_simps(7)
    by (intro iffI; elim bexE conjE; force simp: snapshot_row_def split: if_splits)
  then show ?thesis by blast
qed

lemma claims_retry_or_fail [simp]: "claims (retry_or_fail row why err now db) = claims db - {dl_id row}"
  by (simp add: retry_or_fail_def split: option.split)

lemma claims_fail_uncertain [simp]: "claims (fail_uncertain be row e now db) = claims db - {dl_id row}"
  by (simp add: fail_uncertain_def)

lemma claims_finish_all:
  "st \<noteq> DvDispatching \<Longrightarrow> claims (finish_all rows st why now db) = claims db - dl_id ` set rows"
  by (induction rows arbitrary: db) (auto simp: finish_all_def)

lemma claims_read_failed [simp]: "claims (read_failed be row e now db) = claims db - {dl_id row}"
  by (auto simp: read_failed_def claims_finish_all)

lemma claims_delivered_by [simp]: "claims (delivered_by rc e now db) = claims db - {dl_id (fst rc)}"
  by (simp add: delivered_by_def)

lemma claims_start_failed [simp]: "claims (start_failed be session err now rc db) = claims db - {dl_id (fst rc)}"
  by (simp add: start_failed_def split: EarlierAttempt.split)

lemma claims_fold:
  assumes "\<And>x db. claims (f x db) = claims db - {g x}"
  shows "claims (fold f xs db) = claims db - g ` set xs"
  by (induction xs arbitrary: db) (auto simp: assms)

lemma claims_record_snapshots [simp]: "claims (record_snapshots now ready db) = claims db"
  unfolding record_snapshots_def by (rule fold_inv) (auto split: prod.splits)

text \<open>What a pass over the claimed rows reads besides the deliveries stays as it was.\<close>

definition same_evidence :: "database \<Rightarrow> database \<Rightarrow> bool" where
  "same_evidence db db' \<longleftrightarrow> db_processes db' = db_processes db \<and> db_jobs db' = db_jobs db
     \<and> db_turns db' = db_turns db \<and> db_wakeups db' = db_wakeups db"

lemma same_evidence_attempt:
  assumes "same_evidence db db'"
  shows "earlier_attempt be s c db' = earlier_attempt be s c db" "marked be s c db' = marked be s c db"
proof -
  have "marked_turn_of db' = marked_turn_of db"
    using assms by (auto simp: marked_turn_of_def process_launched_def same_evidence_def)
  then show "marked be s c db' = marked be s c db"
    using assms by (simp add: marked_def find_coding_agent_turns_with_marker_def same_evidence_def)
  then show "earlier_attempt be s c db' = earlier_attempt be s c db" by (simp add: earlier_attempt_def)
qed

lemma same_evidence_refl [simp]: "same_evidence db db"
  by (simp add: same_evidence_def)

lemma same_evidence_on_deliveries [simp]: "same_evidence db (on_deliveries f db)"
  by (simp add: same_evidence_def)

lemma same_evidence_trans: "same_evidence a b \<Longrightarrow> same_evidence b c \<Longrightarrow> same_evidence a c"
  by (simp add: same_evidence_def)

lemma same_evidence_finish_all: "same_evidence db (finish_all rows st why now db)"
  unfolding finish_all_def by (rule fold_rel) (auto intro: same_evidence_trans)

lemma same_evidence_steps [simp]:
  "same_evidence db (retry_or_fail row why err now db)" "same_evidence db (fail_uncertain be row e now db)"
  "same_evidence db (read_failed be row er now db)"
  by (simp_all add: retry_or_fail_def fail_uncertain_def read_failed_def same_evidence_finish_all)

text \<open>Whether the evidence lets a comment be sent.\<close>

definition sendable :: "backend \<Rightarrow> uuid \<Rightarrow> database \<Rightarrow> issue_comment_delivery \<Rightarrow> bool" where
  "sendable be s db row \<longleftrightarrow> (\<forall>t \<in> set (marked be s (dl_comment_id row) db). \<not> mt_launched t)
     \<and> ((\<exists>t \<in> set (marked be s (dl_comment_id row) db). mt_uncertain t) \<longrightarrow> dl_allow_stopped_target row)"

lemma earlier_attempt_cases:
  "earlier_attempt be s c db = Launched e \<Longrightarrow> \<exists>t \<in> set (marked be s c db). mt_launched t \<and> mt_id t = e"
  "earlier_attempt be s c db = Uncertain e \<Longrightarrow> \<forall>t \<in> set (marked be s c db). \<not> mt_launched t"
  "earlier_attempt be s c db = NoAttempt \<Longrightarrow>
    \<forall>t \<in> set (marked be s c db). \<not> mt_launched t \<and> \<not> mt_uncertain t"
  by (auto simp: earlier_attempt_def Let_def find_Some_iff find_None_iff split: option.splits)

lemma prepare_row_cases:
  obtains (kept) c where "prepare_row be s now row (ready, db) = (ready @ [(row, c)], db)" "sendable be s db row"
  | (gone) db' where "prepare_row be s now row (ready, db) = (ready, db')" "claims db' = claims db - {dl_id row}"
      "same_evidence db db'"
proof (cases "earlier_attempt be s (dl_comment_id row) db")
  case (Launched e)
  then show thesis using gone by (simp add: prepare_row_def)
next
  case (Uncertain e)
  show thesis
  proof (cases "dl_allow_stopped_target row")
    case True
    then have "sendable be s db row"
      using earlier_attempt_cases(2) [OF Uncertain] by (simp add: sendable_def)
    then show thesis using Uncertain True kept gone
      by (cases "find_wakeup (dl_comment_id row) (db_wakeups db)"; cases "be_get_comment be (dl_comment_id row)")
        (simp_all add: prepare_row_def)
  next
    case False
    then show thesis using Uncertain gone by (simp add: prepare_row_def)
  qed
next
  case NoAttempt
  then have "sendable be s db row" using earlier_attempt_cases(3) [OF NoAttempt] by (auto simp: sendable_def)
  then show thesis using NoAttempt kept gone
    by (cases "find_wakeup (dl_comment_id row) (db_wakeups db)"; cases "be_get_comment be (dl_comment_id row)")
      (simp_all add: prepare_row_def)
qed

lemma prepare_fold:
  assumes "fold (prepare_row be s now) claimed (ready, db) = (ready', db')"
  shows "claims db' \<subseteq> (claims db - dl_id ` set claimed) \<union> dl_id ` fst ` set ready'"
    and "set ready \<subseteq> set ready'" "fst ` set ready' \<subseteq> fst ` set ready \<union> set claimed"
    and "\<forall>row \<in> fst ` set ready. sendable be s db row \<Longrightarrow> \<forall>row \<in> fst ` set ready'. sendable be s db row"
    and "same_evidence db db'"
proof -
  have "claims db' \<subseteq> (claims db - dl_id ` set claimed) \<union> dl_id ` fst ` set ready'
      \<and> set ready \<subseteq> set ready' \<and> fst ` set ready' \<subseteq> fst ` set ready \<union> set claimed
      \<and> ((\<forall>row \<in> fst ` set ready. sendable be s db row) \<longrightarrow> (\<forall>row \<in> fst ` set ready'. sendable be s db row))
      \<and> same_evidence db db'"
    using assms
  proof (induction claimed arbitrary: ready db)
    case (Cons row claimed)
    show ?case
    proof (cases rule: prepare_row_cases [of be s now row ready db])
      case (kept c)
      have IH: "fold (prepare_row be s now) claimed (ready @ [(row, c)], db) = (ready', db')"
        using Cons.prems kept(1) by simp
      have "(row, c) \<in> set ready'" using Cons.IH [OF IH] by auto
      then have "dl_id row \<in> dl_id ` fst ` set ready'" by force
      then show ?thesis using Cons.IH [OF IH] kept(2) by auto
    next
      case (gone db1)
      have IH: "fold (prepare_row be s now) claimed (ready, db1) = (ready', db')"
        using Cons.prems gone(1) by simp
      have same: "sendable be s db1 r \<longleftrightarrow> sendable be s db r" for r
        by (simp add: sendable_def same_evidence_attempt [OF gone(3)])
      show ?thesis
        using Cons.IH [OF IH] gone(2) same_evidence_trans [OF gone(3)] unfolding same by auto
    qed
  qed auto
  then show "claims db' \<subseteq> (claims db - dl_id ` set claimed) \<union> dl_id ` fst ` set ready'"
    "set ready \<subseteq> set ready'" "fst ` set ready' \<subseteq> fst ` set ready \<union> set claimed"
    "\<forall>row \<in> fst ` set ready. sendable be s db row \<Longrightarrow> \<forall>row \<in> fst ` set ready'. sendable be s db row"
    "same_evidence db db'"
    by blast+
qed

lemma claims_fold_rows:
  assumes "\<And>row db. claims (f row db) = claims db - {dl_id row}"
  shows "claims (fold f (map fst ready) db) = claims db - dl_id ` fst ` set ready"
  by (simp add: claims_fold [of f dl_id, OF assms])

lemma claims_fold_ready:
  assumes "\<And>rc db. claims (f rc db) = claims db - {dl_id (fst rc)}"
  shows "claims (fold f ready db) = claims db - dl_id ` fst ` set ready"
  by (simp add: claims_fold [of f "\<lambda>rc. dl_id (fst rc)", OF assms] image_image)

lemma batch_prompt_cases:
  assumes "batch_prompt be session now ready db = Inl db'"
  obtains (finished) st why where "st \<noteq> DvDispatching" "db' = finish_all (map fst ready) st why now db"
  | (retried) why err where "db' = fold (\<lambda>row. retry_or_fail row why err now) (map fst ready) db"
  using assms by (fastforce simp: batch_prompt_def Let_def split: if_splits sum.splits)

lemma claims_batch_prompt:
  assumes "batch_prompt be session now ready db = Inl db'"
  shows "claims db' = claims db - dl_id ` fst ` set ready"
  using assms
  by (cases rule: batch_prompt_cases)
    (simp_all only: claims_finish_all set_map claims_fold_rows [OF claims_retry_or_fail] not_False_eq_True)

text \<open>Starting a turn writes executions, not deliveries.\<close>

definition keeps_deliveries :: "backend \<Rightarrow> bool" where
  "keeps_deliveries be \<longleftrightarrow>
     (\<forall>s prompt db. db_deliveries (snd (be_start_follow_up be s prompt db)) = db_deliveries db)"

lemma deliver_claimed_claims:
  assumes "keeps_deliveries be" "deliver_claimed be session now claimed db = (st, db')"
  shows "claims db' \<subseteq> claims db - dl_id ` set claimed"
proof -
  obtain ready db1 where p: "fold (prepare_row be (se_id session) now) claimed ([], db) = (ready, db1)"
    by fastforce
  have c: "claims db1 \<subseteq> (claims db - dl_id ` set claimed) \<union> dl_id ` fst ` set ready"
    using prepare_fold(1) [OF p] .
  show ?thesis
  proof (cases "ready = []")
    case True
    then show ?thesis using assms(2) p c by (simp add: deliver_claimed_def)
  next
    case False
    show ?thesis
    proof (cases "batch_prompt be session now ready db1")
      case (Inl db2)
      then show ?thesis
        using claims_batch_prompt [OF Inl] assms(2) p c False by (auto simp: deliver_claimed_def)
    next
      case (Inr prompt)
      let ?db = "record_snapshots now ready db1"
      obtain r db2 where r: "be_start_follow_up be (se_id session) prompt ?db = (r, db2)" by fastforce
      have d: "db_deliveries db2 = db_deliveries ?db"
        using assms(1) r by (metis keeps_deliveries_def snd_conv)
      have "claims db' = claims db2 - dl_id ` fst ` set ready"
        using assms(2) p False Inr r
        by (cases r; clarsimp simp: deliver_claimed_def claims_fold_ready
            [of "start_failed be session e now" for e, OF claims_start_failed]
            claims_fold_ready [of "\<lambda>rc. delivered_by rc e now" for e, OF claims_delivered_by])
      then show ?thesis using c d by auto
    qed
  qed
qed

text \<open>The claims of a pass.\<close>

lemma dispatching_ids_map:
  "j \<in> dispatching_ids (map (\<lambda>d. if P d then f d else d) t) \<longleftrightarrow>
    (\<exists>d \<in> set t. P d \<and> dl_id (f d) = j \<and> dl_state (f d) = DvDispatching)
    \<or> (\<exists>d \<in> set t. \<not> P d \<and> dl_id d = j \<and> dl_state d = DvDispatching)"
proof -
  have "set (map (\<lambda>d. if P d then f d else d) t) = f ` {d \<in> set t. P d} \<union> {d \<in> set t. \<not> P d}" by auto
  then have "dispatching_ids (map (\<lambda>d. if P d then f d else d) t)
      = dl_id ` {e \<in> f ` {d \<in> set t. P d}. dl_state e = DvDispatching}
      \<union> dl_id ` {e \<in> {d \<in> set t. \<not> P d}. dl_state e = DvDispatching}"
    unfolding dispatching_ids_def by (simp only: Collect_conj_eq Int_Un_distrib2 image_Un Collect_mem_eq)
  then show ?thesis by auto
qed

lemma claims_claim:
  assumes "delivery_keys t"
  shows "dispatching_ids (snd (claim i now t)) =
    (if fst (claim i now t) then insert i (dispatching_ids t) else dispatching_ids t)"
proof -
  have ok: "fst (claim i now t) \<longleftrightarrow> is_some_and (find_delivery i t) (\<lambda>d. dl_state d = DvPending)"
    using dl_update_found(1) [OF assms row_keeps_keys(3), of i "{DvPending}" now] by (simp add: claim_def)
  have pending: "fst (claim i now t) \<longleftrightarrow> (\<exists>d \<in> set t. dl_id d = i \<and> dl_state d = DvPending)"
    unfolding ok find_delivery_def using assms sql_find_mem [of dl_id t]
    by (cases "sql_find dl_id i t") (force simp: delivery_keys_def dest: sql_find_None [THEN iffD1] sql_find_Some)+
  have "j \<in> dispatching_ids (snd (claim i now t)) \<longleftrightarrow>
      (\<exists>d \<in> set t. dl_id d = i \<and> dl_state d = DvPending \<and> j = i) \<or> j \<in> dispatching_ids t" for j
    unfolding claim_def dl_update_table dispatching_ids_map
    by (auto simp: claimed_row_def dispatching_ids_iff)
  then show ?thesis unfolding pending by auto
qed

lemma claim_fold:
  assumes "fold (claim_row stopped now) rows (deliverable, db) = (deliverable', db')"
    and "delivery_keys (db_deliveries db)"
  shows "claims db' \<subseteq> claims db \<union> dl_id ` set deliverable'"
  using assms
proof (induction rows arbitrary: deliverable db)
  case (Cons row rows)
  obtain ds db1 where c: "claim_row stopped now row (deliverable, db) = (ds, db1)" by fastforce
  then have rest: "fold (claim_row stopped now) rows (ds, db1) = (deliverable', db')" using Cons.prems(1) by simp
  have keys: "delivery_keys (db_deliveries db1)"
    using c Cons.prems(2) delivery_step_keys [OF _ ds_claim] delivery_step_keys [OF _ ds_finish_pending]
    by (auto simp: claim_row_def Let_def split: if_splits prod.splits) (metis snd_conv)+
  have more: "set ds \<subseteq> set deliverable'"
    using rest
  proof (induction rows arbitrary: ds db1)
    case (Cons r rs)
    obtain ds1 db2 where r: "claim_row stopped now r (ds, db1) = (ds1, db2)" by fastforce
    then have "set ds \<subseteq> set ds1" by (auto simp: claim_row_def Let_def split: if_splits prod.splits)
    then show ?case using Cons.IH [of ds1 db2] Cons.prems r by simp
  qed simp
  have "claims db1 \<subseteq> claims db \<union> dl_id ` set ds"
    using c claims_claim [OF Cons.prems(2), of "dl_id row" now]
    by (auto simp: claim_row_def Let_def split: if_splits prod.splits)
  then show ?case using Cons.IH [OF rest keys] more by blast
qed simp

lemma claims_pending_passes:
  "claims (finish_pending_all rows why now db) = claims db" "claims (note_busy rows why now db) = claims db"
  unfolding finish_pending_all_def note_busy_def by (rule fold_inv; simp)+

lemma dispatch_session_cases:
  assumes "dispatch_session be reconciled_at now s db = (st, db')"
  obtains (idle) "st = None" "db' = db"
  | (pending) why where "st = None" "db' = finish_pending_all (due_rows now s db) why now db"
  | (busy) why where "st = None" "db' = note_busy (due_rows now s db) why now db"
  | (turn) session ws t status completed deliverable db1 where
      "find_session s (db_sessions db) = Some session"
      "find_workspace (se_workspace_id session) (db_workspaces db) = Some ws" "\<not> ws_archived ws"
      "busy_reason be s (ws_id ws) db = None"
      "latest_coding_agent_turn_for_session s (db_processes db) = Some (t, status, completed)"
      "own_attempt be s t (due_rows now s db) db \<or> boundary_confirmed reconciled_at db s t completed"
      "fold (claim_row (status \<noteq> EpCompleted \<and> \<not> own_attempt be s t (due_rows now s db) db) now)
         (filter (\<lambda>row. dl_issue_id row = dl_issue_id (hd (due_rows now s db))) (due_rows now s db)) ([], db)
         = (deliverable, db1)"
      "(st, db') = (if deliverable = [] then (None, db1) else deliver_claimed be session now deliverable db1)"
proof (cases "due_rows now s db = []")
  case False
  note due = this
  show thesis
  proof (cases "find_session s (db_sessions db)")
    case None
    then show thesis using assms due pending by (auto simp: dispatch_session_def)
  next
    case (Some session)
    note session = this
    show thesis
    proof (cases "find_workspace (se_workspace_id session) (db_workspaces db)")
      case None
      then show thesis using assms due session pending by (auto simp: dispatch_session_def)
    next
      case (Some ws)
      note ws = this
      show thesis
      proof (cases "ws_archived ws \<or> busy_reason be s (ws_id ws) db \<noteq> None
          \<or> latest_coding_agent_turn_for_session s (db_processes db) = None")
        case True
        then show thesis using assms due session ws pending busy
          by (cases "ws_archived ws"; cases "busy_reason be s (ws_id ws) db") (auto simp: dispatch_session_def)
      next
        case False
        then obtain t status completed
          where latest: "latest_coding_agent_turn_for_session s (db_processes db) = Some (t, status, completed)"
          by (metis option.exhaust prod_cases3)
        obtain deliverable db1 where f: "fold (claim_row (status \<noteq> EpCompleted \<and> \<not> own_attempt be s t (due_rows now s db) db) now)
         (filter (\<lambda>row. dl_issue_id row = dl_issue_id (hd (due_rows now s db))) (due_rows now s db)) ([], db)
         = (deliverable, db1)" by fastforce
        show thesis
        proof (cases "own_attempt be s t (due_rows now s db) db \<or> boundary_confirmed reconciled_at db s t completed")
          case True
          then show thesis using assms due session ws False latest f
            by (intro turn [OF session ws]) (auto simp: dispatch_session_def Let_def)
        next
          case notconf: False
          then show thesis using assms due session ws False latest idle by (simp add: dispatch_session_def Let_def)
        qed
      qed
    qed
  qed
qed (use assms idle in \<open>simp add: dispatch_session_def\<close>)

text \<open>
  C19: a pass over a session leaves no claim behind. Every delivery that is still marked as being
  dispatched after the pass was so before it: a row the pass claims is delivered, failed, cancelled,
  left without a target or put back in the queue, on every path through the remote server's answers
  and the outcome of starting the turn.
\<close>

theorem dispatch_leaves_no_claim:
  assumes "keeps_deliveries be" "delivery_keys (db_deliveries db)"
  shows "dispatching_ids (db_deliveries (snd (dispatch_session be reconciled_at now s db)))
    \<subseteq> dispatching_ids (db_deliveries db)"
proof -
  obtain st db' where d: "dispatch_session be reconciled_at now s db = (st, db')" by fastforce
  from d show ?thesis
  proof (cases rule: dispatch_session_cases)
    case (turn session ws t status completed deliverable db1)
    have c: "claims db1 \<subseteq> claims db \<union> dl_id ` set deliverable"
      using claim_fold [OF turn(7) assms(2)] .
    show ?thesis
    proof (cases "deliverable = []")
      case True
      then show ?thesis using c turn(8) d by simp
    next
      case False
      then have "claims db' \<subseteq> claims db1 - dl_id ` set deliverable"
        using deliver_claimed_claims [OF assms(1)] turn(8) by (metis (full_types))
      then show ?thesis using c d by auto
    qed
  qed (use d in \<open>simp_all add: claims_pending_passes\<close>)
qed

section \<open>When a turn is started\<close>

lemma claim_row_evidence:
  "claim_row stopped now row (ds, db) = (ds', db') \<Longrightarrow> same_evidence db db'
    \<and> (ds' = ds \<or> ds' = ds @ [row] \<and> (stopped \<longrightarrow> dl_allow_stopped_target row))"
  by (auto simp: claim_row_def Let_def same_evidence_def split: if_splits prod.splits)

lemma claim_fold_rows:
  assumes "fold (claim_row stopped now) rows (ds, db) = (ds', db')"
  shows "set ds' \<subseteq> set ds \<union> {row \<in> set rows. stopped \<longrightarrow> dl_allow_stopped_target row}
    \<and> same_evidence db db'"
  using assms
proof (induction rows arbitrary: ds db)
  case (Cons row rows)
  obtain ds1 db1 where c: "claim_row stopped now row (ds, db) = (ds1, db1)" by fastforce
  then have rest: "fold (claim_row stopped now) rows (ds1, db1) = (ds', db')" using Cons.prems by simp
  have "set ds1 \<subseteq> set ds \<union> {r. r = row \<and> (stopped \<longrightarrow> dl_allow_stopped_target r)}"
    using claim_row_evidence [OF c] by auto
  then show ?case
    using Cons.IH [OF rest] claim_row_evidence [OF c] same_evidence_trans by fastforce
qed simp

lemma deliver_claimed_started:
  assumes "deliver_claimed be session now claimed db = (Some (s', prompt, rows), db')"
  shows "s' = se_id session" "rows \<noteq> []" "set rows \<subseteq> set claimed"
    "\<forall>row \<in> set rows. sendable be (se_id session) db row"
proof -
  obtain ready db1 where p: "fold (prepare_row be (se_id session) now) claimed ([], db) = (ready, db1)"
    by fastforce
  then have r: "s' = se_id session" "rows = map fst ready" "ready \<noteq> []"
    using assms by (auto simp: deliver_claimed_def Let_def split: if_splits sum.splits prod.splits)
  then show "s' = se_id session" "rows \<noteq> []" by simp_all
  show "set rows \<subseteq> set claimed" using prepare_fold(3) [OF p] r(2) by simp
  show "\<forall>row \<in> set rows. sendable be (se_id session) db row" using prepare_fold(4) [OF p] r(2) by simp
qed

lemma sendable_same:
  "same_evidence db db' \<Longrightarrow> sendable be s db' row \<longleftrightarrow> sendable be s db row"
  by (simp add: sendable_def same_evidence_attempt)


section \<open>Recovery\<close>

text \<open>What recovery makes of one row.\<close>

definition recovered_row :: "backend \<Rightarrow> datetime \<Rightarrow> database \<Rightarrow> issue_comment_delivery \<Rightarrow> issue_comment_delivery" where
  "recovered_row be now db row =
     (case (case dl_session_id row of
              Some s \<Rightarrow> earlier_attempt be s (dl_comment_id row) db
            | None \<Rightarrow> NoAttempt) of
        Launched e \<Rightarrow> delivered_row e (case dl_delivered_message row of Some m \<Rightarrow> m | None \<Rightarrow> [])
          (dl_delivered_comment_updated_at row) now row
      | Uncertain e \<Rightarrow> finished_row DvFailed (Some LaunchUncertain)
          (Some (''execution '' @ tx_uuid (be_texts be) e @ '' was handed to a worker that never confirmed it started; ''
            @ ''check the session, then choose it explicitly to send the comment again'')) None now row
      | NoAttempt \<Rightarrow> finished_row DvPending (Some RetryScheduled)
          (Some ''delivery was interrupted by a server restart'') None now row)"

definition recover_one :: "backend \<Rightarrow> datetime \<Rightarrow> database \<Rightarrow> issue_comment_delivery
    \<Rightarrow> issue_comment_delivery \<Rightarrow> issue_comment_delivery" where
  "recover_one be now db row d = (if dl_id d = dl_id row \<and> dl_state d = DvDispatching
     then (recovered_row be now db row)\<lparr> dl_id := dl_id d \<rparr> else d)"

lemma fold_map_rows: "fold (\<lambda>row. map (h row)) rows t = map (\<lambda>d. fold h rows d) t"
  by (induction rows arbitrary: t) simp_all

lemma fold_untouched: "\<forall>r \<in> set rows. h r d = d \<Longrightarrow> fold h rows d = d"
  by (induction rows) simp_all

lemma fold_once:
  assumes "d \<in> set rows" "\<forall>r \<in> set rows. r \<noteq> d \<longrightarrow> h r d = d" "\<forall>r \<in> set rows. h r (h d d) = h d d"
  shows "fold h rows d = h d d"
  using assms
proof (induction rows)
  case (Cons r rows)
  show ?case
  proof (cases "r = d")
    case True
    then show ?thesis using Cons.prems(3) fold_untouched [of rows h "h d d"] by simp
  next
    case False
    then show ?thesis using Cons by simp
  qed
qed simp

lemma recovered_row_simps [simp]:
  "dl_id (recovered_row be now db row) = dl_id row" "dl_state (recovered_row be now db row) \<noteq> DvDispatching"
  by (simp_all add: recovered_row_def delivered_row_def finished_row_def
      split: EarlierAttempt.split option.split)

lemma recover_row_eq:
  assumes "same_evidence db0 db" "\<forall>d \<in> set (db_deliveries db). dl_id d = dl_id row \<and> dl_state d = DvDispatching \<longrightarrow> d = row"
  shows "recover_row be now row db = db\<lparr> db_deliveries := map (recover_one be now db0 row) (db_deliveries db) \<rparr>"
proof -
  have ev: "(case dl_session_id row of Some s \<Rightarrow> earlier_attempt be s (dl_comment_id row) db | None \<Rightarrow> NoAttempt)
      = (case dl_session_id row of Some s \<Rightarrow> earlier_attempt be s (dl_comment_id row) db0 | None \<Rightarrow> NoAttempt)"
    using same_evidence_attempt(1) [OF assms(1)] by (cases "dl_session_id row") simp_all
  obtain f where f: "recover_row be now row db = db\<lparr> db_deliveries := map (\<lambda>d.
      if dl_id d = dl_id row \<and> dl_state d = DvDispatching then f d else d) (db_deliveries db) \<rparr>"
    and row: "f row = recovered_row be now db0 row"
  proof (cases "case dl_session_id row of Some s \<Rightarrow> earlier_attempt be s (dl_comment_id row) db0 | None \<Rightarrow> NoAttempt")
    case (Launched e)
    then show thesis
      by (intro that [of "delivered_row e (case dl_delivered_message row of Some m \<Rightarrow> m | None \<Rightarrow> [])
          (dl_delivered_comment_updated_at row) now"])
        (simp_all add: recover_row_def recovered_row_def ev on_deliveries_def mark_delivered_def dl_update_table)
  next
    case (Uncertain e)
    then show thesis
      by (intro that [of "finished_row DvFailed (Some LaunchUncertain)
          (Some (''execution '' @ tx_uuid (be_texts be) e @ '' was handed to a worker that never confirmed it started; ''
            @ ''check the session, then choose it explicitly to send the comment again'')) None now"])
        (simp_all add: recover_row_def recovered_row_def ev on_deliveries_def fail_uncertain_def
          finish_dispatch_def dl_update_table)
  next
    case NoAttempt
    then show thesis
      by (intro that [of "finished_row DvPending (Some RetryScheduled)
          (Some ''delivery was interrupted by a server restart'') None now"])
        (simp_all add: recover_row_def recovered_row_def ev on_deliveries_def finish_dispatch_def dl_update_table)
  qed
  have "(if dl_id d = dl_id row \<and> dl_state d = DvDispatching then f d else d) = recover_one be now db0 row d"
    if "d \<in> set (db_deliveries db)" for d
    using assms(2) row that by (auto simp: recover_one_def)
  then show ?thesis unfolding f by (simp cong: map_cong)
qed

lemma recover_fold:
  assumes "same_evidence db0 db" "\<forall>row \<in> set rows. \<forall>d \<in> set (db_deliveries db).
      dl_id d = dl_id row \<and> dl_state d = DvDispatching \<longrightarrow> d = row" "distinct (map dl_id rows)"
  shows "fold (recover_row be now) rows db =
    db\<lparr> db_deliveries := fold (\<lambda>row. map (recover_one be now db0 row)) rows (db_deliveries db) \<rparr>"
  using assms
proof (induction rows arbitrary: db)
  case (Cons row rows)
  let ?db = "db\<lparr> db_deliveries := map (recover_one be now db0 row) (db_deliveries db) \<rparr>"
  have r: "recover_row be now row db = ?db" using recover_row_eq [OF Cons.prems(1)] Cons.prems(2) by simp
  have same: "same_evidence db0 ?db" using Cons.prems(1) by (simp add: same_evidence_def)
  have "\<forall>r \<in> set rows. \<forall>d \<in> set (db_deliveries ?db). dl_id d = dl_id r \<and> dl_state d = DvDispatching \<longrightarrow> d = r"
    using Cons.prems(2) by (auto simp: recover_one_def split: if_splits)
  then have "fold (recover_row be now) rows ?db =
      ?db\<lparr> db_deliveries := fold (\<lambda>row. map (recover_one be now db0 row)) rows (db_deliveries ?db) \<rparr>"
    using Cons.IH [OF same] Cons.prems(3) by simp
  then show ?case by (simp add: r)
qed simp

text \<open>
  Recovery after a restart settles every interrupted delivery exactly by the evidence: one that a
  started turn carries becomes delivered by that turn; one handed to a worker that never confirmed is
  failed and left to a person; one that no turn was started for is queued again. Every other row
  stays as it was, and nothing but the deliveries changes.
\<close>

theorem recover_exact:
  assumes "delivery_keys (db_deliveries db)"
  shows "recover be now db = db\<lparr> db_deliveries := map (\<lambda>d.
      if dl_state d = DvDispatching then recovered_row be now db d else d) (db_deliveries db) \<rparr>"
proof -
  let ?t = "db_deliveries db" and ?rows = "list_dispatching (db_deliveries db)"
  have one: "d = e" if "d \<in> set ?t" "e \<in> set ?t" "dl_id d = dl_id e" for d e
    using assms that by (auto simp: delivery_keys_def keyed_def distinct_map inj_on_def)
  have rows: "set ?rows = {d \<in> set ?t. dl_state d = DvDispatching}" by (auto simp: list_dispatching_def)
  have "fold (recover_one be now db) ?rows d = (if dl_state d = DvDispatching then recovered_row be now db d else d)"
    if d: "d \<in> set ?t" for d
  proof (cases "dl_state d = DvDispatching")
    case True
    have self: "recover_one be now db d d = recovered_row be now db d"
      using True by (simp add: recover_one_def)
    have "fold (recover_one be now db) ?rows d = recover_one be now db d d"
      by (rule fold_once) (use d True one rows self in \<open>auto simp: recover_one_def\<close>)
    then show ?thesis using True self by simp
  qed (simp add: fold_untouched recover_one_def)
  moreover have "recover be now db =
      db\<lparr> db_deliveries := fold (\<lambda>row. map (recover_one be now db row)) ?rows ?t \<rparr>"
    unfolding recover_def
  proof (rule recover_fold)
    show "distinct (map dl_id ?rows)"
      using assms by (simp add: delivery_keys_def keyed_def list_dispatching_def distinct_map_filter)
  qed (use one rows in auto)
  ultimately show ?thesis unfolding fold_map_rows by (simp cong: map_cong)
qed

section \<open>Every write is a statement of the table\<close>

text \<open>The statements a pass runs: those on rows that are pending or being dispatched.\<close>

inductive dispatch_write :: "delivery_table \<Rightarrow> delivery_table \<Rightarrow> bool" where
  dw_snapshot: "dispatch_write t (snd (record_snapshot i m u now t))"
| dw_claim: "dispatch_write t (snd (claim i now t))"
| dw_delivered: "dispatch_write t (snd (mark_delivered i e m u' now t))"
| dw_finish: "dispatch_write t (snd (finish_dispatch i st why err nx now t))"
| dw_reason: "dispatch_write t (set_pending_reason i reason now t)"
| dw_finish_pending: "dispatch_write t (snd (finish_pending i st reason now t))"

lemmas dispatch_writes [simp] = dispatch_write.intros [THEN r_into_rtranclp [of dispatch_write]]

lemma dispatch_write_step: "dispatch_write t t' \<Longrightarrow> delivery_step t t'"
  by (induction rule: dispatch_write.induct) (rule delivery_step.intros)+

abbreviation writes :: "database \<Rightarrow> database \<Rightarrow> bool" where
  "writes db db' \<equiv> dispatch_write\<^sup>*\<^sup>* (db_deliveries db) (db_deliveries db')"

lemma writes_fold: "(\<And>x db. writes db (f x db)) \<Longrightarrow> writes db (fold f xs db)"
  by (rule fold_rel) (auto intro: rtranclp_trans)

lemma writes_finish_all: "writes db (finish_all rows st why now db)"
  unfolding finish_all_def by (rule writes_fold) simp

lemma writes_pending_passes:
  "writes db (finish_pending_all rows why now db)" "writes db (note_busy rows why now db)"
  unfolding finish_pending_all_def note_busy_def
  by (rule writes_fold; simp)+

lemma writes_rows:
  "writes db (retry_or_fail row why err now db)" "writes db (fail_uncertain be row e now db)"
  "writes db (read_failed be row er now db)" "writes db (delivered_by rc e now db)"
  "writes db (start_failed be session err now rc db)"
  by (auto simp: retry_or_fail_def fail_uncertain_def read_failed_def delivered_by_def start_failed_def
      writes_finish_all split: option.split EarlierAttempt.split)

lemma writes_snapshots: "writes db (record_snapshots now ready db)"
  unfolding record_snapshots_def
  by (rule writes_fold) (simp split: prod.split)

lemma writes_prepare: "fold (prepare_row be s now) rows (ready, db) = (ready', db') \<Longrightarrow> writes db db'"
proof (induction rows arbitrary: ready db)
  case (Cons row rows)
  obtain ready1 db1 where p: "prepare_row be s now row (ready, db) = (ready1, db1)" by fastforce
  have "writes db db1"
    using p writes_rows by (auto simp: prepare_row_def Let_def split: EarlierAttempt.splits option.splits sum.splits
        if_splits)
  then show ?case using Cons.IH [of ready1 db1] Cons.prems p by (simp add: rtranclp_trans)
qed simp

lemma writes_claims: "fold (claim_row stopped now) rows (ds, db) = (ds', db') \<Longrightarrow> writes db db'"
proof (induction rows arbitrary: ds db)
  case (Cons row rows)
  obtain ds1 db1 where c: "claim_row stopped now row (ds, db) = (ds1, db1)" by fastforce
  have "writes db db1"
    using c dw_claim [of "db_deliveries db" "dl_id row" now] dw_finish_pending
    by (auto simp: claim_row_def Let_def split: if_splits prod.splits)
  then show ?case using Cons.IH [of ds1 db1] Cons.prems c by (simp add: rtranclp_trans)
qed simp

lemma writes_batch_prompt: "batch_prompt be session now ready db = Inl db' \<Longrightarrow> writes db db'"
  by (erule batch_prompt_cases) (simp_all add: writes_finish_all writes_fold writes_rows)

lemma writes_deliver_claimed:
  assumes "keeps_deliveries be" "deliver_claimed be session now claimed db = (st, db')"
  shows "writes db db'"
proof -
  obtain ready db1 where p: "fold (prepare_row be (se_id session) now) claimed ([], db) = (ready, db1)"
    by fastforce
  have 1: "writes db db1" using writes_prepare [OF p] .
  show ?thesis
  proof (cases "ready = [] \<or> (\<exists>db2. batch_prompt be session now ready db1 = Inl db2)")
    case True
    then show ?thesis using assms(2) p 1 writes_batch_prompt [of be session now ready db1]
      by (auto simp: deliver_claimed_def intro: rtranclp_trans split: if_splits)
  next
    case False
    then obtain prompt where b: "ready \<noteq> []" "batch_prompt be session now ready db1 = Inr prompt"
      by (metis sum.exhaust)
    let ?db = "record_snapshots now ready db1"
    obtain r db2 where r: "be_start_follow_up be (se_id session) prompt ?db = (r, db2)" by fastforce
    have "db_deliveries db2 = db_deliveries ?db"
      using assms(1) r by (metis keeps_deliveries_def snd_conv)
    then have 2: "writes db db2" using rtranclp_trans [OF 1 writes_snapshots] by simp
    have "writes db2 db'"
      using assms(2) p b r writes_fold [of "\<lambda>rc. delivered_by rc e now" for e, OF writes_rows(4)]
        writes_fold [of "start_failed be session e now" for e, OF writes_rows(5)]
      by (cases r) (auto simp: deliver_claimed_def)
    then show ?thesis using 2 by (rule rtranclp_trans [rotated])
  qed
qed

lemma writes_dispatch_session:
  assumes "keeps_deliveries be" "dispatch_session be reconciled_at now s db = (st, db')"
  shows "writes db db'"
  using assms(2)
proof (cases rule: dispatch_session_cases)
  case (turn session ws t status completed deliverable db1)
  then show ?thesis using writes_claims [OF turn(7)] writes_deliver_claimed [OF assms(1)]
    by (metis rtranclp_trans prod.inject)
qed (simp_all add: writes_pending_passes)

text \<open>
  The dispatcher as a system: any of its operations, each time with whatever the remote server
  answers and whatever starting a turn does to the executions, and any change to other tables.
\<close>

inductive dispatcher_step :: "database \<Rightarrow> database \<Rightarrow> bool" where
  dx_request: "keeps_deliveries be \<Longrightarrow> request be reconciled_at now fresh rq db = (r, st, db') \<Longrightarrow>
    dispatcher_step db db'"
| dx_comment: "keeps_deliveries be \<Longrightarrow> create_comment be reconciled_at now fresh fresh' cq db = (rc, st, db') \<Longrightarrow>
    dispatcher_step db db'"
| dx_subtask: "keeps_deliveries be \<Longrightarrow>
    subtask_result be reconciled_at now fresh issue s comment message hop db = (r, st, db') \<Longrightarrow>
    dispatcher_step db db'"
| dx_dispatch: "keeps_deliveries be \<Longrightarrow> dispatch_session be reconciled_at now s db = (st, db') \<Longrightarrow>
    dispatcher_step db db'"
| dx_recover: "dispatcher_step db (recover be now db)"
| dx_other: "db_deliveries db' = db_deliveries db \<Longrightarrow> dispatcher_step db db'"

abbreviation statements :: "database \<Rightarrow> database \<Rightarrow> bool" where
  "statements db db' \<equiv> delivery_step\<^sup>*\<^sup>* (db_deliveries db) (db_deliveries db')"

lemma writes_statements: "writes db db' \<Longrightarrow> statements db db'"
  using rtranclp_mono [of dispatch_write delivery_step] dispatch_write_step by blast

lemma writes_recover: "writes db (recover be now db)"
proof -
  have "writes db (recover_row be now row db)" for row db
    by (simp add: recover_row_def writes_rows split: option.split EarlierAttempt.split)
  then show ?thesis unfolding recover_def by (rule writes_fold)
qed

lemma writes_dispatch_if_pending:
  "keeps_deliveries be \<Longrightarrow> dispatch_if_pending be reconciled_at now r db = (st, db') \<Longrightarrow> writes db db'"
  by (auto simp: dispatch_if_pending_def intro: writes_dispatch_session
      split: IssueCommentDeliveryState.splits option.splits)

lemma writes_if_applied:
  "keeps_deliveries be \<Longrightarrow> (if applied then dispatch_if_pending be reconciled_at now r db else (None, db)) = (st, db')
    \<Longrightarrow> writes db db'"
  by (cases applied) (auto dest: writes_dispatch_if_pending)

text \<open>How a request ends: nothing written, or a resolution or an insertion and then a pass.\<close>

lemma insert_and_dispatch_cases:
  assumes "keeps_deliveries be" "insert_and_dispatch be reconciled_at now fresh n r db = (a, st, db')"
  obtains (same) "db' = db"
  | (row) db1 where "db_deliveries db1 = db_deliveries db @ [new_row fresh n r now]"
      "delivery_step (db_deliveries db) (db_deliveries db1)" "writes db1 db'"
proof (cases "insert_if_absent fresh n r now (db_deliveries db)")
  case (Pair res t)
  have step: "delivery_step (db_deliveries db) t" using ds_insert [OF Pair] .
  show thesis
  proof (cases "t = db_deliveries db")
    case True
    then have "db' = db" using Pair assms(2)
      by (auto simp: insert_and_dispatch_def insert_if_absent_def Let_def split: option.splits if_splits)
    then show thesis by (rule same)
  next
    case False
    let ?db = "db\<lparr> db_deliveries := t \<rparr>"
    have t: "t = db_deliveries db @ [new_row fresh n r now]" "res = Ok (new_row fresh n r now, True)"
      using False Pair by (auto simp: insert_if_absent_def Let_def split: option.splits if_splits)
    obtain st1 db1 where d: "dispatch_if_pending be reconciled_at now r ?db = (st1, db1)" by fastforce
    then have "db' = db1" using assms(2) Pair t(2) by (simp add: insert_and_dispatch_def)
    then show thesis using row [of ?db] step t(1) writes_dispatch_if_pending [OF assms(1) d] by simp
  qed
qed

lemma request_cases:
  assumes "keeps_deliveries be" "request be reconciled_at now fresh rq db = (a, st, db')"
  obtains (same) "db' = db"
  | (resolved) db1 i issue target origin agent
    where "db_deliveries db1 = snd (apply_resolution i [DvFailed, DvNoTarget, DvNeedsTarget]
        (resolve be db issue target origin agent) now (db_deliveries db))" "writes db1 db'"
  | (inserted) n issue target origin agent a' st'
    where "insert_and_dispatch be reconciled_at now fresh n (resolve be db issue target origin agent) db = (a', st', db')"
proof (cases "be_get_comment be (dr_comment_id rq)")
  case (Inr comment)
  note get = this
  show thesis
  proof (cases "ic_issue_id comment = dr_issue_id rq")
    case True
    show thesis
    proof (cases "find_by_comment_id (ic_id comment) (db_deliveries db)")
      case None
      then show thesis using get True assms(2) inserted by (simp add: request_def Let_def)
    next
      case (Some existing)
      let ?r = "resolve be db (dl_issue_id existing) (dr_target_session_id rq) (dl_origin_session_id existing)
        (dl_source existing = SourceMcp \<and> dl_origin_session_id existing \<noteq> None)"
      obtain applied t where ap: "apply_resolution (dl_id existing) [DvFailed, DvNoTarget, DvNeedsTarget] ?r now
        (db_deliveries db) = (applied, t)" by fastforce
      let ?db = "db\<lparr> db_deliveries := t \<rparr>"
      obtain st1 db1 where d: "(if applied then dispatch_if_pending be reconciled_at now ?r ?db else (None, ?db)) = (st1, db1)"
        by fastforce
      have w: "writes ?db db1" using writes_if_applied [OF assms(1) d] .
      show thesis
      proof (cases "is_resolvable (dl_state existing)")
        case res: True
        have "db' = db1" using get True Some res assms(2) ap d
          by (simp add: request_def Let_def split: if_splits prod.splits)
        moreover have "db_deliveries ?db = snd (apply_resolution (dl_id existing) [DvFailed, DvNoTarget, DvNeedsTarget]
            ?r now (db_deliveries db))" unfolding ap by simp
        ultimately show thesis using resolved w by blast
      next
        case False
        then show thesis using get True Some assms(2) same by (simp add: request_def)
      qed
    qed
  next
    case False
    then show thesis using get assms(2) same by (simp add: request_def)
  qed
qed (use assms(2) same in \<open>simp add: request_def\<close>)

lemma create_comment_database:
  "create_comment be reconciled_at now fresh fresh' cq db = (rc, st, db') \<Longrightarrow>
    db' = db \<or> (\<exists>rq a. request be reconciled_at now fresh rq db = (a, st, db'))"
  by (auto simp: create_comment_def Let_def split: if_splits sum.splits IssueCommentIntent.splits prod.splits)

lemma subtask_result_cases:
  assumes "subtask_result be reconciled_at now fresh issue s comment message hop db = (a, st, db')"
  obtains (same) "db' = db"
  | (inserted) n target a' st' where "insert_and_dispatch be reconciled_at now fresh n
      (subtask_resolution (resolve be db issue target None False) hop) db = (a', st', db')"
proof -
  obtain rc st1 db1 where c: "create_comment be reconciled_at now fresh comment
      \<lparr> ci_issue_id = issue, ci_message = message, ci_intent = Note, ci_parent_id = None,
        ci_target_session_id = None, ci_comment_id = Some comment, ci_origin_session_id = None,
        ci_origin_workspace_id = None \<rparr> db = (rc, st1, db1)" by (metis prod_cases3)
  show thesis
  proof (cases rc)
    case (Inl e)
    then show thesis using c assms same by (simp add: subtask_result_def)
  next
    case (Inr x)
    obtain cm info del where x: "x = (cm, info, del)" by (metis prod_cases3)
    show thesis
    proof (cases "find_by_comment_id comment (db_deliveries db)")
      case None
      then show thesis using c Inr x assms same inserted
        by (simp add: subtask_result_def Let_def split: if_splits)
    next
      case (Some d)
      then show thesis using c Inr x assms same by (simp add: subtask_result_def)
    qed
  qed
qed

lemma statements_insert_and_dispatch:
  assumes "keeps_deliveries be" "insert_and_dispatch be reconciled_at now fresh n r db = (a, st, db')"
  shows "statements db db'"
  using assms
proof (cases rule: insert_and_dispatch_cases)
  case (row db1)
  show ?thesis using converse_rtranclp_into_rtranclp [OF row(2) writes_statements [OF row(3)]] .
qed simp

lemma statements_request:
  assumes "keeps_deliveries be" "request be reconciled_at now fresh rq db = (a, st, db')"
  shows "statements db db'"
  using assms
proof (cases rule: request_cases)
  case (resolved db1 i issue target origin agent)
  have "delivery_step (db_deliveries db) (db_deliveries db1)" unfolding resolved(1) by (rule ds_resolve) simp
  then show ?thesis using writes_statements [OF resolved(2)] by (rule converse_rtranclp_into_rtranclp)
qed (use assms(1) statements_insert_and_dispatch in \<open>auto dest: statements_insert_and_dispatch\<close>)

interpretation dispatcher: refining_system "\<lambda>db. db_deliveries db = []" dispatcher_step db_deliveries
  "\<lambda>t. t = []" delivery_step
proof
  fix db db' assume "dispatcher_step db db'"
  then show "statements db db'"
  proof cases
    case (dx_comment be reconciled_at now fresh fresh' cq rc st)
    from create_comment_database [OF dx_comment(2)] show ?thesis
      using statements_request [OF dx_comment(1)] by auto
  next
    case (dx_subtask be reconciled_at now fresh issue s comment message hop r st)
    from dx_subtask(2) show ?thesis
      by (cases rule: subtask_result_cases) (auto intro: statements_insert_and_dispatch [OF dx_subtask(1)])
  qed (auto intro: statements_request writes_statements writes_dispatch_session writes_recover)
qed simp


section \<open>The hop limit\<close>

definition hop_in_range :: "int \<Rightarrow> bool" where
  "hop_in_range h \<longleftrightarrow> 0 \<le> h \<and> h \<le> MAX_AGENT_HOPS"

definition hop_ok :: "issue_comment_delivery \<Rightarrow> bool" where
  "hop_ok d \<longleftrightarrow> dl_state d \<in> {DvPending, DvDispatching, DvDelivered} \<or> dl_execution_process_id d \<noteq> None
     \<longrightarrow> hop_in_range (dl_hop_count d)"

definition hops_ok :: "delivery_table \<Rightarrow> bool" where
  "hops_ok t \<longleftrightarrow> (\<forall>d \<in> set t. hop_ok d)"

lemma hops_ok_simps [simp]: "hops_ok []" "hops_ok (t @ [d]) \<longleftrightarrow> hops_ok t \<and> hop_ok d"
  by (auto simp: hops_ok_def)

lemma hops_update:
  assumes "hops_ok t" "\<And>d. dl_state d \<in> states \<Longrightarrow> hop_ok d \<Longrightarrow> hop_ok (f d)"
  shows "hops_ok (snd (dl_update i states f t))"
  using assms by (auto simp: hops_ok_def dl_update_table)

lemma dispatch_write_hops:
  assumes "dispatch_write t t'" "hops_ok t"
  shows "hops_ok t'"
  using assms(1)
  by cases (simp only: delivery_statements, rule hops_update [OF assms(2)],
    simp add: hop_ok_def snapshot_row_def claimed_row_def delivered_row_def finished_row_def)+

lemma writes_hops: "writes db db' \<Longrightarrow> hops_ok (db_deliveries db) \<Longrightarrow> hops_ok (db_deliveries db')"
  by (erule rtranclp_induct [where P = hops_ok]) (blast intro: dispatch_write_hops)+

lemma resolve_hop:
  assumes "hops_ok (db_deliveries db)"
  shows "hop_in_range (rn_hop_count (resolve be db issue target origin agent))"
proof -
  have rows: "hop_in_range (dl_hop_count d)" if "find_by_execution_process_id e (db_deliveries db) = Some d" for e d
  proof -
    let ?rows = "sort_key (\<lambda>d. - dl_hop_count d) (filter (\<lambda>d. dl_execution_process_id d = Some e) (db_deliveries db))"
    have "d \<in> set ?rows" using that by (cases ?rows) (auto simp: find_by_execution_process_id_def)
    then show ?thesis using assms by (auto simp: hops_ok_def hop_ok_def)
  qed
  have hop: "hop_in_range h" if "next_hop_count agent
      (case origin of Some s \<Rightarrow> if agent then origin_hop db s else None | None \<Rightarrow> None) = Ok h" for h
    using that rows
    by (fastforce simp: next_hop_count_def origin_hop_def hop_in_range_def MAX_AGENT_HOPS_def Let_def
        split: option.splits if_splits)
  have "hop_in_range (rn_hop_count (outcome st why err))" for st why err
    by (simp add: outcome_def hop_in_range_def MAX_AGENT_HOPS_def)
  then show ?thesis using hop
    by (auto simp: resolve_def Let_def decision_resolution_def split: sum.split option.split TargetDecision.split)
qed

lemma hops_insert_and_dispatch:
  assumes "keeps_deliveries be" "insert_and_dispatch be reconciled_at now fresh n r db = (a, st, db')"
    and "hops_ok (db_deliveries db)" "rn_state r \<noteq> DvBlocked \<longrightarrow> hop_in_range (rn_hop_count r)"
  shows "hops_ok (db_deliveries db')"
  using assms(1,2)
proof (cases rule: insert_and_dispatch_cases)
  case (row db1)
  have "hop_ok (new_row fresh n r now)" using assms(4) by (auto simp: hop_ok_def new_row_def)
  then have "hops_ok (db_deliveries db1)" using assms(3) row(1) by simp
  then show ?thesis by (rule writes_hops [OF row(3)])
qed (use assms(3) in simp)

lemma hops_request:
  assumes "keeps_deliveries be" "request be reconciled_at now fresh rq db = (a, st, db')" "hops_ok (db_deliveries db)"
  shows "hops_ok (db_deliveries db')"
  using assms(1,2)
proof (cases rule: request_cases)
  case (resolved db1 i issue target origin agent)
  have "hops_ok (db_deliveries db1)"
    unfolding resolved(1) apply_resolution_def
    by (rule hops_update [OF assms(3)]) (simp add: hop_ok_def resolved_row_def resolve_hop [OF assms(3)])
  then show ?thesis by (rule writes_hops [OF resolved(2)])
next
  case (inserted n issue target origin agent a' st')
  then show ?thesis using hops_insert_and_dispatch [OF assms(1) _ assms(3)] resolve_hop [OF assms(3)] by blast
qed (use assms(3) in simp)

interpretation hops: invariant_system "\<lambda>db. db_deliveries db = []" dispatcher_step "\<lambda>db. hops_ok (db_deliveries db)"
proof
  fix db db' assume ok: "hops_ok (db_deliveries db)" and "dispatcher_step db db'"
  from this(2) show "hops_ok (db_deliveries db')"
  proof cases
    case (dx_comment be reconciled_at now fresh fresh' cq rc st)
    from create_comment_database [OF dx_comment(2)] show ?thesis
      using hops_request [OF dx_comment(1) _ ok] ok by auto
  next
    case (dx_subtask be reconciled_at now fresh issue s comment message hop r st)
    have range: "rn_state (subtask_resolution rr hop) \<noteq> DvBlocked \<longrightarrow> hop_in_range (rn_hop_count (subtask_resolution rr hop))"
      for rr by (simp add: subtask_resolution_def Let_def hop_in_range_def)
    from dx_subtask(2) show ?thesis
      by (cases rule: subtask_result_cases) (auto intro: ok hops_insert_and_dispatch [OF dx_subtask(1) _ ok range, rule_format])
  qed (use ok in \<open>auto intro: hops_request writes_hops writes_dispatch_session writes_recover\<close>)
qed simp


section \<open>Witnesses\<close>

text \<open>A session whose only turn completed, and one comment that waits for it.\<close>

definition demo_backend :: backend where
  "demo_backend = \<lparr> be_get_comment = (\<lambda>i. Inr \<lparr> ic_id = i, ic_issue_id = 9, ic_author_id = None,
       ic_parent_id = None, ic_message = ''hi'', ic_created_at = 0, ic_updated_at = 0 \<rparr>),
     be_create_comment = (\<lambda>_. Inl (RemoteHttp 409 [])),
     be_issue_workspaces = (\<lambda>_. Inr \<lparr> il_workspaces =
       [\<lparr> rw_issue_id = Some 9, rw_local_workspace_id = Some 4, rw_archived = False \<rparr>], il_archived_count = 0 \<rparr>),
     be_workspace_link = (\<lambda>_. Inr (Some \<lparr> rw_issue_id = Some 9, rw_local_workspace_id = Some 4, rw_archived = False \<rparr>)),
     be_issue_info = (\<lambda>i. Inr \<lparr> ii_id = i, ii_simple_id = ''VK-1'', ii_title = ''t'', ii_project_id = 1, ii_active = True \<rparr>),
     be_member_names = (\<lambda>_. Map.empty), be_has_queued_message = (\<lambda>_. False),
     be_start_follow_up = (\<lambda>_ _ db. (Inr 77, db)), be_error_text = (\<lambda>_. []), be_rfc3339 = (\<lambda>_. []),
     be_texts = demo_texts \<rparr>"

definition demo_turn :: execution_process where
  "demo_turn = (demo_process 6 EpCompleted)\<lparr> ep_session_id := 5, ep_completed_at := Some 1 \<rparr>"

definition demo_database :: "delivery_table \<Rightarrow> database" where
  "demo_database t = \<lparr> db_deliveries = t, db_processes = [demo_turn], db_jobs = [], db_turns = [],
     db_sessions = [\<lparr> se_id = 5, se_workspace_id = 4, se_name = None, se_executor = None,
       se_agent_working_dir = None, se_created_at = 0, se_updated_at = 0 \<rparr>],
     db_workspaces = [ws_new 0 ''vk/task'' None 4], db_boundaries = Map.empty, db_wakeups = [] \<rparr>"

lemmas demo_dispatch_defs = demo_backend_def demo_database_def demo_turn_def demo_process_def demo_new_def
  demo_resolution_def new_row_def ws_new_def

lemma demo_keeps: "keeps_deliveries demo_backend"
  by (simp add: keeps_deliveries_def demo_backend_def)

lemma demo_due: "due_rows 10 5 (demo_database [demo_pending]) = [demo_pending]"
  by (simp add: due_rows_def demo_dispatch_defs list_pending_for_session_def wakeup_waits_def find_wakeup_def)

lemma demo_marked: "marked demo_backend 5 1 (demo_database t) = []"
  by (simp add: marked_def find_coding_agent_turns_with_marker_def demo_dispatch_defs str_contains_iff
      stored_marker_needle_def)

lemma demo_claimed:
  "fold (claim_row False 10) [demo_pending] ([], demo_database [demo_pending])
    = ([demo_pending], demo_database [claimed_row 10 demo_pending])"
  by (simp add: claim_row_def claim_def dl_update_def sql_update_def demo_dispatch_defs)

definition demo_sent :: issue_comment_delivery where
  "demo_sent = delivered_row 77 ''hi'' (Some 0) 10 (snapshot_row ''hi'' 0 10 (claimed_row 10 demo_pending))"

lemma demo_delivered_claim:
  assumes "se_id session = 5"
  shows "\<exists>prompt. deliver_claimed demo_backend session 10 [demo_pending] (demo_database [claimed_row 10 demo_pending])
     = (Some (5, prompt, [demo_pending]), demo_database [demo_sent])"
  using demo_marked [of "[claimed_row 10 demo_pending]"] assms
  by (simp add: deliver_claimed_def prepare_row_def earlier_attempt_def batch_prompt_def demo_dispatch_defs
      find_wakeup_def record_snapshots_def delivered_by_def on_deliveries_def mark_delivered_def
      record_snapshot_def dl_update_table demo_sent_def snapshot_row_def claimed_row_def)

lemma demo_comment_dispatch:
  "\<exists>prompt. dispatch_session demo_backend 10 10 5 (demo_database [demo_pending])
     = (Some (5, prompt, [demo_pending]), demo_database [demo_sent])"
proof -
  let ?db = "demo_database [demo_pending]" and ?ws = "ws_new 0 ''vk/task'' None 4"
  let ?session = "\<lparr> se_id = 5, se_workspace_id = 4, se_name = None, se_executor = None,
       se_agent_working_dir = None, se_created_at = 0, se_updated_at = 0 \<rparr>"
  have 1: "find_session 5 (db_sessions ?db) = Some ?session" "find_workspace 4 (db_workspaces ?db) = Some ?ws"
    "\<not> ws_archived ?ws" "ws_id ?ws = 4"
    by (simp_all add: demo_database_def find_session_def find_workspace_def ws_new_def)
  have 2: "busy_reason demo_backend 5 4 ?db = None"
    by (simp add: busy_reason_def demo_dispatch_defs has_running_coding_agent_for_session_def
        has_running_non_persistent_processes_for_workspace_def)
  have 3: "latest_coding_agent_turn_for_session 5 (db_processes ?db) = Some (6, EpCompleted, Some 1)"
    by (simp add: demo_dispatch_defs latest_coding_agent_turn_for_session_def is_agent_turn_of_def newest_first_def)
  have 4: "boundary_confirmed 10 ?db 5 6 (Some 1)" by (simp add: boundary_confirmed_def)
  show ?thesis using demo_delivered_claim [of ?session] demo_claimed
    by (simp add: dispatch_session_def demo_due 1 2 3 4)
qed


theorem dispatch_leaves_no_claim_witness:
  "dispatching_ids (db_deliveries (snd (dispatch_session demo_backend 10 10 5 (demo_database [demo_pending])))) = {}"
proof -
  have "delivery_keys (db_deliveries (demo_database [demo_pending]))"
    by (simp add: delivery_keys_def keyed_def demo_database_def)
  then have "dispatching_ids (db_deliveries (snd (dispatch_session demo_backend 10 10 5 (demo_database [demo_pending]))))
      \<subseteq> dispatching_ids (db_deliveries (demo_database [demo_pending]))"
    by (rule dispatch_leaves_no_claim [OF demo_keeps])
  moreover have "dispatching_ids (db_deliveries (demo_database [demo_pending])) = {}"
    by (simp add: dispatching_ids_def demo_dispatch_defs)
  ultimately show ?thesis by simp
qed

text \<open>A claim that a restart interrupted before a turn was started goes back to the queue.\<close>

theorem recover_exact_witness:
  "map dl_state (db_deliveries (recover demo_backend 30 (demo_database [claimed_row 10 demo_pending]))) = [DvPending]"
proof -
  have "delivery_keys (db_deliveries (demo_database [claimed_row 10 demo_pending]))"
    by (simp add: delivery_keys_def keyed_def demo_database_def)
  note recover_exact [OF this, of demo_backend 30]
  then show ?thesis using demo_marked [of "[claimed_row 10 demo_pending]"]
    by (simp add: recovered_row_def earlier_attempt_def finished_row_def claimed_row_def demo_dispatch_defs)
qed

text \<open>Another turn of the session is recorded after the comment was delivered.\<close>

definition demo_delivery_request :: delivery_request where
  "demo_delivery_request = \<lparr> dr_comment_id = 1, dr_issue_id = 9, dr_target_session_id = None, dr_source = None,
     dr_origin_session_id = None, dr_origin_workspace_id = None \<rparr>"

lemma demo_resolve: "resolve demo_backend (demo_database []) 9 None None False = demo_resolution"
proof -
  have "has_running_coding_agent_for_session 5 [demo_turn] = False"
    by (simp add: has_running_coding_agent_for_session_def demo_dispatch_defs)
  moreover have "latest_coding_agent_turn_for_session 5 [demo_turn] = Some (6, EpCompleted, Some 1)"
    by (simp add: demo_dispatch_defs latest_coding_agent_turn_for_session_def is_agent_turn_of_def newest_first_def)
  ultimately show ?thesis
    by (simp add: resolve_def next_hop_count_def resolve_candidates_def demo_backend_def demo_database_def
      link_candidates_def find_workspace_def ws_new_def workspace_candidates_def sessions_by_workspace_id_def
      session_state_def derive_agent_state_def select_target_from_def select_target_def propose_target_def
      to_session_candidates_def decision_resolution_def demo_resolution_def newest_first_def Let_def)
qed

lemma demo_request_sends:
  "\<exists>a st. request demo_backend 10 10 7 demo_delivery_request (demo_database []) = (a, st, demo_database [demo_sent])"
proof -
  have "insert_if_absent 7 demo_new demo_resolution 10 [] = (Ok (demo_pending, True), [demo_pending])"
    by (simp add: insert_if_absent_def find_by_comment_id_def find_delivery_def Let_def)
  note insert = this
  obtain prompt where d: "dispatch_session demo_backend 10 10 5 (demo_database [demo_pending])
      = (Some (5, prompt, [demo_pending]), demo_database [demo_sent])" using demo_comment_dispatch by blast
  have db: "(demo_database [])\<lparr> db_deliveries := t \<rparr> = demo_database t" "db_deliveries (demo_database t) = t" for t
    by (simp_all add: demo_database_def)
  have "insert_and_dispatch demo_backend 10 10 7 demo_new demo_resolution (demo_database [])
      = (stored_row 7 (demo_database [demo_sent]), Some (5, prompt, [demo_pending]), demo_database [demo_sent])"
    using d by (simp add: insert_and_dispatch_def insert db dispatch_if_pending_def) (simp add: demo_dispatch_defs)
  then show ?thesis
    using demo_resolve by (simp add: request_def demo_delivery_request_def demo_backend_def find_by_comment_id_def
      origin_session_def db demo_new_def)
qed

lemma demo_sent_reach: "reach (\<lambda>db. db_deliveries db = []) dispatcher_step (demo_database [demo_sent])"
proof (rule reach_step)
  show "reach (\<lambda>db. db_deliveries db = []) dispatcher_step (demo_database [])"
    by (rule reach_start) (simp add: demo_database_def)
  show "dispatcher_step (demo_database []) (demo_database [demo_sent])"
    using dx_request [OF demo_keeps] demo_request_sends by blast
qed

lemma demo_sent_state: "dl_state demo_sent = DvDelivered" "dl_comment_id demo_sent = 1" "dl_hop_count demo_sent = 0"
  by (simp_all add: demo_sent_def delivered_row_def snapshot_row_def claimed_row_def demo_dispatch_defs)



end
