(* ===== verification/Mount_Health.thy ===== *)
theory Mount_Health
  imports Cluster_Protocol Rust_Strings
begin

unbundle bit_operations_syntax

text \<open>
  The worker's check of its shared mount (\<open>crates/worker/src/mount_health.rs\<close>): the checks against
  an injected inspector of the host, and the reading of the kernel's mount table. The inspector is
  the source's own \<open>MountInspector\<close> trait, here a record of functions. Of an I/O error the check
  sees whether it is \<open>NotFound\<close> and its text. The SHA-256 digest (as lower-case hexadecimal text) and
  the quoting of a string by \<open>{:?}\<close> are parameters.
\<close>

section \<open>The check\<close>

record mount_identity =
  mi_mount_point :: string
  mi_export :: string
  mi_filesystem_id :: string
  mi_read_only :: bool

record ownership =
  ow_uid :: u32
  ow_gid :: u32

record io_error =
  ioe_not_found :: bool
  ioe_text :: string

record mount_inspector =
  metadata_ownership :: "string \<Rightarrow> io_error + ownership"
  mount_identity_of :: "string \<Rightarrow> io_error + mount_identity option"
  filesystem_id_of :: "string \<Rightarrow> io_error + string"
  read_file :: "string \<Rightarrow> io_error + string"
  verify_writable :: "string \<Rightarrow> io_error + unit"

record mount_checker =
  mc_shared_root :: string
  mc_expected_export :: string
  mc_expected_ownership :: ownership

record mount_failure =
  mf_reason :: MountFailureReason
  mf_message :: string

definition failure_new :: "MountFailureReason \<Rightarrow> string \<Rightarrow> mount_failure" where
  "failure_new reason msg = \<lparr> mf_reason = reason, mf_message = msg \<rparr>"

definition failure_io :: "string \<Rightarrow> io_error \<Rightarrow> mount_failure" where
  "failure_io operation e = failure_new (if ioe_not_found e then MfMissing else MfIoError)
     (''failed to '' @ operation @ '': '' @ ioe_text e)"

definition show_ownership :: "ownership \<Rightarrow> string" where
  "show_ownership ow = show_nat (unat (ow_uid ow)) @ '':'' @ show_nat (unat (ow_gid ow))"

definition ownership_mismatch :: "string \<Rightarrow> ownership \<Rightarrow> ownership \<Rightarrow> mount_failure" where
  "ownership_mismatch what actual expected = failure_new MfOwnershipMismatch
     (what @ '' is owned by '' @ show_ownership actual @ '', expected '' @ show_ownership expected)"

definition ensure :: "bool \<Rightarrow> 'e \<Rightarrow> 'e + unit" where
  "ensure b e = (if b then Ok () else Err e)"

lemma ensure_Ok [simp]: "ensure b e = Inr u \<longleftrightarrow> b"
  by (simp add: ensure_def)

lemma ensure_Err [simp]: "ensure b e = Inl e' \<longleftrightarrow> \<not> b \<and> e' = e"
  by (auto simp: ensure_def)

definition safe_relative :: "string \<Rightarrow> bool" where
  "safe_relative p \<longleftrightarrow> \<not> path_is_absolute p \<and> ParentDir \<notin> set (path_components p)"

definition try_check :: "(string \<Rightarrow> string) \<Rightarrow> (string \<Rightarrow> string) \<Rightarrow> mount_checker \<Rightarrow> mount_probe
    \<Rightarrow> mount_inspector \<Rightarrow> mount_failure + MountHealth" where
  "try_check sha256 quoted chk probe ins =
     (let root = mc_shared_root chk; expected = mc_expected_ownership chk in
      try_bind (map_err (failure_io ''inspect shared root'') (metadata_ownership ins root)) (\<lambda>own.
      try_bind (ensure (own = expected) (ownership_mismatch ''shared root'' own expected)) (\<lambda>_.
      try_bind (map_err (failure_io ''inspect mount table'') (mount_identity_of ins root)) (\<lambda>m.
      try_bind (ok_or m (failure_new MfLocalFallback
        ''shared root is not backed by a mounted filesystem'')) (\<lambda>mount.
      try_bind (ensure (mi_export mount = mc_expected_export chk) (failure_new MfLocalFallback
        (''shared root export is '' @ quoted (mi_export mount) @ '', expected ''
          @ quoted (mc_expected_export chk)))) (\<lambda>_.
      try_bind (map_err (failure_io ''inspect filesystem identity'') (filesystem_id_of ins root)) (\<lambda>fs.
      try_bind (ensure (fs = mi_filesystem_id mount) (failure_new MfWrongFilesystem
        (''mount table filesystem '' @ mi_filesystem_id mount
          @ '' does not match path filesystem '' @ fs))) (\<lambda>_.
      try_bind (ensure (\<not> mi_read_only mount) (failure_new MfReadOnly
        ''shared root mount is read-only'')) (\<lambda>_.
      try_bind (map_err (\<lambda>e. failure_new MfReadOnly (''shared root is not writable: '' @ ioe_text e))
        (verify_writable ins root)) (\<lambda>_.
      try_bind (ensure (safe_relative (probe_relative_path probe)) (failure_new MfProbeNotVisible
        ''coordinator probe path is not a safe relative path'')) (\<lambda>_.
      let probe_path = path_join root (probe_relative_path probe) in
      try_bind (map_err (\<lambda>e. failure_new MfProbeNotVisible
        (''coordinator probe is not visible: '' @ ioe_text e)) (read_file ins probe_path)) (\<lambda>bytes.
      try_bind (ensure (sha256 bytes = probe_expected_contents_digest probe)
        (failure_new MfProbeNotVisible (''coordinator probe digest is '' @ sha256 bytes
          @ '', expected '' @ probe_expected_contents_digest probe))) (\<lambda>_.
      try_bind (map_err (failure_io ''inspect probe ownership'') (metadata_ownership ins probe_path)) (\<lambda>pown.
      try_bind (ensure (pown = expected) (ownership_mismatch ''probe'' pown expected)) (\<lambda>_.
      Ok (Healthy (mi_export mount) (probe_id probe)))))))))))))))))"

definition check_mount :: "(string \<Rightarrow> string) \<Rightarrow> (string \<Rightarrow> string) \<Rightarrow> mount_checker \<Rightarrow> mount_probe
    \<Rightarrow> mount_inspector \<Rightarrow> MountHealth" where
  "check_mount sha256 quoted chk probe ins =
     (case try_check sha256 quoted chk probe ins of
        Inr h \<Rightarrow> h
      | Inl f \<Rightarrow> Unhealthy (mf_reason f) (mf_message f))"

section \<open>The mount table\<close>

definition unescape_mount_field :: "string \<Rightarrow> string" where
  "unescape_mount_field v =
     replace_str (CHR 0x5C # ''134'') [CHR 0x5C]
       (replace_str (CHR 0x5C # ''012'') [CHR 0x0A]
         (replace_str (CHR 0x5C # ''011'') [CHR 0x09]
           (replace_str (CHR 0x5C # ''040'') [CHR 0x20] v)))"

definition parse_mountinfo_line :: "string \<Rightarrow> mount_identity option" where
  "parse_mountinfo_line line =
     (case split_once_str '' - '' line of
        None \<Rightarrow> None
      | Some (before, after) \<Rightarrow>
          (let fields = split_whitespace before; trailing = split_whitespace after in
           if length fields < 6 \<or> length trailing < 2 then None
           else Some \<lparr> mi_mount_point = unescape_mount_field (fields ! 4),
                  mi_export = unescape_mount_field (trailing ! 1),
                  mi_filesystem_id = fields ! 2,
                  mi_read_only = (''ro'' \<in> set (split_on (CHR '','') (fields ! 5))) \<rparr>))"

definition parse_mountinfo :: "string \<Rightarrow> mount_identity list" where
  "parse_mountinfo contents = List.map_filter parse_mountinfo_line (str_lines contents)"

text \<open>\<open>Iterator::max_by_key\<close>: the last of the greatest elements.\<close>

fun max_by_key :: "('a \<Rightarrow> 'k::linorder) \<Rightarrow> 'a list \<Rightarrow> 'a option" where
  "max_by_key key [] = None"
| "max_by_key key (x # xs) = Some (fold (\<lambda>y best. if key best \<le> key y then y else best) xs x)"

text \<open>\<open>SystemMountInspector::mount_identity\<close> on Linux, given the canonical path and the table.\<close>

definition system_mount_identity :: "string \<Rightarrow> string \<Rightarrow> mount_identity option" where
  "system_mount_identity canonical contents =
     max_by_key (\<lambda>e. length (mi_mount_point e))
       (filter (\<lambda>e. path_starts_with canonical (mi_mount_point e)) (parse_mountinfo contents))"

definition linux_major :: "u64 \<Rightarrow> u64" where
  "linux_major dev = ((drop_bit 8 dev) AND 0xfff) OR ((drop_bit 32 dev) AND NOT 0xfff)"

definition linux_minor :: "u64 \<Rightarrow> u64" where
  "linux_minor dev = (dev AND 0xff) OR ((drop_bit 12 dev) AND NOT 0xff)"

definition device_id :: "u64 \<Rightarrow> string" where
  "device_id dev = show_nat (unat (linux_major dev)) @ '':'' @ show_nat (unat (linux_minor dev))"

section \<open>When the mount is healthy\<close>

lemma try_check_Ok:
  "try_check sha256 quoted chk probe ins = Inr h \<longleftrightarrow>
    (\<exists>mount bytes. metadata_ownership ins (mc_shared_root chk) = Inr (mc_expected_ownership chk)
      \<and> mount_identity_of ins (mc_shared_root chk) = Inr (Some mount)
      \<and> mi_export mount = mc_expected_export chk
      \<and> filesystem_id_of ins (mc_shared_root chk) = Inr (mi_filesystem_id mount)
      \<and> \<not> mi_read_only mount
      \<and> verify_writable ins (mc_shared_root chk) = Inr ()
      \<and> safe_relative (probe_relative_path probe)
      \<and> read_file ins (path_join (mc_shared_root chk) (probe_relative_path probe)) = Inr bytes
      \<and> sha256 bytes = probe_expected_contents_digest probe
      \<and> metadata_ownership ins (path_join (mc_shared_root chk) (probe_relative_path probe))
          = Inr (mc_expected_ownership chk)
      \<and> h = Healthy (mc_expected_export chk) (probe_id probe))"
  unfolding try_check_def Let_def by auto

text \<open>
  The worker reports a healthy mount exactly when the shared root and the probe have the
  expected owner, the root is backed by the expected export, its device is the one the mount
  table names, the mount is writable, and the coordinator's probe, at a relative path that does
  not climb, has the expected contents. The report then names the configured export and the probe.
\<close>

theorem check_mount_healthy_iff:
  "check_mount sha256 quoted chk probe ins = Healthy fs p \<longleftrightarrow>
    fs = mc_expected_export chk \<and> p = probe_id probe \<and>
    (\<exists>mount bytes. metadata_ownership ins (mc_shared_root chk) = Ok (mc_expected_ownership chk)
      \<and> mount_identity_of ins (mc_shared_root chk) = Ok (Some mount)
      \<and> mi_export mount = mc_expected_export chk
      \<and> filesystem_id_of ins (mc_shared_root chk) = Ok (mi_filesystem_id mount)
      \<and> \<not> mi_read_only mount
      \<and> verify_writable ins (mc_shared_root chk) = Ok ()
      \<and> safe_relative (probe_relative_path probe)
      \<and> read_file ins (path_join (mc_shared_root chk) (probe_relative_path probe)) = Ok bytes
      \<and> sha256 bytes = probe_expected_contents_digest probe
      \<and> metadata_ownership ins (path_join (mc_shared_root chk) (probe_relative_path probe))
          = Ok (mc_expected_ownership chk))"
proof -
  have "check_mount sha256 quoted chk probe ins = Healthy fs p \<longleftrightarrow>
      try_check sha256 quoted chk probe ins = Inr (Healthy fs p)"
    by (cases "try_check sha256 quoted chk probe ins") (simp_all add: check_mount_def)
  then show ?thesis by (simp only: try_check_Ok) auto
qed

section \<open>Escapes in the mount table\<close>

text \<open>
  The kernel writes a space, a tab, a line feed and a backslash of a name as a backslash and
  three octal digits. \<open>octal\<close> gives the digits; \<open>encode S\<close> escapes the characters in \<open>S\<close>.
\<close>

definition octal :: "char \<Rightarrow> string" where
  "octal c = (if c = CHR 0x20 then ''040'' else if c = CHR 0x09 then ''011''
     else if c = CHR 0x0A then ''012'' else ''134'')"

definition encode_char :: "char set \<Rightarrow> char \<Rightarrow> string" where
  "encode_char S c = (if c \<in> S then CHR 0x5C # octal c else [c])"

definition encode :: "char set \<Rightarrow> string \<Rightarrow> string" where
  "encode S s = concat (map (encode_char S) s)"

definition kernel_escape :: "string \<Rightarrow> string" where
  "kernel_escape = encode {CHR 0x20, CHR 0x09, CHR 0x0A, CHR 0x5C}"

abbreviation escaped_chars :: "char set" where
  "escaped_chars \<equiv> {CHR 0x20, CHR 0x09, CHR 0x0A, CHR 0x5C}"

lemma strip_escape_other:
  "c \<noteq> CHR 0x5C \<Longrightarrow> strip_prefix (CHR 0x5C # p) (c # s) = None"
  by simp

lemma octal_no_backslash: "CHR 0x5C \<notin> set (octal c)"
  by (simp add: octal_def)

lemma replace_str_plain:
  "CHR 0x5C \<notin> set t \<Longrightarrow>
    replace_str (CHR 0x5C # p) new (t @ s) = t @ replace_str (CHR 0x5C # p) new s"
  by (induction t) (simp_all add: replace_str_skip)

lemma octal_inject: "c \<in> escaped_chars \<Longrightarrow> d \<in> escaped_chars \<Longrightarrow> octal c = octal d \<Longrightarrow> c = d"
  by (auto simp: octal_def split: if_splits)

lemma octal_length: "length (octal c) = 3"
  by (simp add: octal_def)

lemma replace_encode:
  assumes "S \<subseteq> escaped_chars" "c \<in> S" "c = CHR 0x5C \<or> CHR 0x5C \<in> S"
  shows "replace_str (CHR 0x5C # octal c) [c] (encode S s) = encode (S - {c}) s"
proof (induction s)
  case Nil
  show ?case by (simp add: encode_def)
next
  case (Cons d s)
  let ?r = "replace_str (CHR 0x5C # octal c) [c]"
  have bs: "CHR 0x5C \<in> S" using assms(2,3) by blast
  have tail: "encode S (d # s) = encode_char S d @ encode S s"
    "encode (S - {c}) (d # s) = encode_char (S - {c}) d @ encode (S - {c}) s"
    by (simp_all add: encode_def)
  consider "d = c" | (other) "d \<noteq> c" "d \<in> S" | (plain) "d \<notin> S"
    by blast
  then have "?r (encode_char S d @ encode S s) = encode_char (S - {c}) d @ ?r (encode S s)"
  proof cases
    case 1
    then show ?thesis
      using assms(2) replace_str_match [of "CHR 0x5C # octal c" "[c]" "encode S s"]
      by (simp add: encode_char_def)
  next
    case other
    then have "octal d \<noteq> octal c" using assms(1,2) octal_inject [of d c] by blast
    then have "strip_prefix (octal c) (octal d @ encode S s) = None"
      by (cases "strip_prefix (octal c) (octal d @ encode S s)")
        (auto simp: strip_prefix_Some octal_length)
    with other show ?thesis
      by (simp add: encode_char_def replace_str_skip replace_str_plain octal_no_backslash)
  next
    case plain
    then have "d \<noteq> CHR 0x5C" using bs by blast
    with plain show ?thesis by (simp add: encode_char_def replace_str_skip)
  qed
  with Cons tail show ?case by simp
qed

lemma encode_empty: "encode {} s = s"
  by (induction s) (simp_all add: encode_def encode_char_def)

text \<open>
  Unescaping a field of the mount table gives back the name the kernel escaped, for every
  name, including names that themselves contain a backslash followed by octal digits.
\<close>

theorem unescape_kernel_escape: "unescape_mount_field (kernel_escape s) = s"
proof -
  have o: "octal (CHR 0x20) = ''040''" "octal (CHR 0x09) = ''011''" "octal (CHR 0x0A) = ''012''"
    "octal (CHR 0x5C) = ''134''" by (simp_all add: octal_def)
  have "replace_str (CHR 0x5C # ''040'') [CHR 0x20] (kernel_escape s)
      = encode {CHR 0x09, CHR 0x0A, CHR 0x5C} s"
    using replace_encode [of escaped_chars "CHR 0x20" s]
    by (simp add: kernel_escape_def o insert_Diff_if)
  moreover have "replace_str (CHR 0x5C # ''011'') [CHR 0x09] (encode {CHR 0x09, CHR 0x0A, CHR 0x5C} s)
      = encode {CHR 0x0A, CHR 0x5C} s"
    using replace_encode [of "{CHR 0x09, CHR 0x0A, CHR 0x5C}" "CHR 0x09" s]
    by (simp add: o insert_Diff_if)
  moreover have "replace_str (CHR 0x5C # ''012'') [CHR 0x0A] (encode {CHR 0x0A, CHR 0x5C} s)
      = encode {CHR 0x5C} s"
    using replace_encode [of "{CHR 0x0A, CHR 0x5C}" "CHR 0x0A" s]
    by (simp add: o insert_Diff_if)
  moreover have "replace_str (CHR 0x5C # ''134'') [CHR 0x5C] (encode {CHR 0x5C} s) = s"
    using replace_encode [of "{CHR 0x5C}" "CHR 0x5C" s]
    by (simp add: o encode_empty)
  ultimately show ?thesis by (simp add: unescape_mount_field_def)
qed

section \<open>Which mount backs a path\<close>

lemma fold_max_last:
  fixes key :: "'a \<Rightarrow> 'k::linorder"
  shows "\<exists>ys zs. x # xs = ys @ fold (\<lambda>y best. if key best \<le> key y then y else best) xs x # zs
    \<and> (\<forall>y \<in> set ys. key y \<le> key (fold (\<lambda>y best. if key best \<le> key y then y else best) xs x))
    \<and> (\<forall>z \<in> set zs. key z < key (fold (\<lambda>y best. if key best \<le> key y then y else best) xs x))"
proof (induction xs rule: rev_induct)
  case Nil
  show ?case by (intro exI [of _ "[]"]) simp
next
  case (snoc y xs)
  let ?m = "fold (\<lambda>y best. if key best \<le> key y then y else best) xs x"
  obtain ys zs where p: "x # xs = ys @ ?m # zs" "\<forall>y \<in> set ys. key y \<le> key ?m" "\<forall>z \<in> set zs. key z < key ?m"
    using snoc by blast
  show ?case
  proof (cases "key ?m \<le> key y")
    case True
    have "\<forall>v \<in> set (x # xs). key v \<le> key y"
      unfolding p(1) using p(2,3) True by (auto intro: order_trans less_imp_le)
    then show ?thesis using True by (intro exI [of _ "x # xs"] exI [of _ "[]"]) simp
  next
    case False
    then show ?thesis using p by (intro exI [of _ ys] exI [of _ "zs @ [y]"]) auto
  qed
qed

lemma filter_split:
  "filter P xs = ys @ m # zs \<Longrightarrow> \<exists>us vs. xs = us @ m # vs \<and> ys = filter P us \<and> P m \<and> zs = filter P vs"
proof (induction xs arbitrary: ys)
  case Nil
  then show ?case by simp
next
  case (Cons x xs)
  show ?case
  proof (cases "P x \<and> ys = []")
    case True
    with Cons.prems show ?thesis by (intro exI [of _ "[]"] exI [of _ xs]) simp
  next
    case False
    then obtain ys' where "filter P xs = ys' @ m # zs" "ys = (if P x then x # ys' else ys')"
      using Cons.prems by (cases ys) (auto split: if_splits)
    with Cons.IH [of ys'] obtain us vs where "xs = us @ m # vs" "ys' = filter P us" "P m" "zs = filter P vs"
      by blast
    with \<open>ys = _\<close> show ?thesis by (intro exI [of _ "x # us"] exI [of _ vs]) simp
  qed
qed

lemma max_by_key_Some:
  assumes "max_by_key key xs = Some m"
  shows "\<exists>ys zs. xs = ys @ m # zs \<and> (\<forall>y \<in> set ys. key y \<le> key m) \<and> (\<forall>z \<in> set zs. key z < key m)"
  using assms fold_max_last [of _ _ key] by (cases xs) auto

text \<open>
  The mount found for a path is an entry of the table whose mount point contains the path,
  with the longest such mount point, and of several at one mount point the last one, which is
  the one that is visible; no mount is found only if none contains the path.
\<close>

theorem mount_identity_innermost:
  "case system_mount_identity canonical contents of
     None \<Rightarrow> (\<forall>e \<in> set (parse_mountinfo contents). \<not> path_starts_with canonical (mi_mount_point e))
   | Some m \<Rightarrow> (\<exists>ys zs. parse_mountinfo contents = ys @ m # zs
       \<and> path_starts_with canonical (mi_mount_point m)
       \<and> (\<forall>e \<in> set ys. path_starts_with canonical (mi_mount_point e) \<longrightarrow>
            length (mi_mount_point e) \<le> length (mi_mount_point m))
       \<and> (\<forall>e \<in> set zs. path_starts_with canonical (mi_mount_point e) \<longrightarrow>
            length (mi_mount_point e) < length (mi_mount_point m)))"
proof (cases "system_mount_identity canonical contents")
  case None
  let ?f = "filter (\<lambda>e. path_starts_with canonical (mi_mount_point e)) (parse_mountinfo contents)"
  have "?f = []" using None unfolding system_mount_identity_def by (cases ?f) auto
  with None show ?thesis by (auto simp: filter_empty_conv)
next
  case (Some m)
  let ?P = "\<lambda>e. path_starts_with canonical (mi_mount_point e)"
  obtain ys zs where f: "filter ?P (parse_mountinfo contents) = ys @ m # zs"
    and k: "\<forall>y \<in> set ys. length (mi_mount_point y) \<le> length (mi_mount_point m)"
      "\<forall>z \<in> set zs. length (mi_mount_point z) < length (mi_mount_point m)"
    using max_by_key_Some [OF Some [unfolded system_mount_identity_def]] by blast
  obtain us vs where e: "parse_mountinfo contents = us @ m # vs" "ys = filter ?P us" "?P m" "zs = filter ?P vs"
    using filter_split [OF f] by blast
  with k Some show ?thesis by auto
qed

section \<open>Device numbers\<close>

text \<open>
  How the kernel packs a 12-bit major and a 20-bit minor device number into the value \<open>stat\<close>
  returns.
\<close>

definition kernel_dev :: "u64 \<Rightarrow> u64 \<Rightarrow> u64" where
  "kernel_dev major minor = (minor AND 0xff) OR push_bit 8 major OR push_bit 12 (minor AND NOT 0xff)"

lemma device_masks: "(0xff::u64) = mask 8" "(0xfff::u64) = mask 12"
  by (simp_all add: mask_eq_exp_minus_1)

lemma high_bits:
  assumes "unat x < 2 ^ n" "bit (x::u64) k"
  shows "k < n"
proof -
  have "take_bit n (unat x) = unat x" using assms(1) by (simp add: take_bit_nat_eq_self)
  moreover have "bit (unat x) k" using assms(2) by (simp add: bit_unsigned_iff)
  ultimately show ?thesis by (metis bit_take_bit_iff)
qed

text \<open>
  The major and minor numbers read from a path's device are the ones the kernel packed into
  it, for every device number the kernel can have; so the identity compared with the mount
  table is the one the table shows.
\<close>

theorem device_numbers_roundtrip:
  assumes "unat major < 2 ^ 12" "unat minor < 2 ^ 20"
  shows "linux_major (kernel_dev major minor) = major \<and> linux_minor (kernel_dev major minor) = minor"
proof (intro conjI bit_word_eqI)
  fix n
  have M: "k < 12" if "bit major k" for k using high_bits [OF assms(1) that] .
  have m: "k < 20" if "bit minor k" for k using high_bits [OF assms(2) that] .
  show "bit (linux_major (kernel_dev major minor)) n = bit major n"
    by (auto simp: linux_major_def kernel_dev_def device_masks bit_simps dest: M m)
  show "bit (linux_minor (kernel_dev major minor)) n = bit minor n"
    by (auto simp: linux_minor_def kernel_dev_def device_masks bit_simps dest: M m)
qed

section \<open>Witnesses\<close>

theorem device_numbers_roundtrip_witness:
  "linux_major (kernel_dev 259 1048575) = 259 \<and> linux_minor (kernel_dev 259 1048575) = 1048575"
  using device_numbers_roundtrip [of 259 1048575] by simp

definition demo_table :: string where
  "demo_table = ''1 2 0:5 / / rw - t a'' @ [CHR 0x0A] @ ''1 2 0:6 / /s rw - t b''"

lemma demo_table_parsed:
  "parse_mountinfo demo_table =
    [\<lparr> mi_mount_point = ''/'', mi_export = ''a'', mi_filesystem_id = ''0:5'', mi_read_only = False \<rparr>,
     \<lparr> mi_mount_point = ''/s'', mi_export = ''b'', mi_filesystem_id = ''0:6'', mi_read_only = False \<rparr>]"
  by (simp add: parse_mountinfo_def demo_table_def str_lines_def strip_cr_def map_filter_def
      parse_mountinfo_line_def split_once_str.simps split_whitespace_def split_ws.simps white_space_def
      unescape_mount_field_def replace_str.simps Let_def)

lemma demo_mount:
  "system_mount_identity ''/s/w'' demo_table =
     Some \<lparr> mi_mount_point = ''/s'', mi_export = ''b'', mi_filesystem_id = ''0:6'', mi_read_only = False \<rparr>"
  by (simp add: system_mount_identity_def demo_table_parsed path_starts_with_def path_components_def
      path_is_absolute_def map_filter_def)

theorem mount_identity_innermost_witness:
  "path_starts_with ''/s/w'' ''/s''"
  using mount_identity_innermost [where canonical = "''/s/w''" and contents = demo_table] by (auto simp: demo_mount)

end
