(* ===== verification/Event_Journal.thy ===== *)
theory Event_Journal
  imports Cluster_Protocol
begin

text \<open>
  The bounded per-execution event journal of a worker (\<open>crates/worker/src/journal.rs\<close>): its
  state, \<open>new\<close>, \<open>recover\<close>, \<open>append\<close> and \<open>replay_after\<close>. A \<open>VecDeque\<close> is a list
  whose head is the front; \<open>usize\<close> is \<open>nat\<close>; sequence numbers keep their 64 bits.

  The abstract specification is an unbounded log with a base sequence number. The journal
  implements it with a window of the last \<open>capacity\<close> events, and \<open>replay_after\<close> says
  truthfully whether the window still holds everything the caller asked for. The interface
  \<open>event_log\<close> is what the execution supervisor relies on.
\<close>

section \<open>The journal\<close>

record event_journal =
  ej_execution_id :: uuid
  ej_capacity :: nat
  ej_next_sequence :: u64
  ej_events :: "execution_event list"
  ej_terminal :: "terminal_evidence option"

datatype JournalError = ZeroCapacity | SequenceExhausted | AlreadyTerminal

definition journal_new :: "uuid \<Rightarrow> nat \<Rightarrow> JournalError + event_journal" where
  "journal_new execution_id capacity =
     (if capacity = 0 then Err ZeroCapacity
      else Ok \<lparr>ej_execution_id = execution_id, ej_capacity = capacity, ej_next_sequence = 1,
               ej_events = [], ej_terminal = None\<rparr>)"

definition recovered_payload :: "terminal_evidence \<Rightarrow> ExecutionEventPayload" where
  "recovered_payload evidence =
     (case te_state evidence of
        TermCompleted \<Rightarrow> EvCompleted evidence
      | TermFailed \<Rightarrow> EvFailed evidence
      | TermKilled \<Rightarrow> EvKilled evidence
      | TermInterrupted \<Rightarrow> EvInterrupted evidence)"

definition journal_recover ::
  "job_summary \<Rightarrow> nat \<Rightarrow> terminal_evidence \<Rightarrow> JournalError + event_journal" where
  "journal_recover summary capacity evidence =
     try_bind (journal_new (js_execution_id summary) capacity) (\<lambda>journal.
     try_bind (ok_or (checked_add (js_last_sequence summary) 1) SequenceExhausted) (\<lambda>sequence.
       let event = \<lparr>ev_execution_id = js_execution_id summary, ev_sequence = sequence,
                    ev_worker_timestamp = te_observed_at evidence,
                    ev_payload = recovered_payload evidence\<rparr>;
           journal = journal\<lparr>ej_events := ej_events journal @ [event]\<rparr>
       in try_bind (ok_or (checked_add sequence 1) SequenceExhausted) (\<lambda>next_sequence.
          Ok (journal\<lparr>ej_next_sequence := next_sequence, ej_terminal := Some evidence\<rparr>))))"

definition journal_last_sequence :: "event_journal \<Rightarrow> u64" where
  "journal_last_sequence j = ej_next_sequence j - 1"

fun payload_terminal_evidence :: "ExecutionEventPayload \<Rightarrow> terminal_evidence option" where
  "payload_terminal_evidence (EvCompleted evidence) = Some evidence"
| "payload_terminal_evidence (EvFailed evidence) = Some evidence"
| "payload_terminal_evidence (EvKilled evidence) = Some evidence"
| "payload_terminal_evidence (EvInterrupted evidence) = Some evidence"
| "payload_terminal_evidence _ = None"

text \<open>
  \<open>append(&mut self, ...) -> Result<u64, JournalError>\<close>: the result and the journal afterwards.
\<close>

definition journal_append ::
  "event_journal \<Rightarrow> datetime \<Rightarrow> ExecutionEventPayload \<Rightarrow> (JournalError + u64) \<times> event_journal" where
  "journal_append j worker_timestamp payload =
     (if ej_terminal j \<noteq> None then (Err AlreadyTerminal, j)
      else
        let terminal = payload_terminal_evidence payload;
            sequence = ej_next_sequence j
        in case checked_add sequence 1 of
             None \<Rightarrow> (Err SequenceExhausted, j)
           | Some next_sequence \<Rightarrow>
               let event = \<lparr>ev_execution_id = ej_execution_id j, ev_sequence = sequence,
                            ev_worker_timestamp = worker_timestamp, ev_payload = payload\<rparr>;
                   kept = (if length (ej_events j) = ej_capacity j
                           then tl (ej_events j) else ej_events j)
               in (Ok sequence,
                   j\<lparr>ej_events := kept @ [event],
                     ej_next_sequence := next_sequence,
                     ej_terminal := (case terminal of Some t \<Rightarrow> Some t | None \<Rightarrow> ej_terminal j)\<rparr>))"

definition journal_replay_after :: "event_journal \<Rightarrow> u64 \<Rightarrow> event_batch" where
  "journal_replay_after j after =
     (let earliest_available =
            (case ej_events j of [] \<Rightarrow> ej_next_sequence j | event # _ \<Rightarrow> ev_sequence event);
          latest_available = journal_last_sequence j;
          replay_gap = (saturating_add after 1 < earliest_available);
          events = filter (\<lambda>event. ev_sequence event > after) (ej_events j)
      in \<lparr>eb_execution_id = ej_execution_id j, eb_requested_after = after,
          eb_earliest_available = earliest_available, eb_latest_available = latest_available,
          eb_replay_gap = replay_gap, eb_events = events\<rparr>)"

section \<open>Step relation and invariant\<close>

text \<open>
  A journal starts new or recovered, and changes by \<open>append\<close> only.
\<close>

definition journal_start :: "event_journal \<Rightarrow> bool" where
  "journal_start j \<longleftrightarrow>
     (\<exists>i c. journal_new i c = Ok j) \<or> (\<exists>s c e. journal_recover s c e = Ok j)"

inductive journal_step :: "event_journal \<Rightarrow> event_journal \<Rightarrow> bool" where
  append: "journal_append j ts p = (r, j') \<Longrightarrow> journal_step j j'"

inductive_cases journal_stepE: "journal_step j j'"

text \<open>
  The retained events are the last ones, numbered without a hole up to the last sequence; at most
  \<open>capacity\<close> of them; evidence is recorded exactly when the newest event is terminal, and no
  older retained event is.
\<close>

definition seqs :: "execution_event list \<Rightarrow> nat list" where
  "seqs es = map (unat \<circ> ev_sequence) es"

definition journal_inv :: "event_journal \<Rightarrow> bool" where
  "journal_inv j \<longleftrightarrow>
     0 < ej_capacity j \<and> length (ej_events j) \<le> ej_capacity j \<and>
     length (ej_events j) < unat (ej_next_sequence j) \<and>
     seqs (ej_events j) =
       [unat (ej_next_sequence j) - length (ej_events j) ..< unat (ej_next_sequence j)] \<and>
     (\<forall>e \<in> set (ej_events j). ev_execution_id e = ej_execution_id j) \<and>
     (\<forall>e \<in> set (butlast (ej_events j)). payload_terminal_evidence (ev_payload e) = None) \<and>
     ej_terminal j = (if ej_events j = [] then None
                      else payload_terminal_evidence (ev_payload (last (ej_events j))))"

lemma seqs_simps [simp]:
  "seqs [] = []" "seqs (e # es) = unat (ev_sequence e) # seqs es" "seqs (es @ fs) = seqs es @ seqs fs"
  by (simp_all add: seqs_def)

lemma length_seqs [simp]: "length (seqs es) = length es"
  by (simp add: seqs_def)

lemma set_seqs: "n \<in> set (seqs es) \<longleftrightarrow> (\<exists>e \<in> set es. unat (ev_sequence e) = n)"
  by (auto simp: seqs_def)

lemma seqs_tl: "seqs (tl es) = tl (seqs es)"
  by (cases es) simp_all

lemma recovered_payload_evidence [simp]:
  "payload_terminal_evidence (recovered_payload e) = Some e"
  by (cases "te_state e") (simp_all add: recovered_payload_def)

lemma journal_inv_new: "journal_new i c = Ok j \<Longrightarrow> journal_inv j"
  by (auto simp: journal_new_def journal_inv_def split: if_splits)

lemma journal_inv_recover: "journal_recover s c e = Ok j \<Longrightarrow> journal_inv j"
  by (auto simp: journal_recover_def journal_new_def journal_inv_def Let_def
      dest!: checked_add_Some split: if_splits)

text \<open>A refused \<open>append\<close> changes nothing, and says why it was refused.\<close>

lemma journal_append_Err:
  assumes "journal_append j ts p = (Err e, j')"
  shows "j' = j"
    and "e = AlreadyTerminal \<and> ej_terminal j \<noteq> None \<or>
         e = SequenceExhausted \<and> ej_terminal j = None \<and> unat (ej_next_sequence j) = 2 ^ 64 - 1"
proof -
  have "unat (ej_next_sequence j) < 2 ^ 64"
    using unsigned_less [of "ej_next_sequence j"] by simp
  then have "checked_add (ej_next_sequence j) 1 = None \<Longrightarrow> unat (ej_next_sequence j) = 2 ^ 64 - 1"
    unfolding checked_add_None by simp
  with assms show "e = AlreadyTerminal \<and> ej_terminal j \<noteq> None \<or>
         e = SequenceExhausted \<and> ej_terminal j = None \<and> unat (ej_next_sequence j) = 2 ^ 64 - 1"
    by (auto simp: journal_append_def Let_def split: if_splits option.splits)
  from assms show "j' = j"
    by (auto simp: journal_append_def Let_def split: if_splits option.splits)
qed

text \<open>What an accepted \<open>append\<close> does.\<close>

definition stamped :: "event_journal \<Rightarrow> datetime \<Rightarrow> ExecutionEventPayload \<Rightarrow> execution_event" where
  "stamped j ts p = \<lparr>ev_execution_id = ej_execution_id j, ev_sequence = ej_next_sequence j,
                     ev_worker_timestamp = ts, ev_payload = p\<rparr>"

definition retained :: "event_journal \<Rightarrow> execution_event list" where
  "retained j = (if length (ej_events j) = ej_capacity j then tl (ej_events j) else ej_events j)"

lemma journal_append_Ok:
  assumes "journal_append j ts p = (Ok s, j')"
  shows "ej_terminal j = None" and "s = ej_next_sequence j"
    and "unat (ej_next_sequence j') = Suc (unat (ej_next_sequence j))"
    and "ej_events j' = retained j @ [stamped j ts p]"
    and "ej_terminal j' = payload_terminal_evidence p"
    and "ej_execution_id j' = ej_execution_id j" and "ej_capacity j' = ej_capacity j"
  using assms
  by (auto simp: journal_append_def Let_def stamped_def retained_def dest!: checked_add_Some
      split: if_splits option.splits)

lemma stamped_simps [simp]:
  "ev_execution_id (stamped j ts p) = ej_execution_id j"
  "ev_sequence (stamped j ts p) = ej_next_sequence j"
  "ev_worker_timestamp (stamped j ts p) = ts"
  "ev_payload (stamped j ts p) = p"
  by (simp_all add: stamped_def)

lemma set_retained: "set (retained j) \<subseteq> set (ej_events j)"
  by (auto simp: retained_def dest: list.set_sel(2) [rotated] split: if_splits)
    (metis list.sel(2) list.set_sel(2))

lemma seqs_retained:
  assumes "journal_inv j"
  shows "seqs (retained j) =
           [unat (ej_next_sequence j) - length (retained j) ..< unat (ej_next_sequence j)]"
    and "length (retained j) < ej_capacity j" and "length (retained j) < unat (ej_next_sequence j)"
  using assms by (auto simp: journal_inv_def retained_def seqs_tl tl_upt Suc_diff_le)

lemma journal_inv_open:
  assumes "journal_inv j" and "ej_terminal j = None" and "e \<in> set (ej_events j)"
  shows "payload_terminal_evidence (ev_payload e) = None"
proof -
  from assms(3) have ne: "ej_events j \<noteq> []" by auto
  then have "e \<in> set (butlast (ej_events j) @ [last (ej_events j)])" using assms(3) by simp
  moreover have "\<forall>e \<in> set (butlast (ej_events j)). payload_terminal_evidence (ev_payload e) = None"
    "payload_terminal_evidence (ev_payload (last (ej_events j))) = None"
    using ne assms(1,2) by (simp_all add: journal_inv_def)
  ultimately show ?thesis by (auto simp del: append_butlast_last_id)
qed

lemma journal_inv_append_Ok:
  assumes inv: "journal_inv j" and app: "journal_append j ts p = (Ok s, j')"
  shows "journal_inv j'"
proof -
  note ok = journal_append_Ok [OF app] and ret = seqs_retained [OF inv]
  have ids: "\<forall>e \<in> set (retained j). ev_execution_id e = ej_execution_id j"
    using inv set_retained by (fastforce simp: journal_inv_def)
  have old: "\<forall>e \<in> set (retained j). payload_terminal_evidence (ev_payload e) = None"
    using journal_inv_open [OF inv ok(1)] set_retained by blast
  have "seqs (retained j @ [stamped j ts p]) =
      [unat (ej_next_sequence j) - length (retained j) ..< Suc (unat (ej_next_sequence j))]"
    using ret by simp
  then show ?thesis
    unfolding journal_inv_def ok(3-7)
    using ret ids old by auto
qed

lemma journal_inv_append:
  "journal_inv j \<Longrightarrow> journal_append j ts p = (r, j') \<Longrightarrow> journal_inv j'"
  by (cases r) (auto dest: journal_append_Err journal_inv_append_Ok)

lemma journal_step_inv: "journal_inv j \<Longrightarrow> journal_step j j' \<Longrightarrow> journal_inv j'"
  by (auto elim!: journal_stepE intro: journal_inv_append)

lemma journal_start_inv: "journal_start j \<Longrightarrow> journal_inv j"
  by (auto simp: journal_start_def intro: journal_inv_new journal_inv_recover)

interpretation journal: monotone_system journal_start journal_step journal_inv
  "\<lambda>j. unat (ej_next_sequence j)"
proof unfold_locales
  fix j j'
  assume "journal_inv j" "journal_step j j'"
  then show "unat (ej_next_sequence j) \<le> unat (ej_next_sequence j')"
    by (auto elim!: journal_stepE simp: journal_append_def Let_def dest!: checked_add_Some
        split: if_splits option.splits)
qed (auto intro: journal_start_inv journal_step_inv)

section \<open>The interface clients of the journal rely on\<close>

locale event_log =
  fixes append :: "'j \<Rightarrow> datetime \<Rightarrow> ExecutionEventPayload \<Rightarrow> ('err + u64) \<times> 'j"
    and last_seq :: "'j \<Rightarrow> u64"
    and terminal :: "'j \<Rightarrow> terminal_evidence option"
    and valid :: "'j \<Rightarrow> bool"
  assumes append_Ok: "valid j \<Longrightarrow> append j ts p = (Inr s, j') \<Longrightarrow>
        valid j' \<and> terminal j = None \<and> terminal j' = payload_terminal_evidence p \<and>
        s = last_seq j' \<and> unat s = Suc (unat (last_seq j))"
    and append_Err: "append j ts p = (Inl e, j') \<Longrightarrow> j' = j"
    and append_closed: "terminal j \<noteq> None \<Longrightarrow> \<exists>e. append j ts p = (Inl e, j)"
begin

lemma append_valid: "valid j \<Longrightarrow> append j ts p = (r, j') \<Longrightarrow> valid j'"
  by (cases r) (auto dest: append_Ok append_Err)

lemma append_last_mono:
  "valid j \<Longrightarrow> append j ts p = (r, j') \<Longrightarrow> unat (last_seq j) \<le> unat (last_seq j')"
  by (cases r) (auto dest: append_Ok append_Err)

lemma append_terminal_kept:
  "valid j \<Longrightarrow> append j ts p = (r, j') \<Longrightarrow> terminal j = Some e \<Longrightarrow> terminal j' = Some e"
  by (cases r) (auto dest: append_Ok append_Err)

lemma append_closed_same: "terminal j \<noteq> None \<Longrightarrow> append j ts p = (r, j') \<Longrightarrow> j' = j \<and> is_err r"
  using append_closed [of j ts p] by auto

end

lemma journal_last_sequence_unat:
  "journal_inv j \<Longrightarrow> unat (journal_last_sequence j) = unat (ej_next_sequence j) - 1"
  by (simp add: journal_last_sequence_def journal_inv_def unat_pred)

lemma journal_append_Ok_last:
  assumes "journal_inv j" and app: "journal_append j ts p = (Ok s, j')"
  shows "journal_last_sequence j' = s" and "unat s = Suc (unat (journal_last_sequence j))"
proof -
  note ok = journal_append_Ok [OF app]
  have "unat (journal_last_sequence j') = unat s"
    using journal_inv_append_Ok [OF assms] ok by (simp add: journal_last_sequence_unat)
  then show "journal_last_sequence j' = s" by (simp add: word_unat_eq_iff)
  from assms(1) have "0 < unat (ej_next_sequence j)" by (simp add: journal_inv_def)
  with ok(2) journal_last_sequence_unat [OF assms(1)]
  show "unat s = Suc (unat (journal_last_sequence j))" by simp
qed

interpretation jlog: event_log journal_append journal_last_sequence ej_terminal journal_inv
proof unfold_locales
  fix j j' :: event_journal and ts p s
  assume inv: "journal_inv j" and app: "journal_append j ts p = (Inr s, j')"
  show "journal_inv j' \<and> ej_terminal j = None \<and> ej_terminal j' = payload_terminal_evidence p \<and>
        s = journal_last_sequence j' \<and> unat s = Suc (unat (journal_last_sequence j))"
    using journal_append_Ok [OF app] journal_append_Ok_last [OF inv app]
      journal_inv_append_Ok [OF inv app] by simp
next
  fix j j' :: event_journal and ts p and e :: JournalError
  assume "journal_append j ts p = (Inl e, j')"
  then show "j' = j" by (rule journal_append_Err)
next
  fix j :: event_journal and ts p
  assume "ej_terminal j \<noteq> None"
  then show "\<exists>e. journal_append j ts p = (Inl e, j)" by (auto simp: journal_append_def)
qed

section \<open>Refinement: a window on an unbounded log\<close>

text \<open>
  The specification: every event ever accepted since the journal was opened, numbered from
  \<open>base + 1\<close>. The journal implements it when it holds the last \<open>capacity\<close> of them.
\<close>

definition window_of :: "nat \<Rightarrow> execution_event list \<Rightarrow> event_journal \<Rightarrow> bool" where
  "window_of base log j \<longleftrightarrow>
     journal_inv j \<and> unat (ej_next_sequence j) = Suc (base + length log) \<and>
     seqs log = [Suc base ..< Suc (base + length log)] \<and>
     ej_events j = drop (length log - ej_capacity j) log \<and>
     (\<forall>e \<in> set (butlast log). payload_terminal_evidence (ev_payload e) = None) \<and>
     ej_terminal j = (if log = [] then None else payload_terminal_evidence (ev_payload (last log)))"

fun journal_run ::
  "event_journal \<Rightarrow> (datetime \<times> ExecutionEventPayload) list \<Rightarrow> event_journal \<times> execution_event list"
  where
  "journal_run j [] = (j, [])"
| "journal_run j ((ts, p) # ops) =
     (case journal_append j ts p of
        (Inl _, j') \<Rightarrow> journal_run j' ops
      | (Inr _, j') \<Rightarrow> (let (k, log) = journal_run j' ops in (k, stamped j ts p # log)))"

lemma window_of_new: "journal_new i c = Ok j \<Longrightarrow> window_of 0 [] j"
  by (auto simp: window_of_def journal_inv_new) (auto simp: journal_new_def split: if_splits)

lemma window_of_recover:
  assumes "journal_recover s c e = Ok j"
  shows "window_of (unat (js_last_sequence s)) (ej_events j) j"
  using journal_inv_recover [OF assms] assms
  by (auto simp: window_of_def journal_recover_def journal_new_def Let_def dest!: checked_add_Some
      split: if_splits)

lemma drop_window_tl:
  assumes "0 < c"
  shows "drop (Suc (length xs) - c) xs =
    (if length (drop (length xs - c) xs) = c then tl (drop (length xs - c) xs)
     else drop (length xs - c) xs)"
  using assms by (cases "c \<le> length xs") (auto simp: tl_drop drop_Suc Suc_diff_le)

lemma window_of_append:
  assumes win: "window_of base log j" and app: "journal_append j ts p = (Ok s, j')"
  shows "window_of base (log @ [stamped j ts p]) j'"
proof -
  from win have inv: "journal_inv j" by (simp add: window_of_def)
  note ok = journal_append_Ok [OF app]
  have cap: "0 < ej_capacity j" using inv by (simp add: journal_inv_def)
  have "retained j = drop (Suc (length log) - ej_capacity j) log"
    using win drop_window_tl [OF cap, of log] by (simp add: window_of_def retained_def)
  moreover have "Suc (length log) - ej_capacity j \<le> length log" using cap by simp
  ultimately have events: "ej_events j' =
      drop (length (log @ [stamped j ts p]) - ej_capacity j') (log @ [stamped j ts p])"
    by (simp add: ok(4,7))
  have "log \<noteq> [] \<Longrightarrow> payload_terminal_evidence (ev_payload (last log)) = None"
    using win ok(1) by (simp add: window_of_def)
  moreover have "log = butlast log @ [last log]" if "log \<noteq> []" using that by simp
  ultimately have "\<forall>e \<in> set log. payload_terminal_evidence (ev_payload e) = None"
    using win unfolding window_of_def by (metis Un_iff empty_iff insert_iff list.set set_append)
  with win events ok journal_inv_append_Ok [OF inv app] show ?thesis
    by (simp add: window_of_def)
qed

lemma window_of_run:
  "window_of base log j \<Longrightarrow> journal_run j ops = (k, new) \<Longrightarrow> window_of base (log @ new) k"
proof (induction j ops arbitrary: log k new rule: journal_run.induct)
  case (1 j)
  then show ?case by simp
next
  case (2 j ts p ops)
  show ?case
  proof (cases "journal_append j ts p")
    case (Pair r j')
    show ?thesis
    proof (cases r)
      case (Inl e)
      with Pair have "j' = j" by (auto dest: journal_append_Err)
      with "2.IH"(1) [OF Pair [symmetric] Inl] "2.prems" Pair Inl show ?thesis by simp
    next
      case (Inr s)
      with Pair have app: "journal_append j ts p = (Ok s, j')" by simp
      obtain new' where new: "journal_run j' ops = (k, new')" "new = stamped j ts p # new'"
        using "2.prems"(2) Pair Inr by (auto split: prod.splits)
      from "2.IH"(2) [OF Pair [symmetric] Inr window_of_append [OF "2.prems"(1) app] new(1)] new(2)
      show ?thesis by simp
    qed
  qed
qed

lemma window_bounds:
  assumes "window_of base log j"
  shows "e \<in> set log \<Longrightarrow> base < unat (ev_sequence e) \<and> unat (ev_sequence e) \<le> base + length log"
    and "i < length log \<Longrightarrow> unat (ev_sequence (log ! i)) = Suc (base + i)"
proof -
  have s: "seqs log = [Suc base ..< Suc (base + length log)]"
    using assms by (simp add: window_of_def)
  show "base < unat (ev_sequence e) \<and> unat (ev_sequence e) \<le> base + length log" if "e \<in> set log"
  proof -
    from that have "unat (ev_sequence e) \<in> set (seqs log)" by (simp add: seqs_def)
    then show ?thesis by (auto simp: s simp del: upt_Suc)
  qed
  assume i: "i < length log"
  then have "seqs log ! i = Suc (base + i)" by (simp add: s del: upt_Suc)
  with i show "unat (ev_sequence (log ! i)) = Suc (base + i)" by (simp add: seqs_def)
qed

text \<open>The oldest sequence number the window still holds (or the next one, when it is empty).\<close>

lemma window_earliest:
  assumes "window_of base log j"
  shows "unat (eb_earliest_available (journal_replay_after j a)) =
    Suc (base + (length log - ej_capacity j))"
proof -
  let ?k = "length log - ej_capacity j"
  have ev: "ej_events j = drop ?k log" and cap: "0 < ej_capacity j"
    and n: "unat (ej_next_sequence j) = Suc (base + length log)"
    using assms by (simp_all add: window_of_def journal_inv_def)
  show ?thesis
  proof (cases "ej_events j")
    case Nil
    with ev have "length log \<le> length log - ej_capacity j" by simp
    with cap have "length log = 0" by arith
    then have "log = []" by simp
    with Nil n show ?thesis by (simp add: journal_replay_after_def Let_def)
  next
    case (Cons e es)
    with ev have "?k < length log" by (metis drop_all list.distinct(1) not_less)
    with Cons ev have "e = log ! ?k" by (metis hd_drop_conv_nth list.sel(1))
    with window_bounds(2) [OF assms \<open>?k < length log\<close>] Cons show ?thesis
      by (simp add: journal_replay_after_def Let_def)
  qed
qed


lemma window_split:
  assumes "window_of base log j" and "k = length log - ej_capacity j"
  shows "e \<in> set (take k log) \<Longrightarrow> unat (ev_sequence e) \<le> base + k"
    and "e \<in> set (ej_events j) \<Longrightarrow> base + k < unat (ev_sequence e)"
    and "log = take k log @ ej_events j"
proof -
  have ev: "ej_events j = drop k log" using assms by (simp add: window_of_def)
  show "unat (ev_sequence e) \<le> base + k" if "e \<in> set (take k log)"
    using that window_bounds(2) [OF assms(1)] by (auto simp: in_set_conv_nth)
  show "base + k < unat (ev_sequence e)" if "e \<in> set (ej_events j)"
    using that window_bounds(2) [OF assms(1)] by (auto simp: ev in_set_conv_nth)
  show "log = take k log @ ej_events j" by (simp add: ev)
qed

lemma window_gap:
  assumes "window_of base log j"
  shows "eb_replay_gap (journal_replay_after j a) \<longleftrightarrow>
    unat a < base + (length log - ej_capacity j)"
proof -
  let ?b = "journal_replay_after j a"
  have "eb_replay_gap ?b \<longleftrightarrow> unat (saturating_add a 1) < unat (eb_earliest_available ?b)"
    by (simp add: journal_replay_after_def Let_def word_less_nat_alt)
  moreover have "unat (eb_earliest_available ?b) < 2 ^ 64"
    using unsigned_less [of "eb_earliest_available ?b"] by simp
  ultimately show ?thesis
    using window_earliest [OF assms, of a] by (auto simp: unat_saturating_add min_def)
qed

lemma window_replay_events:
  assumes win: "window_of base log j" and "\<not> eb_replay_gap (journal_replay_after j a)"
  shows "eb_events (journal_replay_after j a) = filter (\<lambda>e. a < ev_sequence e) log"
proof -
  define k where "k = length log - ej_capacity j"
  note split = window_split [OF win k_def]
  have "base + k \<le> unat a" using assms(2) window_gap [OF win] by (simp add: k_def)
  then have "filter (\<lambda>e. a < ev_sequence e) (take k log) = []"
    using split(1) by (force simp: filter_empty_conv word_less_nat_alt)
  then show ?thesis
    by (subst split(3)) (simp add: journal_replay_after_def Let_def)
qed

lemma window_replay_lost:
  assumes win: "window_of 0 log j"
  shows "eb_replay_gap (journal_replay_after j a) \<longleftrightarrow>
    (\<exists>e \<in> set log. a < ev_sequence e \<and> e \<notin> set (eb_events (journal_replay_after j a)))"
proof
  define k where "k = length log - ej_capacity j"
  note split = window_split [OF win k_def]
  assume "eb_replay_gap (journal_replay_after j a)"
  then have a: "unat a < k" using window_gap [OF win] by (simp add: k_def)
  then have len: "unat a < length log" by (simp add: k_def)
  let ?e = "log ! unat a"
  have seq: "unat (ev_sequence ?e) = Suc (unat a)" using window_bounds(2) [OF win len] by simp
  then have "?e \<notin> set (ej_events j)" using split(2) [of ?e] a by auto
  then have "?e \<notin> set (eb_events (journal_replay_after j a))"
    by (simp add: journal_replay_after_def Let_def)
  with len seq show "\<exists>e \<in> set log. a < ev_sequence e \<and> e \<notin> set (eb_events (journal_replay_after j a))"
    by (intro bexI [of _ ?e]) (simp_all add: word_less_nat_alt)
next
  assume "\<exists>e \<in> set log. a < ev_sequence e \<and> e \<notin> set (eb_events (journal_replay_after j a))"
  then show "eb_replay_gap (journal_replay_after j a)"
    by (rule contrapos_pp) (simp add: window_replay_events [OF win])
qed

section \<open>Properties of the journal\<close>

text \<open>
  C1: from a new journal, after any attempted appends, a replay request reports a gap exactly when
  an accepted event the caller has not seen is missing from the answer; when no gap is reported the
  answer is every accepted event after the cursor, in order. The bounded journal so implements
  the unbounded log.
\<close>

theorem journal_replay_complete:
  assumes "journal_new i c = Ok j" and "journal_run j ops = (k, log)"
  shows "(eb_replay_gap (journal_replay_after k a) \<longleftrightarrow>
            (\<exists>e \<in> set log. a < ev_sequence e \<and> e \<notin> set (eb_events (journal_replay_after k a)))) \<and>
         (\<not> eb_replay_gap (journal_replay_after k a) \<longrightarrow>
            eb_events (journal_replay_after k a) = filter (\<lambda>e. a < ev_sequence e) log)"
proof -
  have "window_of 0 log k"
    using window_of_run [OF window_of_new [OF assms(1)] assms(2)] by simp
  then show ?thesis using window_replay_lost window_replay_events by blast
qed

definition demo_journal :: event_journal where
  "demo_journal = \<lparr>ej_execution_id = 7, ej_capacity = 1, ej_next_sequence = 1, ej_events = [],
                   ej_terminal = None\<rparr>"

definition demo_run :: "event_journal \<times> execution_event list" where
  "demo_run = journal_run demo_journal [(10, EvStdout ''a''), (11, EvStdout ''b'')]"

lemma demo_journal_new: "journal_new 7 1 = Ok demo_journal"
  by (simp add: journal_new_def demo_journal_def)

lemma demo_run_eval:
  "eb_replay_gap (journal_replay_after (fst demo_run) 0)"
  "\<not> eb_replay_gap (journal_replay_after (fst demo_run) 1)"
  "map ev_sequence (snd demo_run) = [1, 2]"
  by (simp_all add: demo_run_def demo_journal_def journal_append_def checked_add_def
      journal_replay_after_def saturating_add_def stamped_def Let_def)

theorem journal_replay_complete_witness:
  "(\<exists>e \<in> set (snd demo_run). 0 < ev_sequence e \<and>
      e \<notin> set (eb_events (journal_replay_after (fst demo_run) 0))) \<and>
   eb_events (journal_replay_after (fst demo_run) 1) = filter (\<lambda>e. 1 < ev_sequence e) (snd demo_run)"
proof -
  have run: "journal_run demo_journal [(10, EvStdout ''a''), (11, EvStdout ''b'')]
      = (fst demo_run, snd demo_run)" by (simp add: demo_run_def)
  show ?thesis
    using journal_replay_complete [OF demo_journal_new run, of 0]
      journal_replay_complete [OF demo_journal_new run, of 1] demo_run_eval by simp
qed

text \<open>
  The accepted events of a new journal are numbered 1, 2, 3, \<dots>; only the last one can be
  terminal, and the evidence the journal reports is that event's, whether or not the event itself
  is still retained.
\<close>

theorem journal_log_shape:
  assumes "journal_new i c = Ok j" and "journal_run j ops = (k, log)"
  shows "map (unat \<circ> ev_sequence) log = [1 ..< Suc (length log)] \<and>
         unat (journal_last_sequence k) = length log \<and>
         length (ej_events k) = min c (length log) \<and>
         (\<forall>e \<in> set (butlast log). payload_terminal_evidence (ev_payload e) = None) \<and>
         ej_terminal k = (if log = [] then None
                          else payload_terminal_evidence (ev_payload (last log)))"
proof -
  have win: "window_of 0 log k"
    using window_of_run [OF window_of_new [OF assms(1)] assms(2)] by simp
  have run_cap: "ej_capacity (fst (journal_run j ops)) = ej_capacity j" for j ops
    by (induction j ops rule: journal_run.induct)
      (auto simp: journal_append_Ok(7) dest!: journal_append_Err(1) split: sum.splits prod.splits)
  have "ej_capacity k = c"
    using run_cap [of j ops] assms by (auto simp: journal_new_def split: if_splits)
  with win journal_last_sequence_unat [of k] show ?thesis
    by (auto simp: window_of_def seqs_def min_def simp del: upt_Suc)
qed

theorem journal_log_shape_witness:
  "map (unat \<circ> ev_sequence) (snd demo_run) = [1 ..< Suc (length (snd demo_run))] \<and>
   unat (journal_last_sequence (fst demo_run)) = length (snd demo_run)"
proof -
  have run: "journal_run demo_journal [(10, EvStdout ''a''), (11, EvStdout ''b'')]
      = (fst demo_run, snd demo_run)" by (simp add: demo_run_def)
  show ?thesis using journal_log_shape [OF demo_journal_new run] by blast
qed

end
