(* ===== verification/Worker_Job.thy ===== *)
theory Worker_Job
  imports Event_Journal
begin

text \<open>
  One execution on a worker: \<open>WorkerJob\<close>, the functions that end it and the poll loop of
  \<open>run_job\<close> in \<open>crates/worker/src/execution.rs\<close>, and its cancellation in
  \<open>crates/worker/src/cancellation.rs\<close>.

  The host is a parameter where the code asks it: what \<open>try_wait\<close> sees of the child, whether a
  signal could be sent, whether the recovery file could be written (\<open>disk_ok\<close>). \<open>now\<close> is the
  clock. Text that \<open>serde_json\<close> renders is a parameter. Each job has one file in the recovery
  store, modelled as the field \<open>wj_saved\<close>.
\<close>

section \<open>The job\<close>

record exit_status =
  es_code :: "int option"
  es_signal :: "int option"

definition exit_success :: "exit_status \<Rightarrow> bool" where
  "exit_success s \<longleftrightarrow> es_code s = Some 0"

datatype child = Alive | Exited exit_status | Unobservable string

record worker_job =
  wj_execution_id :: uuid
  wj_worker_job_id :: uuid
  wj_workspace_id :: uuid
  wj_request_digest :: string
  wj_state :: JobState
  wj_journal :: event_journal
  wj_child :: "child option"
  wj_acknowledged_sequence :: u64
  wj_persistent :: bool
  wj_saved :: "job_summary option"
  wj_quiesced_by :: "uuid option"
  wj_output_seen :: bool

definition job_evidence :: "worker_job \<Rightarrow> terminal_evidence option" where
  "job_evidence job = ej_terminal (wj_journal job)"

definition job_accepted :: "worker_job \<Rightarrow> dispatch_accepted" where
  "job_accepted job = \<lparr> da_execution_id = wj_execution_id job, da_worker_job_id = wj_worker_job_id job,
     da_request_digest = wj_request_digest job, da_state = wj_state job,
     da_last_sequence = journal_last_sequence (wj_journal job) \<rparr>"

definition job_summary_of :: "worker_job \<Rightarrow> job_summary" where
  "job_summary_of job = \<lparr> js_execution_id = wj_execution_id job, js_worker_job_id = wj_worker_job_id job,
     js_workspace_id = wj_workspace_id job, js_request_digest = wj_request_digest job,
     js_state = wj_state job, js_last_sequence = journal_last_sequence (wj_journal job),
     js_terminal = job_evidence job \<rparr>"

definition persist :: "bool \<Rightarrow> worker_job \<Rightarrow> worker_job" where
  "persist disk_ok job = (if wj_persistent job \<and> disk_ok
     then job\<lparr> wj_saved := Some (job_summary_of job) \<rparr> else job)"

definition is_active_for_drain :: "worker_job \<Rightarrow> bool" where
  "is_active_for_drain job =
     (if \<not> JobState_is_terminal (wj_state job) then True
      else case wj_child job of
        Some (Exited _) \<Rightarrow> False
      | Some _ \<Rightarrow> True
      | None \<Rightarrow> False)"

text \<open>
  \<open>transition\<close> appends under the journal's lock and then writes the state under the state's lock:
  two atomic parts, and their uninterrupted composition.
\<close>

definition transition_append ::
  "datetime \<Rightarrow> ExecutionEventPayload \<Rightarrow> worker_job \<Rightarrow> bool \<times> worker_job" where
  "transition_append now payload job =
     (let (r, journal) = journal_append (wj_journal job) now payload
      in (is_ok r, job\<lparr> wj_journal := journal \<rparr>))"

definition transition_write :: "bool \<Rightarrow> JobState \<Rightarrow> worker_job \<Rightarrow> worker_job" where
  "transition_write disk_ok st job = persist disk_ok (job\<lparr> wj_state := st \<rparr>)"

definition transition ::
  "bool \<Rightarrow> datetime \<Rightarrow> JobState \<Rightarrow> ExecutionEventPayload \<Rightarrow> worker_job \<Rightarrow> worker_job" where
  "transition disk_ok now st payload job =
     (let (appended, job') = transition_append now payload job
      in if appended then transition_write disk_ok st job' else job')"

definition emit :: "datetime \<Rightarrow> ExecutionEventPayload \<Rightarrow> worker_job \<Rightarrow> worker_job" where
  "emit now payload job = job\<lparr> wj_journal := snd (journal_append (wj_journal job) now payload) \<rparr>"

section \<open>Ending a job\<close>

definition terminal_evidence_of ::
  "datetime \<Rightarrow> TerminalState \<Rightarrow> int option \<Rightarrow> int option \<Rightarrow> terminal_evidence" where
  "terminal_evidence_of now st exit_code sig = \<lparr> te_state = st, te_exit_code = exit_code,
     te_signal = sig, te_observed_at = now \<rparr>"

definition finish_with :: "bool \<Rightarrow> datetime \<Rightarrow> terminal_evidence \<Rightarrow> worker_job \<Rightarrow> worker_job" where
  "finish_with disk_ok now ev job =
     (case te_state ev of
        TermCompleted \<Rightarrow> transition disk_ok now JobCompleted (EvCompleted ev) job
      | TermKilled \<Rightarrow> transition disk_ok now JobKilled (EvKilled ev) job
      | _ \<Rightarrow> transition disk_ok now JobFailed (EvFailed ev) job)"

definition finish_status :: "bool \<Rightarrow> datetime \<Rightarrow> exit_status \<Rightarrow> worker_job \<Rightarrow> worker_job" where
  "finish_status disk_ok now status job =
     (let st = (if wj_state job = JobCancelling then TermKilled
                else if exit_success status then TermCompleted else TermFailed)
      in finish_with disk_ok now (terminal_evidence_of now st (es_code status) (es_signal status)) job)"

datatype ExecutorExitResult = ExitSuccess | ExitFailure

fun executor_terminal_state :: "JobState \<Rightarrow> ExecutorExitResult \<Rightarrow> TerminalState" where
  "executor_terminal_state current result =
     (if current = JobCancelling then TermKilled
      else case result of ExitSuccess \<Rightarrow> TermCompleted | ExitFailure \<Rightarrow> TermFailed)"

definition finish_executor_result ::
  "bool \<Rightarrow> datetime \<Rightarrow> ExecutorExitResult \<Rightarrow> worker_job \<Rightarrow> worker_job" where
  "finish_executor_result disk_ok now result job =
     (let st = executor_terminal_state (wj_state job) result;
          code = (case st of TermCompleted \<Rightarrow> Some 0 | TermFailed \<Rightarrow> Some 1 | _ \<Rightarrow> None)
      in finish_with disk_ok now (terminal_evidence_of now st code None) job)"

text \<open>\<open>error_json\<close> is the rendered object that carries the reason.\<close>

definition finish_failed :: "bool \<Rightarrow> datetime \<Rightarrow> int option \<Rightarrow> string \<Rightarrow> worker_job \<Rightarrow> worker_job" where
  "finish_failed disk_ok now exit_code error_json job =
     transition disk_ok now JobFailed
       (EvFailed (terminal_evidence_of now TermFailed exit_code None))
       (emit now (EvStructured error_json) job)"

section \<open>Running a job\<close>

definition run_started :: "bool \<Rightarrow> datetime \<Rightarrow> worker_job \<Rightarrow> worker_job" where
  "run_started disk_ok now job = transition disk_ok now JobStarting EvStarting job"

text \<open>
  What \<open>run_job\<close> does when the spawn returns, under the cancellation guard: a job that has ended
  meanwhile is not revived (the late child is killed).
\<close>

definition adopt_child :: "bool \<Rightarrow> worker_job \<Rightarrow> worker_job" where
  "adopt_child disk_ok job =
     (if JobState_is_terminal (wj_state job) then job
      else persist disk_ok (job\<lparr> wj_child := Some Alive, wj_state := JobRunning \<rparr>))"

definition stream_chunk :: "datetime \<Rightarrow> bool \<Rightarrow> string \<Rightarrow> worker_job \<Rightarrow> worker_job" where
  "stream_chunk now stderr data job =
     emit now (if stderr then EvStderr data else EvStdout data) (job\<lparr> wj_output_seen := True \<rparr>)"

definition stop_child :: "child \<Rightarrow> worker_job \<Rightarrow> worker_job" where
  "stop_child after_kill job =
     (case wj_child job of None \<Rightarrow> job | Some _ \<Rightarrow> job\<lparr> wj_child := Some after_kill \<rparr>)"

datatype exit_signal = NoExitSignal | SignalEmpty | SignalClosed | SignalReceived ExecutorExitResult

text \<open>
  One iteration of the loop in \<open>run_job\<close>: \<open>None\<close> to sleep and poll again, otherwise the job as it
  was left. The loop runs after \<open>adopt_child\<close>, so a child is present. \<open>msgs\<close> gives the rendered texts of the three failures.
\<close>

record poll_texts =
  pt_channel_closed :: string
  pt_observe_failed :: "string \<Rightarrow> string"
  pt_timeout :: string

definition run_poll :: "poll_texts \<Rightarrow> bool \<Rightarrow> datetime \<Rightarrow> exit_signal \<Rightarrow> child \<Rightarrow> bool \<Rightarrow> worker_job
    \<Rightarrow> worker_job option" where
  "run_poll msgs disk_ok now sig after_kill deadline_passed job =
     (case sig of
        SignalReceived result \<Rightarrow>
          Some (finish_executor_result disk_ok now result (stop_child after_kill job))
      | SignalClosed \<Rightarrow>
          (let job = stop_child after_kill job in
           Some (if wj_state job = JobCancelling
                 then finish_executor_result disk_ok now ExitSuccess job
                 else finish_failed disk_ok now None (pt_channel_closed msgs) job))
      | _ \<Rightarrow>
          (case wj_child job of
             Some (Unobservable e) \<Rightarrow> Some (finish_failed disk_ok now None (pt_observe_failed msgs e) job)
           | Some (Exited status) \<Rightarrow> Some (finish_status disk_ok now status job)
           | _ \<Rightarrow> if deadline_passed
                then Some (finish_failed disk_ok now None (pt_timeout msgs) (stop_child after_kill job))
                else None))"

text \<open>One wake-up of the reaper of silent starts.\<close>

datatype reap_verdict = ReapReturn | ReapSpawnPending | ReapAgain | ReapNow

definition reap_check :: "worker_job \<Rightarrow> reap_verdict" where
  "reap_check job =
     (if JobState_is_terminal (wj_state job) \<or> wj_output_seen job then ReapReturn
      else if wj_child job = None then ReapSpawnPending
      else if wj_quiesced_by job \<noteq> None then ReapAgain
      else ReapNow)"

definition reap_if_silent :: "bool \<Rightarrow> datetime \<Rightarrow> string \<Rightarrow> string \<Rightarrow> bool \<Rightarrow> worker_job
    \<Rightarrow> bool \<times> worker_job" where
  "reap_if_silent disk_ok now pending_json stall_json spawn_reported job =
     (case reap_check job of
        ReapReturn \<Rightarrow> (spawn_reported, job)
      | ReapSpawnPending \<Rightarrow>
          (True, if spawn_reported then job else emit now (EvStructured pending_json) job)
      | ReapAgain \<Rightarrow> (spawn_reported, job)
      | ReapNow \<Rightarrow> (spawn_reported, finish_failed disk_ok now None stall_json job))"

section \<open>Cancellation\<close>

datatype CancellationPhase =
    PhRequested | PhGraceful | PhTerminatingProcessGroup | PhKillingProcessGroup | PhConfirmed
  | PhAlreadyTerminal | PhIndeterminate

record cancellation_status =
  cs_execution_id :: uuid
  cs_phase :: CancellationPhase
  cs_terminal :: "terminal_evidence option"

datatype CancellationError = CancelNotFound uuid | CancelSignal string

text \<open>
  The host and the other tasks, as a cancellation sees them: whether the recovery file can be
  written, the clock, the outcome of the signal and of the wait in each phase, the rendered phase
  event, and what other tasks do to the job while the phase's signal and wait are under way.
\<close>

record cancel_env =
  ce_disk_ok :: bool
  ce_now :: datetime
  ce_between :: "CancellationPhase \<Rightarrow> worker_job \<Rightarrow> worker_job"
  ce_signal :: "CancellationPhase \<Rightarrow> string + unit"
  ce_wait :: "CancellationPhase \<Rightarrow> string + exit_status option"
  ce_phase_json :: "CancellationPhase \<Rightarrow> string"

definition signal_job :: "cancel_env \<Rightarrow> CancellationPhase \<Rightarrow> worker_job \<Rightarrow> CancellationError + unit" where
  "signal_job env phase job =
     (if wj_child job = None then Ok () else map_err CancelSignal (ce_signal env phase))"

definition wait_for_exit ::
  "cancel_env \<Rightarrow> CancellationPhase \<Rightarrow> worker_job \<Rightarrow> CancellationError + exit_status option" where
  "wait_for_exit env phase job =
     (if wj_child job = None then Ok None else map_err CancelSignal (ce_wait env phase))"

definition confirmed ::
  "cancel_env \<Rightarrow> exit_status \<Rightarrow> worker_job \<Rightarrow> (CancellationError + cancellation_status) \<times> worker_job" where
  "confirmed env exit job =
     (let ev = terminal_evidence_of (ce_now env) TermKilled (es_code exit) (es_signal exit);
          job' = transition (ce_disk_ok env) (ce_now env) JobKilled (EvKilled ev) job;
          retained = (case job_evidence job' of Some e \<Rightarrow> e | None \<Rightarrow> ev)
      in (Ok \<lparr> cs_execution_id = wj_execution_id job, cs_phase = PhConfirmed,
               cs_terminal = Some retained \<rparr>, job'))"

fun cancel_phases :: "cancel_env \<Rightarrow> CancellationPhase list \<Rightarrow> worker_job
    \<Rightarrow> (CancellationError + cancellation_status) \<times> worker_job" where
  "cancel_phases env [] job =
     (Ok \<lparr> cs_execution_id = wj_execution_id job, cs_phase = PhIndeterminate, cs_terminal = None \<rparr>,
      transition (ce_disk_ok env) (ce_now env) JobIndeterminate
        (EvIndeterminate ''process-group kill was not confirmed'') job)"
| "cancel_phases env (phase # phases) job =
     (let job = ce_between env phase (transition (ce_disk_ok env) (ce_now env) JobCancelling
                  (EvStructured (ce_phase_json env phase)) job) in
      case signal_job env phase job of
        Inl e \<Rightarrow> (Err e, job)
      | Inr _ \<Rightarrow>
          (case wait_for_exit env phase job of
             Inl e \<Rightarrow> (Err e, job)
           | Inr (Some exit) \<Rightarrow> confirmed env exit job
           | Inr None \<Rightarrow> cancel_phases env phases job))"

definition cancel_job ::
  "cancel_env \<Rightarrow> worker_job \<Rightarrow> (CancellationError + cancellation_status) \<times> worker_job" where
  "cancel_job env job =
     (case job_evidence job of
        Some ev \<Rightarrow> (Ok \<lparr> cs_execution_id = wj_execution_id job, cs_phase = PhAlreadyTerminal,
                      cs_terminal = Some ev \<rparr>, job)
      | None \<Rightarrow> cancel_phases env
          [PhRequested, PhTerminatingProcessGroup, PhKillingProcessGroup] job)"

definition quarantine_job :: "bool \<Rightarrow> worker_job \<Rightarrow> worker_job" where
  "quarantine_job disk_ok job = persist disk_ok (job\<lparr> wj_state := JobQuarantined \<rparr>)"

definition acknowledge_job :: "u64 \<Rightarrow> worker_job \<Rightarrow> u64 \<times> worker_job" where
  "acknowledge_job highest job =
     (let ack = max (wj_acknowledged_sequence job)
                  (min highest (journal_last_sequence (wj_journal job)))
      in (ack, job\<lparr> wj_acknowledged_sequence := ack \<rparr>))"

section \<open>Transitions\<close>

lemma persist_simps [simp]:
  "wj_state (persist d job) = wj_state job" "wj_journal (persist d job) = wj_journal job"
  "wj_child (persist d job) = wj_child job" "wj_execution_id (persist d job) = wj_execution_id job"
  "wj_worker_job_id (persist d job) = wj_worker_job_id job"
  "wj_workspace_id (persist d job) = wj_workspace_id job"
  "wj_request_digest (persist d job) = wj_request_digest job"
  "wj_persistent (persist d job) = wj_persistent job"
  "job_evidence (persist d job) = job_evidence job"
  by (simp_all add: persist_def job_evidence_def)

text \<open>What identifies a job and never changes.\<close>

definition job_identity :: "worker_job \<Rightarrow> uuid \<times> uuid \<times> uuid \<times> string" where
  "job_identity job = (wj_execution_id job, wj_worker_job_id job, wj_workspace_id job, wj_request_digest job)"

lemma job_identity_persist [simp]: "job_identity (persist d job) = job_identity job"
  by (simp add: job_identity_def)

lemma transition_cases:
  assumes "journal_inv (wj_journal job)"
  obtains (refused) e where "journal_append (wj_journal job) now p = (Inl e, wj_journal job)"
      "transition d now st p job = job"
  | (appended) s j where "journal_append (wj_journal job) now p = (Inr s, j)"
      "transition d now st p job = persist d (job\<lparr> wj_journal := j, wj_state := st \<rparr>)"
      "journal_inv j" "job_evidence job = None" "ej_terminal j = payload_terminal_evidence p"
proof (cases "journal_append (wj_journal job) now p")
  case (Pair r j)
  show ?thesis
  proof (cases r)
    case (Inl e)
    then have "j = wj_journal job" using Pair jlog.append_Err by blast
    then show ?thesis
      using Pair Inl by (intro refused) (simp_all add: transition_def transition_append_def)
  next
    case (Inr s)
    then show ?thesis
      using Pair jlog.append_Ok [OF assms] by (intro appended)
        (auto simp: transition_def transition_append_def transition_write_def job_evidence_def)
  qed
qed

text \<open>
  The state fits the evidence: an outcome state needs evidence, and evidence goes with its own
  outcome or with quarantine.
\<close>

fun outcome_state :: "TerminalState \<Rightarrow> JobState" where
  "outcome_state TermCompleted = JobCompleted"
| "outcome_state TermFailed = JobFailed"
| "outcome_state TermKilled = JobKilled"
| "outcome_state TermInterrupted = JobInterrupted"

definition state_fits :: "JobState \<Rightarrow> terminal_evidence option \<Rightarrow> bool" where
  "state_fits st evidence = (case evidence of
      None \<Rightarrow> st \<notin> {JobCompleted, JobFailed, JobKilled, JobInterrupted}
    | Some ev \<Rightarrow> st = JobQuarantined \<or> st = outcome_state (te_state ev))"

lemma state_fits_simps [simp]:
  "state_fits st None \<longleftrightarrow> st \<notin> {JobCompleted, JobFailed, JobKilled, JobInterrupted}"
  "state_fits st (Some ev) \<longleftrightarrow> st = JobQuarantined \<or> st = outcome_state (te_state ev)"
  by (simp_all add: state_fits_def)

lemma outcome_state_terminal [simp]: "JobState_is_terminal (outcome_state t)"
  by (cases t) simp_all

lemma state_fits_open: "state_fits st e \<Longrightarrow> \<not> JobState_is_terminal st \<Longrightarrow> e = None"
  by (cases e) auto

definition job_consistent :: "worker_job \<Rightarrow> bool" where
  "job_consistent job \<longleftrightarrow> journal_inv (wj_journal job) \<and> state_fits (wj_state job) (job_evidence job)"

lemma consistent_persist [simp]: "job_consistent (persist d job) = job_consistent job"
  by (simp add: job_consistent_def)

lemma consistent_transition:
  assumes "job_consistent job" "state_fits st (payload_terminal_evidence p)"
  shows "job_consistent (transition d now st p job)"
proof -
  have "journal_inv (wj_journal job)" using assms(1) by (simp add: job_consistent_def)
  then show ?thesis
  proof (cases rule: transition_cases [of job now p d st])
    case refused
    with assms(1) show ?thesis by simp
  next
    case (appended s j)
    then show ?thesis using assms(2) by (simp add: job_consistent_def job_evidence_def)
  qed
qed

lemma emit_evidence:
  assumes "journal_inv (wj_journal job)" "payload_terminal_evidence p = None"
  shows "journal_inv (wj_journal (emit now p job)) \<and> job_evidence (emit now p job) = job_evidence job
    \<and> wj_state (emit now p job) = wj_state job \<and> job_identity (emit now p job) = job_identity job"
proof (cases "journal_append (wj_journal job) now p")
  case (Pair r j)
  then show ?thesis
    using assms jlog.append_Ok [OF assms(1)]
    by (cases r) (auto simp: emit_def job_evidence_def job_identity_def dest: jlog.append_Err)
qed

lemma consistent_emit:
  "job_consistent job \<Longrightarrow> payload_terminal_evidence p = None \<Longrightarrow> job_consistent (emit now p job)"
  using emit_evidence [of job p now] by (simp add: job_consistent_def)

lemma consistent_update:
  "job_consistent (job\<lparr> wj_child := c \<rparr>) = job_consistent job"
  "job_consistent (job\<lparr> wj_output_seen := b \<rparr>) = job_consistent job"
  "job_consistent (job\<lparr> wj_acknowledged_sequence := n \<rparr>) = job_consistent job"
  "job_consistent (job\<lparr> wj_quiesced_by := u \<rparr>) = job_consistent job"
  by (simp_all add: job_consistent_def job_evidence_def)

lemma consistent_finish_with:
  "job_consistent job \<Longrightarrow> te_state ev \<noteq> TermInterrupted \<Longrightarrow> job_consistent (finish_with d now ev job)"
  by (cases "te_state ev") (auto simp: finish_with_def intro!: consistent_transition)

lemma consistent_finish_status: "job_consistent job \<Longrightarrow> job_consistent (finish_status d now s job)"
  by (auto simp: finish_status_def Let_def terminal_evidence_of_def intro!: consistent_finish_with)

lemma consistent_finish_executor:
  "job_consistent job \<Longrightarrow> job_consistent (finish_executor_result d now r job)"
  by (auto simp: finish_executor_result_def Let_def terminal_evidence_of_def
      intro!: consistent_finish_with split: ExecutorExitResult.splits)

lemma consistent_finish_failed: "job_consistent job \<Longrightarrow> job_consistent (finish_failed d now c e job)"
  by (auto simp: finish_failed_def terminal_evidence_of_def intro!: consistent_transition consistent_emit)

lemma consistent_adopt:
  assumes "job_consistent job"
  shows "job_consistent (adopt_child d job)"
proof (cases "JobState_is_terminal (wj_state job)")
  case True
  with assms show ?thesis by (simp add: adopt_child_def)
next
  case False
  then have "job_evidence job = None"
    using assms by (auto simp: job_consistent_def dest: state_fits_open)
  with False assms show ?thesis
    by (simp add: adopt_child_def job_consistent_def job_evidence_def)
qed

lemma consistent_quarantine: "job_consistent job \<Longrightarrow> job_consistent (quarantine_job d job)"
  by (cases "job_evidence job") (auto simp: quarantine_job_def job_consistent_def job_evidence_def)

lemma consistent_stop_child: "job_consistent (stop_child c job) = job_consistent job"
  by (auto simp: stop_child_def consistent_update split: option.splits)

lemma consistent_poll:
  "job_consistent job \<Longrightarrow> run_poll m d now sig k dl job = Some job' \<Longrightarrow> job_consistent job'"
  by (auto simp: run_poll_def Let_def consistent_finish_executor consistent_finish_failed
      consistent_finish_status consistent_stop_child
      split: exit_signal.splits option.splits child.splits if_splits)

lemma consistent_cancel_phases:
  assumes "job_consistent job" "\<And>ph j. job_consistent j \<Longrightarrow> job_consistent (ce_between env ph j)"
  shows "job_consistent (snd (cancel_phases env phases job))"
  using assms(1)
proof (induction phases arbitrary: job)
  case Nil
  then show ?case by (auto intro!: consistent_transition)
next
  case (Cons ph phases)
  let ?j = "ce_between env ph (transition (ce_disk_ok env) (ce_now env) JobCancelling
      (EvStructured (ce_phase_json env ph)) job)"
  have "job_consistent ?j" using Cons.prems by (auto intro!: assms(2) consistent_transition)
  then show ?case
    using Cons.IH [of ?j]
    by (auto simp: Let_def confirmed_def terminal_evidence_of_def intro!: consistent_transition
        split: sum.splits option.splits)
qed

lemma consistent_cancel:
  "job_consistent job \<Longrightarrow> (\<And>ph j. job_consistent j \<Longrightarrow> job_consistent (ce_between env ph j)) \<Longrightarrow>
    job_consistent (snd (cancel_job env job))"
  by (auto simp: cancel_job_def simp del: cancel_phases.simps intro: consistent_cancel_phases
      split: option.splits)

section \<open>The job as a state machine\<close>

text \<open>The job a dispatch creates: its journal holds the acceptance.\<close>

definition new_job :: "uuid \<Rightarrow> uuid \<Rightarrow> uuid \<Rightarrow> string \<Rightarrow> bool \<Rightarrow> nat \<Rightarrow> datetime \<Rightarrow> JournalError + worker_job" where
  "new_job i worker_job workspace digest persistent capacity now =
     try_bind (journal_new i capacity) (\<lambda>journal.
     case journal_append journal now EvAccepted of
       (Inl e, _) \<Rightarrow> Err e
     | (Inr _, journal) \<Rightarrow> Ok \<lparr> wj_execution_id = i, wj_worker_job_id = worker_job,
         wj_workspace_id = workspace, wj_request_digest = digest, wj_state = JobAccepted,
         wj_journal = journal, wj_child = None, wj_acknowledged_sequence = 0,
         wj_persistent = persistent, wj_saved = None, wj_quiesced_by = None,
         wj_output_seen = False \<rparr>)"

definition job_start :: "worker_job \<Rightarrow> bool" where
  "job_start job \<longleftrightarrow> (\<exists>i wid ws dg p c now. new_job i wid ws dg p c now = Ok job)"

text \<open>Which state goes with which event in the calls of \<open>transition\<close>.\<close>

fun allowed_transition :: "JobState \<Rightarrow> ExecutionEventPayload \<Rightarrow> bool" where
  "allowed_transition JobStarting EvStarting = True"
| "allowed_transition JobCancelling (EvStructured _) = True"
| "allowed_transition JobIndeterminate (EvIndeterminate _) = True"
| "allowed_transition JobCompleted (EvCompleted ev) = (te_state ev = TermCompleted)"
| "allowed_transition JobFailed (EvFailed ev) = (te_state ev = TermFailed)"
| "allowed_transition JobKilled (EvKilled ev) = (te_state ev = TermKilled)"
| "allowed_transition _ _ = False"

lemma allowed_fits: "allowed_transition st p \<Longrightarrow> state_fits st (payload_terminal_evidence p)"
  by (induction st p rule: allowed_transition.induct) auto

text \<open>
  The job's operations, each uninterrupted: a transition, an event that is not terminal (output,
  diagnostics), the adoption of the child, what the host does to the child, quarantine, and the
  bookkeeping of cursors and quiescence.
\<close>

inductive job_op :: "worker_job \<Rightarrow> worker_job \<Rightarrow> bool" where
  op_transition: "allowed_transition st p \<Longrightarrow> job_op job (transition d now st p job)"
| op_emit: "payload_terminal_evidence p = None \<Longrightarrow> job_op job (emit now p job)"
| op_adopt: "job_op job (adopt_child d job)"
| op_child: "wj_child job \<noteq> None \<Longrightarrow> job_op job (job\<lparr> wj_child := Some c \<rparr>)"
| op_output: "job_op job (job\<lparr> wj_output_seen := True \<rparr>)"
| op_quarantine: "job_op job (quarantine_job d job)"
| op_acknowledge: "job_op job (snd (acknowledge_job n job))"
| op_quiesce: "job_op job (job\<lparr> wj_quiesced_by := u \<rparr>)"

inductive_cases job_opE: "job_op job job'"

lemma new_job_Ok:
  assumes "new_job i wid ws dg p c now = Inr job"
  obtains j0 s j where "journal_new i c = Inr j0" "journal_append j0 now EvAccepted = (Inr s, j)"
    "wj_journal job = j" "wj_state job = JobAccepted" "job_identity job = (i, wid, ws, dg)"
    "wj_child job = None"
proof (cases "journal_new i c")
  case (Inl e)
  with assms show ?thesis by (simp add: new_job_def)
next
  case (Inr j0)
  obtain r j where app: "journal_append j0 now EvAccepted = (r, j)" by fastforce
  with Inr assms obtain s where "r = Inr s" by (cases r) (simp_all add: new_job_def)
  with Inr app assms show ?thesis
    by (intro that [of j0 s j]) (auto simp: new_job_def job_identity_def)
qed

lemma consistent_new:
  assumes "new_job i wid ws dg p c now = Inr job"
  shows "job_consistent job"
  using assms
proof (rule new_job_Ok)
  fix j0 s j
  assume "journal_new i c = Inr j0" and app: "journal_append j0 now EvAccepted = (Inr s, j)"
    and job: "wj_journal job = j" "wj_state job = JobAccepted"
  then have "journal_inv j0" by (simp add: journal_inv_new)
  from jlog.append_Ok [OF this app] show ?thesis
    using job by (simp add: job_consistent_def job_evidence_def)
qed

interpretation job: absorbing_system job_start job_op job_consistent "\<lambda>job. job_evidence job = Some ev"
  for ev
proof
  show "job_start s \<Longrightarrow> job_consistent s" for s
    by (auto simp: job_start_def dest: consistent_new)
  show "job_consistent s \<Longrightarrow> job_op s t \<Longrightarrow> job_consistent t" for s t
    by (auto elim!: job_opE simp: consistent_update acknowledge_job_def Let_def
        intro: consistent_transition consistent_emit consistent_adopt consistent_quarantine
        dest: allowed_fits)
  show "job_evidence t = Some ev"
    if "job_consistent s" "job_evidence s = Some ev" "job_op s t" for s t
  proof -
    have inv: "journal_inv (wj_journal s)" using that(1) by (simp add: job_consistent_def)
    have "job_evidence (transition d now st p s) = Some ev" for d now st p
      by (cases rule: transition_cases [OF inv, of now p d st]) (use that(2) in auto)
    then show ?thesis
      using that(2,3) emit_evidence [OF inv]
      by (auto elim!: job_opE simp: adopt_child_def quarantine_job_def acknowledge_job_def Let_def
          job_evidence_def)
  qed
qed

text \<open>
  C9: while no two of its operations overlap, a job's state and its journal agree: in every
  reachable state an outcome (completed, failed, killed, interrupted) has terminal evidence of
  that outcome, and a job with terminal evidence is in that outcome's state or quarantined. The
  evidence, once recorded, is never replaced.
\<close>

theorem job_state_fits_evidence:
  assumes "reach job_start job_op job"
  shows "state_fits (wj_state job) (job_evidence job)
    \<and> (\<forall>ev job'. job_evidence job = Some ev \<longrightarrow> job_op\<^sup>*\<^sup>* job job' \<longrightarrow> job_evidence job' = Some ev)"
proof -
  have c: "job_consistent job" using assms by (rule job.inv_reach)
  then have "state_fits (wj_state job) (job_evidence job)" by (simp add: job_consistent_def)
  moreover have "job_evidence job' = Some ev"
    if "job_evidence job = Some ev" "job_op\<^sup>*\<^sup>* job job'" for ev job'
    using job.final_steps [OF that(2) c that(1)] .
  ultimately show ?thesis by blast
qed

section \<open>Overlapping transitions\<close>

text \<open>
  The same machine with \<open>transition\<close> in its two atomic parts: a state that was appended to the
  journal and not yet written is in flight.
\<close>

inductive overlap_step :: "worker_job \<times> JobState list \<Rightarrow> worker_job \<times> JobState list \<Rightarrow> bool" where
  ov_append: "allowed_transition st p \<Longrightarrow> transition_append now p job = (True, job') \<Longrightarrow>
    overlap_step (job, fl) (job', fl @ [st])"
| ov_write: "st \<in> set fl \<Longrightarrow> overlap_step (job, fl) (transition_write d st job, remove1 st fl)"
| ov_other: "job_op job job' \<Longrightarrow> overlap_step (job, fl) (job', fl)"

definition race_job :: worker_job where
  "race_job = projr (new_job 1 2 3 ''d'' False 8 0)"

definition race_running :: worker_job where
  "race_running = (adopt_child True race_job)\<lparr> wj_child := Some (Exited \<lparr> es_code = Some 0, es_signal = None \<rparr>) \<rparr>"

definition race_cancelled :: worker_job where
  "race_cancelled = snd (transition_append 1 (EvStructured ''requested'') race_running)"

definition race_evidence :: terminal_evidence where
  "race_evidence = terminal_evidence_of 1 TermCompleted (Some 0) None"

definition race_completed :: worker_job where
  "race_completed = transition_write True JobCompleted
     (snd (transition_append 1 (EvCompleted race_evidence) race_cancelled))"

definition race_end :: worker_job where
  "race_end = transition_write True JobCancelling race_completed"

lemmas race_defs = race_end_def race_completed_def race_evidence_def race_cancelled_def
  race_running_def race_job_def new_job_def journal_new_def journal_append_def checked_add_def
  adopt_child_def transition_append_def transition_write_def persist_def terminal_evidence_of_def

lemma race_start: "job_start race_job"
proof -
  have "new_job 1 2 3 ''d'' False 8 0 = Inr race_job"
    by (simp add: race_job_def new_job_def journal_new_def journal_append_def checked_add_def Let_def)
  then show ?thesis unfolding job_start_def by blast
qed

lemma race_steps: "overlap_step\<^sup>*\<^sup>* (race_job, []) (race_end, [])"
proof -
  have 1: "overlap_step (race_job, []) (adopt_child True race_job, [])"
    by (intro ov_other op_adopt)
  have 2: "overlap_step (adopt_child True race_job, []) (race_running, [])"
    unfolding race_running_def by (intro ov_other op_child) (simp add: race_defs Let_def)
  have 3: "overlap_step (race_running, []) (race_cancelled, [JobCancelling])"
    using ov_append [of JobCancelling "EvStructured ''requested''" 1 race_running race_cancelled "[]"]
    by (simp add: race_defs Let_def)
  have 4: "overlap_step (race_cancelled, [JobCancelling])
      (snd (transition_append 1 (EvCompleted race_evidence) race_cancelled), [JobCancelling, JobCompleted])"
    using ov_append [of JobCompleted "EvCompleted race_evidence" 1 race_cancelled
        "snd (transition_append 1 (EvCompleted race_evidence) race_cancelled)" "[JobCancelling]"]
    by (simp add: race_defs Let_def)
  have 5: "overlap_step (snd (transition_append 1 (EvCompleted race_evidence) race_cancelled),
      [JobCancelling, JobCompleted]) (race_completed, [JobCancelling])"
    unfolding race_completed_def
    using ov_write [of JobCompleted "[JobCancelling, JobCompleted]" _ True] by simp
  have 6: "overlap_step (race_completed, [JobCancelling]) (race_end, [])"
    unfolding race_end_def using ov_write [of JobCancelling "[JobCancelling]" _ True] by simp
  show ?thesis
    by (meson 1 2 3 4 5 6 converse_rtranclp_into_rtranclp rtranclp.rtrancl_refl)
qed

text \<open>
  Overlapping transitions can leave a finished job cancelling for ever. If the job ends
  between a cancellation's append and its write of the state, the cancellation's write comes
  last: with nothing in flight and the process gone, the journal holds the completion, the
  state says cancelling, no further transition is accepted, and the job counts as active for
  drain.
\<close>

theorem cancellation_race_leaves_cancelling:
  "\<exists>start job. job_start start \<and> overlap_step\<^sup>*\<^sup>* (start, []) (job, [])
     \<and> job_evidence job = Some race_evidence \<and> wj_state job = JobCancelling
     \<and> wj_child job = Some (Exited \<lparr> es_code = Some 0, es_signal = None \<rparr>) \<and> is_active_for_drain job
     \<and> (\<forall>d now st p. transition d now st p job = job)"
proof (intro exI conjI allI)
  show "job_start race_job" by (rule race_start)
  show "overlap_step\<^sup>*\<^sup>* (race_job, []) (race_end, [])" by (rule race_steps)
  show ev: "job_evidence race_end = Some race_evidence"
    by (simp add: race_defs job_evidence_def Let_def)
  show "wj_state race_end = JobCancelling" "is_active_for_drain race_end"
    by (simp_all add: race_end_def transition_write_def is_active_for_drain_def)
  show "wj_child race_end = Some (Exited \<lparr> es_code = Some 0, es_signal = None \<rparr>)"
    by (simp add: race_defs Let_def)
  show "transition d now st p race_end = race_end" for d now st p
    using ev by (simp add: transition_def transition_append_def journal_append_def job_evidence_def)
qed

section \<open>What a cancellation answers\<close>

text \<open>Other tasks, while a cancellation waits, only use the job's operations.\<close>

definition env_ok :: "cancel_env \<Rightarrow> bool" where
  "env_ok env \<longleftrightarrow> (\<forall>ph j. job_op\<^sup>*\<^sup>* j (ce_between env ph j))"

lemma confirmed_spec:
  assumes "job_consistent job" "confirmed env exit job = (r, job')"
  shows "\<exists>st ev. r = Inr st \<and> cs_phase st = PhConfirmed \<and> cs_terminal st = Some ev
    \<and> (job_evidence job' = Some ev \<or> ej_next_sequence (wj_journal job') = - 1)"
proof -
  let ?ev = "terminal_evidence_of (ce_now env) TermKilled (es_code exit) (es_signal exit)"
  let ?j = "transition (ce_disk_ok env) (ce_now env) JobKilled (EvKilled ?ev) job"
  have inv: "journal_inv (wj_journal job)" using assms(1) by (simp add: job_consistent_def)
  from inv have "job_evidence ?j \<noteq> None \<or> ej_next_sequence (wj_journal ?j) = - 1"
  proof (cases rule: transition_cases [of job "ce_now env" "EvKilled ?ev" "ce_disk_ok env" JobKilled])
    case (refused e)
    then show ?thesis
      by (auto simp: journal_append_def Let_def job_evidence_def
          split: if_splits option.splits dest: checked_add_one_None)
  next
    case (appended s j)
    then show ?thesis by (simp add: job_evidence_def)
  qed
  then show ?thesis
    using assms(2) by (auto simp: confirmed_def Let_def)
qed

lemma cancel_phases_spec:
  assumes "job_consistent job" "env_ok env" "cancel_phases env phases job = (Inr st, job')"
  shows "(cs_phase st = PhConfirmed \<and> (\<exists>ev. cs_terminal st = Some ev
      \<and> (job_evidence job' = Some ev \<or> ej_next_sequence (wj_journal job') = - 1)))
    \<or> (cs_phase st = PhIndeterminate \<and> cs_terminal st = None)"
  using assms(1,3)
proof (induction phases arbitrary: job)
  case Nil
  then show ?case by auto
next
  case (Cons ph phases)
  let ?j = "ce_between env ph (transition (ce_disk_ok env) (ce_now env) JobCancelling
      (EvStructured (ce_phase_json env ph)) job)"
  have "job_consistent (transition (ce_disk_ok env) (ce_now env) JobCancelling
      (EvStructured (ce_phase_json env ph)) job)"
    using Cons.prems(1) by (rule consistent_transition) simp
  then have "job_consistent ?j"
    using assms(2) unfolding env_ok_def by (blast intro: job.inv_steps)
  then show ?case
    using Cons.IH [of ?j] Cons.prems(2) confirmed_spec [of ?j env]
    by (auto simp: Let_def split: sum.splits option.splits)
qed


section \<open>Witnesses\<close>

lemma race_reach: "reach job_start job_op race_job"
  using race_start by (rule reach_start)

lemma race_reach_running: "reach job_start job_op race_running"
proof -
  have "reach job_start job_op (adopt_child True race_job)"
    by (rule reach_step [rotated], rule op_adopt) (rule race_reach)
  moreover have "job_op (adopt_child True race_job) race_running"
    unfolding race_running_def by (rule op_child) (simp add: race_defs Let_def)
  ultimately show ?thesis by (rule reach_step)
qed

lemma race_finish: "finish_status True 5 \<lparr> es_code = Some 0, es_signal = None \<rparr> race_running
    = transition True 5 JobCompleted (EvCompleted (terminal_evidence_of 5 TermCompleted (Some 0) None)) race_running"
  by (simp add: finish_status_def finish_with_def exit_success_def terminal_evidence_of_def race_defs Let_def)

theorem job_state_fits_evidence_witness:
  "state_fits (wj_state (finish_status True 5 \<lparr> es_code = Some 0, es_signal = None \<rparr> race_running))
     (job_evidence (finish_status True 5 \<lparr> es_code = Some 0, es_signal = None \<rparr> race_running))"
proof -
  have "job_op race_running (finish_status True 5 \<lparr> es_code = Some 0, es_signal = None \<rparr> race_running)"
    unfolding race_finish by (rule op_transition) (simp add: terminal_evidence_of_def)
  then have "reach job_start job_op (finish_status True 5 \<lparr> es_code = Some 0, es_signal = None \<rparr> race_running)"
    by (rule reach_step [rotated]) (rule race_reach_running)
  from job_state_fits_evidence [OF this] show ?thesis by blast
qed

definition quiet_env :: cancel_env where
  "quiet_env = \<lparr> ce_disk_ok = True, ce_now = 9, ce_between = (\<lambda>_ j. j), ce_signal = (\<lambda>_. Ok ()),
     ce_wait = (\<lambda>_. Ok (Some \<lparr> es_code = None, es_signal = Some 2 \<rparr>)), ce_phase_json = (\<lambda>_. ''{}'') \<rparr>"


end
