(* ===== verification/Worker_Admission.thy ===== *)
theory Worker_Admission
  imports Data_Model Rust_Strings
begin

text \<open>
  What a worker checks before it takes work: the pressure of its host
  (\<open>crates/worker/src/pressure.rs\<close>) and the paths a dispatch names
  (\<open>crates/worker/src/path_authority.rs\<close> and \<open>authorize_working_directory\<close> of
  \<open>crates/worker/src/execution.rs\<close>). The host is a parameter: the pressure reading, and
  \<open>fs::canonicalize\<close> as a partial function on paths.
\<close>

section \<open>Pressure\<close>

record pressure_reading =
  pr_memory_full_avg60 :: "f64 option"
  pr_io_full_avg60 :: "f64 option"

record pressure_refusal =
  pf_resource :: string
  pf_full_avg60 :: f64
  pf_threshold :: f64

record pressure_status =
  ps_memory_full_avg60 :: "f64 option"
  ps_io_full_avg60 :: "f64 option"
  ps_threshold :: "f64 option"
  ps_admission_refusing :: bool

text \<open>Comparison of doubles: false when either side is not a number.\<close>

fun fge :: "f64 \<Rightarrow> f64 \<Rightarrow> bool" where
  "fge FNaN _ = False"
| "fge _ FNaN = False"
| "fge a b = (b \<le> a)"

definition parse_threshold :: "string \<Rightarrow> 8 word option option" where
  "parse_threshold v = (case parse_u8 (trim v) of
      None \<Rightarrow> None
    | Some t \<Rightarrow> if t \<le> 100 then Some (if t > 0 then Some t else None) else None)"

definition from_host_threshold :: "8 word option \<Rightarrow> f64 option" where
  "from_host_threshold t = map_option (\<lambda>t. FFin (of_nat (unat t))) t"

fun first_over :: "f64 \<Rightarrow> (string \<times> f64 option) list \<Rightarrow> pressure_refusal + unit" where
  "first_over t [] = Ok ()"
| "first_over t ((resource, v) # rest) =
     (case v of
        Some x \<Rightarrow> if fge x t
          then Err \<lparr> pf_resource = resource, pf_full_avg60 = x, pf_threshold = t \<rparr>
          else first_over t rest
      | None \<Rightarrow> first_over t rest)"

definition evaluate_pressure :: "f64 option \<Rightarrow> pressure_reading \<Rightarrow> pressure_refusal + unit" where
  "evaluate_pressure threshold reading =
     (case threshold of
        None \<Rightarrow> Ok ()
      | Some t \<Rightarrow> first_over t [(''memory'', pr_memory_full_avg60 reading), (''io'', pr_io_full_avg60 reading)])"

definition status_of_pressure :: "f64 option \<Rightarrow> pressure_reading \<Rightarrow> pressure_status" where
  "status_of_pressure threshold reading =
     \<lparr> ps_memory_full_avg60 = pr_memory_full_avg60 reading,
       ps_io_full_avg60 = pr_io_full_avg60 reading, ps_threshold = threshold,
       ps_admission_refusing = is_err (evaluate_pressure threshold reading) \<rparr>"

lemma evaluate_pressure_Ok:
  "evaluate_pressure threshold r = Inr () \<longleftrightarrow>
    (\<forall>t. threshold = Some t \<longrightarrow>
      (\<forall>x. pr_memory_full_avg60 r = Some x \<or> pr_io_full_avg60 r = Some x \<longrightarrow> \<not> fge x t))"
  by (auto simp: evaluate_pressure_def split: option.splits)

lemma parse_threshold_range: "parse_threshold v = Some (Some t) \<Longrightarrow> 0 < t \<and> t \<le> 100"
  by (auto simp: parse_threshold_def split: option.splits if_splits)

section \<open>Paths\<close>

datatype 'io PathAuthorityError =
    RelativeSharedRoot string
  | RelativeWorkspacePath string
  | SharedRootUnavailable string 'io
  | WorkspacePathUnavailable string 'io
  | OutsideSharedRoot string string
      \<comment> \<open>path, shared root\<close>

type_synonym 'io canonicalize = "string \<Rightarrow> 'io + string"

definition path_authority_new :: "'io canonicalize \<Rightarrow> string \<Rightarrow> 'io PathAuthorityError + string" where
  "path_authority_new canon shared_root =
     (if \<not> path_is_absolute shared_root then Err (RelativeSharedRoot shared_root)
      else map_err (SharedRootUnavailable shared_root) (canon shared_root))"

definition authorize_workspace_path ::
  "'io canonicalize \<Rightarrow> string \<Rightarrow> string \<Rightarrow> 'io PathAuthorityError + string" where
  "authorize_workspace_path canon shared_root workspace_path =
     (if \<not> path_is_absolute workspace_path then Err (RelativeWorkspacePath workspace_path)
      else try_bind (map_err (WorkspacePathUnavailable workspace_path) (canon workspace_path)) (\<lambda>canonical.
        if \<not> path_starts_with canonical shared_root then Err (OutsideSharedRoot canonical shared_root)
        else Ok canonical))"

datatype 'io DirectoryError = DirPathAuthority "'io PathAuthorityError" | DirOutsideWorkspace

definition authorize_working_directory ::
  "'io canonicalize \<Rightarrow> string \<Rightarrow> string \<Rightarrow> string \<Rightarrow> 'io DirectoryError + string" where
  "authorize_working_directory canon shared_root workspace_path requested =
     (let candidate = (if path_is_absolute requested then requested
                       else path_join workspace_path requested) in
      try_bind (map_err DirPathAuthority (authorize_workspace_path canon shared_root candidate)) (\<lambda>canonical.
        if \<not> path_starts_with canonical workspace_path then Err DirOutsideWorkspace
        else Ok canonical))"

lemma authorize_workspace_path_Ok:
  "authorize_workspace_path canon shr p = Inr c \<longleftrightarrow>
    path_is_absolute p \<and> canon p = Inr c \<and> path_starts_with c shr"
  by (auto simp: authorize_workspace_path_def split: if_splits)

lemma authorize_working_directory_Ok:
  "authorize_working_directory canon shr ws req = Inr c \<Longrightarrow>
    path_starts_with c shr \<and> path_starts_with c ws \<and> (\<exists>p. canon p = Inr c)"
  by (auto simp: authorize_working_directory_def Let_def authorize_workspace_path_Ok split: if_splits)

text \<open>
  A path that is authorized is a canonical path, so no symbolic link or \<open>..\<close> is left in it to
  follow, and lies under the canonical shared root; a working directory lies under the
  workspace as well. Containment is by whole path components: a sibling directory whose name
  merely starts with the root's name is not inside it.
\<close>

theorem authorized_paths_contained:
  assumes "\<And>p c. canon p = Ok c \<Longrightarrow> ParentDir \<notin> set (path_components c)"
    and "authorize_workspace_path canon shr p = Ok ws"
    and "authorize_working_directory canon shr ws requested = Ok dir"
  shows "path_starts_with ws shr \<and> path_starts_with dir ws \<and> path_starts_with dir shr
    \<and> ParentDir \<notin> set (path_components dir)
    \<and> (\<exists>rest. path_components dir = path_components shr @ rest)"
proof -
  have ws: "path_starts_with ws shr" using assms(2) by (simp add: authorize_workspace_path_Ok)
  have dir: "path_starts_with dir ws" "path_starts_with dir shr" "\<exists>q. canon q = Inr dir"
    using authorize_working_directory_Ok [OF assms(3)] by auto
  then have "ParentDir \<notin> set (path_components dir)" using assms(1) by blast
  moreover have "\<exists>rest. path_components dir = path_components shr @ rest"
    using dir(2) by (simp add: path_starts_with_def list_starts_with_iff)
  ultimately show ?thesis using ws dir by blast
qed

definition demo_canon :: "unit canonicalize" where
  "demo_canon p = (if p = ''/srv/w'' then Ok ''/srv/w'' else if p = ''/srv/w/r'' then Ok ''/srv/w/r''
     else if p = ''/srv/w/../x'' then Ok ''/srv/x'' else Err ())"

lemmas path_eval = path_starts_with_def path_components_def path_is_absolute_def path_join_def
  map_filter_def

theorem authorized_paths_contained_witness:
  "path_starts_with ''/srv/w/r'' ''/srv''"
proof -
  have "authorize_workspace_path demo_canon ''/srv'' ''/srv/w'' = Inr ''/srv/w''"
    by (simp add: authorize_workspace_path_def demo_canon_def path_eval)
  moreover have "authorize_working_directory demo_canon ''/srv'' ''/srv/w'' ''r'' = Inr ''/srv/w/r''"
    by (simp add: authorize_working_directory_def authorize_workspace_path_def demo_canon_def path_eval)
  moreover have "\<And>p c. demo_canon p = Inr c \<Longrightarrow> ParentDir \<notin> set (path_components c)"
    by (auto simp: demo_canon_def path_eval split: if_splits)
  ultimately show ?thesis
    using authorized_paths_contained [of demo_canon "''/srv''" "''/srv/w''" "''/srv/w''" "''r''" "''/srv/w/r''"]
    by blast
qed

end
