(* ===== verification/Worker_Supervisor.thy ===== *)
theory Worker_Supervisor
  imports Worker_Job Worker_Admission
begin

text \<open>
  The worker's supervisor (\<open>ExecutionSupervisor\<close> in \<open>crates/worker/src/execution.rs\<close>): admission
  and dispatch of executions, recovery of the saved jobs after a restart
  (with \<open>crates/worker/src/recovery.rs\<close>), quiescing, quarantine, acknowledgement, inventory and the
  count of active executions.

  The map of jobs is a list with one job per execution id. The host is a parameter (\<open>host\<close>):
  canonical paths, the pressure reading, the two readings of the draining flag, the parsing of an
  action, the resolution of profiles and the preparation of MCP configuration, the state of the
  worktrees, the disk, fresh ids and the clock.
\<close>

datatype 'io ExecutionError =
    DigestConflict uuid
  | InvalidAction string
  | EmptyProgram
  | InvalidMcpSnapshot string
  | McpMaterialization string
  | CodexConfig uuid string
  | McpReload
  | WorkingDirectoryOutsideWorkspace
  | ExPathAuthority "'io PathAuthorityError"
  | ExJournal JournalError
  | ExNotFound uuid
  | ExDraining
  | UnderPressure pressure_refusal
  | WorktreeUnusable string
  | ExRecovery

record execution_dispatch =
  ed_execution_id :: uuid
  ed_workspace_id :: uuid
  ed_session_id :: uuid
  ed_workspace_path :: string
  ed_working_directory :: string
  ed_executor_profile :: string
  ed_executor_profile_config :: "json option"
  ed_mcp_config_snapshot :: "json option"
  ed_action :: json
  ed_environment :: "(string \<times> string) list"
  ed_timeout_seconds :: "u64 option"
  ed_request_digest :: string

datatype worker_action = Command string "string list" | Executor json

record supervisor =
  sv_shared_root :: string
  sv_jobs :: "worker_job list"
  sv_journal_capacity :: nat
  sv_persistent :: bool
  sv_threshold :: "f64 option"
  sv_admitting :: u32

record 'io host =
  h_canon :: "'io canonicalize"
  h_reading :: pressure_reading
  h_draining :: bool
  h_draining_again :: bool
  h_parse_action :: "json \<Rightarrow> string + worker_action"
  h_resolve :: "worker_action \<Rightarrow> execution_dispatch \<Rightarrow> 'io ExecutionError + (string \<Rightarrow> string) option"
    \<comment> \<open>for a Codex action, the directory it takes relative to a base\<close>
  h_prepare :: "worker_action \<Rightarrow> execution_dispatch \<Rightarrow> string \<Rightarrow> 'io ExecutionError + unit"
  h_worktrees :: "string \<Rightarrow> 'io ExecutionError + unit"
  h_disk_ok :: bool
  h_new_id :: uuid
  h_now :: datetime

definition find_worker_job :: "uuid \<Rightarrow> supervisor \<Rightarrow> worker_job option" where
  "find_worker_job i sv = sql_find wj_execution_id i (sv_jobs sv)"

section \<open>Dispatch\<close>

definition dir_error :: "'io DirectoryError \<Rightarrow> 'io ExecutionError" where
  "dir_error e = (case e of DirPathAuthority p \<Rightarrow> ExPathAuthority p
     | DirOutsideWorkspace \<Rightarrow> WorkingDirectoryOutsideWorkspace)"

definition authorize_codex_action_directory ::
  "'io canonicalize \<Rightarrow> string \<Rightarrow> string \<Rightarrow> string \<Rightarrow> 'io ExecutionError + string" where
  "authorize_codex_action_directory canon shared_root workspace effective =
     try_bind (map_err ExPathAuthority (authorize_workspace_path canon shared_root effective)) (\<lambda>canonical.
       if \<not> path_starts_with canonical workspace then Err WorkingDirectoryOutsideWorkspace
       else Ok canonical)"

text \<open>
  The checks of a new dispatch, in the order of the source; the result is the directory the
  execution runs in. The count of dispatches being admitted is raised and lowered again inside.
\<close>

definition admit :: "'io host \<Rightarrow> supervisor \<Rightarrow> execution_dispatch \<Rightarrow> 'io ExecutionError + string" where
  "admit host sv d =
     (if h_draining host then Err ExDraining
      else try_bind (map_err UnderPressure (evaluate_pressure (sv_threshold sv) (h_reading host))) (\<lambda>_.
      if h_draining_again host then Err ExDraining
      else try_bind (map_err ExPathAuthority
             (authorize_workspace_path (h_canon host) (sv_shared_root sv) (ed_workspace_path d))) (\<lambda>workspace.
      try_bind (map_err dir_error (authorize_working_directory (h_canon host) (sv_shared_root sv)
             workspace (ed_working_directory d))) (\<lambda>dir.
      try_bind (map_err InvalidAction (h_parse_action host (ed_action d))) (\<lambda>action.
      try_bind (h_resolve host action d) (\<lambda>codex.
      try_bind (case codex of None \<Rightarrow> Ok dir
                | Some effective_dir \<Rightarrow> authorize_codex_action_directory (h_canon host)
                    (sv_shared_root sv) workspace (effective_dir dir)) (\<lambda>dir.
      try_bind (h_prepare host action d dir) (\<lambda>_.
      try_bind (case action of Command program _ \<Rightarrow>
                    if trim program = [] then Err EmptyProgram else Ok ()
                | Executor _ \<Rightarrow> Ok ()) (\<lambda>_.
      try_bind (h_worktrees host workspace) (\<lambda>_.
      Ok dir))))))))))"

definition put_job :: "worker_job \<Rightarrow> supervisor \<Rightarrow> supervisor" where
  "put_job job sv = sv\<lparr> sv_jobs :=
     filter (\<lambda>j. wj_execution_id j \<noteq> wj_execution_id job) (sv_jobs sv) @ [job] \<rparr>"

text \<open>The answer, the supervisor afterwards, and the execution launched, with its directory.\<close>

definition dispatch :: "'io host \<Rightarrow> execution_dispatch \<Rightarrow> supervisor
    \<Rightarrow> ('io ExecutionError + dispatch_accepted) \<times> supervisor \<times> (uuid \<times> string) option" where
  "dispatch host d sv =
     (case find_worker_job (ed_execution_id d) sv of
        Some existing \<Rightarrow>
          (if wj_request_digest existing \<noteq> ed_request_digest d
           then Err (DigestConflict (ed_execution_id d))
           else Ok (job_accepted existing), sv, None)
      | None \<Rightarrow>
          (case try_bind (admit host sv d) (\<lambda>dir.
                try_bind (map_err ExJournal (new_job (ed_execution_id d) (h_new_id host)
                  (ed_workspace_id d) (ed_request_digest d) (sv_persistent sv)
                  (sv_journal_capacity sv) (h_now host))) (\<lambda>job. Ok (dir, job))) of
             Inl e \<Rightarrow> (Err e, sv, None)
           | Inr (dir, job) \<Rightarrow>
               (Ok \<lparr> da_execution_id = ed_execution_id d, da_worker_job_id = h_new_id host,
                     da_request_digest = ed_request_digest d, da_state = JobAccepted,
                     da_last_sequence = 1 \<rparr>,
                put_job (persist (h_disk_ok host) job) sv, Some (ed_execution_id d, dir))))"

section \<open>Recovery\<close>

definition interrupted_evidence :: "datetime \<Rightarrow> terminal_evidence" where
  "interrupted_evidence now = \<lparr> te_state = TermInterrupted, te_exit_code = None, te_signal = None,
     te_observed_at = now \<rparr>"

text \<open>
  One saved summary: it keeps its outcome if it has terminal evidence and a terminal state, and is
  interrupted otherwise.
\<close>

definition recovered_summary :: "datetime \<Rightarrow> job_summary \<Rightarrow> job_summary \<times> terminal_evidence" where
  "recovered_summary now s =
     (case js_terminal s of
        Some ev \<Rightarrow> if JobState_is_terminal (js_state s) then (s, ev)
          else (s\<lparr> js_state := JobInterrupted, js_terminal := Some (interrupted_evidence now) \<rparr>,
                interrupted_evidence now)
      | None \<Rightarrow> (s\<lparr> js_state := JobInterrupted, js_terminal := Some (interrupted_evidence now) \<rparr>,
                 interrupted_evidence now))"

definition DEFAULT_JOURNAL_CAPACITY :: nat where
  "DEFAULT_JOURNAL_CAPACITY = 4096"

definition recover_job :: "bool \<Rightarrow> datetime \<Rightarrow> job_summary \<Rightarrow> 'io ExecutionError + worker_job" where
  "recover_job disk_ok now s =
     (let (s', ev) = recovered_summary now s in
      if \<not> disk_ok then Err ExRecovery
      else try_bind (map_err ExJournal (journal_recover s' DEFAULT_JOURNAL_CAPACITY ev)) (\<lambda>journal.
        let s'' = s'\<lparr> js_last_sequence := journal_last_sequence journal \<rparr> in
        Ok \<lparr> wj_execution_id = js_execution_id s'', wj_worker_job_id = js_worker_job_id s'',
             wj_workspace_id = js_workspace_id s'', wj_request_digest = js_request_digest s'',
             wj_state = js_state s'', wj_journal = journal, wj_child = None,
             wj_acknowledged_sequence = 0, wj_persistent = True, wj_saved = Some s'',
             wj_quiesced_by = None, wj_output_seen = False \<rparr>))"

fun recover_jobs :: "bool \<Rightarrow> datetime \<Rightarrow> job_summary list \<Rightarrow> supervisor \<Rightarrow> 'io ExecutionError + supervisor" where
  "recover_jobs disk_ok now [] sv = Ok sv"
| "recover_jobs disk_ok now (s # rest) sv =
     try_bind (recover_job disk_ok now s) (\<lambda>job. recover_jobs disk_ok now rest (put_job job sv))"

definition load_summaries :: "worker_job list \<Rightarrow> job_summary list" where
  "load_summaries jobs = sort_key js_execution_id (List.map_filter wj_saved jobs)"

section \<open>Quiescing\<close>

definition child_pid_known :: "worker_job \<Rightarrow> bool" where
  "child_pid_known job \<longleftrightarrow> (case wj_child job of Some Alive \<Rightarrow> True | Some (Unobservable _) \<Rightarrow> True | _ \<Rightarrow> False)"

definition set_job :: "uuid \<Rightarrow> (worker_job \<Rightarrow> worker_job) \<Rightarrow> supervisor \<Rightarrow> supervisor" where
  "set_job i f sv = sv\<lparr> sv_jobs := sql_modify wj_execution_id (sv_jobs sv) i f \<rparr>"

text \<open>\<open>kill_ok\<close> tells whether the \<open>kill\<close> command succeeded.\<close>

definition set_quiesced :: "bool \<Rightarrow> uuid \<Rightarrow> uuid \<Rightarrow> uuid \<Rightarrow> bool \<Rightarrow> supervisor
    \<Rightarrow> ('io ExecutionError + unit) \<times> supervisor" where
  "set_quiesced kill_ok i workspace operation quiesced sv =
     (case find_worker_job i sv of
        None \<Rightarrow> (Err (ExNotFound i), sv)
      | Some job \<Rightarrow>
          if wj_workspace_id job \<noteq> workspace \<or> (quiesced \<and> wj_state job \<noteq> JobRunning)
             \<or> (\<not> quiesced \<and> JobState_is_terminal (wj_state job))
          then (Err (ExNotFound i), sv)
          else if quiesced \<and> is_some_and (wj_quiesced_by job) (\<lambda>owner. owner \<noteq> operation)
          then (Err (DigestConflict i), sv)
          else if quiesced \<and> wj_quiesced_by job = Some operation then (Ok (), sv)
          else if \<not> quiesced \<and> wj_quiesced_by job \<noteq> Some operation then (Err (DigestConflict i), sv)
          else if \<not> child_pid_known job \<or> \<not> kill_ok then (Err (ExNotFound i), sv)
          else (Ok (), set_job i (\<lambda>j. j\<lparr> wj_quiesced_by := (if quiesced then Some operation else None) \<rparr>) sv))"

definition resume_quiesced :: "bool \<Rightarrow> uuid \<Rightarrow> uuid \<Rightarrow> uuid \<Rightarrow> supervisor
    \<Rightarrow> ('io ExecutionError + unit) \<times> supervisor" where
  "resume_quiesced kill_ok i workspace operation sv =
     (case find_worker_job i sv of
        None \<Rightarrow> (Err (ExNotFound i), sv)
      | Some job \<Rightarrow>
          if wj_workspace_id job \<noteq> workspace \<or> JobState_is_terminal (wj_state job)
          then (Err (ExNotFound i), sv)
          else if wj_quiesced_by job \<noteq> Some operation then (Err (DigestConflict i), sv)
          else if \<not> child_pid_known job \<or> \<not> kill_ok then (Err (ExNotFound i), sv)
          else (Ok (), set_job i (\<lambda>j. j\<lparr> wj_quiesced_by := None \<rparr>) sv))"

section \<open>Queries and simple updates\<close>

definition events :: "uuid \<Rightarrow> u64 \<Rightarrow> supervisor \<Rightarrow> 'io ExecutionError + event_batch" where
  "events i after sv = try_bind (ok_or (find_worker_job i sv) (ExNotFound i))
     (\<lambda>job. Ok (journal_replay_after (wj_journal job) after))"

definition inventory :: "supervisor \<Rightarrow> job_summary list" where
  "inventory sv = sort_key js_execution_id (map job_summary_of (sv_jobs sv))"

definition active_execution_count :: "supervisor \<Rightarrow> u32" where
  "active_execution_count sv =
     saturating_add (fold (\<lambda>job n. if is_active_for_drain job then saturating_add n 1 else n) (sv_jobs sv) 0)
       (sv_admitting sv)"

definition acknowledge :: "uuid \<Rightarrow> u64 \<Rightarrow> supervisor \<Rightarrow> ('io ExecutionError + u64) \<times> supervisor" where
  "acknowledge i highest sv =
     (case find_worker_job i sv of
        None \<Rightarrow> (Err (ExNotFound i), sv)
      | Some job \<Rightarrow> (Ok (fst (acknowledge_job highest job)), set_job i (\<lambda>j. snd (acknowledge_job highest j)) sv))"

definition authorizes_preview :: "uuid \<Rightarrow> uuid \<Rightarrow> uuid \<Rightarrow> supervisor \<Rightarrow> bool" where
  "authorizes_preview i workspace worker_job sv = is_some_and (find_worker_job i sv) (\<lambda>job.
     wj_workspace_id job = workspace \<and> wj_worker_job_id job = worker_job
     \<and> \<not> JobState_is_terminal (wj_state job))"

definition authorizes_session_transfer :: "uuid \<Rightarrow> uuid \<Rightarrow> supervisor \<Rightarrow> bool" where
  "authorizes_session_transfer i workspace sv = is_some_and (find_worker_job i sv) (\<lambda>job.
     wj_workspace_id job = workspace \<and> wj_state job = JobRunning)"

definition quarantine :: "bool \<Rightarrow> uuid \<Rightarrow> supervisor \<Rightarrow> ('io ExecutionError + job_summary) \<times> supervisor" where
  "quarantine disk_ok i sv =
     (case find_worker_job i sv of
        None \<Rightarrow> (Err (ExNotFound i), sv)
      | Some job \<Rightarrow> (Ok (job_summary_of (quarantine_job disk_ok job)), set_job i (quarantine_job disk_ok) sv))"

definition cancel_execution :: "cancel_env \<Rightarrow> uuid \<Rightarrow> supervisor
    \<Rightarrow> (CancellationError + cancellation_status) \<times> supervisor" where
  "cancel_execution env i sv =
     (case find_worker_job i sv of
        None \<Rightarrow> (Err (CancelNotFound i), sv)
      | Some job \<Rightarrow> (fst (cancel_job env job), set_job i (\<lambda>j. snd (cancel_job env j)) sv))"

section \<open>The jobs a supervisor keeps\<close>

interpretation sjobs: keyed_store "\<lambda>sv i. find_worker_job i sv" "\<lambda>sv i f. set_job i f sv"
  "keeps_key wj_execution_id"
  by unfold_locales (simp add: find_worker_job_def set_job_def sql_find_modify)

lemma find_put_job:
  "find_worker_job i (put_job job sv) =
     (if i = wj_execution_id job then Some job else find_worker_job i sv)"
proof -
  have "sql_find wj_execution_id i (filter (\<lambda>j. wj_execution_id j \<noteq> wj_execution_id job) js) =
      (if i = wj_execution_id job then None else sql_find wj_execution_id i js)" for js
    by (induction js) auto
  from this [of "sv_jobs sv"] show ?thesis
    by (cases "i = wj_execution_id job"; cases "sql_find wj_execution_id i (sv_jobs sv)")
      (simp_all add: find_worker_job_def put_job_def sql_find_append)
qed

lemma find_worker_job_id: "find_worker_job i sv = Some job \<Longrightarrow> wj_execution_id job = i"
  by (auto simp: find_worker_job_def dest: sql_find_Some)

lemma transition_identity: "job_identity (transition d now st p job) = job_identity job"
  by (auto simp: transition_def transition_append_def transition_write_def job_identity_def Let_def
      split: prod.splits)

lemma job_op_identity: "job_op job job' \<Longrightarrow> job_identity job' = job_identity job"
  by (auto elim!: job_opE simp: transition_identity emit_def adopt_child_def quarantine_job_def
      acknowledge_job_def Let_def) (simp_all add: job_identity_def)

text \<open>
  The worker's run: dispatches and the operations of the jobs, with the executions launched so
  far. It starts with whatever jobs recovery left and nothing launched.
\<close>

inductive sup_step :: "supervisor \<times> uuid list \<Rightarrow> supervisor \<times> uuid list \<Rightarrow> bool" where
  sup_dispatch: "dispatch (host :: string host) d sv = (r, sv', launched) \<Longrightarrow>
    sup_step (sv, ls) (sv', ls @ option_list (map_option fst launched))"
| sup_job: "find_worker_job i sv = Some job \<Longrightarrow> job_op job job' \<Longrightarrow>
    sup_step (sv, ls) (set_job i (\<lambda>j. if wj_execution_id j = i then job' else j) sv, ls)"

inductive_cases sup_stepE: "sup_step s t"

definition sup_start :: "supervisor \<times> uuid list \<Rightarrow> bool" where
  "sup_start s \<longleftrightarrow> snd s = []"

definition sup_inv :: "supervisor \<times> uuid list \<Rightarrow> bool" where
  "sup_inv s \<longleftrightarrow> distinct (snd s) \<and> (\<forall>i \<in> set (snd s). find_worker_job i (fst s) \<noteq> None)"

lemma dispatch_cases:
  obtains (known) job where "find_worker_job (ed_execution_id d) sv = Some job"
      "dispatch host d sv = (if wj_request_digest job \<noteq> ed_request_digest d
         then Err (DigestConflict (ed_execution_id d)) else Ok (job_accepted job), sv, None)"
  | (refused) e where "find_worker_job (ed_execution_id d) sv = None" "dispatch host d sv = (Err e, sv, None)"
  | (accepted) dir job where "find_worker_job (ed_execution_id d) sv = None" "admit host sv d = Inr dir"
      "job_identity job = (ed_execution_id d, h_new_id host, ed_workspace_id d, ed_request_digest d)"
      "job_consistent job"
      "dispatch host d sv = (Ok \<lparr> da_execution_id = ed_execution_id d, da_worker_job_id = h_new_id host,
           da_request_digest = ed_request_digest d, da_state = JobAccepted, da_last_sequence = 1 \<rparr>,
         put_job job sv, Some (ed_execution_id d, dir))"
proof (cases "find_worker_job (ed_execution_id d) sv")
  case (Some job)
  then show ?thesis by (intro known) (simp_all add: dispatch_def)
next
  case none: None
  let ?new = "new_job (ed_execution_id d) (h_new_id host) (ed_workspace_id d) (ed_request_digest d)
      (sv_persistent sv) (sv_journal_capacity sv) (h_now host)"
  show ?thesis
  proof (cases "admit host sv d")
    case (Inl e)
    with none show ?thesis by (intro refused) (simp_all add: dispatch_def)
  next
    case dir: (Inr dir)
    show ?thesis
    proof (cases ?new)
      case (Inl e)
      with none dir show ?thesis by (intro refused) (simp_all add: dispatch_def)
    next
      case (Inr job)
      have "job_identity job = (ed_execution_id d, h_new_id host, ed_workspace_id d, ed_request_digest d)"
        using Inr by (rule new_job_Ok) simp
      with none dir Inr show ?thesis
        by (intro accepted [of dir "persist (h_disk_ok host) job"])
          (simp_all add: dispatch_def consistent_new [OF Inr])
    qed
  qed
qed

lemma find_set_job:
  assumes "find_worker_job i sv = Some job" "job_op job job'"
  shows "find_worker_job k (set_job i (\<lambda>j. if wj_execution_id j = i then job' else j) sv) =
    (if k = i then Some job' else find_worker_job k sv)"
proof -
  have "wj_execution_id job' = i"
    using job_op_identity [OF assms(2)] find_worker_job_id [OF assms(1)] by (simp add: job_identity_def)
  then have "keeps_key wj_execution_id (\<lambda>j. if wj_execution_id j = i then job' else j)"
    by (simp add: keeps_key_def)
  from sjobs.lookup_modify [OF this] show ?thesis
    using assms(1) find_worker_job_id [OF assms(1)] by simp
qed

text \<open>Every job keeps its identity.\<close>

lemma sup_step_identity:
  assumes "sup_step s t" "find_worker_job i (fst s) = Some job"
  shows "\<exists>job'. find_worker_job i (fst t) = Some job' \<and> job_identity job' = job_identity job"
  using assms(1)
proof (cases rule: sup_step.cases)
  case (sup_dispatch host d sv r sv' launched ls)
  then show ?thesis
    using assms(2)
    by (cases rule: dispatch_cases [of d sv host]) (auto simp: find_put_job job_identity_def)
next
  case (sup_job k sv j j' ls)
  with assms(2) show ?thesis by (auto simp: find_set_job [OF sup_job(3,4)] job_op_identity)
qed

interpretation sup: invariant_system sup_start "sup_step" sup_inv
proof
  show "sup_start s \<Longrightarrow> sup_inv s" for s by (simp add: sup_start_def sup_inv_def)
  show "sup_inv t" if inv: "sup_inv s" and step: "sup_step s t" for s t
  proof -
    have kept: "\<forall>i \<in> set (snd s). find_worker_job i (fst t) \<noteq> None"
      using inv sup_step_identity [OF step] unfolding sup_inv_def by fastforce
    from step show ?thesis
    proof (cases rule: sup_step.cases)
      case (sup_dispatch host d sv r sv' launched ls)
      then show ?thesis
        using inv kept
        by (cases rule: dispatch_cases [of d sv host])
          (auto simp: sup_inv_def find_put_job job_identity_def)
    next
      case (sup_job k sv j j' ls)
      with inv kept show ?thesis by (simp add: sup_inv_def)
    qed
  qed
qed

text \<open>
  C2: an execution is launched at most once. Over any sequence of dispatches and job operations,
  whatever the host answers, the executions launched are distinct, and each one is still known
  to the supervisor.
\<close>

theorem launched_at_most_once:
  assumes "reach sup_start sup_step (sv, launched)"
  shows "distinct launched \<and> (\<forall>i \<in> set launched. find_worker_job i sv \<noteq> None)"
  using sup.inv_reach [OF assms] by (simp add: sup_inv_def)

lemma sup_steps_identity:
  assumes "sup_step\<^sup>*\<^sup>* s t" "find_worker_job i (fst s) = Some job"
  shows "\<exists>job'. find_worker_job i (fst t) = Some job' \<and> job_identity job' = job_identity job"
  using assms
proof (induction rule: rtranclp_induct)
  case base
  then show ?case by blast
next
  case (step t u)
  then obtain job' where "find_worker_job i (fst t) = Some job'" "job_identity job' = job_identity job"
    by blast
  with sup_step_identity [OF step.hyps(2)] show ?case by fastforce
qed

lemma dispatch_again:
  fixes host :: "string host"
  assumes "dispatch host d sv = (Ok acc, sv1, l)" "sup_step\<^sup>*\<^sup>* (sv1, ls1) (sv2, ls2)"
    and "ed_execution_id d' = ed_execution_id d"
  shows "\<exists>r. dispatch host' d' sv2 = (r, sv2, None)
    \<and> (if ed_request_digest d' = ed_request_digest d
       then \<exists>acc'. r = Ok acc' \<and> da_worker_job_id acc' = da_worker_job_id acc
       else r = Err (DigestConflict (ed_execution_id d)))"
proof -
  obtain job where "find_worker_job (ed_execution_id d) sv1 = Some job"
    and id: "wj_worker_job_id job = da_worker_job_id acc" "wj_request_digest job = ed_request_digest d"
    using assms(1)
    by (cases rule: dispatch_cases [of d sv host])
      (auto simp: find_put_job job_identity_def job_accepted_def split: if_splits)
  then obtain job' where "find_worker_job (ed_execution_id d) sv2 = Some job'"
    "job_identity job' = job_identity job"
    using sup_steps_identity [OF assms(2)] by fastforce
  with id assms(3) show ?thesis
    by (auto simp: dispatch_def job_accepted_def job_identity_def)
qed

text \<open>
  C8: dispatch is idempotent by execution id and request digest. After a dispatch was accepted
  and however the worker ran on, a repeated dispatch with the same digest is answered with the
  same worker job, one with another digest is refused as a conflict, and neither changes the
  supervisor nor launches anything, even if the worker is draining or under pressure by then.
\<close>

theorem dispatch_idempotent:
  fixes host :: "string host"
  assumes "dispatch host d sv = (Ok acc, sv1, l)" "sup_step\<^sup>*\<^sup>* (sv1, ls1) (sv2, ls2)"
    and "ed_execution_id d' = ed_execution_id d"
  shows "\<exists>r. dispatch host' d' sv2 = (r, sv2, None)
    \<and> (if ed_request_digest d' = ed_request_digest d
       then \<exists>acc'. r = Ok acc' \<and> da_worker_job_id acc' = da_worker_job_id acc
       else r = Err (DigestConflict (ed_execution_id d)))"
  using assms by (rule dispatch_again)

section \<open>What is admitted\<close>

lemma admit_Ok:
  assumes "admit host sv d = Inr dir"
  shows "\<exists>ws. \<not> h_draining host \<and> \<not> h_draining_again host
    \<and> evaluate_pressure (sv_threshold sv) (h_reading host) = Inr ()
    \<and> path_starts_with ws (sv_shared_root sv) \<and> path_starts_with dir ws
    \<and> path_starts_with dir (sv_shared_root sv) \<and> (\<exists>p. h_canon host p = Inr dir)"
  using assms
  by (auto simp: admit_def authorize_workspace_path_Ok authorize_codex_action_directory_def
      dest!: authorize_working_directory_Ok split: if_splits option.splits)


section \<open>Recovery after a restart\<close>

lemma journal_recover_Ok:
  assumes "journal_recover s c ev = Inr j"
  shows "journal_inv j \<and> ej_terminal j = Some ev
    \<and> unat (journal_last_sequence j) = Suc (unat (js_last_sequence s))
    \<and> map ev_payload (ej_events j) = [recovered_payload ev]"
proof -
  have inv: "journal_inv j" using assms by (rule journal_inv_recover)
  then have "unat (journal_last_sequence j) = unat (ej_next_sequence j) - 1"
    by (rule journal_last_sequence_unat)
  with inv assms show ?thesis
    by (auto simp: journal_recover_def journal_new_def Let_def dest!: checked_add_Some split: if_splits)
qed

text \<open>
  A job recovered after a restart keeps its ids and digest and is terminal: with the evidence
  that was saved if its saved state was terminal, and interrupted otherwise, since its process
  cannot be verified. Its journal holds exactly that terminal event, numbered right after the
  last saved sequence, so a coordinator that resumes from its cursor receives it. State and
  evidence agree if they did when they were saved.
\<close>

theorem recovered_job_terminal:
  assumes "recover_job disk_ok now s = Ok job"
  shows "job_identity job = (js_execution_id s, js_worker_job_id s, js_workspace_id s, js_request_digest s)
    \<and> JobState_is_terminal (wj_state job)
    \<and> (if JobState_is_terminal (js_state s) \<and> js_terminal s \<noteq> None
       then wj_state job = js_state s \<and> job_evidence job = js_terminal s
       else wj_state job = JobInterrupted \<and> job_evidence job = Some (interrupted_evidence now))
    \<and> map ev_payload (ej_events (wj_journal job)) = [recovered_payload (the (job_evidence job))]
    \<and> unat (journal_last_sequence (wj_journal job)) = Suc (unat (js_last_sequence s))
    \<and> (state_fits (js_state s) (js_terminal s) \<longrightarrow> job_consistent job)"
proof -
  obtain s' ev where rs: "recovered_summary now s = (s', ev)" by fastforce
  have s': "js_execution_id s' = js_execution_id s" "js_worker_job_id s' = js_worker_job_id s"
    "js_workspace_id s' = js_workspace_id s" "js_request_digest s' = js_request_digest s"
    "js_last_sequence s' = js_last_sequence s"
    and out: "if JobState_is_terminal (js_state s) \<and> js_terminal s \<noteq> None
       then js_state s' = js_state s \<and> Some ev = js_terminal s
       else js_state s' = JobInterrupted \<and> ev = interrupted_evidence now"
    using rs by (auto simp: recovered_summary_def split: option.splits if_splits)
  obtain j where j: "journal_recover s' DEFAULT_JOURNAL_CAPACITY ev = Inr j"
    and job: "wj_journal job = j" "wj_state job = js_state s'"
      "job_identity job = (js_execution_id s', js_worker_job_id s', js_workspace_id s', js_request_digest s')"
    using assms rs by (auto simp: recover_job_def Let_def job_identity_def split: if_splits)
  note r = journal_recover_Ok [OF j]
  have "state_fits (js_state s) (js_terminal s) \<longrightarrow> state_fits (js_state s') (Some ev)"
    using out by (auto simp: interrupted_evidence_def split: if_splits)
  then show ?thesis
    using r s' out job by (auto simp: job_evidence_def job_consistent_def split: if_splits)
qed

section \<open>Drain\<close>

lemma active_fold:
  "unat (fold (\<lambda>job n. if is_active_for_drain job then saturating_add n 1 else n) js (n :: u32)) =
    min (unat n + length (filter is_active_for_drain js)) (2 ^ 32 - 1)"
proof (induction js arbitrary: n)
  case Nil
  have "unat n < 2 ^ LENGTH(32)" by (rule unsigned_less)
  then show ?case by simp
next
  case (Cons j js)
  then show ?case by (auto simp: unat_saturating_add)
qed

text \<open>
  The count of active executions a worker reports is the number of jobs that are not
  terminal or whose process is not known to be gone, plus the dispatches being admitted,
  capped at the largest 32-bit number; so it is zero, and a release handoff may proceed, only
  if there is no such job and no such dispatch.
\<close>

theorem active_count_exact:
  "unat (active_execution_count sv) =
     min (length (filter is_active_for_drain (sv_jobs sv)) + unat (sv_admitting sv)) (2 ^ 32 - 1)
   \<and> (active_execution_count sv = 0 \<longleftrightarrow>
       filter is_active_for_drain (sv_jobs sv) = [] \<and> sv_admitting sv = 0)"
proof -
  have eq: "unat (active_execution_count sv) =
      min (length (filter is_active_for_drain (sv_jobs sv)) + unat (sv_admitting sv)) (2 ^ 32 - 1)"
    by (simp add: active_execution_count_def unat_saturating_add active_fold)
  have "active_execution_count sv = 0 \<longleftrightarrow> unat (active_execution_count sv) = 0"
    by (simp add: unat_eq_zero)
  moreover have "min n (2 ^ 32 - 1) = 0 \<longleftrightarrow> n = 0" for n :: nat by (simp add: min_def)
  ultimately show ?thesis using eq by (simp add: unat_eq_zero)
qed

section \<open>Witnesses\<close>

definition demo_host :: "string host" where
  "demo_host = \<lparr> h_canon = (\<lambda>p. Ok p), h_reading = \<lparr> pr_memory_full_avg60 = None, pr_io_full_avg60 = Some (FFin 3) \<rparr>,
     h_draining = False, h_draining_again = False, h_parse_action = (\<lambda>_. Ok (Command ''make'' [])),
     h_resolve = (\<lambda>_ _. Ok None), h_prepare = (\<lambda>_ _ _. Ok ()), h_worktrees = (\<lambda>_. Ok ()),
     h_disk_ok = True, h_new_id = 77, h_now = 5 \<rparr>"

definition demo_supervisor :: supervisor where
  "demo_supervisor = \<lparr> sv_shared_root = ''/s'', sv_jobs = [], sv_journal_capacity = 8,
     sv_persistent = True, sv_threshold = Some (FFin 40), sv_admitting = 0 \<rparr>"

definition demo_dispatch :: execution_dispatch where
  "demo_dispatch = \<lparr> ed_execution_id = 1, ed_workspace_id = 2, ed_session_id = 3,
     ed_workspace_path = ''/s/w'', ed_working_directory = ''r'', ed_executor_profile = ''CODEX'',
     ed_executor_profile_config = None, ed_mcp_config_snapshot = None, ed_action = JNull,
     ed_environment = [], ed_timeout_seconds = None, ed_request_digest = ''d'' \<rparr>"

definition demo_accepted :: dispatch_accepted where
  "demo_accepted = \<lparr> da_execution_id = 1, da_worker_job_id = 77, da_request_digest = ''d'',
     da_state = JobAccepted, da_last_sequence = 1 \<rparr>"

definition demo_running :: supervisor where
  "demo_running = fst (snd (dispatch demo_host demo_dispatch demo_supervisor))"

lemma demo_trim_make: "trim ''make'' = ''make''"
  by (simp add: trim_def trim_start.simps trim_rev.simps white_space_def)

lemma demo_admit: "admit demo_host demo_supervisor demo_dispatch = Inr ''/s/w/r''"
  by (simp add: admit_def demo_host_def demo_supervisor_def demo_dispatch_def evaluate_pressure_def
      authorize_workspace_path_def authorize_working_directory_def path_eval demo_trim_make)

lemma demo_dispatched:
  "dispatch demo_host demo_dispatch demo_supervisor = (Inr demo_accepted, demo_running, Some (1, ''/s/w/r''))"
proof -
  have none: "find_worker_job (ed_execution_id demo_dispatch) demo_supervisor = None"
    by (simp add: find_worker_job_def demo_supervisor_def)
  show ?thesis
    unfolding demo_running_def
    by (simp add: dispatch_def none demo_admit)
      (simp add: new_job_def journal_new_def journal_append_def checked_add_def demo_host_def
        demo_supervisor_def demo_dispatch_def demo_accepted_def Let_def)
qed

theorem launched_at_most_once_witness:
  "distinct [1 :: uuid] \<and> find_worker_job 1 demo_running \<noteq> None"
proof -
  have "sup_step (demo_supervisor, []) (demo_running, [1])"
    using sup_dispatch [OF demo_dispatched, of "[]"] by simp
  then have "reach sup_start sup_step (demo_running, [1])"
    by (rule reach_step [rotated]) (simp add: reach_start sup_start_def)
  from launched_at_most_once [OF this] show ?thesis by simp
qed

theorem dispatch_idempotent_witness:
  "\<exists>acc. dispatch (demo_host\<lparr> h_draining := True \<rparr>) demo_dispatch demo_running = (Ok acc, demo_running, None)
     \<and> da_worker_job_id acc = 77"
  using dispatch_idempotent [OF demo_dispatched rtranclp.rtrancl_refl,
      where d' = demo_dispatch and host' = "demo_host\<lparr> h_draining := True \<rparr>"]
  by (auto simp: demo_accepted_def)


definition demo_saved :: job_summary where
  "demo_saved = \<lparr> js_execution_id = 1, js_worker_job_id = 77, js_workspace_id = 2,
     js_request_digest = ''d'', js_state = JobRunning, js_last_sequence = 41, js_terminal = None \<rparr>"

definition demo_recovered :: worker_job where
  "demo_recovered = projr (recover_job True 9 demo_saved :: string ExecutionError + worker_job)"

lemma demo_recover: "recover_job True 9 demo_saved = (Inr demo_recovered :: string ExecutionError + worker_job)"
  by (simp add: demo_recovered_def recover_job_def recovered_summary_def demo_saved_def
      journal_recover_def journal_new_def checked_add_def DEFAULT_JOURNAL_CAPACITY_def Let_def)

theorem recovered_job_terminal_witness:
  "wj_state demo_recovered = JobInterrupted \<and> unat (journal_last_sequence (wj_journal demo_recovered)) = 42"
  using recovered_job_terminal [OF demo_recover] by (simp add: demo_saved_def)

end
