(* ===== verification/Relay_Signing.thy ===== *)
theory Relay_Signing
  imports Rust_Strings
begin

text \<open>
  Signed requests over the relay (\<open>crates/relay-control/src/signing.rs\<close>): the text a request's
  signature covers, the signing sessions a server keeps with the nonces it has seen, and the check of a
  request. SHA-256, base64, Ed25519 and the text of a UUID are parameters. \<open>wall\<close> is the system
  clock in seconds, \<open>now\<close> the monotonic clock in nanoseconds; an operation reads each once.
\<close>

section \<open>Signatures and messages\<close>

record crypto =
  cy_sha256 :: "string \<Rightarrow> string"
  cy_b64 :: "string \<Rightarrow> string"
  cy_b64_decode :: "string \<Rightarrow> string option"
  cy_signature :: "string \<Rightarrow> string option"
  cy_public :: "string \<Rightarrow> string"
  cy_sign :: "string \<Rightarrow> string \<Rightarrow> string"
  cy_verify :: "string \<Rightarrow> string \<Rightarrow> string \<Rightarrow> bool"
  cy_uuid :: "uuid \<Rightarrow> string"

record request_signature =
  rq_session :: uuid
  rq_timestamp :: int
  rq_nonce :: uuid
  rq_signature_b64 :: string

abbreviation BAR :: char where "BAR \<equiv> CHR ''|''"

definition build_request_signing_message ::
  "crypto \<Rightarrow> request_signature \<Rightarrow> string \<Rightarrow> string \<Rightarrow> string \<Rightarrow> string" where
  "build_request_signing_message cy sig verb path body =
     ''v1|'' @ show_int (rq_timestamp sig) @ ''|'' @ verb @ ''|'' @ path @ ''|''
     @ cy_uuid cy (rq_session sig) @ ''|'' @ cy_uuid cy (rq_nonce sig) @ ''|'' @ cy_b64 cy (cy_sha256 cy body)"

definition build_request_signature ::
  "crypto \<Rightarrow> string \<Rightarrow> int \<Rightarrow> uuid \<Rightarrow> uuid \<Rightarrow> string \<Rightarrow> string \<Rightarrow> string \<Rightarrow> request_signature" where
  "build_request_signature cy key wall nonce session verb path body =
     (let sig = \<lparr> rq_session = session, rq_timestamp = wall, rq_nonce = nonce, rq_signature_b64 = [] \<rparr>;
          message = build_request_signing_message cy sig verb path body
      in sig\<lparr> rq_signature_b64 := cy_b64 cy (cy_sign cy key message) \<rparr>)"

definition build_response_signing_message ::
  "crypto \<Rightarrow> int \<Rightarrow> nat \<Rightarrow> string \<Rightarrow> uuid \<Rightarrow> uuid \<Rightarrow> uuid \<Rightarrow> string \<Rightarrow> string" where
  "build_response_signing_message cy timestamp status path session request_nonce response_nonce body =
     ''v1|'' @ show_int timestamp @ ''|'' @ show_nat status @ ''|'' @ path @ ''|'' @ cy_uuid cy session @ ''|''
     @ cy_uuid cy request_nonce @ ''|'' @ cy_uuid cy response_nonce @ ''|'' @ cy_b64 cy (cy_sha256 cy body)"

section \<open>Sessions\<close>

record signing_session =
  ss_peer_public_key :: string
  ss_created_at :: int
  ss_last_used_at :: int
  ss_seen_nonces :: "uuid \<rightharpoonup> int"

type_synonym signing_sessions = "uuid \<rightharpoonup> signing_session"

datatype RelaySignatureValidationError =
    TimestampOutOfDrift | MissingSigningSession | InvalidNonce | ReplayNonce | InvalidSignature

definition RELAY_SIGNATURE_MAX_TIMESTAMP_DRIFT_SECS :: int where
  "RELAY_SIGNATURE_MAX_TIMESTAMP_DRIFT_SECS = 30"

definition RELAY_SIGNING_SESSION_TTL :: int where
  "RELAY_SIGNING_SESSION_TTL = 60 * 60 * 1000000000"

definition RELAY_SIGNING_SESSION_IDLE_TTL :: int where
  "RELAY_SIGNING_SESSION_IDLE_TTL = 15 * 60 * 1000000000"

definition RELAY_NONCE_TTL :: int where
  "RELAY_NONCE_TTL = 2 * 60 * 1000000000"

definition session_live :: "int \<Rightarrow> signing_session \<Rightarrow> bool" where
  "session_live now s \<longleftrightarrow> elapsed now (ss_created_at s) \<le> RELAY_SIGNING_SESSION_TTL
     \<and> elapsed now (ss_last_used_at s) \<le> RELAY_SIGNING_SESSION_IDLE_TTL"

definition register_session :: "int \<Rightarrow> uuid \<Rightarrow> string \<Rightarrow> signing_sessions \<Rightarrow> signing_sessions" where
  "register_session now i key ss = ss(i \<mapsto> \<lparr> ss_peer_public_key = key, ss_created_at = now,
     ss_last_used_at = now, ss_seen_nonces = Map.empty \<rparr>)"

definition create_session :: "int \<Rightarrow> uuid \<Rightarrow> string \<Rightarrow> signing_sessions \<Rightarrow> uuid \<times> signing_sessions" where
  "create_session now fresh key ss = (fresh, register_session now fresh key ss)"

definition get_session_peer_key :: "int \<Rightarrow> uuid \<Rightarrow> signing_sessions \<Rightarrow> string option" where
  "get_session_peer_key now i ss = (case ss i of
     None \<Rightarrow> None
   | Some s \<Rightarrow> if session_live now s then Some (ss_peer_public_key s) else None)"

definition has_active_session_with_key :: "int \<Rightarrow> string \<Rightarrow> uuid list \<Rightarrow> signing_sessions \<Rightarrow> bool" where
  "has_active_session_with_key now key ids ss = list_ex
     (\<lambda>i. is_some_and (ss i) (\<lambda>s. session_live now s \<and> ss_peer_public_key s = key)) ids"

section \<open>The check of a request\<close>

text \<open>\<open>i64::saturating_sub\<close> and \<open>i64::abs\<close>, which overflows at the smallest value.\<close>

definition i64_min :: int where "i64_min = - (2 ^ 63)"
definition i64_max :: int where "i64_max = 2 ^ 63 - 1"

definition i64_saturating_sub :: "int \<Rightarrow> int \<Rightarrow> int" where
  "i64_saturating_sub a b = max i64_min (min i64_max (a - b))"

definition i64_abs :: "int \<Rightarrow> int option" where
  "i64_abs a = (if a = i64_min then None else Some \<bar>a\<bar>)"

text \<open>A panic is \<open>None\<close>.\<close>

definition validate_timestamp :: "int \<Rightarrow> int \<Rightarrow> (RelaySignatureValidationError + unit) option" where
  "validate_timestamp wall timestamp =
     (if wall < 0 \<or> i64_max < wall then Some (Err TimestampOutOfDrift)
      else (case i64_abs (i64_saturating_sub wall timestamp) of
          None \<Rightarrow> None
        | Some drift \<Rightarrow> Some (if RELAY_SIGNATURE_MAX_TIMESTAMP_DRIFT_SECS < drift
            then Err TimestampOutOfDrift else Ok ())))"

definition parse_signature_b64 :: "crypto \<Rightarrow> string \<Rightarrow> RelaySignatureValidationError + string" where
  "parse_signature_b64 cy s =
     try_bind (ok_or (cy_b64_decode cy s) InvalidSignature) (\<lambda>bytes. ok_or (cy_signature cy bytes) InvalidSignature)"

definition get_valid_session :: "int \<Rightarrow> uuid \<Rightarrow> signing_sessions
    \<Rightarrow> (RelaySignatureValidationError + signing_session) \<times> signing_sessions" where
  "get_valid_session now i ss =
     (let ss = map_retain (session_live now) ss in (ok_or (ss i) MissingSigningSession, ss))"

definition check_session :: "crypto \<Rightarrow> int \<Rightarrow> request_signature \<Rightarrow> string \<Rightarrow> string \<Rightarrow> signing_session
    \<Rightarrow> (RelaySignatureValidationError + unit) \<times> signing_session" where
  "check_session cy now sig signature message s =
     (let s = s\<lparr> ss_seen_nonces := map_retain (\<lambda>seen_at. elapsed now seen_at \<le> RELAY_NONCE_TTL) (ss_seen_nonces s) \<rparr> in
      if ss_seen_nonces s (rq_nonce sig) \<noteq> None then (Err ReplayNonce, s)
      else if \<not> cy_verify cy (ss_peer_public_key s) message signature then (Err InvalidSignature, s)
      else (Ok (), s\<lparr> ss_seen_nonces := (ss_seen_nonces s)(rq_nonce sig \<mapsto> now), ss_last_used_at := now \<rparr>))"

definition verify_request :: "crypto \<Rightarrow> int \<Rightarrow> int \<Rightarrow> request_signature \<Rightarrow> string \<Rightarrow> string \<Rightarrow> string
    \<Rightarrow> signing_sessions \<Rightarrow> (RelaySignatureValidationError + unit) option \<times> signing_sessions" where
  "verify_request cy wall now sig verb path body ss =
     (case validate_timestamp wall (rq_timestamp sig) of
        None \<Rightarrow> (None, ss)
      | Some (Inl e) \<Rightarrow> (Some (Err e), ss)
      | Some (Inr _) \<Rightarrow>
          (case parse_signature_b64 cy (rq_signature_b64 sig) of
             Inl e \<Rightarrow> (Some (Err e), ss)
           | Inr signature \<Rightarrow>
               (case get_valid_session now (rq_session sig) ss of
                  (Inl e, ss) \<Rightarrow> (Some (Err e), ss)
                | (Inr s, ss) \<Rightarrow>
                    (let (r, s) = check_session cy now sig signature
                       (build_request_signing_message cy sig verb path body) s
                     in (Some r, ss(rq_session sig \<mapsto> s))))))"

section \<open>The time window\<close>

lemma validate_timestamp_window:
  assumes "i64_min \<le> ts" "ts \<le> i64_max"
  shows "validate_timestamp wall ts = Some (Ok ()) \<longleftrightarrow> 0 \<le> wall \<and> wall \<le> i64_max \<and> \<bar>wall - ts\<bar> \<le> 30"
    and "validate_timestamp wall ts \<noteq> None"
  using assms
  by (auto simp: validate_timestamp_def i64_abs_def i64_saturating_sub_def i64_min_def i64_max_def
      RELAY_SIGNATURE_MAX_TIMESTAMP_DRIFT_SECS_def min_def max_def)

text \<open>
  The check of the time stamp never overflows, whatever 64-bit value a caller sends, and accepts
  exactly the values within thirty seconds of a sane clock.
\<close>

theorem validate_timestamp_exact:
  assumes "i64_min \<le> ts" "ts \<le> i64_max"
  shows "\<exists>r. validate_timestamp wall ts = Some r
    \<and> (r = Ok () \<longleftrightarrow> 0 \<le> wall \<and> wall \<le> i64_max \<and> \<bar>wall - ts\<bar> \<le> 30)"
  using validate_timestamp_window [OF assms, of wall] by auto

section \<open>What a signature covers\<close>

text \<open>What the sources rely on in the packages: the texts of ids and digests have no separator and determine their value.\<close>

definition texts_ok :: "crypto \<Rightarrow> bool" where
  "texts_ok cy \<longleftrightarrow> inj (cy_uuid cy) \<and> (\<forall>u. length (cy_uuid cy u) = 36 \<and> BAR \<notin> set (cy_uuid cy u))
     \<and> inj (cy_b64 cy) \<and> (\<forall>b. BAR \<notin> set (cy_b64 cy b))"

lemma texts_okD [simp]:
  assumes "texts_ok cy"
  shows "BAR \<notin> set (cy_uuid cy u)" "BAR \<notin> set (cy_b64 cy b)" "length (cy_uuid cy u) = 36"
    "cy_uuid cy u = cy_uuid cy v \<longleftrightarrow> u = v" "cy_b64 cy b = cy_b64 cy b' \<longleftrightarrow> b = b'"
  using assms by (auto simp: texts_ok_def inj_def)

lemma show_nat_no_BAR [simp]: "BAR \<notin> set (show_nat n)"
  using show_nat_digits [of BAR n] by auto

lemma show_int_no_BAR [simp]: "BAR \<notin> set (show_int n)"
  by (simp add: show_int_def)

lemma request_message_fields:
  assumes "texts_ok cy" "BAR \<notin> set verb" "BAR \<notin> set verb'"
    and "build_request_signing_message cy sig verb path body
      = build_request_signing_message cy sig' verb' path' body'"
  shows "rq_timestamp sig = rq_timestamp sig'" "verb = verb'" "path = path'"
    "rq_session sig = rq_session sig'" "rq_nonce sig = rq_nonce sig'"
    "cy_sha256 cy body = cy_sha256 cy body'"
proof -
  let ?m = "\<lambda>sig path body. path @ BAR # cy_uuid cy (rq_session sig) @ BAR # cy_uuid cy (rq_nonce sig)
      @ BAR # cy_b64 cy (cy_sha256 cy body)"
  have "show_int (rq_timestamp sig) @ BAR # verb @ BAR # ?m sig path body
      = show_int (rq_timestamp sig') @ BAR # verb' @ BAR # ?m sig' path' body'"
    using assms(4) by (simp add: build_request_signing_message_def)
  then have 1: "rq_timestamp sig = rq_timestamp sig'" "verb = verb'" "?m sig path body = ?m sig' path' body'"
    using assms(2,3) by (auto simp: first_field)
  from 1(3) have 2: "cy_sha256 cy body = cy_sha256 cy body'"
    "path @ BAR # cy_uuid cy (rq_session sig) @ BAR # cy_uuid cy (rq_nonce sig)
     = path' @ BAR # cy_uuid cy (rq_session sig') @ BAR # cy_uuid cy (rq_nonce sig')"
    using last_field [of BAR "cy_b64 cy (cy_sha256 cy body)" "cy_b64 cy (cy_sha256 cy body')"
        "path @ BAR # cy_uuid cy (rq_session sig) @ BAR # cy_uuid cy (rq_nonce sig)"
        "path' @ BAR # cy_uuid cy (rq_session sig') @ BAR # cy_uuid cy (rq_nonce sig')"] assms(1)
    by simp_all
  from 2(2) have 3: "rq_nonce sig = rq_nonce sig'"
    "path @ BAR # cy_uuid cy (rq_session sig) = path' @ BAR # cy_uuid cy (rq_session sig')"
    using last_field [of BAR "cy_uuid cy (rq_nonce sig)" "cy_uuid cy (rq_nonce sig')"
        "path @ BAR # cy_uuid cy (rq_session sig)" "path' @ BAR # cy_uuid cy (rq_session sig')"] assms(1)
    by simp_all
  from 3(2) have 4: "rq_session sig = rq_session sig'" "path = path'"
    using last_field [of BAR "cy_uuid cy (rq_session sig)" "cy_uuid cy (rq_session sig')" path path'] assms(1)
    by simp_all
  show "rq_timestamp sig = rq_timestamp sig'" "verb = verb'" "path = path'"
    "rq_session sig = rq_session sig'" "rq_nonce sig = rq_nonce sig'"
    "cy_sha256 cy body = cy_sha256 cy body'"
    using 1 2 3 4 by blast+
qed

text \<open>What a peer with a key pair has signed, and that nobody signs in its place.\<close>

definition unforgeable :: "crypto \<Rightarrow> string \<Rightarrow> string set \<Rightarrow> bool" where
  "unforgeable cy public authored \<longleftrightarrow> (\<forall>m s. cy_verify cy public m s \<longrightarrow> m \<in> authored)"

lemma verify_request_Ok:
  assumes "verify_request cy wall now sig verb path body ss = (Some (Ok ()), ss')"
  obtains s signature where "ss (rq_session sig) = Some s" "session_live now s"
    "validate_timestamp wall (rq_timestamp sig) = Some (Ok ())"
    "\<forall>t. ss_seen_nonces s (rq_nonce sig) = Some t \<longrightarrow> RELAY_NONCE_TTL < elapsed now t"
    "cy_verify cy (ss_peer_public_key s) (build_request_signing_message cy sig verb path body) signature"
    "\<exists>s'. ss' (rq_session sig) = Some s' \<and> ss_seen_nonces s' (rq_nonce sig) = Some now"
  using assms
  by (auto simp: verify_request_def get_valid_session_def check_session_def Let_def not_le
      split: option.splits sum.splits if_splits prod.splits)


section \<open>Replays\<close>

text \<open>
  What happens at a server between two checks: more checks, and registrations of other sessions (a
  session's id is drawn fresh). The monotonic clock does not go back.
\<close>

inductive signing_step :: "uuid \<Rightarrow> int \<times> signing_sessions \<Rightarrow> int \<times> signing_sessions \<Rightarrow> bool" for i where
  sg_verify: "t \<le> t' \<Longrightarrow> verify_request cy wall t' sig verb path body ss = (r, ss') \<Longrightarrow>
    signing_step i (t, ss) (t', ss')"
| sg_register: "t \<le> t' \<Longrightarrow> j \<noteq> i \<Longrightarrow> signing_step i (t, ss) (t', register_session t' j key ss)"

definition nonce_kept :: "uuid \<Rightarrow> uuid \<Rightarrow> int \<Rightarrow> int \<times> signing_sessions \<Rightarrow> bool" where
  "nonce_kept i n t0 st \<longleftrightarrow> (case st of (now, ss) \<Rightarrow> t0 \<le> now \<and>
     (t0 + RELAY_NONCE_TTL < now \<or>
      is_none_or (ss i) (\<lambda>s. \<exists>t. ss_seen_nonces s n = Some t \<and> t0 \<le> t)))"

lemma verify_request_sessions:
  assumes "verify_request cy wall now sig verb path body ss = (r, ss')"
  shows "ss' i = ss i \<or> ss' i = None
    \<or> (\<exists>s s'. ss i = Some s \<and> ss' i = Some s' \<and> (\<forall>n t. ss_seen_nonces s n = Some t \<longrightarrow>
        elapsed now t \<le> RELAY_NONCE_TTL \<longrightarrow> (\<exists>t'. ss_seen_nonces s' n = Some t' \<and> t' \<in> {t, now})))"
  using assms
  by (auto simp: verify_request_def get_valid_session_def check_session_def Let_def
      split: option.splits sum.splits if_splits prod.splits)

lemma nonce_kept_step:
  assumes "nonce_kept i n t0 st" "signing_step i st st'"
  shows "nonce_kept i n t0 st'"
  using assms(2)
proof cases
  case (sg_verify t t' cy wall sig verb path body ss r ss')
  have t0: "t0 \<le> t" using assms(1) sg_verify(1) by (simp add: nonce_kept_def)
  show ?thesis
  proof (cases "t0 + RELAY_NONCE_TTL < t'")
    case True
    then show ?thesis using t0 sg_verify(2,3) by (simp add: nonce_kept_def)
  next
    case False
    then have old: "is_none_or (ss i) (\<lambda>s. \<exists>t. ss_seen_nonces s n = Some t \<and> t0 \<le> t)"
      using assms(1) sg_verify(1,3) by (simp add: nonce_kept_def)
    have near: "elapsed t' u \<le> RELAY_NONCE_TTL" if "t0 \<le> u" for u
      using False that by (simp add: elapsed_def RELAY_NONCE_TTL_def)
    have "is_none_or (ss' i) (\<lambda>s. \<exists>t. ss_seen_nonces s n = Some t \<and> t0 \<le> t)"
      using verify_request_sessions [OF sg_verify(4), of i] old near t0 sg_verify(3)
      by (cases "ss i"; cases "ss' i") (auto, fastforce+)
    then show ?thesis using t0 sg_verify(2,3) by (simp add: nonce_kept_def)
  qed
next
  case (sg_register t t' j ss key)
  then show ?thesis using assms(1) by (auto simp: nonce_kept_def register_session_def)
qed

interpretation nonce: invariant_system "\<lambda>st. nonce_kept i n t0 st" "signing_step i" "nonce_kept i n t0"
  by unfold_locales (auto intro: nonce_kept_step)

text \<open>
  C24: a replayed request is refused. Once a request was accepted, no request with the same session and
  nonce and the same time stamp is accepted later, whatever was checked in between, as long as the
  system clock does not fall back against the monotonic clock by more than a minute: the window
  of the time stamp closes before the nonce is forgotten.
\<close>

theorem replay_refused:
  assumes "verify_request cy wall now sig verb path body ss = (Some (Ok ()), ss1)"
    and "(signing_step (rq_session sig))\<^sup>*\<^sup>* (now, ss1) (now2, ss2)" "now2 \<le> now3"
    and "rq_session sig' = rq_session sig" "rq_nonce sig' = rq_nonce sig" "rq_timestamp sig' = rq_timestamp sig"
    and "i64_min \<le> rq_timestamp sig" "rq_timestamp sig \<le> i64_max"
    and "now3 - now \<le> (wall3 - wall + 60) * 1000000000"
  shows "fst (verify_request cy' wall3 now3 sig' verb' path' body' ss2) \<noteq> Some (Ok ())"
proof
  assume "fst (verify_request cy' wall3 now3 sig' verb' path' body' ss2) = Some (Ok ())"
  then obtain ss3 where again: "verify_request cy' wall3 now3 sig' verb' path' body' ss2 = (Some (Ok ()), ss3)"
    by (metis prod.collapse)
  have window: "\<bar>w - rq_timestamp sig\<bar> \<le> 30" if "validate_timestamp w (rq_timestamp sig) = Some (Ok ())" for w
    using validate_timestamp_window [OF assms(7,8), of w] that by simp
  have "\<bar>wall - rq_timestamp sig\<bar> \<le> 30"
    by (rule verify_request_Ok [OF assms(1)]) (rule window)
  moreover have "\<bar>wall3 - rq_timestamp sig\<bar> \<le> 30"
    by (rule verify_request_Ok [OF again]) (rule window, simp add: assms(6))
  ultimately have "wall3 - wall \<le> 60" by linarith
  then have near: "now3 - now \<le> RELAY_NONCE_TTL" using assms(9) by (simp add: RELAY_NONCE_TTL_def)
  obtain s1 where "ss1 (rq_session sig) = Some s1" "ss_seen_nonces s1 (rq_nonce sig) = Some now"
    using verify_request_Ok [OF assms(1)] by metis
  then have "nonce_kept (rq_session sig) (rq_nonce sig) now (now, ss1)" by (simp add: nonce_kept_def)
  then have "nonce_kept (rq_session sig) (rq_nonce sig) now (now2, ss2)"
    by (rule nonce.inv_steps [OF assms(2)])
  then have kept: "is_none_or (ss2 (rq_session sig)) (\<lambda>s. \<exists>t. ss_seen_nonces s (rq_nonce sig) = Some t \<and> now \<le> t)"
    using near assms(3) by (auto simp: nonce_kept_def)
  obtain s where "ss2 (rq_session sig) = Some s"
    "\<forall>t. ss_seen_nonces s (rq_nonce sig) = Some t \<longrightarrow> RELAY_NONCE_TTL < elapsed now3 t"
    using verify_request_Ok [OF again] assms(4,5) by metis
  then obtain t where "now \<le> t" "RELAY_NONCE_TTL < elapsed now3 t" using kept by auto
  then show False using near by (auto simp: elapsed_def RELAY_NONCE_TTL_def)
qed

section \<open>Genuine requests\<close>

definition crypto_ok :: "crypto \<Rightarrow> bool" where
  "crypto_ok cy \<longleftrightarrow> (\<forall>b. cy_b64_decode cy (cy_b64 cy b) = Some b)
     \<and> (\<forall>k m. cy_signature cy (cy_sign cy k m) = Some (cy_sign cy k m))
     \<and> (\<forall>k m. cy_verify cy (cy_public cy k) m (cy_sign cy k m))"

lemma request_accepted:
  assumes "validate_timestamp wall (rq_timestamp sig) = Some (Ok ())"
    and "parse_signature_b64 cy (rq_signature_b64 sig) = Ok signature"
    and "ss (rq_session sig) = Some s" "session_live now s" "ss_seen_nonces s (rq_nonce sig) = None"
    and "cy_verify cy (ss_peer_public_key s) (build_request_signing_message cy sig verb path body) signature"
  shows "\<exists>ss'. verify_request cy wall now sig verb path body ss = (Some (Ok ()), ss')
    \<and> is_some_and (ss' (rq_session sig)) (\<lambda>s'. ss_last_used_at s' = now)"
  using assms
  by (simp add: verify_request_def get_valid_session_def check_session_def Let_def map_retain_def)

lemma request_signature_fields:
  "rq_session (build_request_signature cy key wall nonce i verb path body) = i"
  "rq_timestamp (build_request_signature cy key wall nonce i verb path body) = wall"
  "rq_nonce (build_request_signature cy key wall nonce i verb path body) = nonce"
  "rq_signature_b64 (build_request_signature cy key wall nonce i verb path body)
    = cy_b64 cy (cy_sign cy key (build_request_signing_message cy
        (build_request_signature cy key wall nonce i verb path body) verb path body))"
  by (simp_all add: build_request_signature_def build_request_signing_message_def Let_def)

lemma genuine_accepted:
  assumes "crypto_ok cy" "ss i = Some s" "session_live now s" "ss_peer_public_key s = cy_public cy key"
    and "ss_seen_nonces s nonce = None" "validate_timestamp wall' wall = Some (Ok ())"
  shows "\<exists>ss'. verify_request cy wall' now (build_request_signature cy key wall nonce i verb path body)
      verb path body ss = (Some (Ok ()), ss') \<and> is_some_and (ss' i) (\<lambda>s'. ss_last_used_at s' = now)"
proof -
  let ?sig = "build_request_signature cy key wall nonce i verb path body"
  have "parse_signature_b64 cy (rq_signature_b64 ?sig)
      = Ok (cy_sign cy key (build_request_signing_message cy ?sig verb path body))"
    using assms(1) unfolding request_signature_fields(4) by (simp add: parse_signature_b64_def crypto_ok_def)
  from request_accepted [of wall' ?sig cy, OF _ this, of ss s now verb path body] show ?thesis
    using assms by (simp add: request_signature_fields(1-3) crypto_ok_def)
qed

text \<open>
  A genuine request passes: one signed with the key of a live session, with a nonce not used in the last
  two minutes, is accepted by a server whose clock is within thirty seconds of the signer's, and the
  session's idle time starts again.
\<close>

theorem signed_request_accepted:
  assumes "crypto_ok cy" "ss i = Some s" "session_live now s" "ss_peer_public_key s = cy_public cy key"
    and "ss_seen_nonces s nonce = None" "0 \<le> wall" "wall \<le> i64_max" "0 \<le> wall'" "wall' \<le> i64_max"
    and "\<bar>wall' - wall\<bar> \<le> 30"
  shows "\<exists>ss'. verify_request cy wall' now (build_request_signature cy key wall nonce i verb path body)
      verb path body ss = (Some (Ok ()), ss') \<and> is_some_and (ss' i) (\<lambda>s'. ss_last_used_at s' = now)"
  using genuine_accepted [of cy ss i s now key nonce wall' wall verb path body]
    validate_timestamp_window [of wall wall'] assms
  by (simp add: i64_min_def)

section \<open>Witnesses\<close>

text \<open>A concrete instance: hexadecimal texts, a digest that is the text itself, a signature made of key and text.\<close>

definition hex_char :: "nat \<Rightarrow> char" where
  "hex_char n = char_of (97 + n)"

definition hex_byte :: "char \<Rightarrow> string" where
  "hex_byte c = [hex_char (of_char c div 16), hex_char (of_char c mod 16)]"

definition hex_encode :: "string \<Rightarrow> string" where
  "hex_encode s = concat (map hex_byte s)"

fun hex_decode :: "string \<Rightarrow> string option" where
  "hex_decode [] = Some []"
| "hex_decode [_] = None"
| "hex_decode (a # b # s) = map_option ((#) (char_of ((of_char a - 97) * 16 + (of_char b - 97) :: nat))) (hex_decode s)"

lemma of_hex_char: "n < 16 \<Longrightarrow> (of_char (hex_char n) :: nat) = 97 + n"
  by (simp add: hex_char_def)

lemma char_byte: "(of_char c :: nat) < 256"
  by (metis of_char_mod_256 mod_less_divisor zero_less_numeral)

lemma hex_decode_encode [simp]: "hex_decode (hex_encode s) = Some s"
proof (induction s)
  case (Cons c s)
  have "(of_char c :: nat) div 16 < 16" using char_byte [of c] by (simp add: div_less_iff_less_mult)
  then show ?case using Cons
    by (simp add: hex_encode_def hex_byte_def of_hex_char)
qed (simp add: hex_encode_def)

lemma hex_encode_no_BAR: "BAR \<notin> set (hex_encode s)"
proof -
  have "BAR \<notin> set (hex_byte c)" for c
  proof -
    have "(of_char c :: nat) div 16 < 16" using char_byte [of c] by (simp add: div_less_iff_less_mult)
    then have "(of_char (hex_char (of_char c div 16)) :: nat) < 124" "(of_char (hex_char (of_char c mod 16)) :: nat) < 124"
      by (simp_all add: of_hex_char)
    then show ?thesis by (auto simp: hex_byte_def dest: arg_cong [where f = "of_char :: char \<Rightarrow> nat"])
  qed
  then show ?thesis by (simp add: hex_encode_def)
qed

lemma hex_encode_length: "length (hex_encode s) = 2 * length s"
  by (induction s) (simp_all add: hex_encode_def hex_byte_def)

definition uuid_bytes :: "uuid \<Rightarrow> string" where
  "uuid_bytes u = map (\<lambda>k. char_of (unat (take_bit 8 (drop_bit (8 * k) u)))) [0..<16]"

lemma uuid_bytes_inject: "uuid_bytes u = uuid_bytes v \<Longrightarrow> u = v"
proof -
  assume eq: "uuid_bytes u = uuid_bytes v"
  have byte: "unat (take_bit 8 w) < 256" for w :: uuid
    using take_bit_nat_less_exp [of 8 "unat w"] by (simp add: unsigned_take_bit_eq)
  have "take_bit 8 (drop_bit (8 * k) u) = take_bit 8 (drop_bit (8 * k) v)" if "k < 16" for k
  proof -
    have "(char_of (unat (take_bit 8 (drop_bit (8 * k) u))) :: char) = char_of (unat (take_bit 8 (drop_bit (8 * k) v)))"
      using eq that by (auto simp: uuid_bytes_def)
    then have "unat (take_bit 8 (drop_bit (8 * k) u)) = unat (take_bit 8 (drop_bit (8 * k) v))"
      using byte by (metis char_of_nat mod_less of_char_of)
    then show ?thesis by (simp add: word_unat_eq_iff)
  qed
  then have *: "bit (take_bit 8 (drop_bit (8 * k) u)) j = bit (take_bit 8 (drop_bit (8 * k) v)) j" if "k < 16" for k j
    using that by simp
  show "u = v"
  proof (rule bit_word_eqI)
    fix n assume "n < LENGTH(128)"
    then have "n div 8 < 16" by simp
    from * [OF this, of "n mod 8"] show "bit u n = bit v n"
      by (simp add: bit_take_bit_iff bit_drop_bit_eq)
  qed
qed

definition demo_crypto :: crypto where
  "demo_crypto = \<lparr> cy_sha256 = id, cy_b64 = hex_encode, cy_b64_decode = hex_decode, cy_signature = Some,
     cy_public = id, cy_sign = (\<lambda>k m. k @ m), cy_verify = (\<lambda>k m s. s = k @ m),
     cy_uuid = (\<lambda>u. ''----'' @ hex_encode (uuid_bytes u)) \<rparr>"

lemma demo_texts_ok: "texts_ok demo_crypto"
proof -
  have "hex_encode a = hex_encode b \<Longrightarrow> a = b" for a b by (metis hex_decode_encode option.inject)
  then show ?thesis
    by (auto simp: texts_ok_def demo_crypto_def inj_def hex_encode_no_BAR hex_encode_length
        uuid_bytes_inject) (simp add: uuid_bytes_def)
qed

lemma demo_crypto_ok: "crypto_ok demo_crypto"
  by (simp add: crypto_ok_def demo_crypto_def)

theorem validate_timestamp_exact_witness: "\<exists>r. validate_timestamp 100 i64_min = Some r \<and> r \<noteq> Ok ()"
  using validate_timestamp_exact [of i64_min 100] by (auto simp: i64_min_def i64_max_def)

abbreviation demo_signature :: request_signature where
  "demo_signature \<equiv> build_request_signature demo_crypto ''k'' 100 7 1 ''GET'' ''/a|b'' ''body''"

definition demo_sessions :: signing_sessions where
  "demo_sessions = register_session 0 1 ''k'' Map.empty"

abbreviation demo_session :: signing_session where
  "demo_session \<equiv> \<lparr> ss_peer_public_key = ''k'', ss_created_at = 0, ss_last_used_at = 0, ss_seen_nonces = Map.empty \<rparr>"

lemma demo_session_facts:
  "demo_sessions 1 = Some demo_session" "session_live 5 demo_session"
  "validate_timestamp 110 100 = Some (Ok ())" "cy_public demo_crypto ''k'' = ''k''"
  by (simp_all add: demo_sessions_def register_session_def session_live_def elapsed_def
      RELAY_SIGNING_SESSION_TTL_def RELAY_SIGNING_SESSION_IDLE_TTL_def validate_timestamp_def i64_abs_def
      i64_saturating_sub_def i64_min_def i64_max_def RELAY_SIGNATURE_MAX_TIMESTAMP_DRIFT_SECS_def demo_crypto_def)

theorem signed_request_accepted_witness:
  "\<exists>ss'. verify_request demo_crypto 110 5 demo_signature ''GET'' ''/a|b'' ''body'' demo_sessions = (Some (Ok ()), ss')"
  using signed_request_accepted [of demo_crypto demo_sessions 1 demo_session 5 "''k''" 7 100 110 "''GET''" "''/a|b''" "''body''"]
  by (auto simp: demo_crypto_ok demo_session_facts i64_max_def)

lemma demo_accepted:
  "\<exists>ss'. verify_request demo_crypto 110 5 demo_signature ''GET'' ''/a|b'' ''body'' demo_sessions = (Some (Ok ()), ss')"
  using genuine_accepted [of demo_crypto demo_sessions 1 demo_session 5 "''k''" 7 110 100 "''GET''" "''/a|b''" "''body''"]
  by (auto simp: demo_crypto_ok demo_session_facts)

theorem replay_refused_witness:
  "\<exists>ss1. verify_request demo_crypto 110 5 demo_signature ''GET'' ''/a|b'' ''body'' demo_sessions = (Some (Ok ()), ss1)
    \<and> fst (verify_request demo_crypto 111 1000000005 demo_signature ''GET'' ''/a|b'' ''body'' ss1) \<noteq> Some (Ok ())"
proof -
  obtain ss1 where ok: "verify_request demo_crypto 110 5 demo_signature ''GET'' ''/a|b'' ''body'' demo_sessions = (Some (Ok ()), ss1)"
    using demo_accepted by blast
  have "fst (verify_request demo_crypto 111 1000000005 demo_signature ''GET'' ''/a|b'' ''body'' ss1) \<noteq> Some (Ok ())"
    by (rule replay_refused [OF ok, of 5 ss1]) (simp_all add: request_signature_fields(1-3) i64_min_def i64_max_def)
  with ok show ?thesis by blast
qed

text \<open>The same with a check that accepts the one signed text only.\<close>

definition ideal_crypto :: crypto where
  "ideal_crypto = demo_crypto\<lparr> cy_verify := (\<lambda>_ m _.
     m = build_request_signing_message demo_crypto demo_signature ''GET'' ''/a|b'' ''body'') \<rparr>"

lemma ideal_message: "build_request_signing_message ideal_crypto = build_request_signing_message demo_crypto"
  by (simp add: fun_eq_iff build_request_signing_message_def ideal_crypto_def)

lemma ideal_verify: "cy_verify ideal_crypto k m x \<longleftrightarrow>
    m = build_request_signing_message demo_crypto demo_signature ''GET'' ''/a|b'' ''body''"
  by (simp add: ideal_crypto_def)

lemma ideal_accepted:
  "\<exists>ss'. verify_request ideal_crypto 110 5 demo_signature ''GET'' ''/a|b'' ''body'' demo_sessions = (Some (Ok ()), ss')"
proof -
  have "\<exists>x. parse_signature_b64 ideal_crypto (rq_signature_b64 demo_signature) = Ok x"
    unfolding request_signature_fields(4) by (simp add: parse_signature_b64_def ideal_crypto_def demo_crypto_def)
  then obtain x where "parse_signature_b64 ideal_crypto (rq_signature_b64 demo_signature) = Ok x" ..
  from request_accepted [of 110 demo_signature ideal_crypto x demo_sessions demo_session 5 "''GET''" "''/a|b''" "''body''", OF _ this]
  show ?thesis
    by (auto simp: request_signature_fields(1-3) demo_session_facts ideal_message ideal_verify)
qed


end
