(* ===== verification/Relay_Frames.thy ===== *)
theory Relay_Frames
  imports Relay_Signing
begin

text \<open>
  What travels over the relay: native messages as frames (\<open>crates/relay-protocol/src/lib.rs\<close>), frames
  in signed and numbered envelopes (\<open>crates/relay-ws/src/crypto.rs\<close>, \<open>signed.rs\<close>), and the chunks of a
  data channel (\<open>crates/relay-webrtc/src/fragment.rs\<close>). A byte is a \<open>char\<close>. The JSON text of an
  envelope and the validity of UTF-8 are parameters.
\<close>

section \<open>Messages and frames\<close>

datatype RelayWsMessageType = WsText | WsBinary | WsPing | WsPong | WsClose

fun message_type_str :: "RelayWsMessageType \<Rightarrow> string" where
  "message_type_str WsText = ''text''"
| "message_type_str WsBinary = ''binary''"
| "message_type_str WsPing = ''ping''"
| "message_type_str WsPong = ''pong''"
| "message_type_str WsClose = ''close''"

record ws_frame =
  wf_type :: RelayWsMessageType
  wf_payload :: string

text \<open>The messages of both libraries; a raw frame exists only on tungstenite's side.\<close>

datatype ws_message =
    MsgText string
  | MsgBinary string
  | MsgPing string
  | MsgPong string
  | MsgClose "(u16 \<times> string) option"
  | MsgRaw string

definition u16_to_be_bytes :: "u16 \<Rightarrow> string" where
  "u16_to_be_bytes c = [char_of (unat c div 256), char_of (unat c mod 256)]"

definition u16_from_be_bytes :: "char \<Rightarrow> char \<Rightarrow> u16" where
  "u16_from_be_bytes a b = word_of_nat (256 * of_char a + of_char b)"

fun into_frame :: "ws_message \<Rightarrow> ws_frame" where
  "into_frame (MsgText t) = \<lparr> wf_type = WsText, wf_payload = t \<rparr>"
| "into_frame (MsgBinary p) = \<lparr> wf_type = WsBinary, wf_payload = p \<rparr>"
| "into_frame (MsgPing p) = \<lparr> wf_type = WsPing, wf_payload = p \<rparr>"
| "into_frame (MsgPong p) = \<lparr> wf_type = WsPong, wf_payload = p \<rparr>"
| "into_frame (MsgClose None) = \<lparr> wf_type = WsClose, wf_payload = [] \<rparr>"
| "into_frame (MsgClose (Some (code, reason))) = \<lparr> wf_type = WsClose, wf_payload = u16_to_be_bytes code @ reason \<rparr>"
| "into_frame (MsgRaw _) = \<lparr> wf_type = WsBinary, wf_payload = [] \<rparr>"

datatype frame_error = InvalidUtf8Text | InvalidClosePayload | InvalidUtf8CloseReason

definition try_from_frame :: "(string \<Rightarrow> bool) \<Rightarrow> ws_frame \<Rightarrow> frame_error + ws_message" where
  "try_from_frame utf8 f = (case wf_type f of
     WsText \<Rightarrow> if utf8 (wf_payload f) then Ok (MsgText (wf_payload f)) else Err InvalidUtf8Text
   | WsBinary \<Rightarrow> Ok (MsgBinary (wf_payload f))
   | WsPing \<Rightarrow> Ok (MsgPing (wf_payload f))
   | WsPong \<Rightarrow> Ok (MsgPong (wf_payload f))
   | WsClose \<Rightarrow> (case wf_payload f of
       [] \<Rightarrow> Ok (MsgClose None)
     | [_] \<Rightarrow> Err InvalidClosePayload
     | a # b # reason \<Rightarrow> if utf8 reason then Ok (MsgClose (Some (u16_from_be_bytes a b, reason)))
         else Err InvalidUtf8CloseReason))"

fun message_utf8 :: "(string \<Rightarrow> bool) \<Rightarrow> ws_message \<Rightarrow> bool" where
  "message_utf8 utf8 (MsgText t) = utf8 t"
| "message_utf8 utf8 (MsgClose (Some (_, reason))) = utf8 reason"
| "message_utf8 utf8 _ = True"

section \<open>Chunks\<close>

definition CHUNK_PAYLOAD_SIZE :: nat where "CHUNK_PAYLOAD_SIZE = 60 * 1024"
definition BITFIELD_MORE :: char where "BITFIELD_MORE = CHR 0x06"
definition BITFIELD_END :: char where "BITFIELD_END = CHR 0x07"

text \<open>\<open>slice::chunks\<close>, which is not called with zero.\<close>

function list_chunks :: "nat \<Rightarrow> 'a list \<Rightarrow> 'a list list" where
  "list_chunks n xs = (if xs = [] \<or> n = 0 then [] else take n xs # list_chunks n (drop n xs))"
  by pat_completeness auto
termination by (relation "measure (length \<circ> snd)") auto

declare list_chunks.simps [simp del]

definition fragment :: "string \<Rightarrow> string list" where
  "fragment data =
     (if length data \<le> CHUNK_PAYLOAD_SIZE then [BITFIELD_END # data]
      else (let pieces = list_chunks CHUNK_PAYLOAD_SIZE data; last_idx = length pieces - 1 in
        map (\<lambda>(i, payload). (if i = last_idx then BITFIELD_END else BITFIELD_MORE) # payload)
          (enumerate 0 pieces)))"

text \<open>\<open>Defragmenter::process\<close>; the state is the buffer.\<close>

definition process_chunk :: "string \<Rightarrow> string \<Rightarrow> string option \<times> string" where
  "process_chunk data buffer = (case data of
     [] \<Rightarrow> (None, buffer)
   | header # payload \<Rightarrow>
       (let is_end = odd (of_char header :: nat) in
        if buffer = [] \<and> is_end then (Some payload, buffer)
        else if is_end then (Some (buffer @ payload), [])
        else (None, buffer @ payload)))"

fun defragment :: "string list \<Rightarrow> string \<Rightarrow> string list \<times> string" where
  "defragment [] buffer = ([], buffer)"
| "defragment (chunk # chunks) buffer =
     (let (out, buffer) = process_chunk chunk buffer; (rest, buffer) = defragment chunks buffer
      in (option_list out @ rest, buffer))"

section \<open>Signed envelopes\<close>

definition ENVELOPE_VERSION :: nat where "ENVELOPE_VERSION = 1"

record signed_ws_envelope =
  we_version :: nat
  we_seq :: u64
  we_msg_type :: RelayWsMessageType
  we_payload_b64 :: string
  we_signature_b64 :: string

record json_codec =
  jc_to_vec :: "signed_ws_envelope \<Rightarrow> string option"
  jc_from_slice :: "string \<Rightarrow> signed_ws_envelope option"

definition ws_signing_input :: "crypto \<Rightarrow> request_signature \<Rightarrow> u64 \<Rightarrow> RelayWsMessageType \<Rightarrow> string \<Rightarrow> string" where
  "ws_signing_input cy sig seq ty payload =
     ''v1|'' @ cy_uuid cy (rq_session sig) @ ''|'' @ cy_uuid cy (rq_nonce sig) @ ''|'' @ show_nat (unat seq)
     @ ''|'' @ message_type_str ty @ ''|'' @ cy_b64 cy (cy_sha256 cy payload)"

record ws_frame_signer =
  sn_request :: request_signature
  sn_outbound_seq :: u64
  sn_key :: string

record ws_frame_verifier =
  vf_request :: request_signature
  vf_inbound_seq :: u64
  vf_peer_key :: string

definition signer_new :: "request_signature \<Rightarrow> string \<Rightarrow> ws_frame_signer" where
  "signer_new sig key = \<lparr> sn_request = sig, sn_outbound_seq = 0, sn_key = key \<rparr>"

definition verifier_new :: "request_signature \<Rightarrow> string \<Rightarrow> ws_frame_verifier" where
  "verifier_new sig key = \<lparr> vf_request = sig, vf_inbound_seq = 0, vf_peer_key = key \<rparr>"

definition encode_frame :: "crypto \<Rightarrow> json_codec \<Rightarrow> ws_frame \<Rightarrow> ws_frame_signer \<Rightarrow> string option \<times> ws_frame_signer" where
  "encode_frame cy js f sn =
     (let sn = sn\<lparr> sn_outbound_seq := saturating_add (sn_outbound_seq sn) 1 \<rparr>;
          signature = cy_sign cy (sn_key sn)
            (ws_signing_input cy (sn_request sn) (sn_outbound_seq sn) (wf_type f) (wf_payload f))
      in (jc_to_vec js \<lparr> we_version = ENVELOPE_VERSION, we_seq = sn_outbound_seq sn, we_msg_type = wf_type f,
            we_payload_b64 = cy_b64 cy (wf_payload f), we_signature_b64 = cy_b64 cy signature \<rparr>, sn))"

datatype envelope_error = InvalidEnvelopeJson | UnsupportedVersion | InvalidSequence u64 u64
  | InvalidPayload | InvalidSignatureEncoding | InvalidFrameSignature

definition decode_frame :: "crypto \<Rightarrow> json_codec \<Rightarrow> string \<Rightarrow> ws_frame_verifier
    \<Rightarrow> (envelope_error + ws_frame) \<times> ws_frame_verifier" where
  "decode_frame cy js raw vf =
     (case jc_from_slice js raw of
        None \<Rightarrow> (Err InvalidEnvelopeJson, vf)
      | Some env \<Rightarrow>
        if we_version env \<noteq> ENVELOPE_VERSION then (Err UnsupportedVersion, vf)
        else (let expected = saturating_add (vf_inbound_seq vf) 1 in
        if we_seq env \<noteq> expected then (Err (InvalidSequence expected (we_seq env)), vf)
        else (case cy_b64_decode cy (we_payload_b64 env) of
          None \<Rightarrow> (Err InvalidPayload, vf)
        | Some payload \<Rightarrow>
          (case cy_b64_decode cy (we_signature_b64 env) of
             None \<Rightarrow> (Err InvalidSignatureEncoding, vf)
           | Some bytes \<Rightarrow> (case cy_signature cy bytes of
               None \<Rightarrow> (Err InvalidFrameSignature, vf)
             | Some signature \<Rightarrow>
               if \<not> cy_verify cy (vf_peer_key vf)
                   (ws_signing_input cy (vf_request vf) (we_seq env) (we_msg_type env) payload) signature
               then (Err InvalidFrameSignature, vf)
               else (Ok \<lparr> wf_type = we_msg_type env, wf_payload = payload \<rparr>,
                     vf\<lparr> vf_inbound_seq := we_seq env \<rparr>))))))"

text \<open>
  \<open>SignedWebSocket\<close>: \<open>send\<close> puts an envelope into a binary message; \<open>recv\<close> skips pings and pongs,
  ends at a close, and verifies every other message. The inbox is what the peer, or anybody in
  between, puts on the wire.
\<close>

datatype channel_error = ChannelDecode envelope_error | ChannelFrame frame_error

definition channel_send :: "crypto \<Rightarrow> json_codec \<Rightarrow> ws_message \<Rightarrow> ws_frame_signer
    \<Rightarrow> ws_message option \<times> ws_frame_signer" where
  "channel_send cy js m sn =
     (let (bytes, sn) = encode_frame cy js (into_frame m) sn in (map_option MsgBinary bytes, sn))"

fun channel_recv :: "crypto \<Rightarrow> json_codec \<Rightarrow> (string \<Rightarrow> bool) \<Rightarrow> ws_message list \<Rightarrow> ws_frame_verifier
    \<Rightarrow> (channel_error + ws_message option) \<times> ws_message list \<times> ws_frame_verifier" where
  "channel_recv cy js utf8 [] vf = (Ok None, [], vf)"
| "channel_recv cy js utf8 (m # inbox) vf =
     (let f = into_frame m in
      if wf_type f \<in> {WsPing, WsPong} then channel_recv cy js utf8 inbox vf
      else if wf_type f = WsClose then (Ok None, inbox, vf)
      else (case decode_frame cy js (wf_payload f) vf of
          (Inl e, vf) \<Rightarrow> (Err (ChannelDecode e), inbox, vf)
        | (Inr g, vf) \<Rightarrow> (case try_from_frame utf8 g of
            Inl e \<Rightarrow> (Err (ChannelFrame e), inbox, vf)
          | Inr r \<Rightarrow> (Ok (Some r), inbox, vf))))"

text \<open>All that the sender emits, and all frames the receiver accepts from a sequence of envelopes.\<close>

fun encode_all :: "crypto \<Rightarrow> json_codec \<Rightarrow> ws_frame list \<Rightarrow> ws_frame_signer \<Rightarrow> string option list" where
  "encode_all cy js [] sn = []"
| "encode_all cy js (f # fs) sn = (let (raw, sn) = encode_frame cy js f sn in raw # encode_all cy js fs sn)"

fun decode_all :: "crypto \<Rightarrow> json_codec \<Rightarrow> string list \<Rightarrow> ws_frame_verifier \<Rightarrow> ws_frame list" where
  "decode_all cy js [] vf = []"
| "decode_all cy js (raw # raws) vf = (case decode_frame cy js raw vf of
     (Inr f, vf) \<Rightarrow> f # decode_all cy js raws vf
   | (Inl _, vf) \<Rightarrow> decode_all cy js raws vf)"

section \<open>Messages survive\<close>

lemma u16_be_bytes: "u16_from_be_bytes (char_of (unat c div 256)) (char_of (unat c)) = c"
proof -
  have "unat c < 2 ^ 16" using unsigned_less [of c] by simp
  then have "unat c div 256 < 256" by (simp add: div_less_iff_less_mult)
  then show ?thesis by (simp add: u16_from_be_bytes_def)
qed

text \<open>
  Every message of a WebSocket library that can be sent arrives as it was: converting it to a frame
  and back gives the same message, close codes and reasons included.
\<close>

theorem frame_roundtrip:
  assumes "message_utf8 utf8 m" "\<forall>r. m \<noteq> MsgRaw r"
  shows "try_from_frame utf8 (into_frame m) = Ok m"
  using assms
  by (cases m rule: into_frame.cases)
    (simp_all add: try_from_frame_def u16_to_be_bytes_def u16_be_bytes)

section \<open>Chunks come together\<close>

lemma list_chunks_concat: "0 < n \<Longrightarrow> concat (list_chunks n xs) = xs"
proof (induction n xs rule: list_chunks.induct)
  case (1 n xs)
  then show ?case by (subst list_chunks.simps) auto
qed

lemma list_chunks_sizes: "p \<in> set (list_chunks n xs) \<Longrightarrow> p \<noteq> [] \<and> length p \<le> n"
proof (induction n xs rule: list_chunks.induct)
  case (1 n xs)
  then show ?case by (subst (asm) (2) list_chunks.simps) (auto split: if_splits)
qed

lemma list_chunks_Nil [simp]: "list_chunks n xs = [] \<longleftrightarrow> xs = [] \<or> n = 0"
  by (subst list_chunks.simps) auto

text \<open>The pieces with their headers, without indices.\<close>

fun with_headers :: "string list \<Rightarrow> string list" where
  "with_headers [] = []"
| "with_headers [p] = [BITFIELD_END # p]"
| "with_headers (p # q # ps) = (BITFIELD_MORE # p) # with_headers (q # ps)"

lemma enumerate_headers:
  "map (\<lambda>(i, p). (if i = k + length ps - 1 then BITFIELD_END else BITFIELD_MORE) # p) (enumerate k ps)
    = with_headers ps"
proof (induction ps arbitrary: k rule: with_headers.induct)
  case (3 p q ps)
  then show ?case using 3 [of "Suc k"] by simp
qed simp_all

lemma fragment_with_headers:
  "fragment data = with_headers (if length data \<le> CHUNK_PAYLOAD_SIZE then [data] else list_chunks CHUNK_PAYLOAD_SIZE data)"
  using enumerate_headers [of 0 "list_chunks CHUNK_PAYLOAD_SIZE data"] by (simp add: fragment_def Let_def)

lemma header_bits [simp]: "odd (of_char BITFIELD_END :: nat)" "even (of_char BITFIELD_MORE :: nat)"
  by (simp_all add: BITFIELD_END_def BITFIELD_MORE_def)

lemma process_end [simp]: "process_chunk (BITFIELD_END # p) buffer = (Some (buffer @ p), [])"
  by (simp add: process_chunk_def)

lemma process_more [simp]: "process_chunk (BITFIELD_MORE # p) buffer = (None, buffer @ p)"
  by (simp add: process_chunk_def)

lemma defragment_with_headers:
  "ps \<noteq> [] \<Longrightarrow> defragment (with_headers ps @ chunks) buffer =
    (let (rest, buffer') = defragment chunks [] in ((buffer @ concat ps) # rest, buffer'))"
  by (induction ps arbitrary: buffer rule: with_headers.induct) (simp_all split: prod.split)

lemma defragment_fragment:
  "defragment (fragment data @ chunks) [] = (let (rest, b) = defragment chunks [] in (data # rest, b))"
proof -
  have "concat (list_chunks CHUNK_PAYLOAD_SIZE data) = data"
    by (rule list_chunks_concat) (simp add: CHUNK_PAYLOAD_SIZE_def)
  moreover have "0 < CHUNK_PAYLOAD_SIZE" by (simp add: CHUNK_PAYLOAD_SIZE_def)
  ultimately show ?thesis unfolding fragment_with_headers
    by (subst defragment_with_headers) (auto split: if_splits prod.split)
qed

text \<open>
  Any sequence of messages, of any sizes and contents, is reassembled exactly from its chunks, and
  the receiver is left with nothing over.
\<close>

theorem fragments_reassemble:
  "defragment (concat (map fragment messages)) [] = (messages, [])"
  by (induction messages) (simp_all add: defragment_fragment)

text \<open>
  Every chunk, with its header, fits the channel's limit of 65536 bytes, and a message is cut into no
  more chunks than it needs.
\<close>

lemma with_headers_sizes: "c \<in> set (with_headers ps) \<Longrightarrow> \<exists>p \<in> set ps. length c = Suc (length p)"
  by (induction ps rule: with_headers.induct) auto

lemma list_chunks_length: "0 < n \<Longrightarrow> length (list_chunks n xs) = (length xs + n - 1) div n"
proof (induction n xs rule: list_chunks.induct)
  case (1 n xs)
  show ?case
  proof (cases "xs = []")
    case True
    then show ?thesis using 1(2) by (subst list_chunks.simps) simp
  next
    case False
    then have len: "length (list_chunks n xs) = Suc (length (list_chunks n (drop n xs)))"
      using 1(2) by (subst list_chunks.simps) simp
    have IH: "length (list_chunks n (drop n xs)) = (length xs - n + n - 1) div n" using 1 False by simp
    show ?thesis
    proof (cases "length xs \<le> n")
      case True
      obtain k where k: "length xs = Suc k" using False by (cases xs) auto
      then have "(k + n) div n = 1" using True 1(2) by (simp add: div_add_self2)
      then have "(length xs + n - 1) div n = 1" by (simp add: k)
      moreover have "(length xs - n + n - 1) div n = 0" using True 1(2) by simp
      ultimately show ?thesis using len IH by simp
    next
      case False
      then have "length xs + n - 1 = (length xs - n + n - 1) + n" by simp
      then show ?thesis using len IH 1(2) by (metis div_add_self2 Suc_eq_plus1 less_numeral_extra(3))
    qed
  qed
qed

lemma with_headers_length: "length (with_headers ps) = length ps"
  by (induction ps rule: with_headers.induct) simp_all

theorem fragment_bounds:
  "(\<forall>c \<in> set (fragment data). 1 \<le> length c \<and> length c \<le> CHUNK_PAYLOAD_SIZE + 1 \<and> length c < 65536)
    \<and> length (fragment data) = max 1 ((length data + CHUNK_PAYLOAD_SIZE - 1) div CHUNK_PAYLOAD_SIZE)"
proof (intro conjI ballI)
  let ?ps = "if length data \<le> CHUNK_PAYLOAD_SIZE then [data] else list_chunks CHUNK_PAYLOAD_SIZE data"
  fix c assume "c \<in> set (fragment data)"
  then obtain p where "p \<in> set ?ps" "length c = Suc (length p)"
    using with_headers_sizes unfolding fragment_with_headers by blast
  then have "length c \<le> CHUNK_PAYLOAD_SIZE + 1" "1 \<le> length c"
    using list_chunks_sizes by (auto split: if_splits)
  then show "1 \<le> length c" "length c \<le> CHUNK_PAYLOAD_SIZE + 1" "length c < 65536"
    by (simp_all add: CHUNK_PAYLOAD_SIZE_def)
next
  have "(length data + CHUNK_PAYLOAD_SIZE - 1) div CHUNK_PAYLOAD_SIZE \<le> 1" if "length data \<le> CHUNK_PAYLOAD_SIZE"
    using that by (simp add: CHUNK_PAYLOAD_SIZE_def)
  moreover have "1 \<le> (length data + CHUNK_PAYLOAD_SIZE - 1) div CHUNK_PAYLOAD_SIZE" if "\<not> length data \<le> CHUNK_PAYLOAD_SIZE"
    using that by (simp add: CHUNK_PAYLOAD_SIZE_def)
  ultimately show "length (fragment data) = max 1 ((length data + CHUNK_PAYLOAD_SIZE - 1) div CHUNK_PAYLOAD_SIZE)"
    unfolding fragment_with_headers with_headers_length
    using list_chunks_length [of CHUNK_PAYLOAD_SIZE data] by (auto simp: CHUNK_PAYLOAD_SIZE_def max_def)
qed

section \<open>Envelopes in order\<close>

lemma message_type_str_inject [simp]: "message_type_str a = message_type_str b \<longleftrightarrow> a = b"
  by (cases a; cases b) simp_all

lemma message_type_str_no_BAR [simp]: "BAR \<notin> set (message_type_str a)"
  by (cases a) simp_all

lemma ws_input_fields:
  assumes "texts_ok cy"
  shows "ws_signing_input cy sig seq ty payload = ws_signing_input cy sig' seq' ty' payload' \<longleftrightarrow>
    rq_session sig = rq_session sig' \<and> rq_nonce sig = rq_nonce sig' \<and> seq = seq' \<and> ty = ty'
    \<and> cy_sha256 cy payload = cy_sha256 cy payload'"
proof -
  have "unat seq = unat seq' \<longleftrightarrow> seq = seq'" by (simp add: word_unat_eq_iff)
  then show ?thesis using assms by (auto simp: ws_signing_input_def first_field)
qed

text \<open>
  A key signs requests, responses and frames. The three kinds of text never coincide: a frame's text
  has a UUID where the others have a time stamp.
\<close>

lemma show_int_short:
  assumes "i64_min \<le> ts" "ts \<le> i64_max"
  shows "length (show_int ts) < 36"
proof -
  have "length (show_nat (nat \<bar>ts\<bar>)) \<le> 20"
    by (rule show_nat_length) (use assms in \<open>auto simp: i64_min_def i64_max_def\<close>)
  then show ?thesis by (auto simp: show_int_def split: if_splits)
qed

lemma ws_input_not_timed:
  assumes "texts_ok cy" "i64_min \<le> ts" "ts \<le> i64_max"
  shows "ws_signing_input cy sig seq ty payload \<noteq> ''v1|'' @ show_int ts @ ''|'' @ rest"
proof
  assume "ws_signing_input cy sig seq ty payload = ''v1|'' @ show_int ts @ ''|'' @ rest"
  then have "cy_uuid cy (rq_session sig) = show_int ts"
    using assms(1) by (auto simp: ws_signing_input_def first_field)
  then have "length (show_int ts) = 36" using assms(1) by (metis texts_okD(3))
  then show False using show_int_short [OF assms(2,3)] by simp
qed

text \<open>
  Everything the sender's key signs besides the frames of this channel: frames of other channels,
  and texts that start with a time stamp, as requests and responses do.
\<close>

definition other_texts :: "crypto \<Rightarrow> request_signature \<Rightarrow> string set" where
  "other_texts cy sig = {ws_signing_input cy g seq ty p | g seq ty p.
       \<not> (rq_session g = rq_session sig \<and> rq_nonce g = rq_nonce sig)}
     \<union> {''v1|'' @ show_int ts @ ''|'' @ rest | ts rest. i64_min \<le> ts \<and> ts \<le> i64_max}"

definition frame_texts :: "crypto \<Rightarrow> request_signature \<Rightarrow> ws_frame list \<Rightarrow> string set" where
  "frame_texts cy sig sent =
     {ws_signing_input cy sig (word_of_nat (Suc k)) (wf_type (sent ! k)) (wf_payload (sent ! k)) | k. k < length sent}"

definition same_frame :: "crypto \<Rightarrow> ws_frame \<Rightarrow> ws_frame \<Rightarrow> bool" where
  "same_frame cy f g \<longleftrightarrow> wf_type f = wf_type g \<and> cy_sha256 cy (wf_payload f) = cy_sha256 cy (wf_payload g)"

lemma decode_frame_Ok:
  assumes "decode_frame cy js raw vf = (Ok f, vf')"
  obtains signature where "vf' = vf\<lparr> vf_inbound_seq := saturating_add (vf_inbound_seq vf) 1 \<rparr>"
    "cy_verify cy (vf_peer_key vf) (ws_signing_input cy (vf_request vf) (saturating_add (vf_inbound_seq vf) 1)
       (wf_type f) (wf_payload f)) signature"
  using assms by (auto simp: decode_frame_def Let_def split: option.splits if_splits)

lemma decode_frame_Err: "decode_frame cy js raw vf = (Err e, vf') \<Longrightarrow> vf' = vf"
  by (auto simp: decode_frame_def Let_def split: option.splits if_splits)

lemma accepted_is_next:
  assumes "texts_ok cy" "unforgeable cy (vf_peer_key vf) (frame_texts cy (vf_request vf) sent \<union> other_texts cy (vf_request vf))"
    and "length sent < 2 ^ 64 - 1" "unat (vf_inbound_seq vf) \<le> length sent"
    and "decode_frame cy js raw vf = (Ok f, vf')"
  shows "unat (vf_inbound_seq vf) < length sent" "same_frame cy f (sent ! unat (vf_inbound_seq vf))"
    "unat (vf_inbound_seq vf') = Suc (unat (vf_inbound_seq vf))"
    "vf_request vf' = vf_request vf" "vf_peer_key vf' = vf_peer_key vf"
proof -
  let ?n = "unat (vf_inbound_seq vf)" and ?seq = "saturating_add (vf_inbound_seq vf) 1"
  have seq: "unat ?seq = Suc ?n" using assms(3,4) by (simp add: unat_saturating_add)
  obtain signature where vf': "vf' = vf\<lparr> vf_inbound_seq := ?seq \<rparr>"
    and v: "cy_verify cy (vf_peer_key vf) (ws_signing_input cy (vf_request vf) ?seq (wf_type f) (wf_payload f)) signature"
    using decode_frame_Ok [OF assms(5)] .
  let ?m = "ws_signing_input cy (vf_request vf) ?seq (wf_type f) (wf_payload f)"
  have "?m \<notin> other_texts cy (vf_request vf)"
    using ws_input_not_timed [OF assms(1)] by (auto simp: other_texts_def ws_input_fields [OF assms(1)])
  then obtain k where k: "k < length sent" "?seq = word_of_nat (Suc k)" "wf_type f = wf_type (sent ! k)"
    "cy_sha256 cy (wf_payload f) = cy_sha256 cy (wf_payload (sent ! k))"
    using v assms(2) by (auto simp: unforgeable_def frame_texts_def ws_input_fields [OF assms(1)])
  have "unat (word_of_nat (Suc k) :: u64) = Suc k"
    using k(1) assms(3) by (simp add: unsigned_of_nat take_bit_nat_eq_self del: of_nat_Suc)
  then have "k = ?n" using seq k(2) by simp
  with k show "?n < length sent" "same_frame cy f (sent ! ?n)" by (simp_all add: same_frame_def)
  show "unat (vf_inbound_seq vf') = Suc ?n" "vf_request vf' = vf_request vf" "vf_peer_key vf' = vf_peer_key vf"
    using vf' seq by simp_all
qed

lemma decode_all_prefix:
  assumes "texts_ok cy" "unforgeable cy (vf_peer_key vf) (frame_texts cy (vf_request vf) sent \<union> other_texts cy (vf_request vf))"
    and "length sent < 2 ^ 64 - 1" "unat (vf_inbound_seq vf) \<le> length sent"
  shows "\<exists>m. list_all2 (same_frame cy) (decode_all cy js raws vf) (take m (drop (unat (vf_inbound_seq vf)) sent))"
  using assms(2,4)
proof (induction raws arbitrary: vf)
  case Nil
  show ?case by (rule exI [of _ 0]) simp
next
  case (Cons raw raws)
  obtain r vf' where d: "decode_frame cy js raw vf = (r, vf')" by fastforce
  show ?case
  proof (cases r)
    case (Inl e)
    then show ?thesis using Cons.IH [OF Cons.prems] d decode_frame_Err by fastforce
  next
    case (Inr f)
    let ?n = "unat (vf_inbound_seq vf)"
    note acc = accepted_is_next [OF assms(1) Cons.prems(1) assms(3) Cons.prems(2) d [unfolded Inr]]
    obtain m where "list_all2 (same_frame cy) (decode_all cy js raws vf') (take m (drop (Suc ?n) sent))"
      using Cons.IH [of vf'] Cons.prems(1) acc by (metis Suc_leI)
    then have "list_all2 (same_frame cy) (f # decode_all cy js raws vf') (take (Suc m) (drop ?n sent))"
      using acc(1,2) by (simp add: Cons_nth_drop_Suc [symmetric])
    then show ?thesis using d Inr by auto
  qed
qed


definition codec_ok :: "json_codec \<Rightarrow> bool" where
  "codec_ok js \<longleftrightarrow> (\<forall>e. \<exists>raw. jc_to_vec js e = Some raw \<and> jc_from_slice js raw = Some e)"

lemma encode_decode_all:
  assumes "crypto_ok cy" "codec_ok js"
  shows "decode_all cy js (map the (encode_all cy js fs sn))
    \<lparr> vf_request = sn_request sn, vf_inbound_seq = sn_outbound_seq sn, vf_peer_key = cy_public cy (sn_key sn) \<rparr> = fs"
proof (induction fs arbitrary: sn)
  case (Cons f fs)
  let ?sn = "sn\<lparr> sn_outbound_seq := saturating_add (sn_outbound_seq sn) 1 \<rparr>"
  obtain raw where raw: "encode_frame cy js f sn = (Some raw, ?sn)"
    "jc_from_slice js raw = Some \<lparr> we_version = ENVELOPE_VERSION, we_seq = sn_outbound_seq ?sn, we_msg_type = wf_type f,
      we_payload_b64 = cy_b64 cy (wf_payload f), we_signature_b64 = cy_b64 cy (cy_sign cy (sn_key sn)
        (ws_signing_input cy (sn_request sn) (sn_outbound_seq ?sn) (wf_type f) (wf_payload f))) \<rparr>"
    using assms(2) by (auto simp: encode_frame_def codec_ok_def Let_def)
  have "decode_frame cy js raw \<lparr> vf_request = sn_request sn, vf_inbound_seq = sn_outbound_seq sn,
      vf_peer_key = cy_public cy (sn_key sn) \<rparr> = (Ok f, \<lparr> vf_request = sn_request ?sn,
      vf_inbound_seq = sn_outbound_seq ?sn, vf_peer_key = cy_public cy (sn_key ?sn) \<rparr>)"
    using assms(1) raw(2) by (simp add: decode_frame_def crypto_ok_def)
  then show ?case using raw(1) Cons.IH [of ?sn] by simp
qed simp

text \<open>
  An undisturbed channel delivers everything: all frames a sender encodes, decoded in order by the
  receiver of the same session and nonce, are the frames it was given.
\<close>

theorem channel_roundtrip:
  assumes "crypto_ok cy" "codec_ok js" "rq_session sig' = rq_session sig" "rq_nonce sig' = rq_nonce sig"
  shows "decode_all cy js (map the (encode_all cy js fs (signer_new sig key)))
    (verifier_new sig' (cy_public cy key)) = fs"
proof -
  have "ws_signing_input cy sig' = ws_signing_input cy sig"
    using assms(3,4) by (simp add: ws_signing_input_def fun_eq_iff)
  then have "decode_frame cy js raw (vf\<lparr> vf_request := sig' \<rparr>)
      = map_prod id (vf_request_update (\<lambda>_. sig')) (decode_frame cy js raw (vf\<lparr> vf_request := sig \<rparr>))" for raw vf
    by (simp add: decode_frame_def Let_def split: option.split)
  then have "decode_all cy js raws (vf\<lparr> vf_request := sig' \<rparr>) = decode_all cy js raws (vf\<lparr> vf_request := sig \<rparr>)" for raws vf
  proof (induction raws arbitrary: vf)
    case (Cons raw raws)
    obtain r vf1 where d: "decode_frame cy js raw (vf\<lparr> vf_request := sig \<rparr>) = (r, vf1)" by fastforce
    have "vf1\<lparr> vf_request := sig \<rparr> = vf1"
      using d by (auto simp: decode_frame_def Let_def split: option.splits if_splits)
    then show ?case using Cons.IH [of vf1] Cons.prems [of raw vf] d Cons.prems by (cases r) simp_all
  qed simp
  from this [of _ "verifier_new sig (cy_public cy key)"] show ?thesis
    using encode_decode_all [OF assms(1,2), of fs "signer_new sig key"]
    by (simp add: verifier_new_def signer_new_def)
qed

section \<open>Witnesses\<close>

theorem frame_roundtrip_witness:
  "try_from_frame (\<lambda>_. True) (into_frame (MsgClose (Some (1001, ''bye'')))) = Ok (MsgClose (Some (1001, ''bye'')))"
  by (rule frame_roundtrip) simp_all

text \<open>A concrete text of an envelope: its fields between separators.\<close>

definition demo_to_vec :: "signed_ws_envelope \<Rightarrow> string" where
  "demo_to_vec e = show_nat (we_version e) @ ''|'' @ show_nat (unat (we_seq e)) @ ''|'' @ message_type_str (we_msg_type e)
     @ ''|'' @ hex_encode (we_payload_b64 e) @ ''|'' @ hex_encode (we_signature_b64 e)"

definition demo_type_of :: "string \<Rightarrow> RelayWsMessageType" where
  "demo_type_of s = (if s = ''text'' then WsText else if s = ''binary'' then WsBinary
     else if s = ''ping'' then WsPing else if s = ''pong'' then WsPong else WsClose)"

definition demo_from_slice :: "string \<Rightarrow> signed_ws_envelope option" where
  "demo_from_slice raw = (case split_on BAR raw of
     [v, n, t, p, x] \<Rightarrow> Some \<lparr> we_version = the (parse_digits 0 v), we_seq = word_of_nat (the (parse_digits 0 n)),
       we_msg_type = demo_type_of t, we_payload_b64 = the (hex_decode p), we_signature_b64 = the (hex_decode x) \<rparr>
   | _ \<Rightarrow> None)"

definition demo_codec :: json_codec where
  "demo_codec = \<lparr> jc_to_vec = Some \<circ> demo_to_vec, jc_from_slice = demo_from_slice \<rparr>"

lemma demo_type_of_str: "demo_type_of (message_type_str t) = t"
  by (cases t) (simp_all add: demo_type_of_def)

lemma demo_codec_ok: "codec_ok demo_codec"
proof -
  have "split_on BAR (demo_to_vec e) = [show_nat (we_version e), show_nat (unat (we_seq e)),
      message_type_str (we_msg_type e), hex_encode (we_payload_b64 e), hex_encode (we_signature_b64 e)]" for e
    by (simp add: demo_to_vec_def split_on_append_sep split_on_no_sep hex_encode_no_BAR)
  then show ?thesis
    by (simp add: codec_ok_def demo_codec_def demo_from_slice_def parse_digits_show_nat demo_type_of_str)
qed

definition demo_frames :: "ws_frame list" where
  "demo_frames = [\<lparr> wf_type = WsText, wf_payload = ''hello'' \<rparr>, \<lparr> wf_type = WsClose, wf_payload = [] \<rparr>]"

theorem channel_roundtrip_witness:
  "decode_all demo_crypto demo_codec (map the (encode_all demo_crypto demo_codec demo_frames (signer_new demo_signature ''k'')))
     (verifier_new demo_signature (cy_public demo_crypto ''k'')) = demo_frames"
  by (rule channel_roundtrip [OF demo_crypto_ok demo_codec_ok]) simp_all

text \<open>An attacker who sends anything at all, when only the first frame was signed.\<close>

definition frame_crypto :: crypto where
  "frame_crypto = demo_crypto\<lparr> cy_verify := (\<lambda>_ m _. m = ws_signing_input demo_crypto demo_signature 1 WsText ''hello'') \<rparr>"

lemma frame_crypto_input: "ws_signing_input frame_crypto = ws_signing_input demo_crypto"
  by (simp add: fun_eq_iff ws_signing_input_def frame_crypto_def)


end
