(* ===== verification/Msg_Store.thy ===== *)
theory Msg_Store
  imports Rust_Strings Data_Model "HOL-Library.AList"
begin

text \<open>
  The log store of an execution (\<open>utils/src/msg_store.rs\<close>, \<open>utils/src/log_msg.rs\<close>): a history
  bounded by bytes, a broadcast channel to the live consumers, the hand-over from the history to
  the channel, and the observation times the store adds to the entries of a conversation.

  Parameters: the serialised length of a JSON patch (\<open>serde_json\<close>), the test for an RFC 3339 time
  (\<open>chrono\<close>), the text of the clock, and the broadcast channel (\<open>tokio::sync::broadcast\<close>), whose
  documented behaviour is the predicate \<open>broadcast_ok\<close>.
\<close>

section \<open>JSON values and patches\<close>

definition json_as_object :: "json \<Rightarrow> (string \<times> json) list option" where
  "json_as_object v = (case v of JObj ms \<Rightarrow> Some ms | _ \<Rightarrow> None)"

definition json_get_str :: "json \<Rightarrow> string \<Rightarrow> string option" where
  "json_get_str v key = Option.bind (json_get key v) as_str"

text \<open>
  \<open>Map::insert\<close> through a mutable reference to a member; the workspace enables \<open>preserve_order\<close>, so an
  object keeps its members in order.
\<close>

definition json_put :: "json \<Rightarrow> string \<Rightarrow> json \<Rightarrow> json" where
  "json_put v key w = (case v of JObj ms \<Rightarrow> JObj (AList.update key w ms) | _ \<Rightarrow> v)"

lemma json_get_put: "json_get k (json_put v key w) =
  (if k = key \<and> json_as_object v \<noteq> None then Some w else json_get k v)"
  by (cases v) (auto simp: json_put_def json_as_object_def update_conv')

text \<open>RFC 6902, as the \<open>json_patch\<close> crate has it; paths are JSON pointers in their text form.\<close>

datatype PatchOperation =
    OpAdd string json
  | OpRemove string
  | OpReplace string json
  | OpMove string string
  | OpCopy string string
  | OpTest string json

type_synonym patch = "PatchOperation list"

section \<open>Log messages\<close>

datatype LogMsg =
    Stdout string
  | Stderr string
  | JsonPatch patch
  | SessionId string
  | MessageId string
  | Ready
  | Finished

definition log_msg_name :: "LogMsg \<Rightarrow> string" where
  "log_msg_name m = (case m of
     Stdout _ \<Rightarrow> ''stdout'' | Stderr _ \<Rightarrow> ''stderr'' | JsonPatch _ \<Rightarrow> ''json_patch''
   | SessionId _ \<Rightarrow> ''session_id'' | MessageId _ \<Rightarrow> ''message_id'' | Ready \<Rightarrow> ''ready''
   | Finished \<Rightarrow> ''finished'')"

text \<open>\<open>patch_len\<close> is the length of the serialised patch; \<open>None\<close> where serialising fails.\<close>

definition approx_bytes :: "(patch \<Rightarrow> nat option) \<Rightarrow> LogMsg \<Rightarrow> nat" where
  "approx_bytes patch_len m = (case m of
     Stdout s \<Rightarrow> length ''stdout'' + length s + 8
   | Stderr s \<Rightarrow> length ''stderr'' + length s + 8
   | JsonPatch p \<Rightarrow> length ''json_patch'' + (case patch_len p of Some n \<Rightarrow> n | None \<Rightarrow> 2) + 8
   | SessionId s \<Rightarrow> length ''session_id'' + length s + 8
   | MessageId s \<Rightarrow> length ''message_id'' + length s + 8
   | Ready \<Rightarrow> length ''ready'' + 8
   | Finished \<Rightarrow> length ''finished'' + 8)"

section \<open>Observation times\<close>

definition MAX_ENTRY_TIMESTAMPS :: nat where
  "MAX_ENTRY_TIMESTAMPS = 100000"

definition usize_max :: nat where
  "usize_max = 2 ^ 64 - 1"

text \<open>\<open>BTreeMap<usize, String>\<close> as an association list with distinct keys.\<close>

type_synonym entry_timestamps = "(nat \<times> string) list"

definition entry_index :: "string \<Rightarrow> nat option" where
  "entry_index path = Option.bind (strip_prefix ''/entries/'' path)
     (\<lambda>s. map_option unat (parse_u64 s))"

text \<open>Shifting the tail: up by one for an insertion, down by one for a removal.\<close>

definition split_off :: "nat \<Rightarrow> entry_timestamps \<Rightarrow> entry_timestamps \<times> entry_timestamps" where
  "split_off i ts = (filter (\<lambda>(k, _). k < i) ts, filter (\<lambda>(k, _). i \<le> k) ts)"

definition shift_up :: "nat \<Rightarrow> entry_timestamps \<Rightarrow> entry_timestamps" where
  "shift_up i ts = (let (front, tail) = split_off i ts
     in front @ List.map_filter
          (\<lambda>(k, t). if k + 1 \<le> usize_max then Some (k + 1, t) else None) tail)"

definition shift_down :: "nat \<Rightarrow> entry_timestamps \<Rightarrow> entry_timestamps" where
  "shift_down i ts = (let (front, tail) = split_off i (AList.delete i ts)
     in front @ map (\<lambda>(k, t). (k - 1, t)) tail)"

text \<open>
  The part of \<open>enrich\<close> for an entry: the time the entry gets, and the value with it. \<open>rfc3339\<close> is
  the test for a valid time.
\<close>

definition content_object :: "json \<Rightarrow> json option" where
  "content_object v = (case json_get ''content'' v of
     Some (JObj ms) \<Rightarrow> Some (JObj ms) | _ \<Rightarrow> None)"

definition source_time :: "(string \<Rightarrow> bool) \<Rightarrow> json \<Rightarrow> string option" where
  "source_time rfc3339 content = (case json_get_str content ''timestamp'' of
     Some t \<Rightarrow> if rfc3339 t then Some t else None | None \<Rightarrow> None)"

definition choose_time ::
  "(string \<Rightarrow> bool) \<Rightarrow> string \<Rightarrow> nat \<Rightarrow> json \<Rightarrow> entry_timestamps \<Rightarrow> string option" where
  "choose_time rfc3339 now i content ts = (case source_time rfc3339 content of
     Some t \<Rightarrow> Some t
   | None \<Rightarrow> (case map_of ts i of
       Some t \<Rightarrow> Some t
     | None \<Rightarrow> if length ts < MAX_ENTRY_TIMESTAMPS then Some now else None))"

definition enrich_entry ::
  "(string \<Rightarrow> bool) \<Rightarrow> string \<Rightarrow> bool \<Rightarrow> nat \<Rightarrow> json \<Rightarrow> entry_timestamps
    \<Rightarrow> json \<times> entry_timestamps" where
  "enrich_entry rfc3339 now inserting i v ts0 =
     (let ts = if inserting then shift_up i ts0 else ts0
      in if json_get_str v ''type'' \<noteq> Some ''NORMALIZED_ENTRY'' then (v, AList.delete i ts)
         else (case content_object v of
             None \<Rightarrow> (v, ts)
           | Some content \<Rightarrow> (case choose_time rfc3339 now i content ts of
               None \<Rightarrow> (v, ts)
             | Some t \<Rightarrow>
                 (json_put v ''content'' (json_put content ''timestamp'' (JStr t)),
                  if map_of ts i \<noteq> None \<or> length ts < MAX_ENTRY_TIMESTAMPS
                  then AList.update i t ts else ts))))"

definition enrich_op ::
  "(string \<Rightarrow> bool) \<Rightarrow> string \<Rightarrow> PatchOperation \<Rightarrow> entry_timestamps
    \<Rightarrow> PatchOperation \<times> entry_timestamps" where
  "enrich_op rfc3339 now op ts = (case op of
     OpRemove path \<Rightarrow>
       (op, if path = ''/entries'' then []
            else (case entry_index path of None \<Rightarrow> ts | Some i \<Rightarrow> shift_down i ts))
   | OpAdd path v \<Rightarrow>
       if path = ''/entries'' then (op, [])
       else (case entry_index path of
           None \<Rightarrow> (op, ts)
         | Some i \<Rightarrow> (let (v', ts') = enrich_entry rfc3339 now True i v ts in (OpAdd path v', ts')))
   | OpReplace path v \<Rightarrow>
       if path = ''/entries'' then (op, [])
       else (case entry_index path of
           None \<Rightarrow> (op, ts)
         | Some i \<Rightarrow> (let (v', ts') = enrich_entry rfc3339 now False i v ts in (OpReplace path v', ts')))
   | _ \<Rightarrow> (op, ts))"

fun enrich ::
  "(string \<Rightarrow> bool) \<Rightarrow> string \<Rightarrow> patch \<Rightarrow> entry_timestamps \<Rightarrow> patch \<times> entry_timestamps" where
  "enrich rfc3339 now [] ts = ([], ts)"
| "enrich rfc3339 now (op # ops) ts =
     (let (op', ts') = enrich_op rfc3339 now op ts;
          (ops', ts'') = enrich rfc3339 now ops ts'
      in (op' # ops', ts''))"

section \<open>The store\<close>

definition HISTORY_BYTES :: nat where
  "HISTORY_BYTES = 100000 * 1024"

definition usize_saturating_add :: "nat \<Rightarrow> nat \<Rightarrow> nat" where
  "usize_saturating_add a b = min (a + b) usize_max"

record stored_msg =
  sm_msg :: LogMsg
  sm_bytes :: nat

text \<open>The broadcast channel: \<open>'c\<close> is its state, \<open>'r\<close> a receiver's.\<close>

datatype received = Received LogMsg | Lagged nat | NothingYet

record ('c, 'r) broadcast =
  bc_channel :: "nat \<Rightarrow> 'c"
  bc_send :: "'c \<Rightarrow> LogMsg \<Rightarrow> 'c"
  bc_subscribe :: "'c \<Rightarrow> 'r"
  bc_poll :: "'c \<Rightarrow> 'r \<Rightarrow> received \<times> 'r"

record 'c msg_store =
  ms_history :: "stored_msg list"
  ms_total_bytes :: nat
  ms_entry_timestamps :: "entry_timestamps option"
  ms_sender :: 'c

definition with_capacity :: "('c, 'r) broadcast \<Rightarrow> nat \<Rightarrow> 'c msg_store" where
  "with_capacity bc capacity = \<lparr> ms_history = [], ms_total_bytes = 0, ms_entry_timestamps = None,
     ms_sender = bc_channel bc capacity \<rparr>"

definition store_new :: "('c, 'r) broadcast \<Rightarrow> 'c msg_store" where
  "store_new bc = with_capacity bc 100000"

definition store_live :: "('c, 'r) broadcast \<Rightarrow> 'c msg_store" where
  "store_live bc = (store_new bc)\<lparr> ms_entry_timestamps := Some [] \<rparr>"

text \<open>The loop that makes room: it ends when the message fits or the history is empty.\<close>

fun make_room :: "nat \<Rightarrow> nat \<Rightarrow> stored_msg list \<Rightarrow> nat \<times> stored_msg list" where
  "make_room bytes used [] = (used, [])"
| "make_room bytes used (front # rest) =
     (if HISTORY_BYTES < usize_saturating_add used bytes
      then make_room bytes (used - sm_bytes front) rest
      else (used, front # rest))"

definition push_enrich ::
  "(string \<Rightarrow> bool) \<Rightarrow> string \<Rightarrow> LogMsg \<Rightarrow> entry_timestamps option
    \<Rightarrow> LogMsg \<times> entry_timestamps option" where
  "push_enrich rfc3339 now m stamps = (case (stamps, m) of
     (Some ts, JsonPatch p) \<Rightarrow> (let (p', ts') = enrich rfc3339 now p ts in (JsonPatch p', Some ts'))
   | _ \<Rightarrow> (m, stamps))"

definition push ::
  "('c, 'r) broadcast \<Rightarrow> (patch \<Rightarrow> nat option) \<Rightarrow> (string \<Rightarrow> bool) \<Rightarrow> string \<Rightarrow> LogMsg
    \<Rightarrow> 'c msg_store \<Rightarrow> 'c msg_store" where
  "push bc patch_len rfc3339 now m0 st =
     (let (m, stamps) = push_enrich rfc3339 now m0 (ms_entry_timestamps st);
          bytes = approx_bytes patch_len m;
          (used, history) = make_room bytes (ms_total_bytes st) (ms_history st)
      in st\<lparr> ms_history := history @ [\<lparr> sm_msg = m, sm_bytes = bytes \<rparr>],
             ms_total_bytes := usize_saturating_add used bytes,
             ms_entry_timestamps := stamps,
             ms_sender := bc_send bc (ms_sender st) m \<rparr>)"

definition select_history :: "(LogMsg \<Rightarrow> 'x option) \<Rightarrow> 'c msg_store \<Rightarrow> 'x list" where
  "select_history select st = List.map_filter (\<lambda>s. select (sm_msg s)) (ms_history st)"

definition get_history :: "'c msg_store \<Rightarrow> LogMsg list" where
  "get_history st = select_history Some st"

text \<open>
  A consumer of \<open>history_plus_stream\<close>: the cloned history still to be replayed and the receiver.
  Subscribing and cloning happen under the read lock, a push under the write lock, so each is one
  step. \<open>stream_next\<close> is one poll of the chained stream: the history first, then the channel; a lag
  is an error item.
\<close>

record 'r log_stream =
  ls_history :: "LogMsg list"
  ls_receiver :: 'r

definition history_plus_stream :: "('c, 'r) broadcast \<Rightarrow> 'c msg_store \<Rightarrow> 'r log_stream" where
  "history_plus_stream bc st = \<lparr> ls_history = map sm_msg (ms_history st),
     ls_receiver = bc_subscribe bc (ms_sender st) \<rparr>"

definition history_plus_stream_counting ::
  "('c, 'r) broadcast \<Rightarrow> (LogMsg \<Rightarrow> bool) \<Rightarrow> 'c msg_store \<Rightarrow> nat \<times> 'r log_stream" where
  "history_plus_stream_counting bc count_msg st =
     (let s = history_plus_stream bc st in (length (filter count_msg (ls_history s)), s))"

definition stream_next ::
  "('c, 'r) broadcast \<Rightarrow> 'c msg_store \<Rightarrow> 'r log_stream
    \<Rightarrow> (nat + LogMsg) option \<times> 'r log_stream" where
  "stream_next bc st s = (case ls_history s of
     m # ms \<Rightarrow> (Some (Inr m), s\<lparr> ls_history := ms \<rparr>)
   | [] \<Rightarrow> (case bc_poll bc (ms_sender st) (ls_receiver s) of
       (Received m, r) \<Rightarrow> (Some (Inr m), s\<lparr> ls_receiver := r \<rparr>)
     | (Lagged n, r) \<Rightarrow> (Some (Inl n), s\<lparr> ls_receiver := r \<rparr>)
     | (NothingYet, r) \<Rightarrow> (None, s\<lparr> ls_receiver := r \<rparr>)))"

text \<open>The chunked streams, on the items a stream yields: up to \<open>Finished\<close>, one variant and the errors.\<close>

definition stdout_chunks :: "(nat + LogMsg) list \<Rightarrow> (nat + string) list" where
  "stdout_chunks items = List.map_filter
     (\<lambda>i. case i of Inr (Stdout s) \<Rightarrow> Some (Inr s) | Inl e \<Rightarrow> Some (Inl e) | _ \<Rightarrow> None)
     (takeWhile (\<lambda>i. i \<noteq> Inr Finished) items)"

definition stderr_chunks :: "(nat + LogMsg) list \<Rightarrow> (nat + string) list" where
  "stderr_chunks items = List.map_filter
     (\<lambda>i. case i of Inr (Stderr s) \<Rightarrow> Some (Inr s) | Inl e \<Rightarrow> Some (Inl e) | _ \<Rightarrow> None)
     (takeWhile (\<lambda>i. i \<noteq> Inr Finished) items)"

text \<open>\<open>spawn_forwarder\<close>: an error of the source becomes a line on the error stream.\<close>

definition forwarded :: "string + LogMsg \<Rightarrow> LogMsg" where
  "forwarded r = (case r of Inr m \<Rightarrow> m | Inl e \<Rightarrow> Stderr (''stream error: '' @ e))"

definition forward ::
  "('c, 'r) broadcast \<Rightarrow> (patch \<Rightarrow> nat option) \<Rightarrow> (string \<Rightarrow> bool) \<Rightarrow> (string \<times> (string + LogMsg)) list
    \<Rightarrow> 'c msg_store \<Rightarrow> 'c msg_store" where
  "forward bc patch_len rfc3339 items st =
     fold (\<lambda>(now, r) st. push bc patch_len rfc3339 now (forwarded r) st) items st"


section \<open>The bounded history\<close>

definition stored_bytes :: "stored_msg list \<Rightarrow> nat" where
  "stored_bytes h = sum_list (map sm_bytes h)"

lemma stored_bytes_simps [simp]:
  "stored_bytes [] = 0" "stored_bytes (x # h) = sm_bytes x + stored_bytes h"
  "stored_bytes (h @ h') = stored_bytes h + stored_bytes h'"
  by (simp_all add: stored_bytes_def)

text \<open>The stored total is the sum of the sizes; only a single message can exceed the limit.\<close>

definition total_ok :: "nat \<Rightarrow> stored_msg list \<Rightarrow> bool" where
  "total_ok used h \<longleftrightarrow> used = min (stored_bytes h) usize_max
     \<and> (stored_bytes h \<le> HISTORY_BYTES \<or> length h \<le> 1)"

lemma over_limit_iff:
  "HISTORY_BYTES < usize_saturating_add (min a usize_max) b \<longleftrightarrow> HISTORY_BYTES < a + b"
  by (auto simp: usize_saturating_add_def usize_max_def HISTORY_BYTES_def min_def)

lemma total_ok_tl: "total_ok used (x # h) \<Longrightarrow> total_ok (used - sm_bytes x) h"
  by (cases h) (auto simp: total_ok_def HISTORY_BYTES_def usize_max_def min_def)

lemma make_room_spec:
  assumes "total_ok used h"
  shows "\<exists>k. snd (make_room bytes used h) = drop k h \<and> k \<le> length h
    \<and> total_ok (fst (make_room bytes used h)) (drop k h)
    \<and> (stored_bytes (drop k h) + bytes \<le> HISTORY_BYTES \<or> k = length h)
    \<and> (k = 0 \<or> HISTORY_BYTES < stored_bytes (drop (k - 1) h) + bytes)"
  using assms
proof (induction bytes used h rule: make_room.induct)
  case (1 bytes used)
  then show ?case by simp
next
  case (2 bytes used x h)
  have over: "HISTORY_BYTES < usize_saturating_add used bytes
      \<longleftrightarrow> HISTORY_BYTES < stored_bytes (x # h) + bytes"
    using 2(2) over_limit_iff [of "stored_bytes (x # h)" bytes] by (simp add: total_ok_def)
  show ?case
  proof (cases "HISTORY_BYTES < usize_saturating_add used bytes")
    case False
    then show ?thesis using 2(2) over by (intro exI [of _ 0]) simp
  next
    case True
    obtain k where k: "snd (make_room bytes (used - sm_bytes x) h) = drop k h" "k \<le> length h"
      "total_ok (fst (make_room bytes (used - sm_bytes x) h)) (drop k h)"
      "stored_bytes (drop k h) + bytes \<le> HISTORY_BYTES \<or> k = length h"
      "k = 0 \<or> HISTORY_BYTES < stored_bytes (drop (k - 1) h) + bytes"
      using 2(1) [OF True total_ok_tl [OF 2(2)]] by blast
    have "HISTORY_BYTES < stored_bytes (drop k (x # h)) + bytes"
      using k(5) True over by (cases k) auto
    then show ?thesis using k(1-4) True by (intro exI [of _ "Suc k"]) simp
  qed
qed

text \<open>A run of pushes, each with the clock's text, and the messages it publishes.\<close>

definition push_all ::
  "('c, 'r) broadcast \<Rightarrow> (patch \<Rightarrow> nat option) \<Rightarrow> (string \<Rightarrow> bool) \<Rightarrow> (string \<times> LogMsg) list
    \<Rightarrow> 'c msg_store \<Rightarrow> 'c msg_store" where
  "push_all bc patch_len rfc3339 items st =
     fold (\<lambda>(now, m) st. push bc patch_len rfc3339 now m st) items st"

fun published ::
  "(string \<Rightarrow> bool) \<Rightarrow> (string \<times> LogMsg) list \<Rightarrow> entry_timestamps option \<Rightarrow> LogMsg list" where
  "published rfc3339 [] stamps = []"
| "published rfc3339 ((now, m) # items) stamps =
     (let (m', stamps') = push_enrich rfc3339 now m stamps in m' # published rfc3339 items stamps')"

definition bytes_of :: "(patch \<Rightarrow> nat option) \<Rightarrow> LogMsg list \<Rightarrow> nat" where
  "bytes_of patch_len ms = sum_list (map (approx_bytes patch_len) ms)"

lemma bytes_of_simps [simp]:
  "bytes_of pl [] = 0" "bytes_of pl (m # ms) = approx_bytes pl m + bytes_of pl ms"
  "bytes_of pl (ms @ ms') = bytes_of pl ms + bytes_of pl ms'"
  by (simp_all add: bytes_of_def)

text \<open>The history is the newest suffix of the published messages that fits.\<close>

definition newest_fitting :: "(patch \<Rightarrow> nat option) \<Rightarrow> LogMsg list \<Rightarrow> LogMsg list \<Rightarrow> bool" where
  "newest_fitting pl h pub \<longleftrightarrow> (\<exists>k. h = drop k pub
     \<and> (k < length pub \<or> pub = [] \<and> k = 0)
     \<and> (bytes_of pl h \<le> HISTORY_BYTES \<or> length h = 1)
     \<and> (k = 0 \<or> HISTORY_BYTES < bytes_of pl (drop (k - 1) pub)))"

definition store_ok :: "(patch \<Rightarrow> nat option) \<Rightarrow> LogMsg list \<Rightarrow> 'c msg_store \<Rightarrow> bool" where
  "store_ok pl pub st \<longleftrightarrow> total_ok (ms_total_bytes st) (ms_history st)
     \<and> map sm_bytes (ms_history st) = map (approx_bytes pl) (get_history st)
     \<and> newest_fitting pl (get_history st) pub"

lemma get_history_map: "get_history st = map sm_msg (ms_history st)"
  by (simp add: get_history_def select_history_def List.map_filter_def)

lemma stored_bytes_history:
  "map sm_bytes h = map (approx_bytes pl) (map sm_msg h) \<Longrightarrow>
   stored_bytes (drop k h) = bytes_of pl (drop k (map sm_msg h))"
  unfolding stored_bytes_def bytes_of_def by (metis drop_map)

lemma store_ok_push:
  assumes ok: "store_ok pl pub st"
    and m: "push_enrich rfc3339 now m0 (ms_entry_timestamps st) = (m, stamps)"
  shows "store_ok pl (pub @ [m]) (push bc pl rfc3339 now m0 st)"
proof -
  define b h ms where "b = approx_bytes pl m" and "h = ms_history st" and "ms = map sm_msg h"
  have inv: "total_ok (ms_total_bytes st) h" "map sm_bytes h = map (approx_bytes pl) ms"
    "newest_fitting pl ms pub"
    using ok by (simp_all add: store_ok_def get_history_map h_def ms_def)
  obtain j where j: "ms = drop j pub" "j < length pub \<or> pub = [] \<and> j = 0"
    "j = 0 \<or> HISTORY_BYTES < bytes_of pl (drop (j - 1) pub)"
    using inv(3) by (auto simp: newest_fitting_def)
  obtain k where k: "snd (make_room b (ms_total_bytes st) h) = drop k h" "k \<le> length h"
    "total_ok (fst (make_room b (ms_total_bytes st) h)) (drop k h)"
    "stored_bytes (drop k h) + b \<le> HISTORY_BYTES \<or> k = length h"
    "k = 0 \<or> HISTORY_BYTES < stored_bytes (drop (k - 1) h) + b"
    using make_room_spec [OF inv(1), of b] by blast
  have sb: "stored_bytes (drop i h) = bytes_of pl (drop i ms)" for i
    using stored_bytes_history inv(2) by (metis ms_def)
  define st' where "st' = push bc pl rfc3339 now m0 st"
  have h': "ms_history st' = drop k h @ [\<lparr> sm_msg = m, sm_bytes = b \<rparr>]"
    and t': "ms_total_bytes st' = usize_saturating_add (fst (make_room b (ms_total_bytes st) h)) b"
    using m k(1) by (simp_all add: st'_def push_def b_def h_def Let_def split_beta)
  have len: "length ms = length h" by (simp add: ms_def)
  have g': "get_history st' = drop k ms @ [m]" by (simp add: get_history_map h' ms_def drop_map)
  have "total_ok (ms_total_bytes st') (ms_history st')"
    using k(3,4) by (auto simp: total_ok_def h' t' usize_saturating_add_def)
  moreover have "map sm_bytes (ms_history st') = map (approx_bytes pl) (get_history st')"
    using inv(2) by (simp add: g' h' b_def drop_map [symmetric])
  moreover have "newest_fitting pl (get_history st') (pub @ [m])"
    unfolding newest_fitting_def
  proof (intro exI [of _ "j + k"] conjI)
    have jk: "j + k \<le> length pub" using j(1,2) k(2) len by auto
    then show "get_history st' = drop (j + k) (pub @ [m])" by (simp add: g' j(1) add.commute)
    show "j + k < length (pub @ [m]) \<or> pub @ [m] = [] \<and> j + k = 0" using jk by simp
    show "bytes_of pl (get_history st') \<le> HISTORY_BYTES \<or> length (get_history st') = 1"
      using k(4) by (auto simp: g' sb b_def len)
    show "j + k = 0 \<or> HISTORY_BYTES < bytes_of pl (drop (j + k - 1) (pub @ [m]))"
    proof (cases "k = 0")
      case True
      then show ?thesis using j(3) jk by auto
    next
      case False
      then have "drop (j + k - 1) (pub @ [m]) = drop (k - 1) ms @ [m]"
        using jk by (simp add: j(1) add.commute)
      then show ?thesis using k(5) False by (simp add: sb b_def)
    qed
  qed
  ultimately show ?thesis by (simp add: store_ok_def st'_def)
qed

lemma store_ok_push_all:
  "store_ok pl pub st \<Longrightarrow>
   store_ok pl (pub @ published rfc3339 items (ms_entry_timestamps st)) (push_all bc pl rfc3339 items st)"
proof (induction items arbitrary: pub st)
  case Nil
  then show ?case by (simp add: push_all_def)
next
  case (Cons item items)
  obtain now m0 where item: "item = (now, m0)" by (cases item)
  obtain m stamps where m: "push_enrich rfc3339 now m0 (ms_entry_timestamps st) = (m, stamps)"
    by (cases "push_enrich rfc3339 now m0 (ms_entry_timestamps st)")
  have "ms_entry_timestamps (push bc pl rfc3339 now m0 st) = stamps"
    using m by (simp add: push_def Let_def split_beta)
  then show ?case using Cons.IH [OF store_ok_push [OF Cons.prems m, of bc]] m
    by (simp add: item push_all_def)
qed

text \<open>
  Whatever is pushed into a new or live store, the retained history is the newest suffix of the
  published messages whose size is within the limit of 100000 KiB (the last message alone where it is
  larger by itself): nothing older is kept, nothing newer is dropped, and the order is kept.
\<close>

theorem history_newest_fitting:
  "newest_fitting patch_len
     (get_history (push_all bc patch_len rfc3339 items
       ((store_new bc)\<lparr> ms_entry_timestamps := stamps \<rparr>)))
     (published rfc3339 items stamps)"
proof -
  have "store_ok patch_len [] ((store_new bc)\<lparr> ms_entry_timestamps := stamps \<rparr>)"
    by (simp add: store_ok_def total_ok_def store_new_def with_capacity_def get_history_map newest_fitting_def)
  from store_ok_push_all [OF this, of rfc3339 items bc] show ?thesis by (simp add: store_ok_def)
qed


section \<open>The hand-over from the history to the live channel\<close>

text \<open>
  The documented behaviour of \<open>tokio::sync::broadcast\<close>: a receiver has pending, in order, what was
  sent since it subscribed. The channel keeps at least the capacity asked for; a receiver further
  behind is told how many messages it lost and goes on with the oldest one kept. \<open>pending\<close>,
  \<open>capacity\<close> and \<open>receiver_of\<close> (the receiver subscribed to this channel) are read off the channel,
  they are no operations of it.
\<close>

definition poll_ok ::
  "nat \<Rightarrow> LogMsg list \<Rightarrow> received \<Rightarrow> LogMsg list \<Rightarrow> bool" where
  "poll_ok cap p got p' \<longleftrightarrow>
     (if cap < length p then got = Lagged (length p - cap) \<and> p' = drop (length p - cap) p
      else (case p of [] \<Rightarrow> got = NothingYet \<and> p' = [] | m # q \<Rightarrow> got = Received m \<and> p' = q))"

definition broadcast_ok ::
  "('c, 'r) broadcast \<Rightarrow> ('c \<Rightarrow> 'r \<Rightarrow> bool) \<Rightarrow> ('c \<Rightarrow> 'r \<Rightarrow> LogMsg list) \<Rightarrow> ('c \<Rightarrow> nat) \<Rightarrow> bool" where
  "broadcast_ok bc receiver_of pending capacity \<longleftrightarrow>
     (\<forall>n. n \<le> capacity (bc_channel bc n))
   \<and> (\<forall>c m. capacity (bc_send bc c m) = capacity c)
   \<and> (\<forall>c. receiver_of c (bc_subscribe bc c) \<and> pending c (bc_subscribe bc c) = [])
   \<and> (\<forall>c m r. receiver_of c r \<longrightarrow>
        receiver_of (bc_send bc c m) r \<and> pending (bc_send bc c m) r = pending c r @ [m])
   \<and> (\<forall>c r. receiver_of c r \<longrightarrow> receiver_of c (snd (bc_poll bc c r))
        \<and> poll_ok (capacity c) (pending c r) (fst (bc_poll bc c r)) (pending c (snd (bc_poll bc c r))))"

text \<open>A store and one consumer of it: pushes by anyone, polls by the consumer, in any order.\<close>

datatype stream_action = PushMsg string LogMsg | PollStream

record ('c, 'r) handover_state =
  ho_store :: "'c msg_store"
  ho_stream :: "'r log_stream"
  ho_items :: "(nat + LogMsg) list"
  ho_published :: "LogMsg list"

definition handover_step ::
  "('c, 'r) broadcast \<Rightarrow> (patch \<Rightarrow> nat option) \<Rightarrow> (string \<Rightarrow> bool) \<Rightarrow> stream_action
    \<Rightarrow> ('c, 'r) handover_state \<Rightarrow> ('c, 'r) handover_state" where
  "handover_step bc pl rfc3339 a s = (case a of
     PushMsg now m0 \<Rightarrow>
       s\<lparr> ho_store := push bc pl rfc3339 now m0 (ho_store s),
          ho_published := ho_published s
            @ [fst (push_enrich rfc3339 now m0 (ms_entry_timestamps (ho_store s)))] \<rparr>
   | PollStream \<Rightarrow>
       (let (item, stream) = stream_next bc (ho_store s) (ho_stream s)
        in s\<lparr> ho_stream := stream, ho_items := ho_items s @ option_list item \<rparr>))"

definition subscribe_to :: "('c, 'r) broadcast \<Rightarrow> 'c msg_store \<Rightarrow> ('c, 'r) handover_state" where
  "subscribe_to bc st = \<lparr> ho_store = st, ho_stream = history_plus_stream bc st, ho_items = [],
     ho_published = [] \<rparr>"

definition handover ::
  "('c, 'r) broadcast \<Rightarrow> (patch \<Rightarrow> nat option) \<Rightarrow> (string \<Rightarrow> bool) \<Rightarrow> stream_action list
    \<Rightarrow> ('c, 'r) handover_state \<Rightarrow> ('c, 'r) handover_state" where
  "handover bc pl rfc3339 acts s = fold (handover_step bc pl rfc3339) acts s"

definition still_to_come :: "('c \<Rightarrow> 'r \<Rightarrow> LogMsg list) \<Rightarrow> ('c, 'r) handover_state \<Rightarrow> LogMsg list" where
  "still_to_come pending s =
     ls_history (ho_stream s) @ pending (ms_sender (ho_store s)) (ls_receiver (ho_stream s))"

definition lag_free :: "(nat + LogMsg) list \<Rightarrow> bool" where
  "lag_free items \<longleftrightarrow> list_all (\<lambda>i. \<not> isl i) items"

lemma lag_free_simps [simp]:
  "lag_free []" "lag_free (i # is) \<longleftrightarrow> \<not> isl i \<and> lag_free is"
  "lag_free (is @ is') \<longleftrightarrow> lag_free is \<and> lag_free is'"
  by (simp_all add: lag_free_def)

text \<open>What one action does to the account of the consumer.\<close>

lemma push_sender [simp]:
  "ms_sender (push bc pl rfc3339 now m0 st)
     = bc_send bc (ms_sender st) (fst (push_enrich rfc3339 now m0 (ms_entry_timestamps st)))"
  by (simp add: push_def Let_def split_beta)

text \<open>
  The account of a consumer: what it was owed is what it has received and what it will still
  receive.
\<close>

definition account ::
  "('c \<Rightarrow> 'r \<Rightarrow> bool) \<Rightarrow> ('c \<Rightarrow> 'r \<Rightarrow> LogMsg list) \<Rightarrow> LogMsg list \<Rightarrow> ('c, 'r) handover_state \<Rightarrow> bool" where
  "account receiver_of pending base s \<longleftrightarrow>
     receiver_of (ms_sender (ho_store s)) (ls_receiver (ho_stream s))
   \<and> ho_items s @ map Inr (still_to_come pending s) = map Inr (base @ ho_published s)"

lemma push_enrich_plain [simp]:
  "(\<And>p. m \<noteq> JsonPatch p) \<Longrightarrow> push_enrich rfc3339 now m stamps = (m, stamps)"
  by (cases m) (auto simp: push_enrich_def split: option.splits)

lemma account_push:
  assumes ok: "broadcast_ok bc receiver_of pending capacity" and acc: "account receiver_of pending base s"
  shows "account receiver_of pending base (handover_step bc pl rfc3339 (PushMsg now m0) s)"
proof -
  define c r m where "c = ms_sender (ho_store s)" and "r = ls_receiver (ho_stream s)"
    and "m = fst (push_enrich rfc3339 now m0 (ms_entry_timestamps (ho_store s)))"
  have "receiver_of c r" using acc by (simp add: account_def c_def r_def)
  then have law: "receiver_of (bc_send bc c m) r" "pending (bc_send bc c m) r = pending c r @ [m]"
    using ok unfolding broadcast_ok_def by blast+
  have "ho_items s @ map Inr (still_to_come pending s) @ [Inr m] = map Inr (base @ ho_published s @ [m])"
    using acc by (simp add: account_def flip: append_assoc)
  then show ?thesis using acc law
    by (simp add: account_def handover_step_def still_to_come_def c_def r_def m_def)
qed

lemma account_poll:
  assumes ok: "broadcast_ok bc receiver_of pending capacity" and acc: "account receiver_of pending base s"
    and lag: "lag_free (ho_items (handover_step bc pl rfc3339 PollStream s))"
  shows "account receiver_of pending base (handover_step bc pl rfc3339 PollStream s)"
proof (cases "ls_history (ho_stream s)")
  case (Cons m ms)
  then show ?thesis using acc
    by (simp add: account_def handover_step_def stream_next_def still_to_come_def)
next
  case Nil
  define c r where "c = ms_sender (ho_store s)" and "r = ls_receiver (ho_stream s)"
  obtain got r' where poll: "bc_poll bc c r = (got, r')" by (cases "bc_poll bc c r")
  have "receiver_of c r" using acc by (simp add: account_def c_def r_def)
  then have "receiver_of c (snd (bc_poll bc c r))
      \<and> poll_ok (capacity c) (pending c r) (fst (bc_poll bc c r)) (pending c (snd (bc_poll bc c r)))"
    using ok unfolding broadcast_ok_def by blast
  then have law: "receiver_of c r'" "poll_ok (capacity c) (pending c r) got (pending c r')"
    by (simp_all add: poll)
  have "\<not> capacity c < length (pending c r)"
  proof
    assume "capacity c < length (pending c r)"
    then have "got = Lagged (length (pending c r) - capacity c)" using law(2) by (simp add: poll_ok_def)
    then show False using lag Nil poll
      by (simp add: handover_step_def stream_next_def c_def r_def)
  qed
  then have "(case pending c r of [] \<Rightarrow> got = NothingYet \<and> pending c r' = []
      | m # q \<Rightarrow> got = Received m \<and> pending c r' = q)"
    using law(2) by (simp add: poll_ok_def)
  then show ?thesis using law(1) acc Nil poll
    by (cases "pending c r")
      (simp_all add: account_def handover_step_def stream_next_def still_to_come_def c_def r_def)
qed

lemma handover_items_grow: "\<exists>more. ho_items (handover bc pl rfc3339 acts s) = ho_items s @ more"
proof (induction acts arbitrary: s)
  case Nil
  show ?case by (simp add: handover_def)
next
  case (Cons a acts)
  have "\<exists>more. ho_items (handover_step bc pl rfc3339 a s) = ho_items s @ more"
    by (cases a) (simp_all add: handover_step_def split_beta Let_def)
  then show ?case using Cons.IH [of "handover_step bc pl rfc3339 a s"] by (auto simp: handover_def)
qed

lemma handover_account:
  assumes "broadcast_ok bc receiver_of pending capacity"
    and "lag_free (ho_items (handover bc pl rfc3339 acts s))" "account receiver_of pending base s"
  shows "account receiver_of pending base (handover bc pl rfc3339 acts s)"
  using assms(2,3)
proof (induction acts arbitrary: s)
  case Nil
  then show ?case by (simp add: handover_def)
next
  case (Cons a acts)
  let ?t = "handover_step bc pl rfc3339 a s"
  have h: "handover bc pl rfc3339 (a # acts) s = handover bc pl rfc3339 acts ?t"
    by (simp add: handover_def)
  have "lag_free (ho_items ?t)"
    using Cons.prems(1) handover_items_grow [of bc pl rfc3339 acts ?t] by (auto simp: h)
  then have "account receiver_of pending base ?t"
    using account_push [OF assms(1)] account_poll [OF assms(1)] Cons.prems(2) by (cases a) auto
  then show ?case using Cons.IH [of ?t] Cons.prems(1) by (simp add: h)
qed

lemma account_subscribe:
  "broadcast_ok bc receiver_of pending capacity \<Longrightarrow>
   account receiver_of pending (get_history st) (subscribe_to bc st)"
  by (simp add: account_def subscribe_to_def still_to_come_def history_plus_stream_def get_history_map
      broadcast_ok_def)

text \<open>A channel that behaves as documented: the log of what was sent, a receiver a position in it.\<close>

definition log_channel :: "(nat \<times> LogMsg list, nat) broadcast" where
  "log_channel = \<lparr> bc_channel = (\<lambda>n. (n, [])), bc_send = (\<lambda>(n, l) m. (n, l @ [m])),
     bc_subscribe = (\<lambda>(n, l). length l),
     bc_poll = (\<lambda>(n, l) p.
       if n < length l - p then (Lagged (length l - p - n), length l - n)
       else if p < length l then (Received (l ! p), Suc p) else (NothingYet, p)) \<rparr>"

definition log_receiver :: "nat \<times> LogMsg list \<Rightarrow> nat \<Rightarrow> bool" where
  "log_receiver c p \<longleftrightarrow> p \<le> length (snd c)"

definition log_pending :: "nat \<times> LogMsg list \<Rightarrow> nat \<Rightarrow> LogMsg list" where
  "log_pending c p = drop p (snd c)"

lemma log_channel_poll: "p \<le> length l \<Longrightarrow>
  poll_ok n (drop p l) (fst (bc_poll log_channel (n, l) p)) (drop (snd (bc_poll log_channel (n, l) p)) l)"
proof (cases "n < length l - p")
  case True
  then show ?thesis by (simp add: poll_ok_def log_channel_def)
next
  case False
  then show ?thesis
    by (cases "p < length l") (simp_all add: poll_ok_def log_channel_def Cons_nth_drop_Suc [symmetric])
qed

lemma log_channel_ok: "broadcast_ok log_channel log_receiver log_pending fst"
proof -
  have "log_receiver c (snd (bc_poll log_channel c p))" if "log_receiver c p" for c p
    using that by (cases c) (auto simp: log_receiver_def log_channel_def)
  moreover have "poll_ok (fst c) (log_pending c p) (fst (bc_poll log_channel c p))
      (log_pending c (snd (bc_poll log_channel c p)))" if "log_receiver c p" for c p
    using that log_channel_poll [of p "snd c" "fst c"] by (simp add: log_receiver_def log_pending_def)
  ultimately show ?thesis
    by (auto simp: broadcast_ok_def log_receiver_def log_pending_def log_channel_def)
qed

definition demo_store :: "(nat \<times> LogMsg list) msg_store" where
  "demo_store = push log_channel (\<lambda>_. None) (\<lambda>_. False) [] (Stdout ''history'') (store_live log_channel)"

definition demo_actions :: "stream_action list" where
  "demo_actions = [PushMsg [] (Stdout ''live''), PollStream, PollStream, PushMsg [] Finished, PollStream]"

lemma demo_handover:
  "ho_items (handover log_channel (\<lambda>_. None) (\<lambda>_. False) demo_actions (subscribe_to log_channel demo_store))
     = [Inr (Stdout ''history''), Inr (Stdout ''live''), Inr Finished]"
  by (simp add: handover_def demo_actions_def subscribe_to_def demo_store_def handover_step_def
      stream_next_def history_plus_stream_def push_def push_enrich_def store_live_def store_new_def
      with_capacity_def log_channel_def approx_bytes_def)

text \<open>
  C25: a consumer that subscribes to a store sees every message exactly once. Whatever is pushed and
  polled after the subscription, in any order, what it has received followed by what it will still
  receive is exactly the history retained when it subscribed followed by everything published
  since: no message is lost at the boundary, none is delivered on both sides of it, and the order is
  kept. The one exception announces itself as an error item (a receiver that fell behind).
\<close>

theorem handover_exactly_once:
  assumes "broadcast_ok bc receiver_of pending capacity"
    and "lag_free (ho_items (handover bc patch_len rfc3339 acts (subscribe_to bc st)))"
  shows "ho_items (handover bc patch_len rfc3339 acts (subscribe_to bc st))
      @ map Inr (still_to_come pending (handover bc patch_len rfc3339 acts (subscribe_to bc st)))
    = map Inr (get_history st
        @ ho_published (handover bc patch_len rfc3339 acts (subscribe_to bc st)))"
  using handover_account [OF assms account_subscribe [OF assms(1)]] by (simp add: account_def)

theorem handover_exactly_once_witness:
  "still_to_come log_pending
     (handover log_channel (\<lambda>_. None) (\<lambda>_. False) demo_actions (subscribe_to log_channel demo_store)) = []
   \<and> ho_published (handover log_channel (\<lambda>_. None) (\<lambda>_. False) demo_actions
       (subscribe_to log_channel demo_store)) = [Stdout ''live'', Finished]"
proof -
  let ?s = "handover log_channel (\<lambda>_. None) (\<lambda>_. False) demo_actions (subscribe_to log_channel demo_store)"
  have "ho_published ?s = [Stdout ''live'', Finished]"
    by (simp add: handover_def demo_actions_def subscribe_to_def handover_step_def
        split_beta)
  moreover have "get_history demo_store = [Stdout ''history'']"
    by (simp add: get_history_map demo_store_def push_def push_enrich_def store_live_def store_new_def
        with_capacity_def Let_def)
  moreover have "lag_free (ho_items ?s)" by (simp add: demo_handover)
  ultimately show ?thesis
    using handover_exactly_once [OF log_channel_ok, of "\<lambda>_. None" "\<lambda>_. False" demo_actions demo_store]
    by (simp add: demo_handover)
qed

section \<open>Observation times follow the entries\<close>

text \<open>
  The abstract specification: the conversation as the list of its entries, each with the time it was
  observed, and what each operation of a patch does to it. An insertion moves the later entries up
  with their times, a removal moves them down, a replacement keeps the entry's own time unless its
  source supplies one.
\<close>

type_synonym conversation = "string option list"

definition known_times :: "conversation \<Rightarrow> nat" where
  "known_times sh = length (filter (\<lambda>t. t \<noteq> None) sh)"

definition slot_time ::
  "(string \<Rightarrow> bool) \<Rightarrow> string \<Rightarrow> bool \<Rightarrow> json \<Rightarrow> string option \<Rightarrow> string option" where
  "slot_time rfc3339 now has_room v own =
     (if json_get_str v ''type'' \<noteq> Some ''NORMALIZED_ENTRY'' then None
      else (case content_object v of
          None \<Rightarrow> own
        | Some content \<Rightarrow> (case (source_time rfc3339 content, own) of
            (Some t, Some _) \<Rightarrow> Some t
          | (Some t, None) \<Rightarrow> if has_room then Some t else None
          | (None, Some t) \<Rightarrow> Some t
          | (None, None) \<Rightarrow> if has_room then Some now else None)))"

definition fresh_entries :: "json \<Rightarrow> conversation" where
  "fresh_entries v = (case v of JArr xs \<Rightarrow> replicate (length xs) None | _ \<Rightarrow> [])"

definition conversation_op ::
  "(string \<Rightarrow> bool) \<Rightarrow> string \<Rightarrow> PatchOperation \<Rightarrow> conversation \<Rightarrow> conversation" where
  "conversation_op rfc3339 now op sh = (let has_room = known_times sh < MAX_ENTRY_TIMESTAMPS in
     case op of
       OpAdd path v \<Rightarrow> if path = ''/entries'' then fresh_entries v
         else (case entry_index path of None \<Rightarrow> sh
           | Some i \<Rightarrow> take i sh @ slot_time rfc3339 now has_room v None # drop i sh)
     | OpReplace path v \<Rightarrow> if path = ''/entries'' then fresh_entries v
         else (case entry_index path of None \<Rightarrow> sh
           | Some i \<Rightarrow> sh[i := slot_time rfc3339 now has_room v (sh ! i)])
     | OpRemove path \<Rightarrow> if path = ''/entries'' then []
         else (case entry_index path of None \<Rightarrow> sh | Some i \<Rightarrow> take i sh @ drop (Suc i) sh)
     | _ \<Rightarrow> sh)"

text \<open>
  The operations a well-formed patch stream has: an index names an entry that is there (for an
  insertion, or the end).
\<close>

definition op_in_range :: "PatchOperation \<Rightarrow> conversation \<Rightarrow> bool" where
  "op_in_range op sh = (case op of
     OpAdd path v \<Rightarrow> (case entry_index path of None \<Rightarrow> True | Some i \<Rightarrow> i \<le> length sh \<and> length sh < usize_max)
   | OpReplace path v \<Rightarrow> (case entry_index path of None \<Rightarrow> True | Some i \<Rightarrow> i < length sh)
   | OpRemove path \<Rightarrow> (case entry_index path of None \<Rightarrow> True | Some i \<Rightarrow> i < length sh)
   | _ \<Rightarrow> True)"

fun patch_in_range :: "(string \<Rightarrow> bool) \<Rightarrow> string \<Rightarrow> patch \<Rightarrow> conversation \<Rightarrow> bool" where
  "patch_in_range rfc3339 now [] sh \<longleftrightarrow> True"
| "patch_in_range rfc3339 now (op # ops) sh \<longleftrightarrow>
     op_in_range op sh \<and> patch_in_range rfc3339 now ops (conversation_op rfc3339 now op sh)"

definition conversation_patch ::
  "(string \<Rightarrow> bool) \<Rightarrow> string \<Rightarrow> patch \<Rightarrow> conversation \<Rightarrow> conversation" where
  "conversation_patch rfc3339 now ops sh = fold (conversation_op rfc3339 now) ops sh"

text \<open>The abstraction relation: the map holds exactly the known times, at the entries' indices.\<close>

definition entry_slot :: "conversation \<Rightarrow> nat \<Rightarrow> string option" where
  "entry_slot sh k = (if k < length sh then sh ! k else None)"

definition times_represent :: "entry_timestamps \<Rightarrow> conversation \<Rightarrow> bool" where
  "times_represent ts sh \<longleftrightarrow> distinct (map fst ts) \<and> map_of ts = entry_slot sh"

lemma entry_slot_insert:
  "i \<le> length sh \<Longrightarrow> entry_slot (take i sh @ x # drop i sh) k
     = (if k < i then entry_slot sh k else if k = i then x else entry_slot sh (k - 1))"
  by (auto simp: entry_slot_def nth_append nth_Cons' min_def)

lemma slot_delete:
  "i < length sh \<Longrightarrow> entry_slot (take i sh @ drop (Suc i) sh) k = (if k < i then entry_slot sh k else entry_slot sh (Suc k))"
  by (auto simp: entry_slot_def nth_append min_def)

lemma slot_update: "i < length sh \<Longrightarrow> entry_slot (sh[i := x]) = (entry_slot sh)(i := x)"
  by (auto simp: entry_slot_def fun_eq_iff)

lemma dom_slot: "dom (entry_slot sh) = {k. k < length sh \<and> sh ! k \<noteq> None}"
  by (auto simp: entry_slot_def dom_def)

lemma represent_length: "times_represent ts sh \<Longrightarrow> length ts = known_times sh"
proof -
  assume r: "times_represent ts sh"
  then have "length ts = card (dom (map_of ts))"
    by (metis distinct_card dom_map_of_conv_image_fst length_map set_map times_represent_def)
  also have "\<dots> = known_times sh"
    using r by (simp add: times_represent_def dom_slot known_times_def length_filter_conv_card)
  finally show ?thesis .
qed

lemma map_of_filter_key:
  "map_of (filter (\<lambda>(k, _). P k) ts) k = (if P k then map_of ts k else None)"
  by (induction ts) auto

lemma map_of_Suc_keys:
  "map_of (map (\<lambda>(k, t). (Suc k, t)) ts) k = (case k of 0 \<Rightarrow> None | Suc j \<Rightarrow> map_of ts j)"
  by (induction ts) (auto split: nat.splits)

lemma map_of_pred_keys:
  "\<forall>k\<in>fst ` set ts. 0 < k \<Longrightarrow> map_of (map (\<lambda>(k, t). (k - 1, t)) ts) k = map_of ts (Suc k)"
  by (induction ts) auto

lemma shift_up_eq:
  "\<forall>k\<in>fst ` set ts. k < usize_max \<Longrightarrow>
   shift_up i ts = filter (\<lambda>(k, _). k < i) ts
     @ map (\<lambda>(k, t). (Suc k, t)) (filter (\<lambda>(k, _). i \<le> k) ts)"
proof -
  assume a: "\<forall>k\<in>fst ` set ts. k < usize_max"
  have "List.map_filter (\<lambda>(k, t). if k + 1 \<le> usize_max then Some (k + 1, t) else None) xs
      = map (\<lambda>(k, t). (Suc k, t)) xs" if "\<forall>k\<in>fst ` set xs. k < usize_max" for xs :: entry_timestamps
    using that by (induction xs) (auto simp: List.map_filter_def)
  then show ?thesis using a by (simp add: shift_up_def split_off_def)
qed

lemma shift_up_map:
  assumes "\<forall>k\<in>fst ` set ts. k < usize_max"
  shows "map_of (shift_up i ts) k
    = (if k < i then map_of ts k else if k = i then None else map_of ts (k - 1))"
  by (cases k) (auto simp: shift_up_eq [OF assms] map_of_Suc_keys map_of_filter_key map_add_def
      split: option.splits)

lemma shift_up_distinct:
  assumes "\<forall>k\<in>fst ` set ts. k < usize_max" "distinct (map fst ts)"
  shows "distinct (map fst (shift_up i ts))"
  unfolding shift_up_eq [OF assms(1)] using assms(2)
  by (auto simp: distinct_map inj_on_def) fastforce+

lemma shift_down_map:
  "map_of (shift_down i ts) k = (if k < i then map_of ts k else map_of ts (Suc k))"
proof -
  have "map_of (map (\<lambda>(k, t). (k - 1, t)) (filter (\<lambda>(k, _). i \<le> k) (AList.delete i ts))) k
      = map_of (filter (\<lambda>(k, _). i \<le> k) (AList.delete i ts)) (Suc k)"
    by (rule map_of_pred_keys) (auto simp: AList.delete_eq)
  then show ?thesis
    by (auto simp: shift_down_def split_off_def map_of_filter_key map_add_def delete_conv'
        split: option.splits)
qed

lemma shift_down_distinct:
  "distinct (map fst ts) \<Longrightarrow> distinct (map fst (shift_down i ts))"
proof -
  assume d: "distinct (map fst ts)"
  have pred: "b = c" if "i \<noteq> a" "i \<le> a" "(a, b) \<in> set ts" "i \<noteq> a'" "i \<le> a'" "(a', c) \<in> set ts"
    "a - Suc 0 = a' - Suc 0" for a a' b c
  proof -
    have "a = a'" using that by linarith
    then show ?thesis using d that(3,6) by (meson eq_key_imp_eq_value)
  qed
  show ?thesis using d
    by (auto simp: shift_down_def split_off_def distinct_map inj_on_def AList.delete_eq intro: pred)
qed

lemma represent_keys:
  "times_represent ts sh \<Longrightarrow> k \<in> fst ` set ts \<Longrightarrow> k < length sh"
  by (metis (mono_tags, lifting) domIff dom_map_of_conv_image_fst entry_slot_def times_represent_def)

lemma represent_shift_up:
  assumes "times_represent ts sh" "i \<le> length sh" "length sh < usize_max"
  shows "times_represent (shift_up i ts) (take i sh @ None # drop i sh)"
proof -
  have "\<forall>k\<in>fst ` set ts. k < usize_max" using represent_keys assms by fastforce
  then show ?thesis using assms(1,2)
    by (auto simp: times_represent_def shift_up_distinct shift_up_map entry_slot_insert fun_eq_iff)
qed

lemma represent_shift_down:
  "times_represent ts sh \<Longrightarrow> i < length sh \<Longrightarrow>
   times_represent (shift_down i ts) (take i sh @ drop (Suc i) sh)"
  by (auto simp: times_represent_def shift_down_distinct shift_down_map slot_delete fun_eq_iff)

lemma represent_put:
  "times_represent ts sh \<Longrightarrow> i < length sh \<Longrightarrow> times_represent (AList.update i t ts) (sh[i := Some t])"
  by (auto simp: times_represent_def distinct_update update_conv' slot_update)

lemma represent_drop:
  "times_represent ts sh \<Longrightarrow> i < length sh \<Longrightarrow> times_represent (AList.delete i ts) (sh[i := None])"
  by (auto simp: times_represent_def distinct_delete delete_conv' slot_update fun_upd_def)

lemma update_same: "xs ! i = x \<Longrightarrow> xs[i := x] = xs"
  by auto

lemma represent_keep:
  "times_represent ts sh \<Longrightarrow> i < length sh \<Longrightarrow> sh ! i = Some t \<Longrightarrow> times_represent (AList.update i t ts) sh"
  using represent_put [of ts sh i t] by (simp add: update_same)

lemma represent_get:
  "times_represent ts sh \<Longrightarrow> i < length sh \<Longrightarrow> map_of ts i = sh ! i"
  by (simp add: times_represent_def entry_slot_def)

text \<open>An entry's part of \<open>enrich\<close> once the array has been shifted.\<close>

lemma represent_entry:
  assumes r: "times_represent ts sh" and i: "i < length sh"
  shows "times_represent (snd (enrich_entry rfc3339 now False i v ts))
    (sh[i := slot_time rfc3339 now (known_times sh < MAX_ENTRY_TIMESTAMPS) v (sh ! i)])"
proof -
  note len = represent_length [OF r] and get = represent_get [OF r i]
  consider "json_get_str v ''type'' \<noteq> Some ''NORMALIZED_ENTRY''"
    | "json_get_str v ''type'' = Some ''NORMALIZED_ENTRY''" "content_object v = None"
    | content where "json_get_str v ''type'' = Some ''NORMALIZED_ENTRY''" "content_object v = Some content"
    by blast
  then show ?thesis
  proof cases
    case 1
    then show ?thesis using represent_drop [OF r i] by (simp add: enrich_entry_def slot_time_def)
  next
    case 2
    then show ?thesis using r by (simp add: enrich_entry_def slot_time_def)
  next
    case 3
    then show ?thesis
      using r represent_put [OF r i] represent_keep [OF r i] len get
      by (cases "source_time rfc3339 content"; cases "sh ! i")
        (auto simp: enrich_entry_def slot_time_def choose_time_def update_same)
  qed
qed

lemma represent_op:
  assumes r: "times_represent ts sh" and range: "op_in_range op sh"
  shows "times_represent (snd (enrich_op rfc3339 now op ts)) (conversation_op rfc3339 now op sh)"
proof -
  have reset: "times_represent [] (fresh_entries v)" "times_represent [] []" for v
    by (auto simp: times_represent_def fresh_entries_def entry_slot_def fun_eq_iff split: json.splits)
  have add: "times_represent (snd (enrich_entry rfc3339 now True i v ts))
      (take i sh @ slot_time rfc3339 now (known_times sh < MAX_ENTRY_TIMESTAMPS) v None # drop i sh)"
    if i: "i \<le> length sh" "length sh < usize_max" for i v
  proof -
    let ?sh = "take i sh @ None # drop i sh"
    have shifted: "enrich_entry rfc3339 now True i v ts = enrich_entry rfc3339 now False i v (shift_up i ts)"
      by (simp add: enrich_entry_def)
    have "filter (\<lambda>t. t \<noteq> None) ?sh
        = filter (\<lambda>t. t \<noteq> None) (take i sh) @ filter (\<lambda>t. t \<noteq> None) (drop i sh)" by simp
    also have "\<dots> = filter (\<lambda>t. t \<noteq> None) sh" by (simp flip: filter_append)
    finally have same: "known_times ?sh = known_times sh" by (simp add: known_times_def)
    have at_i: "?sh ! i = None" "i < length ?sh" "?sh[i := x] = take i sh @ x # drop i sh" for x
      using i by (simp_all add: nth_append list_update_append)
    show ?thesis
      using represent_entry [OF represent_shift_up [OF r i] at_i(2), of rfc3339 now v]
      by (simp only: shifted same at_i)
  qed
  show ?thesis
  proof (cases op)
    case (OpAdd path v)
    show ?thesis
    proof (cases "path = ''/entries''")
      case True
      then show ?thesis using reset OpAdd by (simp add: enrich_op_def conversation_op_def)
    next
      case False
      then show ?thesis using OpAdd r range add
        by (cases "entry_index path")
          (simp_all add: enrich_op_def conversation_op_def op_in_range_def Let_def split_beta)
    qed
  next
    case (OpReplace path v)
    show ?thesis
    proof (cases "path = ''/entries''")
      case True
      then show ?thesis using reset OpReplace by (simp add: enrich_op_def conversation_op_def)
    next
      case False
      then show ?thesis using OpReplace r range represent_entry [OF r]
        by (cases "entry_index path")
          (simp_all add: enrich_op_def conversation_op_def op_in_range_def Let_def split_beta)
    qed
  next
    case (OpRemove path)
    show ?thesis
    proof (cases "path = ''/entries''")
      case True
      then show ?thesis using reset OpRemove by (simp add: enrich_op_def conversation_op_def)
    next
      case False
      then show ?thesis using OpRemove r range represent_shift_down [OF r]
        by (cases "entry_index path")
          (simp_all add: enrich_op_def conversation_op_def op_in_range_def Let_def)
    qed
  qed (use r in \<open>simp_all add: enrich_op_def conversation_op_def\<close>)
qed

text \<open>
  The observation times follow the entries of the conversation. On every patch whose indices
  name entries that are there, the map from indices to times that the store keeps, shifted in place
  by insertions and removals, is the list of the entries' own times under the specification: an
  inserted entry gets the time of the moment (or its source's), later entries keep theirs at their
  new index, a replacement keeps the entry's time unless its source supplies a valid one, and a
  removed entry takes its time with it.
\<close>

theorem enrich_refines_conversation:
  assumes "times_represent ts sh" "patch_in_range rfc3339 now ops sh"
  shows "times_represent (snd (enrich rfc3339 now ops ts)) (conversation_patch rfc3339 now ops sh)"
  using assms
proof (induction ops arbitrary: ts sh)
  case Nil
  then show ?case by (simp add: conversation_patch_def)
next
  case (Cons op ops)
  then have "times_represent (snd (enrich_op rfc3339 now op ts)) (conversation_op rfc3339 now op sh)"
    by (intro represent_op) simp_all
  then show ?case using Cons
    by (simp add: conversation_patch_def split_beta Let_def)
qed

definition demo_entry :: "json \<Rightarrow> json" where
  "demo_entry t = JObj [(''type'', JStr ''NORMALIZED_ENTRY''),
     (''content'', JObj [(''timestamp'', t)])]"

definition demo_patch :: patch where
  "demo_patch = [OpAdd ''/entries/0'' (demo_entry (JStr ''noon'')), OpAdd ''/entries/0'' (demo_entry JNull),
     OpReplace ''/entries/1'' (demo_entry JNull), OpRemove ''/entries/0'']"

lemmas demo_patch_eval = demo_patch_def demo_entry_def conversation_op_def entry_index_def parse_u64_def
  parse_nat_def digit_of_def slot_time_def json_get_str_def 
  content_object_def source_time_def known_times_def MAX_ENTRY_TIMESTAMPS_def op_in_range_def
  usize_max_def conversation_patch_def

theorem enrich_refines_conversation_witness:
  "map_of (snd (enrich (\<lambda>t. t = ''noon'') ''now'' demo_patch [])) = entry_slot [Some ''noon'']"
proof -
  have "patch_in_range (\<lambda>t. t = ''noon'') ''now'' demo_patch []"
    by (simp add: demo_patch_eval)
  moreover have "conversation_patch (\<lambda>t. t = ''noon'') ''now'' demo_patch [] = [Some ''noon'']"
    by (simp add: demo_patch_eval)
  moreover have "times_represent [] []" by (auto simp: times_represent_def entry_slot_def fun_eq_iff)
  ultimately show ?thesis
    using enrich_refines_conversation [of "[]" "[]" "\<lambda>t. t = ''noon''" "''now''" demo_patch]
    by (simp add: times_represent_def)
qed

end
