(* ===== verification/Plain_Text_Log.thy ===== *)
theory Plain_Text_Log
  imports Msg_Store
begin

text \<open>
  The plain-text log processor of the coding agents (\<open>executors/src/logs/plain_text_processor.rs\<close>,
  with \<open>logs/utils/entry_index.rs\<close> and the conversation patches of \<open>logs/utils/patch.rs\<close>): a
  buffer of lines, the splitting of a stream of chunks into conversation entries by message
  boundaries, size and time gaps, and the JSON patches that publish the entries.

  Parameters: the formatter, the line transformation (with its state), the boundary predicate and
  the producer of an entry, which are closures in the code as well. The loop over the boundary
  predicate need not end for every predicate: it is a partial function, \<open>None\<close> where it runs forever.
\<close>

section \<open>Entry indices and conversation patches\<close>

text \<open>\<open>EntryIndexProvider\<close>: an atomic counter of type \<open>usize\<close>; \<open>fetch_add\<close> wraps around.\<close>

definition provider_next :: "nat \<Rightarrow> nat \<times> nat" where
  "provider_next n = (n, (n + 1) mod 2 ^ 64)"

definition first_add_index :: "patch \<Rightarrow> nat option" where
  "first_add_index p = (case List.map_filter
       (\<lambda>op. case op of OpAdd path _ \<Rightarrow> entry_index path | _ \<Rightarrow> None) p of
     [] \<Rightarrow> None | i # _ \<Rightarrow> Some i)"

definition start_from :: "LogMsg list \<Rightarrow> nat" where
  "start_from history =
     (case List.map_filter (\<lambda>m. case m of JsonPatch p \<Rightarrow> first_add_index p | _ \<Rightarrow> None) history of
        [] \<Rightarrow> 0
      | i # is \<Rightarrow> usize_saturating_add (fold max is i) 1)"

text \<open>\<open>PatchType::NormalizedEntry\<close> as it is serialised (\<open>tag = "type", content = "content"\<close>).\<close>

definition normalized_entry_value :: "json \<Rightarrow> json" where
  "normalized_entry_value entry = JObj [(''type'', JStr ''NORMALIZED_ENTRY''), (''content'', entry)]"

definition entry_path :: "nat \<Rightarrow> string" where
  "entry_path i = ''/entries/'' @ show_nat i"

definition add_normalized_entry :: "nat \<Rightarrow> json \<Rightarrow> patch" where
  "add_normalized_entry i entry = [OpAdd (entry_path i) (normalized_entry_value entry)]"

definition replace_entry :: "nat \<Rightarrow> json \<Rightarrow> patch" where
  "replace_entry i entry = [OpReplace (entry_path i) (normalized_entry_value entry)]"

text \<open>\<open>fix_patch_ops\<close>: an add of a path already sent becomes a replacement, and the other way round.\<close>

definition op_path :: "PatchOperation \<Rightarrow> string" where
  "op_path op = (case op of OpAdd p _ \<Rightarrow> p | OpRemove p \<Rightarrow> p | OpReplace p _ \<Rightarrow> p
     | OpMove _ p \<Rightarrow> p | OpCopy _ p \<Rightarrow> p | OpTest p _ \<Rightarrow> p)"

fun fix_patch_ops :: "patch \<Rightarrow> string set \<Rightarrow> patch \<times> string set" where
  "fix_patch_ops [] sent = ([], sent)"
| "fix_patch_ops (op # ops) sent =
     (let path_sent = op_path op \<in> sent;
          op' = (case op of
             OpAdd p v \<Rightarrow> if path_sent then OpReplace p v else op
           | OpReplace p v \<Rightarrow> if path_sent then op else OpAdd p v
           | _ \<Rightarrow> op);
          (ops', sent') = fix_patch_ops ops (if path_sent then sent else insert (op_path op) sent)
      in (op' # ops', sent'))"

section \<open>The line buffer\<close>

definition NL :: char where
  "NL = CHR 0x0A"

definition ends_with_newline :: "string \<Rightarrow> bool" where
  "ends_with_newline l \<longleftrightarrow> l \<noteq> [] \<and> last l = NL"

text \<open>\<open>split_inclusive('\<close>\<open>\n')\<close>: the parts keep their terminator; no empty part at the end.\<close>

fun split_lines :: "string \<Rightarrow> string list" where
  "split_lines [] = []"
| "split_lines (c # cs) = (if c = NL then [c] # split_lines cs
     else (case split_lines cs of [] \<Rightarrow> [[c]] | l # ls \<Rightarrow> (c # l) # ls))"

record text_buffer =
  tb_lines :: "string list"
  tb_total :: nat

definition buffer_new :: text_buffer where
  "buffer_new = \<lparr> tb_lines = [], tb_total = 0 \<rparr>"

definition ingest :: "string \<Rightarrow> text_buffer \<Rightarrow> text_buffer" where
  "ingest chunk b =
     (let (partial, kept, len) =
        (if tb_lines b \<noteq> [] \<and> \<not> ends_with_newline (last (tb_lines b))
         then (last (tb_lines b), butlast (tb_lines b), tb_total b - length (last (tb_lines b)))
         else ([], tb_lines b, tb_total b));
        combined = partial @ chunk
      in \<lparr> tb_lines = kept @ split_lines combined, tb_total = len + length combined \<rparr>)"

definition drain_lines :: "nat \<Rightarrow> text_buffer \<Rightarrow> string list \<times> text_buffer" where
  "drain_lines n b =
     (let drained = take n (tb_lines b)
      in (drained, \<lparr> tb_lines = drop n (tb_lines b),
                     tb_total = fold (\<lambda>l t. t - length l) drained (tb_total b) \<rparr>))"

fun drain_count :: "nat \<Rightarrow> nat \<Rightarrow> nat \<Rightarrow> string list \<Rightarrow> nat" where
  "drain_count len drained_len k [] = k"
| "drain_count len drained_len k (l # ls) =
     (if len \<le> drained_len \<and> 0 < k then k else drain_count len (drained_len + length l) (Suc k) ls)"

definition drain_size :: "nat \<Rightarrow> text_buffer \<Rightarrow> string list \<times> text_buffer" where
  "drain_size len b = drain_lines (drain_count len 0 0 (tb_lines b)) b"

definition flush :: "text_buffer \<Rightarrow> string list \<times> text_buffer" where
  "flush b = (tb_lines b, \<lparr> tb_lines = [], tb_total = 0 \<rparr>)"

definition recompute_len :: "text_buffer \<Rightarrow> text_buffer" where
  "recompute_len b = b\<lparr> tb_total := sum_list (map length (tb_lines b)) \<rparr>"

definition partial_line :: "text_buffer \<Rightarrow> string option" where
  "partial_line b = (if tb_lines b \<noteq> [] \<and> \<not> ends_with_newline (last (tb_lines b))
     then Some (last (tb_lines b)) else None)"

definition buffer_is_empty :: "text_buffer \<Rightarrow> bool" where
  "buffer_is_empty b \<longleftrightarrow> tb_total b = 0"

section \<open>The processor\<close>

datatype MessageBoundary = Split nat | IncompleteContent

record 't log_format =
  lf_threshold :: "nat option"
  lf_time_gap :: "nat option"
  lf_format_chunk :: "(string option \<Rightarrow> string \<Rightarrow> string) option"
  lf_transform :: "('t \<Rightarrow> string list \<Rightarrow> string list \<times> 't) option"
  lf_boundary :: "(string list \<Rightarrow> MessageBoundary option) option"
  lf_producer :: "string \<Rightarrow> json"

text \<open>The builder: 8 KiB where neither a size nor a time gap is given.\<close>

definition build_format ::
  "(string \<Rightarrow> json) \<Rightarrow> nat option \<Rightarrow> nat option \<Rightarrow> (string option \<Rightarrow> string \<Rightarrow> string) option
    \<Rightarrow> ('t \<Rightarrow> string list \<Rightarrow> string list \<times> 't) option
    \<Rightarrow> (string list \<Rightarrow> MessageBoundary option) option \<Rightarrow> 't log_format" where
  "build_format producer size_threshold time_gap format transform boundary =
     \<lparr> lf_threshold = (if size_threshold = None \<and> time_gap = None then Some (8 * 1024) else size_threshold),
       lf_time_gap = time_gap, lf_format_chunk = format, lf_transform = transform,
       lf_boundary = boundary, lf_producer = producer \<rparr>"

record 't log_processor =
  lp_buffer :: text_buffer
  lp_next_index :: nat
  lp_last_arrival :: int
  lp_current :: "nat option"
  lp_transform :: 't

definition processor_new :: "nat \<Rightarrow> int \<Rightarrow> 't \<Rightarrow> 't log_processor" where
  "processor_new next_index now t = \<lparr> lp_buffer = buffer_new, lp_next_index = next_index,
     lp_last_arrival = now, lp_current = None, lp_transform = t \<rparr>"

definition create_patch ::
  "'t log_format \<Rightarrow> string list \<Rightarrow> 't log_processor \<Rightarrow> patch \<times> 't log_processor" where
  "create_patch cfg lines p =
     (let entry = lf_producer cfg (concat lines)
      in case lp_current p of
          Some i \<Rightarrow> (replace_entry i entry, p)
        | None \<Rightarrow> (let (i, next_index) = provider_next (lp_next_index p)
            in (add_normalized_entry i entry, p\<lparr> lp_next_index := next_index, lp_current := Some i \<rparr>)))"

text \<open>\<open>Instant::elapsed\<close> is never negative.\<close>

definition gap_elapsed :: "'t log_format \<Rightarrow> int \<Rightarrow> 't log_processor \<Rightarrow> bool" where
  "gap_elapsed cfg now p = is_some_and (lf_time_gap cfg) (\<lambda>gap. gap \<le> nat (now - lp_last_arrival p))"

text \<open>The loop over the boundary predicate; the flag says that content is incomplete.\<close>

partial_function (option) split_loop ::
  "'t log_format \<Rightarrow> patch list \<Rightarrow> 't log_processor \<Rightarrow> (bool \<times> patch list \<times> 't log_processor) option" where
  [code]: "split_loop cfg patches p =
     (case Option.bind (lf_boundary cfg) (\<lambda>pred. pred (tb_lines (lp_buffer p))) of
        None \<Rightarrow> Some (False, patches, p)
      | Some IncompleteContent \<Rightarrow> Some (True, patches, p)
      | Some (Split k) \<Rightarrow>
          (let (lines, b) = drain_lines k (lp_buffer p); p1 = p\<lparr> lp_buffer := b \<rparr>
           in if lines = [] then split_loop cfg patches p1
              else (let (patch, p2) = create_patch cfg lines p1
                    in split_loop cfg (patches @ [patch]) (p2\<lparr> lp_current := None \<rparr>))))"

lemma drain_count_pos: "0 < k \<or> ls \<noteq> [] \<Longrightarrow> 0 < drain_count len d k ls"
  by (induction len d k ls rule: drain_count.induct) auto

lemma create_patch_buffer [simp]: "lp_buffer (snd (create_patch cfg lines p)) = lp_buffer p"
  by (simp add: create_patch_def provider_next_def Let_def split: option.split)

text \<open>The loop over the size threshold.\<close>

function size_loop ::
  "'t log_format \<Rightarrow> nat \<Rightarrow> patch list \<Rightarrow> 't log_processor \<Rightarrow> patch list \<times> 't log_processor" where
  "size_loop cfg threshold patches p =
     (if tb_total (lp_buffer p) < threshold then (patches, p)
      else (let (lines, b) = drain_size threshold (lp_buffer p); p1 = p\<lparr> lp_buffer := b \<rparr>
            in if lines = [] then (patches, p1)
               else (let (patch, p2) = create_patch cfg lines p1
                     in size_loop cfg threshold (patches @ [patch]) (p2\<lparr> lp_current := None \<rparr>))))"
  by pat_completeness auto
termination
proof (relation "measure (\<lambda>(cfg, threshold, patches, p). length (tb_lines (lp_buffer p)))")
  fix cfg :: "'t log_format" and threshold patches and p :: "'t log_processor" and x y z xb yb
  assume d: "x = drain_size threshold (lp_buffer p)" "(y, z) = x" "xb = p\<lparr> lp_buffer := z \<rparr>" "y \<noteq> []"
    and c: "yb = create_patch cfg y xb"
  fix pa pb assume e: "(pa, pb) = yb"
  have "tb_lines (lp_buffer p) \<noteq> []"
    using d by (auto simp: drain_size_def drain_lines_def Let_def)
  then have "0 < drain_count threshold 0 0 (tb_lines (lp_buffer p))" by (simp add: drain_count_pos)
  moreover have "lp_buffer pb = z"
    using create_patch_buffer [of cfg y xb] c e d(3) by (metis snd_conv log_processor.select_convs(1) log_processor.surjective log_processor.update_convs(1))
  ultimately show "((cfg, threshold, patches @ [pa], pb\<lparr> lp_current := None \<rparr>), cfg, threshold, patches, p)
      \<in> measure (\<lambda>(cfg, threshold, patches, p). length (tb_lines (lp_buffer p)))"
    using d \<open>tb_lines (lp_buffer p) \<noteq> []\<close> by (auto simp: drain_size_def drain_lines_def Let_def)
qed simp

declare size_loop.simps [simp del]

definition send_partial ::
  "'t log_format \<Rightarrow> patch list \<Rightarrow> 't log_processor \<Rightarrow> patch list \<times> 't log_processor" where
  "send_partial cfg patches p = (if buffer_is_empty (lp_buffer p) then (patches, p)
     else (let (patch, p') = create_patch cfg (tb_lines (lp_buffer p)) p in (patches @ [patch], p')))"

definition process_lines ::
  "'t log_format \<Rightarrow> 't log_processor \<Rightarrow> (patch list \<times> 't log_processor) option" where
  "process_lines cfg p = (case split_loop cfg [] p of
     None \<Rightarrow> None
   | Some (True, patches, p1) \<Rightarrow> Some (patches, p1)
   | Some (False, patches, p1) \<Rightarrow> Some (case lf_threshold cfg of
         None \<Rightarrow> send_partial cfg patches p1
       | Some threshold \<Rightarrow> (case size_loop cfg threshold patches p1 of
           (patches, p2) \<Rightarrow> send_partial cfg patches p2)))"

definition transform_buffer :: "'t log_format \<Rightarrow> 't log_processor \<Rightarrow> 't log_processor" where
  "transform_buffer cfg p = (case lf_transform cfg of
     None \<Rightarrow> p
   | Some f \<Rightarrow> (let (lines, t) = f (lp_transform p) (tb_lines (lp_buffer p))
       in p\<lparr> lp_buffer := recompute_len ((lp_buffer p)\<lparr> tb_lines := lines \<rparr>), lp_transform := t \<rparr>))"

definition process_text_chunk ::
  "'t log_format \<Rightarrow> int \<Rightarrow> string \<Rightarrow> 't log_processor \<Rightarrow> (patch list \<times> 't log_processor) option" where
  "process_text_chunk cfg arrived chunk p0 =
     (let p = p0\<lparr> lp_last_arrival := arrived \<rparr>;
          formatted = (case lf_format_chunk cfg of
             None \<Rightarrow> chunk | Some f \<Rightarrow> f (partial_line (lp_buffer p)) chunk)
      in if formatted = [] then Some ([], p)
         else (let p1 = transform_buffer cfg (p\<lparr> lp_buffer := ingest formatted (lp_buffer p) \<rparr>)
               in if lf_transform cfg \<noteq> None \<and> buffer_is_empty (lp_buffer p1) then Some ([], p1)
                  else process_lines cfg p1))"

text \<open>\<open>process\<close>: \<open>checked\<close> is the clock at the test of the gap, \<open>arrived\<close> the one stored.\<close>

definition process ::
  "'t log_format \<Rightarrow> int \<Rightarrow> int \<Rightarrow> string \<Rightarrow> 't log_processor
    \<Rightarrow> (patch list \<times> 't log_processor) option" where
  "process cfg checked arrived chunk p =
     (if chunk = [] then Some ([], p)
      else if \<not> buffer_is_empty (lp_buffer p) \<and> gap_elapsed cfg checked p
      then (let (lines, b) = flush (lp_buffer p); p1 = p\<lparr> lp_buffer := b \<rparr>
            in if lines \<noteq> []
               then (let (patch, p2) = create_patch cfg lines p1 in Some ([patch], p2))
               else process_text_chunk cfg arrived chunk (p1\<lparr> lp_current := None \<rparr>))
      else process_text_chunk cfg arrived chunk p)"

text \<open>The task that drives it, \<open>while let Some(Ok(chunk)) = stderr.next().await\<close>, chunk by chunk.\<close>

fun process_all ::
  "'t log_format \<Rightarrow> (int \<times> int \<times> string) list \<Rightarrow> 't log_processor
    \<Rightarrow> (patch list \<times> 't log_processor) option" where
  "process_all cfg [] p = Some ([], p)"
| "process_all cfg ((checked, arrived, chunk) # items) p =
     (case process cfg checked arrived chunk p of
        None \<Rightarrow> None
      | Some (patches, p1) \<Rightarrow> (case process_all cfg items p1 of
          None \<Rightarrow> None
        | Some (patches2, p2) \<Rightarrow> Some (patches @ patches2, p2)))"

section \<open>The buffer\<close>

text \<open>The cached length is the length of the content, and no line is empty.\<close>

definition tidy :: "text_buffer \<Rightarrow> bool" where
  "tidy b \<longleftrightarrow> tb_total b = length (concat (tb_lines b)) \<and> [] \<notin> set (tb_lines b)"

lemma concat_split_lines [simp]: "concat (split_lines s) = s"
  by (induction s) (auto split: list.splits)

lemma split_lines_nonempty [simp]: "[] \<notin> set (split_lines s)"
  by (induction s) (auto split: list.splits)

lemma concat_butlast_last: "xs \<noteq> [] \<Longrightarrow> concat (butlast xs) @ last xs = concat xs"
  by (induction xs) auto

lemma ingest_content: "concat (tb_lines (ingest chunk b)) = concat (tb_lines b) @ chunk"
  by (auto simp: ingest_def Let_def concat_butlast_last simp flip: append_assoc)

lemma ingest_tidy: "tidy b \<Longrightarrow> tidy (ingest chunk b)"
proof -
  assume t: "tidy b"
  have "length (concat (tb_lines b)) = length (concat (butlast (tb_lines b))) + length (last (tb_lines b))"
    if "tb_lines b \<noteq> []" using concat_butlast_last [OF that] by (metis length_append)
  then show ?thesis using t
    by (auto simp: tidy_def ingest_def Let_def dest: in_set_butlastD)
qed

lemma fold_minus_length: "fold (\<lambda>l t. t - length l) ls (n::nat) = n - length (concat ls)"
  by (induction ls arbitrary: n) auto

lemma drain_lines_content:
  "concat (fst (drain_lines k b)) @ concat (tb_lines (snd (drain_lines k b))) = concat (tb_lines b)"
  by (simp add: drain_lines_def Let_def flip: concat_append)

lemma drain_lines_tidy: "tidy b \<Longrightarrow> tidy (snd (drain_lines k b))"
proof -
  assume t: "tidy b"
  have "length (concat (take k (tb_lines b))) + length (concat (drop k (tb_lines b)))
      = length (concat (tb_lines b))" by (metis append_take_drop_id concat_append length_append)
  then show ?thesis using t
    by (auto simp: tidy_def drain_lines_def Let_def fold_minus_length dest: in_set_dropD)
qed

lemma drain_lines_nonempty:
  assumes "tidy b" "fst (drain_lines k b) \<noteq> []"
  shows "concat (fst (drain_lines k b)) \<noteq> []"
proof -
  let ?d = "fst (drain_lines k b)"
  have "hd ?d \<in> set (tb_lines b)"
    using assms(2) hd_in_set [of ?d] by (auto simp: drain_lines_def Let_def dest: in_set_takeD)
  then have "hd ?d \<noteq> []" using assms(1) by (auto simp: tidy_def)
  then show ?thesis using assms(2) by (cases ?d) auto
qed

lemma drain_lines_shorter:
  "fst (drain_lines k b) \<noteq> [] \<Longrightarrow> length (tb_lines (snd (drain_lines k b))) < length (tb_lines b)"
  by (auto simp: drain_lines_def Let_def)

lemma tidy_content: "tidy b \<Longrightarrow> concat (tb_lines b) = [] \<longleftrightarrow> tb_lines b = []"
  by (cases "tb_lines b") (auto simp: tidy_def)

lemma tidy_is_empty: "tidy b \<Longrightarrow> buffer_is_empty b \<longleftrightarrow> tb_lines b = []"
  by (cases "tb_lines b") (auto simp: tidy_def buffer_is_empty_def)

section \<open>The text of the stream and the entries of the conversation\<close>

text \<open>RFC 6902 on the array of entries.\<close>

fun apply_op :: "PatchOperation \<Rightarrow> json list \<Rightarrow> json list option" where
  "apply_op (OpAdd path v) es = (case entry_index path of
     Some i \<Rightarrow> if i \<le> length es then Some (take i es @ v # drop i es) else None | None \<Rightarrow> None)"
| "apply_op (OpReplace path v) es = (case entry_index path of
     Some i \<Rightarrow> if i < length es then Some (es[i := v]) else None | None \<Rightarrow> None)"
| "apply_op (OpRemove path) es = (case entry_index path of
     Some i \<Rightarrow> if i < length es then Some (take i es @ drop (Suc i) es) else None | None \<Rightarrow> None)"
| "apply_op _ es = None"

fun apply_ops :: "patch \<Rightarrow> json list \<Rightarrow> json list option" where
  "apply_ops [] es = Some es"
| "apply_ops (op # ops) es = Option.bind (apply_op op es) (apply_ops ops)"

lemma apply_ops_append:
  "apply_ops (p @ q) es = Option.bind (apply_ops p es) (apply_ops q)"
proof (induction p arbitrary: es)
  case (Cons op p)
  then show ?case by (cases "apply_op op es") auto
qed simp

lemma digit_not_plus: "c \<in> set (show_nat n) \<Longrightarrow> c \<noteq> CHR ''+''"
  using show_nat_digits [of c n] by auto

lemma entry_index_path: "i < 2 ^ 64 \<Longrightarrow> entry_index (entry_path i) = Some i"
  by (simp add: entry_index_def entry_path_def strip_prefix_Some parse_u64_def parse_nat_show_nat
      unsigned_of_nat take_bit_nat_eq_self)

definition entry_value :: "'t log_format \<Rightarrow> string \<Rightarrow> json" where
  "entry_value cfg t = normalized_entry_value (lf_producer cfg t)"

text \<open>
  The account of a stream: what was ingested is the text of the settled entries followed by the
  buffer; the open entry, if any, shows a beginning of the buffer; the counter is the number of
  entries.
\<close>

definition log_account ::
  "nat \<Rightarrow> string \<Rightarrow> string list \<Rightarrow> string list \<Rightarrow> 't log_processor \<Rightarrow> bool" where
  "log_account base sent settled shown p \<longleftrightarrow>
     tidy (lp_buffer p) \<and> [] \<notin> set settled
   \<and> sent = concat settled @ concat (tb_lines (lp_buffer p))
   \<and> lp_next_index p = base + length settled + length shown
   \<and> (case lp_current p of None \<Rightarrow> shown = []
      | Some i \<Rightarrow> i = base + length settled
          \<and> (\<exists>t r. shown = [t] \<and> t \<noteq> [] \<and> concat (tb_lines (lp_buffer p)) = t @ r))"

lemma length_le_concat: "[] \<notin> set xs \<Longrightarrow> length xs \<le> length (concat xs)"
proof (induction xs)
  case (Cons x xs)
  then show ?case by (cases x) auto
qed simp

lemma create_patch_frame:
  "create_patch cfg ls (p\<lparr> lp_buffer := b \<rparr>)
     = (fst (create_patch cfg ls p), (snd (create_patch cfg ls p))\<lparr> lp_buffer := b \<rparr>)"
  by (simp add: create_patch_def provider_next_def Let_def split: option.split)

text \<open>Publishing a beginning of the buffer: a new entry, or the open entry replaced.\<close>

lemma create_patch_account:
  assumes acc: "log_account (length conv) sent settled shown p"
    and t: "concat ls \<noteq> []" "concat (tb_lines (lp_buffer p)) = concat ls @ r"
    and bound: "length conv + length sent < 2 ^ 64"
    and c: "create_patch cfg ls p = (patch, p2)"
  shows "apply_ops patch (conv @ map (entry_value cfg) (settled @ shown))
      = Some (conv @ map (entry_value cfg) (settled @ [concat ls]))"
    and "log_account (length conv) sent settled [concat ls] p2"
proof -
  have pos: "1 \<le> length (concat ls)" using t(1) by (cases "concat ls") simp_all
  have "sent = concat settled @ concat ls @ r" "length settled \<le> length (concat settled)"
    using acc t(2) length_le_concat [of settled] by (simp_all add: log_account_def)
  moreover from this(1) have "length sent = length (concat settled) + length (concat ls) + length r"
    by (simp only: length_append)
  ultimately have n: "length settled < length sent" using pos by linarith
  have i: "length conv + length settled < 2 ^ 64" "Suc (length conv + length settled) < 2 ^ 64"
    using n bound by simp_all
  show "apply_ops patch (conv @ map (entry_value cfg) (settled @ shown))
      = Some (conv @ map (entry_value cfg) (settled @ [concat ls]))"
    using acc c i
    by (auto simp: log_account_def create_patch_def provider_next_def add_normalized_entry_def
        replace_entry_def entry_index_path entry_value_def nth_append list_update_append
        split: option.splits)
  show "log_account (length conv) sent settled [concat ls] p2"
    using acc c i t
    by (auto simp: log_account_def create_patch_def provider_next_def split: option.splits)
qed

text \<open>Closing an entry at the lines drained from the buffer.\<close>

lemma close_entry_account:
  assumes acc: "log_account (length conv) sent settled shown p"
    and d: "drain_lines k (lp_buffer p) = (ls, b)" "ls \<noteq> []"
    and bound: "length conv + length sent < 2 ^ 64"
    and c: "create_patch cfg ls (p\<lparr> lp_buffer := b \<rparr>) = (patch, p2)"
  shows "apply_ops patch (conv @ map (entry_value cfg) (settled @ shown))
      = Some (conv @ map (entry_value cfg) (settled @ [concat ls]))"
    and "log_account (length conv) sent (settled @ [concat ls]) [] (p2\<lparr> lp_current := None \<rparr>)"
    and "lp_buffer p2 = b"
proof -
  obtain p3 where c': "create_patch cfg ls p = (patch, p3)" and p2: "p2 = p3\<lparr> lp_buffer := b \<rparr>"
    using c by (cases "create_patch cfg ls p") (auto simp: create_patch_frame)
  have tidy: "tidy (lp_buffer p)" using acc by (simp add: log_account_def)
  have ne: "concat ls \<noteq> []" and split: "concat (tb_lines (lp_buffer p)) = concat ls @ concat (tb_lines b)"
    and tb: "tidy b"
    using drain_lines_nonempty [OF tidy, of k] drain_lines_content [of k "lp_buffer p"]
      drain_lines_tidy [OF tidy, of k] d by auto
  note both = create_patch_account [OF acc ne split bound c']
  show "apply_ops patch (conv @ map (entry_value cfg) (settled @ shown))
      = Some (conv @ map (entry_value cfg) (settled @ [concat ls]))" by (rule both(1))
  have buf: "lp_buffer p3 = lp_buffer p" using c' create_patch_buffer [of cfg ls p] by simp
  show "log_account (length conv) sent (settled @ [concat ls]) [] (p2\<lparr> lp_current := None \<rparr>)"
    using both(2) ne split tb acc by (auto simp: log_account_def p2 buf)
  show "lp_buffer p2 = b" by (simp add: p2)
qed

section \<open>The loops\<close>

text \<open>A predicate that makes progress: a split is before the end and drains at least a line.\<close>

definition progressive :: "(string list \<Rightarrow> MessageBoundary option) \<Rightarrow> bool" where
  "progressive pred \<longleftrightarrow> (\<forall>ls k. pred ls = Some (Split k) \<longrightarrow> 0 < k \<and> ls \<noteq> [])"

definition boundary_progressive :: "'t log_format \<Rightarrow> bool" where
  "boundary_progressive cfg \<longleftrightarrow> (case lf_boundary cfg of None \<Rightarrow> True | Some pred \<Rightarrow> progressive pred)"

lemma drain_some: "0 < k \<Longrightarrow> tb_lines b \<noteq> [] \<Longrightarrow> fst (drain_lines k b) \<noteq> []"
  by (simp add: drain_lines_def Let_def)

text \<open>One round of the boundary loop.\<close>

lemma split_loop_cases:
  assumes "boundary_progressive cfg"
  obtains (stop) fl where "split_loop cfg patches p = Some (fl, patches, p)" "lf_boundary cfg = None \<Longrightarrow> \<not> fl"
  | (split) k ls b patch p2 where "drain_lines k (lp_buffer p) = (ls, b)" "ls \<noteq> []"
      "create_patch cfg ls (p\<lparr> lp_buffer := b \<rparr>) = (patch, p2)"
      "split_loop cfg patches p = split_loop cfg (patches @ [patch]) (p2\<lparr> lp_current := None \<rparr>)"
      "lf_boundary cfg \<noteq> None"
proof (cases "Option.bind (lf_boundary cfg) (\<lambda>pred. pred (tb_lines (lp_buffer p)))")
  case None
  then show ?thesis by (intro stop [of False]) (simp_all add: split_loop.simps)
next
  case (Some r)
  then obtain pred where pred: "lf_boundary cfg = Some pred" "pred (tb_lines (lp_buffer p)) = Some r"
    by (cases "lf_boundary cfg") auto
  show ?thesis
  proof (cases r)
    case IncompleteContent
    then show ?thesis using pred by (intro stop [of True]) (simp_all add: split_loop.simps)
  next
    case (Split k)
    then have "0 < k" "tb_lines (lp_buffer p) \<noteq> []"
      using assms pred by (auto simp: boundary_progressive_def progressive_def)
    moreover obtain ls b where d: "drain_lines k (lp_buffer p) = (ls, b)" by (cases "drain_lines k (lp_buffer p)")
    ultimately have ne: "ls \<noteq> []" using drain_some [of k "lp_buffer p"] by simp
    obtain patch p2 where c: "create_patch cfg ls (p\<lparr> lp_buffer := b \<rparr>) = (patch, p2)"
      by (cases "create_patch cfg ls (p\<lparr> lp_buffer := b \<rparr>)")
    show ?thesis using pred Split d ne c
      by (intro split [OF d ne c]) (simp_all add: split_loop.simps [of cfg patches p])
  qed
qed

lemma closed_buffer:
  "create_patch cfg ls (p\<lparr> lp_buffer := b \<rparr>) = (patch, p2) \<Longrightarrow> lp_buffer (p2\<lparr> lp_current := None \<rparr>) = b"
  using create_patch_buffer [of cfg ls "p\<lparr> lp_buffer := b \<rparr>"] by simp

lemma split_loop_terminates:
  assumes "boundary_progressive cfg"
  shows "split_loop cfg patches p \<noteq> None"
proof (induction "length (tb_lines (lp_buffer p))" arbitrary: patches p rule: less_induct)
  case less
  show ?case
  proof (cases rule: split_loop_cases [OF assms, of patches p, case_names stop split])
    case (split k ls b patch p2)
    then have "length (tb_lines (lp_buffer (p2\<lparr> lp_current := None \<rparr>))) < length (tb_lines (lp_buffer p))"
      using drain_lines_shorter [of k "lp_buffer p"] closed_buffer [OF split(3)] by simp
    then show ?thesis using less [of "p2\<lparr> lp_current := None \<rparr>" "patches @ [patch]"] split(4) by simp
  qed simp
qed

text \<open>What a stretch of the processor's work publishes, and the account after it.\<close>

definition publishes ::
  "'t log_format \<Rightarrow> json list \<Rightarrow> string \<Rightarrow> string list \<Rightarrow> string list \<Rightarrow> patch list
    \<Rightarrow> string list \<Rightarrow> string list \<Rightarrow> 't log_processor \<Rightarrow> bool" where
  "publishes cfg conv sent settled shown patches settled' shown' p' \<longleftrightarrow>
     apply_ops (concat patches) (conv @ map (entry_value cfg) (settled @ shown))
       = Some (conv @ map (entry_value cfg) (settled' @ shown'))
   \<and> log_account (length conv) sent settled' shown' p'"

lemma publishes_refl:
  "log_account (length conv) sent settled shown p \<Longrightarrow> publishes cfg conv sent settled shown [] settled shown p"
  by (simp add: publishes_def)

lemma publishes_account:
  "publishes cfg conv sent settled shown patches settled' shown' p' \<Longrightarrow>
   log_account (length conv) sent settled' shown' p'"
  by (simp add: publishes_def)

lemma publishes_step:
  "apply_ops patch (conv @ map (entry_value cfg) (settled @ shown))
      = Some (conv @ map (entry_value cfg) (settled1 @ shown1)) \<Longrightarrow>
   publishes cfg conv sent settled1 shown1 patches settled2 shown2 p \<Longrightarrow>
   publishes cfg conv sent settled shown (patch # patches) settled2 shown2 p"
  by (simp add: publishes_def apply_ops_append)

lemma split_loop_publishes:
  assumes prog: "boundary_progressive cfg" and bound: "length conv + length sent < 2 ^ 64"
    and acc: "log_account (length conv) sent settled shown p"
  shows "\<exists>fl more settled' shown' p'. split_loop cfg patches p = Some (fl, patches @ more, p')
    \<and> publishes cfg conv sent settled shown more settled' shown' p' \<and> (lf_boundary cfg = None \<longrightarrow> \<not> fl)"
  using acc
proof (induction "length (tb_lines (lp_buffer p))" arbitrary: patches settled shown p rule: less_induct)
  case less
  show ?case
  proof (cases rule: split_loop_cases [OF prog, of patches p, case_names stop split])
    case (stop fl)
    then show ?thesis using publishes_refl [OF less(2)]
      by (intro exI [of _ fl] exI [of _ "[]"] exI [of _ settled] exI [of _ shown] exI [of _ p]) simp
  next
    case (split k ls b patch p2)
    note closed_entry = close_entry_account [OF less(2) split(1,2) bound split(3)]
    have "length (tb_lines (lp_buffer (p2\<lparr> lp_current := None \<rparr>))) < length (tb_lines (lp_buffer p))"
      using drain_lines_shorter [of k "lp_buffer p"] closed_buffer [OF split(3)] split(1,2) by simp
    from less(1) [OF this closed_entry(2), of "patches @ [patch]"]
    obtain fl more settled' shown' p' where r:
      "split_loop cfg (patches @ [patch]) (p2\<lparr> lp_current := None \<rparr>) = Some (fl, (patches @ [patch]) @ more, p')"
      "publishes cfg conv sent (settled @ [concat ls]) [] more settled' shown' p'"
      "lf_boundary cfg = None \<longrightarrow> \<not> fl" by (elim exE conjE) (rule that)
    have "publishes cfg conv sent settled shown (patch # more) settled' shown' p'"
      by (rule publishes_step [OF _ r(2)]) (use closed_entry(1) in simp)
    then show ?thesis using r split(4) by auto
  qed
qed

lemma drain_size_lines: "drain_size n b = drain_lines (drain_count n 0 0 (tb_lines b)) b"
  by (simp add: drain_size_def)

lemma size_loop_publishes:
  assumes bound: "length conv + length sent < 2 ^ 64"
    and acc: "log_account (length conv) sent settled shown p"
  shows "\<exists>more settled' shown' p'. size_loop cfg n patches p = (patches @ more, p')
    \<and> publishes cfg conv sent settled shown more settled' shown' p'"
  using acc
proof (induction "length (tb_lines (lp_buffer p))" arbitrary: patches settled shown p rule: less_induct)
  case less
  obtain ls b where d: "drain_size n (lp_buffer p) = (ls, b)" by (cases "drain_size n (lp_buffer p)")
  note d' = d [unfolded drain_size_lines]
  show ?case
  proof (cases "tb_total (lp_buffer p) < n")
    case True
    then show ?thesis using publishes_refl [OF less(2)]
      by (intro exI [of _ "[]"] exI [of _ settled] exI [of _ shown] exI [of _ p]) (simp add: size_loop.simps)
  next
    case False
    show ?thesis
    proof (cases "ls = []")
      case True
      then have "tb_lines (lp_buffer p) = []"
        using d' drain_some [of "drain_count n 0 0 (tb_lines (lp_buffer p))" "lp_buffer p"]
          drain_count_pos [of 0 "tb_lines (lp_buffer p)" n 0] by auto
      then have "b = lp_buffer p" using d' by (cases "lp_buffer p") (auto simp: drain_lines_def Let_def)
      then show ?thesis using True d False publishes_refl [OF less(2)]
        by (intro exI [of _ "[]"] exI [of _ settled] exI [of _ shown] exI [of _ p])
          (simp add: size_loop.simps)
    next
      case ne: False
      obtain patch p2 where c: "create_patch cfg ls (p\<lparr> lp_buffer := b \<rparr>) = (patch, p2)"
        by (cases "create_patch cfg ls (p\<lparr> lp_buffer := b \<rparr>)")
      note closed_entry = close_entry_account [OF less(2) d' ne bound c]
      have "length (tb_lines (lp_buffer (p2\<lparr> lp_current := None \<rparr>))) < length (tb_lines (lp_buffer p))"
        using drain_lines_shorter [of "drain_count n 0 0 (tb_lines (lp_buffer p))" "lp_buffer p"]
          closed_buffer [OF c] d' ne by simp
      from less(1) [OF this closed_entry(2), of "patches @ [patch]"]
      obtain more settled' shown' p' where r:
        "size_loop cfg n (patches @ [patch]) (p2\<lparr> lp_current := None \<rparr>) = ((patches @ [patch]) @ more, p')"
        "publishes cfg conv sent (settled @ [concat ls]) [] more settled' shown' p'" by blast
      have "publishes cfg conv sent settled shown (patch # more) settled' shown' p'"
        by (rule publishes_step [OF _ r(2)]) (use closed_entry(1) in simp)
      moreover have "size_loop cfg n patches p = (patches @ patch # more, p')"
        using False d ne c r(1) by (subst size_loop.simps) simp
      ultimately show ?thesis by blast
    qed
  qed
qed

definition fully_shown :: "string list \<Rightarrow> 't log_processor \<Rightarrow> bool" where
  "fully_shown shown p \<longleftrightarrow> concat shown = concat (tb_lines (lp_buffer p))"

lemma send_partial_publishes:
  assumes bound: "length conv + length sent < 2 ^ 64"
    and acc: "log_account (length conv) sent settled shown p"
  shows "\<exists>more shown' p'. send_partial cfg patches p = (patches @ more, p')
    \<and> publishes cfg conv sent settled shown more settled shown' p'
    \<and> fully_shown shown' p'"
proof (cases "tb_lines (lp_buffer p) = []")
  case True
  then have "shown = []" using acc by (auto simp: log_account_def split: option.splits)
  moreover have "buffer_is_empty (lp_buffer p)"
    using acc True by (simp add: log_account_def tidy_def buffer_is_empty_def)
  ultimately show ?thesis using True publishes_refl [OF acc]
    by (intro exI [of _ "[]"] exI [of _ shown] exI [of _ p]) (simp add: send_partial_def fully_shown_def)
next
  case False
  have tidy: "tidy (lp_buffer p)" using acc by (simp add: log_account_def)
  obtain patch p2 where c: "create_patch cfg (tb_lines (lp_buffer p)) p = (patch, p2)"
    by (cases "create_patch cfg (tb_lines (lp_buffer p)) p")
  have ne: "concat (tb_lines (lp_buffer p)) \<noteq> []" using tidy_content [OF tidy] False by blast
  note both = create_patch_account [OF acc ne _ bound c, of "[]"]
  have "publishes cfg conv sent settled shown [patch] settled [concat (tb_lines (lp_buffer p))] p2"
    by (rule publishes_step [OF _ publishes_refl]) (use both in simp_all)
  moreover have "lp_buffer p2 = lp_buffer p" using c create_patch_buffer [of cfg "tb_lines (lp_buffer p)" p] by simp
  ultimately show ?thesis using c tidy False
    by (intro exI [of _ "[patch]"] exI [of _ "[concat (tb_lines (lp_buffer p))]"] exI [of _ p2])
      (simp add: send_partial_def tidy_is_empty fully_shown_def)
qed

lemma publishes_trans:
  "publishes cfg conv sent settled shown more1 settled1 shown1 p1 \<Longrightarrow>
   publishes cfg conv sent settled1 shown1 more2 settled2 shown2 p2 \<Longrightarrow>
   publishes cfg conv sent settled shown (more1 @ more2) settled2 shown2 p2"
  by (simp add: publishes_def apply_ops_append)

section \<open>The whole processor\<close>

lemma process_lines_terminates: "boundary_progressive cfg \<Longrightarrow> process_lines cfg p \<noteq> None"
  using split_loop_terminates [of cfg "[]" p]
  by (auto simp: process_lines_def split: option.split bool.split)

lemma process_terminates: "boundary_progressive cfg \<Longrightarrow> process cfg checked arrived chunk p \<noteq> None"
  using process_lines_terminates [of cfg]
  by (simp add: process_def process_text_chunk_def Let_def split_beta)

lemma process_all_terminates: "boundary_progressive cfg \<Longrightarrow> process_all cfg items p \<noteq> None"
proof (induction cfg items p rule: process_all.induct)
  case (2 cfg checked arrived chunk items p)
  obtain ps p1 where r: "process cfg checked arrived chunk p = Some (ps, p1)"
    using process_terminates [OF 2(2), of checked arrived chunk p] by auto
  then obtain ps2 p2 where "process_all cfg items p1 = Some (ps2, p2)"
    using 2(1) [OF r _ 2(2)] by auto
  then show ?case using r by simp
qed simp

definition plain_format :: "'t log_format \<Rightarrow> bool" where
  "plain_format cfg \<longleftrightarrow> lf_format_chunk cfg = None \<and> lf_transform cfg = None \<and> boundary_progressive cfg"

lemma process_lines_publishes:
  assumes prog: "boundary_progressive cfg" and bound: "length conv + length sent < 2 ^ 64"
    and acc: "log_account (length conv) sent settled shown p"
  shows "\<exists>patches settled' shown' p'. process_lines cfg p = Some (patches, p')
    \<and> publishes cfg conv sent settled shown patches settled' shown' p'
    \<and> (lf_boundary cfg = None \<longrightarrow> fully_shown shown' p')"
proof -
  obtain fl ps settled1 shown1 p1 where s: "split_loop cfg [] p = Some (fl, ps, p1)"
    "publishes cfg conv sent settled shown ps settled1 shown1 p1" "lf_boundary cfg = None \<longrightarrow> \<not> fl"
    using split_loop_publishes [OF prog bound acc, of "[]"] unfolding append_Nil
    by (elim exE conjE) (rule that)
  show ?thesis
  proof (cases fl)
    case True
    then have "process_lines cfg p = Some (ps, p1)" using s(1) by (simp add: process_lines_def)
    moreover have "lf_boundary cfg = None \<longrightarrow> fully_shown shown1 p1" using s(3) True by (intro impI) simp
    ultimately show ?thesis using s(2) by (intro exI conjI)
  next
    case False
    obtain ps2 settled2 shown2 p2 where z: "(case lf_threshold cfg of None \<Rightarrow> (ps, p1)
        | Some n \<Rightarrow> size_loop cfg n ps p1) = (ps @ ps2, p2)"
      "publishes cfg conv sent settled1 shown1 ps2 settled2 shown2 p2"
    proof (cases "lf_threshold cfg")
      case None
      then show ?thesis using that [of "[]" p1 settled1 shown1] publishes_refl s(2)
        by (auto simp: publishes_def)
    next
      case (Some n)
      obtain ps2 settled2 shown2 p2 where "size_loop cfg n ps p1 = (ps @ ps2, p2)"
        "publishes cfg conv sent settled1 shown1 ps2 settled2 shown2 p2"
        using size_loop_publishes [OF bound publishes_account [OF s(2)], of cfg n ps]
        by (elim exE conjE) (rule that)
      then show ?thesis using that Some by auto
    qed
    obtain ps3 shown3 p3 where f: "send_partial cfg (ps @ ps2) p2 = ((ps @ ps2) @ ps3, p3)"
      "publishes cfg conv sent settled2 shown2 ps3 settled2 shown3 p3" "fully_shown shown3 p3"
      using send_partial_publishes [OF bound publishes_account [OF z(2)], of cfg "ps @ ps2"]
      by (elim exE conjE) (rule that)
    have "process_lines cfg p = Some ((ps @ ps2) @ ps3, p3)"
      using s(1) False z(1) f(1) by (auto simp: process_lines_def split: option.splits)
    moreover have "publishes cfg conv sent settled shown ((ps @ ps2) @ ps3) settled2 shown3 p3"
      by (rule publishes_trans [OF publishes_trans [OF s(2) z(2)] f(2)])
    ultimately show ?thesis using f(3) by blast
  qed
qed

lemma ingest_account:
  "log_account base sent settled shown p \<Longrightarrow>
   log_account base (sent @ chunk) settled shown
     (p\<lparr> lp_last_arrival := t, lp_buffer := ingest chunk (lp_buffer p) \<rparr>)"
  by (auto simp: log_account_def ingest_content ingest_tidy split: option.splits)

lemma process_publishes:
  assumes plain: "plain_format cfg" and bound: "length conv + length (sent @ chunk) < 2 ^ 64"
    and time: "\<not> gap_elapsed cfg checked p" and acc: "log_account (length conv) sent settled shown p"
    and chunk: "chunk \<noteq> []"
  shows "\<exists>patches settled' shown' p'. process cfg checked arrived chunk p = Some (patches, p')
    \<and> publishes cfg conv (sent @ chunk) settled shown patches settled' shown' p'
    \<and> (lf_boundary cfg = None \<longrightarrow> fully_shown shown' p')"
proof -
  let ?q = "p\<lparr> lp_last_arrival := arrived, lp_buffer := ingest chunk (lp_buffer p) \<rparr>"
  have "process cfg checked arrived chunk p = process_lines cfg ?q"
    using plain time chunk
    by (simp add: process_def process_text_chunk_def Let_def plain_format_def transform_buffer_def)
  moreover have "boundary_progressive cfg" using plain by (simp add: plain_format_def)
  ultimately show ?thesis
    using process_lines_publishes [OF _ bound ingest_account [OF acc]] by simp
qed

text \<open>The last arrival is the one the processor was given.\<close>

lemma arrival_loops [simp]:
  "lp_last_arrival (snd (create_patch cfg ls p)) = lp_last_arrival p"
  "lp_last_arrival (snd (send_partial cfg patches p)) = lp_last_arrival p"
  by (simp_all add: create_patch_def send_partial_def provider_next_def Let_def split_beta split: option.split)

lemma arrival_size_loop [simp]: "lp_last_arrival (snd (size_loop cfg n patches p)) = lp_last_arrival p"
proof (induction cfg n patches p rule: size_loop.induct)
  case (1 cfg n patches p)
  obtain ls b where d: "drain_size n (lp_buffer p) = (ls, b)" by (cases "drain_size n (lp_buffer p)")
  obtain patch p2 where c: "create_patch cfg ls (p\<lparr> lp_buffer := b \<rparr>) = (patch, p2)"
    by (cases "create_patch cfg ls (p\<lparr> lp_buffer := b \<rparr>)")
  have "lp_last_arrival p2 = lp_last_arrival p"
    using c arrival_loops(1) [of cfg ls "p\<lparr> lp_buffer := b \<rparr>"] by simp
  then show ?case using 1 [of "(ls, b)" ls b "p\<lparr> lp_buffer := b \<rparr>" "(patch, p2)" patch p2] d c
    by (subst size_loop.simps) (simp add: Let_def)
qed

lemma arrival_split_loop:
  assumes "boundary_progressive cfg"
  shows "split_loop cfg patches p = Some (fl, ps, p') \<Longrightarrow> lp_last_arrival p' = lp_last_arrival p"
proof (induction "length (tb_lines (lp_buffer p))" arbitrary: patches p rule: less_induct)
  case less
  show ?case
  proof (cases rule: split_loop_cases [OF assms, of patches p, case_names stop split])
    case (stop fl)
    then show ?thesis using less(2) by simp
  next
    case (split k ls b patch p2)
    have "length (tb_lines (lp_buffer (p2\<lparr> lp_current := None \<rparr>))) < length (tb_lines (lp_buffer p))"
      using drain_lines_shorter [of k "lp_buffer p"] closed_buffer [OF split(3)] split(1,2) by simp
    from less(1) [OF this, of "patches @ [patch]"] show ?thesis
      using split(3,4) less(2) arrival_loops(1) [of cfg ls "p\<lparr> lp_buffer := b \<rparr>"] by simp
  qed
qed

lemma arrival_process:
  assumes "plain_format cfg" "chunk \<noteq> []" "\<not> gap_elapsed cfg checked p"
    and r: "process cfg checked arrived chunk p = Some (ps, p')"
  shows "lp_last_arrival p' = arrived"
proof -
  let ?q = "p\<lparr> lp_last_arrival := arrived, lp_buffer := ingest chunk (lp_buffer p) \<rparr>"
  have "process_lines cfg ?q = Some (ps, p')" and prog: "boundary_progressive cfg"
    using assms by (simp_all add: process_def process_text_chunk_def Let_def plain_format_def transform_buffer_def)
  moreover obtain fl ps1 p1 where s: "split_loop cfg [] ?q = Some (fl, ps1, p1)"
    using split_loop_terminates [OF prog, of "[]" ?q] by auto
  ultimately have "p' = p1 \<or> p' = snd (send_partial cfg ps1 p1)
      \<or> (\<exists>n. p' = snd (send_partial cfg (fst (size_loop cfg n ps1 p1)) (snd (size_loop cfg n ps1 p1))))"
    by (cases fl; cases "lf_threshold cfg") (auto simp: process_lines_def split_beta, metis snd_conv)
  then show ?thesis using arrival_split_loop [OF prog s(1)] by auto
qed

text \<open>Chunks that keep coming before the gap has elapsed.\<close>

fun on_time :: "nat option \<Rightarrow> int \<Rightarrow> (int \<times> int \<times> string) list \<Rightarrow> bool" where
  "on_time gap previous [] \<longleftrightarrow> True"
| "on_time gap previous ((checked, arrived, chunk) # items) \<longleftrightarrow>
     (if chunk = [] then on_time gap previous items
      else is_none_or gap (\<lambda>g. nat (checked - previous) < g) \<and> on_time gap arrived items)"

definition chunks :: "(int \<times> int \<times> string) list \<Rightarrow> string" where
  "chunks items = concat (map (\<lambda>(checked, arrived, chunk). chunk) items)"

lemma process_all_publishes:
  assumes plain: "plain_format cfg"
  shows "on_time (lf_time_gap cfg) (lp_last_arrival p) items \<Longrightarrow>
    length conv + length (sent @ chunks items) < 2 ^ 64 \<Longrightarrow>
    log_account (length conv) sent settled shown p \<Longrightarrow>
    (lf_boundary cfg = None \<Longrightarrow> fully_shown shown p) \<Longrightarrow>
    \<exists>patches settled' shown' p'. process_all cfg items p = Some (patches, p')
      \<and> publishes cfg conv (sent @ chunks items) settled shown patches settled' shown' p'
      \<and> (lf_boundary cfg = None \<longrightarrow> fully_shown shown' p')"
proof (induction items arbitrary: p sent settled shown)
  case Nil
  then show ?case using publishes_refl by (fastforce simp: chunks_def)
next
  case (Cons item items)
  obtain checked arrived chunk where item: "item = (checked, arrived, chunk)" by (cases item)
  show ?case
  proof (cases "chunk = []")
    case True
    have "chunks (item # items) = chunks items" by (simp add: chunks_def item True)
    moreover have "process_all cfg (item # items) p = process_all cfg items p"
      by (simp add: item process_def True split: option.split prod.split)
    ultimately show ?thesis using Cons.IH [of p sent settled shown] Cons.prems True
      by (simp add: item)
  next
    case False
    have ch: "sent @ chunks (item # items) = (sent @ chunk) @ chunks items"
      by (simp add: chunks_def item)
    have time: "\<not> gap_elapsed cfg checked p" and rest: "on_time (lf_time_gap cfg) arrived items"
      using Cons.prems(1) False by (auto simp: item gap_elapsed_def is_some_and_iff)
    have "length conv + length (sent @ chunk) < 2 ^ 64" using Cons.prems(2) unfolding ch by simp
    from process_publishes [OF plain this time Cons.prems(3) False, of arrived]
    obtain ps settled1 shown1 p1 where r: "process cfg checked arrived chunk p = Some (ps, p1)"
      "publishes cfg conv (sent @ chunk) settled shown ps settled1 shown1 p1"
      "lf_boundary cfg = None \<longrightarrow> fully_shown shown1 p1" by (elim exE conjE) (rule that)
    have "on_time (lf_time_gap cfg) (lp_last_arrival p1) items"
      using rest arrival_process [OF plain False time r(1)] by simp
    moreover have "log_account (length conv) (sent @ chunk) settled1 shown1 p1"
      using r(2) by (simp add: publishes_def)
    ultimately obtain ps2 settled2 shown2 p2 where r2: "process_all cfg items p1 = Some (ps2, p2)"
      "publishes cfg conv ((sent @ chunk) @ chunks items) settled1 shown1 ps2 settled2 shown2 p2"
      "lf_boundary cfg = None \<longrightarrow> fully_shown shown2 p2"
      using Cons.IH [of p1 "sent @ chunk" settled1 shown1, OF _ _ _ r(3) [rule_format]] Cons.prems(2)
      unfolding ch by (elim meta_impE exE conjE) (assumption | rule that)+
    have "publishes cfg conv ((sent @ chunk) @ chunks items) settled shown (ps @ ps2) settled2 shown2 p2"
      using r(2) r2(2) by (simp add: publishes_def apply_ops_append)
    moreover have "process_all cfg (item # items) p = Some (ps @ ps2, p2)"
      using r(1) r2(1) by (simp add: item)
    ultimately show ?thesis using r2(3) unfolding ch by (intro exI conjI)
  qed
qed

definition demo_format :: "unit log_format" where
  "demo_format = build_format JStr None (Some 2) None None None"

text \<open>
  C26: a processor without formatter and transformation loses no text while the chunks keep coming: it
  returns for every chunk, its patches apply to the conversation one after the other, and the
  entries they leave, read in order, are a beginning of the text that was fed in (all of it when
  there is no boundary predicate that holds content back): nothing is dropped, nothing repeated,
  nothing reordered, for every size threshold and every boundary predicate that makes progress.
\<close>

theorem stream_text_conserved:
  assumes "plain_format cfg" "on_time (lf_time_gap cfg) start items"
    and "length conv + length (chunks items) < 2 ^ 64"
  shows "\<exists>patches p' texts held_back.
    process_all cfg items (processor_new (length conv) start t) = Some (patches, p')
    \<and> apply_ops (concat patches) conv = Some (conv @ map (entry_value cfg) texts)
    \<and> concat texts @ held_back = chunks items
    \<and> (lf_boundary cfg = None \<longrightarrow> held_back = [])"
proof -
  let ?p = "processor_new (length conv) start t"
  have acc: "log_account (length conv) [] [] [] ?p"
    by (simp add: log_account_def processor_new_def buffer_new_def tidy_def)
  obtain ps settled shown p' where r: "process_all cfg items ?p = Some (ps, p')"
    "publishes cfg conv (chunks items) [] [] ps settled shown p'"
    "lf_boundary cfg = None \<longrightarrow> fully_shown shown p'"
    using process_all_publishes [OF assms(1) _ _ acc, of items] assms(2,3)
    by (auto simp: processor_new_def fully_shown_def buffer_new_def)
  have acc': "log_account (length conv) (chunks items) settled shown p'"
    and app: "apply_ops (concat ps) conv = Some (conv @ map (entry_value cfg) (settled @ shown))"
    using r(2) by (simp_all add: publishes_def)
  obtain r' where sh: "concat (tb_lines (lp_buffer p')) = concat shown @ r'"
    using acc' by (auto simp: log_account_def split: option.splits)
  then have "concat (settled @ shown) @ r' = chunks items"
    using acc' by (simp add: log_account_def)
  moreover have "lf_boundary cfg = None \<longrightarrow> r' = []"
    using r(3) sh by (simp add: fully_shown_def)
  ultimately show ?thesis using r(1) app by (intro exI conjI)
qed

theorem stream_text_conserved_witness:
  "\<exists>patches p' texts.
     process_all demo_format [(0, 0, ''out''), (1, 1, ''put'')] (processor_new 0 0 ()) = Some (patches, p')
     \<and> apply_ops (concat patches) [] = Some (map (entry_value demo_format) texts)
     \<and> concat texts = ''output''"
  using stream_text_conserved [of demo_format 0 "[(0, 0, ''out''), (1, 1, ''put'')]" "[]" "()"]
  by (auto simp: demo_format_def build_format_def plain_format_def boundary_progressive_def chunks_def)

text \<open>
  A chunk that arrives after the time gap is lost, and the chunk after it overwrites the entry
  that should have been settled. When the gap has elapsed the processor publishes the flushed buffer
  and returns without looking at the chunk; the open entry stays current, so the next chunk
  replaces its text. Neither the text of the late chunk nor that of the flushed entry survives.
\<close>

theorem late_chunk_lost:
  assumes "plain_format cfg" "lf_boundary cfg = None" "lf_threshold cfg = None"
    and "tidy (lp_buffer p)" "tb_lines (lp_buffer p) \<noteq> []" "lp_current p = Some i"
    and "gap_elapsed cfg checked p" "late \<noteq> []" "following \<noteq> []"
  shows "map_option fst (process_all cfg [(checked, arrived, late), (checked2, arrived2, following)] p)
    = Some [replace_entry i (lf_producer cfg (concat (tb_lines (lp_buffer p)))),
            replace_entry i (lf_producer cfg following)]"
proof -
  let ?q = "p\<lparr> lp_buffer := \<lparr> tb_lines = [], tb_total = 0 \<rparr> \<rparr>"
  have first: "process cfg checked arrived late p
      = Some ([replace_entry i (lf_producer cfg (concat (tb_lines (lp_buffer p))))], ?q)"
    using assms by (simp add: process_def tidy_is_empty flush_def create_patch_def Let_def)
  have lines: "split_lines following \<noteq> []"
    using concat_split_lines [of following] assms(9) by (metis concat.simps(1))
  have "map_option fst (process cfg checked2 arrived2 following ?q)
      = Some [replace_entry i (lf_producer cfg following)]"
    using assms lines
    by (simp add: process_def process_text_chunk_def buffer_is_empty_def Let_def plain_format_def
        transform_buffer_def process_lines_def split_loop.simps ingest_def send_partial_def create_patch_def)
  then show ?thesis by (auto simp: first split: option.splits)
qed

text \<open>Three lines on the error stream, the second and third after a pause: one entry is left, the third's.\<close>

theorem late_chunk_lost_witness:
  "\<exists>patches p'. process_all demo_format [(0, 0, ''a''), (3, 3, ''b''), (3, 3, ''c'')] (processor_new 0 0 ())
       = Some (patches, p')
     \<and> apply_ops (concat patches) [] = Some [entry_value demo_format ''c'']"
proof -
  define p where "p = \<lparr> lp_buffer = \<lparr> tb_lines = [''a''], tb_total = 1 \<rparr>, lp_next_index = 1,
    lp_last_arrival = 0, lp_current = Some 0, lp_transform = () \<rparr>"
  have first: "process demo_format 0 0 ''a'' (processor_new 0 0 ())
      = Some ([add_normalized_entry 0 (JStr ''a'')], p)"
    by (simp add: p_def process_def process_text_chunk_def buffer_is_empty_def Let_def demo_format_def
        build_format_def transform_buffer_def process_lines_def split_loop.simps ingest_def send_partial_def
        create_patch_def processor_new_def buffer_new_def provider_next_def NL_def)
  have "map_option fst (process_all demo_format [(3, 3, ''b''), (3, 3, ''c'')] p)
      = Some [replace_entry 0 (lf_producer demo_format (concat (tb_lines (lp_buffer p)))),
              replace_entry 0 (lf_producer demo_format ''c'')]"
    by (rule late_chunk_lost) (simp_all add: p_def demo_format_def build_format_def plain_format_def
        boundary_progressive_def tidy_def gap_elapsed_def)
  then obtain p' where "process_all demo_format [(3, 3, ''b''), (3, 3, ''c'')] p
      = Some ([replace_entry 0 (JStr ''a''), replace_entry 0 (JStr ''c'')], p')"
    by (auto simp: p_def demo_format_def build_format_def)
  then have "process_all demo_format [(0, 0, ''a''), (3, 3, ''b''), (3, 3, ''c'')] (processor_new 0 0 ())
      = Some ([add_normalized_entry 0 (JStr ''a''), replace_entry 0 (JStr ''a''),
               replace_entry 0 (JStr ''c'')], p')"
    using first by simp
  moreover have "apply_ops (concat [add_normalized_entry 0 (JStr ''a''), replace_entry 0 (JStr ''a''),
      replace_entry 0 (JStr ''c'')]) [] = Some [entry_value demo_format ''c'']"
    by (simp add: add_normalized_entry_def replace_entry_def entry_index_path entry_value_def
        demo_format_def build_format_def)
  ultimately show ?thesis by blast
qed

end
