(* ===== verification/Codex_Stderr.thy ===== *)
theory Codex_Stderr
  imports Plain_Text_Log
begin

text \<open>
  The error stream of the Codex agent (\<open>executors/src/executors/codex/normalize_logs.rs\<close>): the
  recognition of log records that may span several lines, the suppression of noise and of repeated
  sign-in failures, the boundaries at which records are split into entries, and the entry shown
  instead of a sign-in failure. The plain-text processor runs with these three closures.

  Parameters: \<open>record_start\<close>, the regular expression at the beginning of a record, and \<open>strip_ansi\<close>
  (the crate \<open>strip_ansi_escapes\<close>).
\<close>

section \<open>Reasons\<close>

definition REVOKED :: string where
  "REVOKED = ''Failed to refresh token: the session's refresh token was invalidated or revoked.''"

definition ALREADY_USED :: string where
  "ALREADY_USED = ''Failed to refresh token: the refresh token was already used.''"

definition NO_LOCAL_TOKEN :: string where
  "NO_LOCAL_TOKEN = ''Failed to refresh token: this machine has no local refresh token.''"

definition NOT_RENEWED :: string where
  "NOT_RENEWED = ''Failed to refresh token: Codex could not renew the current session.''"

definition stderr_refresh_failure_reason :: "string \<Rightarrow> string option" where
  "stderr_refresh_failure_reason content = (let lower = to_ascii_lowercase content in
     if \<not> (str_contains lower ''failed to refresh token''
           \<or> str_contains lower ''access token could not be refreshed''
           \<or> str_contains lower ''refresh_token_invalidated'')
     then None
     else Some (if str_contains lower ''refresh_token_invalidated''
                   \<or> str_contains lower ''refresh token was revoked''
                then REVOKED
                else if str_contains lower ''refresh_token_reused''
                   \<or> str_contains lower ''refresh token was already used''
                then ALREADY_USED
                else if str_contains lower ''empty string'' then NO_LOCAL_TOKEN
                else NOT_RENEWED))"

definition stderr_has_specific_refresh_failure_reason :: "string \<Rightarrow> bool" where
  "stderr_has_specific_refresh_failure_reason content = (let lower = to_ascii_lowercase content in
     str_contains lower ''refresh_token_invalidated''
     \<or> str_contains lower ''refresh token was revoked''
     \<or> str_contains lower ''refresh_token_reused''
     \<or> str_contains lower ''refresh token was already used''
     \<or> str_contains lower ''empty string'')"

definition GUIDANCE :: string where
  "GUIDANCE = [NL, NL] @ ''Codex's access token was rejected and could not be refreshed on this machine. If this machine uses a Codex login copied from another node (its refresh token is intentionally blank), make sure the node's refresh endpoint (CODEX_REFRESH_TOKEN_URL_OVERRIDE) is configured and reachable, or renew the login on the node that owns it. Otherwise run `codex login` here. Then retry the turn.''"

definition refresh_failure_setup_message :: "string \<Rightarrow> string option" where
  "refresh_failure_setup_message message = (let lower = to_ascii_lowercase message in
     if \<not> (str_contains lower ''failed to refresh token''
           \<or> str_contains lower ''access token could not be refreshed'')
     then None
     else Some (''Codex could not renew its sign-in: '' @ message @ GUIDANCE))"

section \<open>Records\<close>

text \<open>\<open>json_object_brace_state\<close>: braces outside of string literals, byte by byte.\<close>

record brace_state =
  br_saw_open :: bool
  br_balance :: int
  br_in_string :: bool
  br_escaped :: bool

definition brace_step :: "char \<Rightarrow> brace_state \<Rightarrow> brace_state" where
  "brace_step c s =
     (if br_escaped s then s\<lparr> br_escaped := False \<rparr>
      else if br_in_string s \<and> c = CHR 0x5C then s\<lparr> br_escaped := True \<rparr>
      else if c = CHR 0x22 then s\<lparr> br_in_string := \<not> br_in_string s \<rparr>
      else if \<not> br_in_string s then
        (if c = CHR 0x7B then s\<lparr> br_saw_open := True, br_balance := br_balance s + 1 \<rparr>
         else if c = CHR 0x7D then s\<lparr> br_balance := br_balance s - 1 \<rparr>
         else s)
      else s)"

definition json_object_brace_state :: "string \<Rightarrow> bool \<times> int" where
  "json_object_brace_state content =
     (let s = fold brace_step content
        \<lparr> br_saw_open = False, br_balance = 0, br_in_string = False, br_escaped = False \<rparr>
      in (br_saw_open s, br_balance s))"

definition braces_closed :: "string \<Rightarrow> bool" where
  "braces_closed content = (let (saw_open, balance) = json_object_brace_state content
     in \<not> saw_open \<or> balance = 0)"

definition codex_stderr_record_is_complete :: "string list \<Rightarrow> bool" where
  "codex_stderr_record_is_complete lines =
     (lines \<noteq> [] \<and> ends_with_newline (last lines) \<and> braces_closed (concat lines))"

text \<open>The loop of \<open>completed_refresh_record_line_count\<close>; \<open>record_text\<close> is the text of the lines seen.\<close>

fun completed_scan :: "string \<Rightarrow> nat \<Rightarrow> string list \<Rightarrow> nat option" where
  "completed_scan seen i [] = None"
| "completed_scan seen i (line # rest) =
     (let record_text = seen @ line
      in if ends_with_newline line \<and> braces_closed record_text
         then (if stderr_refresh_failure_reason record_text \<noteq> None then Some (i + 1) else None)
         else completed_scan record_text (i + 1) rest)"

definition completed_refresh_record_line_count :: "string list \<Rightarrow> nat option" where
  "completed_refresh_record_line_count lines = completed_scan [] 0 lines"

definition timestamp_starts :: "(string \<Rightarrow> bool) \<Rightarrow> string list \<Rightarrow> nat list" where
  "timestamp_starts record_start lines =
     filter (\<lambda>i. record_start (lines ! i)) [1..<length lines]"

definition line_slice :: "nat \<Rightarrow> nat \<Rightarrow> 'a list \<Rightarrow> 'a list" where
  "line_slice a b xs = take (b - a) (drop a xs)"

fun windows3 :: "'a list \<Rightarrow> ('a \<times> 'a \<times> 'a) list" where
  "windows3 (a # b # c # xs) = (a, b, c) # windows3 (b # c # xs)"
| "windows3 _ = []"

fun windows2 :: "'a list \<Rightarrow> ('a \<times> 'a) list" where
  "windows2 (a # b # xs) = (a, b) # windows2 (b # xs)"
| "windows2 _ = []"

fun boundary_scan :: "string list \<Rightarrow> (nat \<times> nat \<times> nat) list \<Rightarrow> MessageBoundary option" where
  "boundary_scan lines [] = None"
| "boundary_scan lines ((a, b, c) # ws) =
     (let before = line_slice a b lines; after = line_slice b c lines;
          before_reason = stderr_refresh_failure_reason (concat before);
          after_reason = stderr_refresh_failure_reason (concat after)
      in if \<not> codex_stderr_record_is_complete after \<and> before_reason \<noteq> None
            \<and> \<not> stderr_has_specific_refresh_failure_reason (concat after)
         then boundary_scan lines ws
         else if (before_reason \<noteq> None \<or> after_reason \<noteq> None) \<and> before_reason \<noteq> after_reason
         then Some (Split b)
         else boundary_scan lines ws)"

definition codex_stderr_record_boundary ::
  "(string \<Rightarrow> bool) \<Rightarrow> string list \<Rightarrow> MessageBoundary option" where
  "codex_stderr_record_boundary record_start lines =
     (let starts = timestamp_starts record_start lines;
          next_timestamp = (case starts of [] \<Rightarrow> None | i # _ \<Rightarrow> Some i);
          completed = completed_refresh_record_line_count lines
      in if is_some_and completed (\<lambda>n. n < length lines \<and> next_timestamp \<noteq> Some n)
         then (if \<not> ends_with_newline (last lines) then None else Some (Split (the completed)))
         else if next_timestamp = None then None
         else boundary_scan lines (windows3 (0 # starts @ [length lines])))"

section \<open>Suppression of repeated failures\<close>

definition SUPPRESSED_STDERR_PATTERNS :: "string list" where
  "SUPPRESSED_STDERR_PATTERNS = [''state db missing rollout path for'']"

fun compact_records :: "string list \<Rightarrow> (nat \<times> nat) list \<Rightarrow> string option \<Rightarrow> string list" where
  "compact_records lines [] previous = []"
| "compact_records lines ((a, b) # ws) previous =
     (let rec = line_slice a b lines;
          refresh_end = completed_refresh_record_line_count rec;
          refresh_record = (case refresh_end of Some e \<Rightarrow> take e rec | None \<Rightarrow> rec);
          trailing = (case refresh_end of Some e \<Rightarrow> drop e rec | None \<Rightarrow> []);
          reason = (if codex_stderr_record_is_complete refresh_record
                    then stderr_refresh_failure_reason (concat refresh_record) else None)
      in if reason \<noteq> None \<and> reason = previous
         then trailing @ compact_records lines ws (if trailing \<noteq> [] then None else previous)
         else rec @ compact_records lines ws (if trailing = [] then reason else None))"

definition transform_codex_stderr_lines :: "(string \<Rightarrow> bool) \<Rightarrow> string list \<Rightarrow> string list" where
  "transform_codex_stderr_lines record_start lines0 =
     (let lines = filter (\<lambda>l. \<not> list_ex (str_contains l) SUPPRESSED_STDERR_PATTERNS) lines0
      in compact_records lines
           (windows2 (0 # timestamp_starts record_start lines @ [length lines])) None)"

section \<open>The entry\<close>

datatype NormalizedEntryError = SetupRequired | OtherError

record stderr_entry =
  se_error_type :: NormalizedEntryError
  se_content :: string

definition ADDITIONAL :: string where
  "ADDITIONAL = [NL, NL] @ ''Additional Codex stderr:'' @ [NL]"

definition normalize_codex_stderr_entry ::
  "(string \<Rightarrow> bool) \<Rightarrow> (string \<Rightarrow> string) \<Rightarrow> string \<Rightarrow> stderr_entry" where
  "normalize_codex_stderr_entry record_start strip_ansi raw =
     (let content = strip_ansi raw;
          lines = split_lines content;
          refresh_end = completed_refresh_record_line_count lines;
          refresh_record = map_option (\<lambda>e. concat (take e lines)) refresh_end;
          first_line_is_refresh_record = (lines \<noteq> [] \<and> record_start (hd lines)
             \<and> str_contains (to_ascii_lowercase (hd lines)) ''failed to refresh token'');
          subject = (case refresh_record of Some r \<Rightarrow> Some r
             | None \<Rightarrow> if first_line_is_refresh_record then Some content else None);
          refresh_message = Option.bind (Option.bind subject stderr_refresh_failure_reason)
             refresh_failure_setup_message
      in case refresh_message of
          Some guidance \<Rightarrow>
            (let trailing = (case refresh_end of Some e \<Rightarrow> concat (drop e lines) | None \<Rightarrow> [])
             in \<lparr> se_error_type = SetupRequired,
                  se_content = (if refresh_end \<noteq> None \<and> trailing \<noteq> []
                                   \<and> stderr_refresh_failure_reason trailing = None
                                then guidance @ ADDITIONAL @ trailing else guidance) \<rparr>)
        | None \<Rightarrow> \<lparr> se_error_type = OtherError, se_content = content \<rparr>)"

text \<open>\<open>NormalizedEntry\<close> of an error message as it is serialised.\<close>

definition error_type_json :: "NormalizedEntryError \<Rightarrow> json" where
  "error_type_json e = JObj [(''type'',
     JStr (case e of SetupRequired \<Rightarrow> ''setup_required'' | OtherError \<Rightarrow> ''other''))]"

definition stderr_entry_json :: "stderr_entry \<Rightarrow> json" where
  "stderr_entry_json e = JObj [
     (''timestamp'', JNull),
     (''entry_type'', JObj [(''type'', JStr ''error_message''),
                               (''error_type'', error_type_json (se_error_type e))]),
     (''content'', JStr (se_content e)),
     (''metadata'', JNull)]"

text \<open>\<open>normalize_codex_stderr_logs\<close>: the processor it builds.\<close>

definition codex_stderr_format ::
  "(string \<Rightarrow> bool) \<Rightarrow> (string \<Rightarrow> string) \<Rightarrow> unit log_format" where
  "codex_stderr_format record_start strip_ansi = build_format
     (\<lambda>content. stderr_entry_json (normalize_codex_stderr_entry record_start strip_ansi content))
     None (Some 2000) None
     (Some (\<lambda>u lines. (transform_codex_stderr_lines record_start lines, u)))
     (Some (codex_stderr_record_boundary record_start))"

section \<open>Termination\<close>

lemma completed_scan_range: "completed_scan seen i ls = Some n \<Longrightarrow> i < n \<and> n \<le> i + length ls"
  by (induction seen i ls rule: completed_scan.induct) (auto simp: Let_def split: if_splits)

lemma windows3_mid: "(a, b, c) \<in> set (windows3 (x # ys @ [z])) \<Longrightarrow> b \<in> set ys"
proof (induction ys arbitrary: x)
  case (Cons y ys)
  then show ?case by (cases "ys @ [z]") auto
qed simp

lemma boundary_scan_split:
  "boundary_scan lines ws = Some r \<Longrightarrow> \<exists>a b c. (a, b, c) \<in> set ws \<and> r = Split b"
proof (induction ws)
  case (Cons w ws)
  obtain a b c where w: "w = (a, b, c)" by (cases w)
  have "boundary_scan lines ws = Some r \<or> r = Split b"
    using Cons.prems by (auto simp: w Let_def split: if_splits)
  then show ?case using Cons.IH w by auto
qed simp

lemma codex_boundary_progressive: "progressive (codex_stderr_record_boundary record_start)"
  unfolding progressive_def
proof (intro allI impI)
  fix ls k assume b: "codex_stderr_record_boundary record_start ls = Some (Split k)"
  let ?s = "timestamp_starts record_start ls"
  consider n where "completed_refresh_record_line_count ls = Some n" "n < length ls" "k = n"
    | "?s \<noteq> []" "boundary_scan ls (windows3 (0 # ?s @ [length ls])) = Some (Split k)"
    using b unfolding codex_stderr_record_boundary_def Let_def is_some_and_iff
    by (auto split: if_splits list.splits)
  then show "0 < k \<and> ls \<noteq> []"
  proof cases
    case 1
    then show ?thesis using completed_scan_range [of "[]" 0 ls n]
      by (auto simp: completed_refresh_record_line_count_def)
  next
    case 2
    then have "k \<in> set ?s" using boundary_scan_split windows3_mid by fastforce
    then show ?thesis by (auto simp: timestamp_starts_def)
  qed
qed

text \<open>
  C27: the error stream of the Codex agent is always worked off. Whatever chunks arrive, at whatever
  times, the processor returns for each of them: the loop over the record boundaries ends, because a
  boundary always lies behind at least one line, and so does the loop over the size threshold.
\<close>

theorem codex_stderr_terminates:
  "process_all (codex_stderr_format record_start strip_ansi) items p \<noteq> None"
  by (rule process_all_terminates)
    (simp add: boundary_progressive_def codex_stderr_format_def build_format_def codex_boundary_progressive)

section \<open>What is shown of a sign-in failure\<close>

definition canned_reasons :: "string list" where
  "canned_reasons = [REVOKED, ALREADY_USED, NO_LOCAL_TOKEN, NOT_RENEWED]"

lemma reason_canned: "stderr_refresh_failure_reason content = Some r \<Longrightarrow> r \<in> set canned_reasons"
  by (auto simp: stderr_refresh_failure_reason_def canned_reasons_def Let_def split: if_splits)

lemma reason_has_guidance:
  "r \<in> set canned_reasons \<Longrightarrow>
   refresh_failure_setup_message r = Some (''Codex could not renew its sign-in: '' @ r @ GUIDANCE)"
proof -
  have "map ascii_lower ''Failed to refresh token'' = ''failed to refresh token''" by code_simp
  then have "to_ascii_lowercase (''Failed to refresh token'' @ s)
      = [] @ ''failed to refresh token'' @ map ascii_lower s" for s
    by (simp only: to_ascii_lowercase_def map_append append_Nil)
  then have "str_contains (to_ascii_lowercase (''Failed to refresh token'' @ s)) ''failed to refresh token''" for s
    unfolding str_contains_iff by blast
  moreover assume "r \<in> set canned_reasons"
  then have "\<exists>s. r = ''Failed to refresh token'' @ s"
    by (auto simp: canned_reasons_def REVOKED_def ALREADY_USED_def NO_LOCAL_TOKEN_def NOT_RENEWED_def)
  ultimately show ?thesis by (auto simp: refresh_failure_setup_message_def Let_def)
qed

definition guidance_for :: "string \<Rightarrow> string" where
  "guidance_for r = ''Codex could not renew its sign-in: '' @ r @ GUIDANCE"

lemma completed_scan_reason:
  "completed_scan seen i ls = Some n \<Longrightarrow>
   stderr_refresh_failure_reason (seen @ concat (take (n - i) ls)) \<noteq> None"
proof (induction seen i ls rule: completed_scan.induct)
  case (2 seen i line rest)
  show ?case
  proof (cases "ends_with_newline line \<and> braces_closed (seen @ line)")
    case True
    then show ?thesis using 2(2) by (auto split: if_splits)
  next
    case False
    then have r: "completed_scan (seen @ line) (i + 1) rest = Some n" using 2(2) by (auto simp: Let_def split: if_splits)
    then have "Suc i < n" using completed_scan_range by fastforce
    then have "n - i = Suc (n - (i + 1))" by simp
    then show ?thesis using 2(1) [OF refl _ r] False by simp
  qed
qed simp

lemma str_contains_append: "str_contains a pat \<Longrightarrow> str_contains (a @ b) pat"
  by (auto simp: str_contains_iff) (metis append.assoc)

lemma lowercase_append: "to_ascii_lowercase (a @ b) = to_ascii_lowercase a @ to_ascii_lowercase b"
  by (simp add: to_ascii_lowercase_def)

lemma reason_of_first_line:
  assumes "lines \<noteq> []" "str_contains (to_ascii_lowercase (hd lines)) ''failed to refresh token''"
  shows "stderr_refresh_failure_reason (concat lines) \<noteq> None"
proof -
  have "concat lines = hd lines @ concat (tl lines)" using assms(1) by (cases lines) auto
  then have "str_contains (to_ascii_lowercase (concat lines)) ''failed to refresh token''"
    using assms(2) by (simp add: lowercase_append str_contains_append)
  then show ?thesis by (simp add: stderr_refresh_failure_reason_def Let_def)
qed

text \<open>A content whose first record is a sign-in failure, complete or still coming in.\<close>

definition begins_with_failure :: "(string \<Rightarrow> bool) \<Rightarrow> string list \<Rightarrow> bool" where
  "begins_with_failure record_start lines \<longleftrightarrow>
     completed_refresh_record_line_count lines \<noteq> None
     \<or> (lines \<noteq> [] \<and> record_start (hd lines)
        \<and> str_contains (to_ascii_lowercase (hd lines)) ''failed to refresh token'')"

definition after_record :: "string list \<Rightarrow> string" where
  "after_record lines = (case completed_refresh_record_line_count lines of
     Some e \<Rightarrow> concat (drop e lines) | None \<Rightarrow> [])"

text \<open>
  The entry shown for a failed renewal of the sign-in shows nothing of the record itself, which may
  carry credentials: it is one of four fixed reasons with the recovery steps, followed at most by
  the text after the completed record, and by that only where it is no such failure itself. So two
  records with the same reason, whatever else they contain, are shown alike.
\<close>

theorem refresh_failure_hides_record:
  assumes "lines = split_lines (strip_ansi raw)" "begins_with_failure record_start lines"
  shows "\<exists>r \<in> set canned_reasons. normalize_codex_stderr_entry record_start strip_ansi raw
    = \<lparr> se_error_type = SetupRequired,
        se_content = guidance_for r
          @ (if after_record lines \<noteq> [] \<and> stderr_refresh_failure_reason (after_record lines) = None
             then ADDITIONAL @ after_record lines else []) \<rparr>"
proof -
  have content: "strip_ansi raw = concat lines" by (simp add: assms(1))
  then have again: "split_lines (concat lines) = lines" using assms(1) by simp
  show ?thesis
  proof (cases "completed_refresh_record_line_count lines")
    case (Some e)
    then have "stderr_refresh_failure_reason (concat (take e lines)) \<noteq> None"
      using completed_scan_reason [of "[]" 0 lines e] by (simp add: completed_refresh_record_line_count_def)
    then obtain r where r: "stderr_refresh_failure_reason (concat (take e lines)) = Some r" by blast
    then show ?thesis using Some reason_canned [OF r]
      by (intro bexI [of _ r])
        (simp_all add: normalize_codex_stderr_entry_def Let_def assms(1) [symmetric] reason_has_guidance
          guidance_for_def after_record_def)
  next
    case None
    then have first: "lines \<noteq> []" "record_start (hd lines)"
      "str_contains (to_ascii_lowercase (hd lines)) ''failed to refresh token''"
      using assms(2) by (simp_all add: begins_with_failure_def)
    then obtain r where r: "stderr_refresh_failure_reason (concat lines) = Some r"
      using reason_of_first_line by blast
    then show ?thesis using None reason_canned [OF r] first
      by (intro bexI [of _ r])
        (simp_all add: normalize_codex_stderr_entry_def Let_def content again reason_has_guidance
          guidance_for_def after_record_def)
  qed
qed

definition demo_failure :: string where
  "demo_failure = ''ERROR Failed to refresh token: {secret: 1}'' @ [NL]"

theorem refresh_failure_hides_record_witness:
  "\<exists>r \<in> set canned_reasons. se_content (normalize_codex_stderr_entry (\<lambda>_. True) id demo_failure) = guidance_for r"
proof -
  have nl: "split_lines demo_failure = [demo_failure]" by code_simp
  have "str_contains (to_ascii_lowercase demo_failure) ''failed to refresh token''" by code_simp
  then have "begins_with_failure (\<lambda>_. True) [demo_failure]" by (simp add: begins_with_failure_def)
  moreover have "after_record [demo_failure] = []"
    using completed_scan_range [of "[]" 0 "[demo_failure]"]
    by (auto simp: after_record_def completed_refresh_record_line_count_def split: option.split)
  ultimately show ?thesis
    using refresh_failure_hides_record [of "[demo_failure]" id demo_failure "\<lambda>_. True"] nl by auto
qed

end
