(* ===== verification/Executor_Profiles.thy ===== *)
theory Executor_Profiles
  imports Msg_Store
begin

text \<open>
  The profiles of the coding agents (\<open>executors/src/profile.rs\<close>): the shipped profiles, the user's
  overrides in \<open>profiles.json\<close>, their merging, what is saved, validation, the look-up of a
  configuration, and the agent recommended to a new user.

  A \<open>HashMap\<close> is an association list with distinct keys in the map's iteration order; two maps are
  equal when they have the same members (\<open>configs_eq\<close>). The settings of an agent are kept as JSON.
  Parameters: the case conversion (\<open>convert_case\<close>), reading and writing JSON (\<open>serde_json\<close>), the
  shipped profiles (an embedded file), and the probe of an agent's installation and login.
\<close>

section \<open>Types\<close>

datatype BaseCodingAgent =
    BaseClaudeCode | BaseAmp | BaseGemini | BaseCodex | BaseOpencode | BaseCursorAgent
  | BaseQwenCode | BaseCopilot | BaseDroid | BaseGrok

datatype CodingAgent =
    ClaudeCode json | Amp json | Gemini json | Codex json | Opencode json | CursorAgent json
  | QwenCode json | Copilot json | Droid json | Grok json

definition base_agent :: "CodingAgent \<Rightarrow> BaseCodingAgent" where
  "base_agent c = (case c of
     ClaudeCode _ \<Rightarrow> BaseClaudeCode | Amp _ \<Rightarrow> BaseAmp | Gemini _ \<Rightarrow> BaseGemini | Codex _ \<Rightarrow> BaseCodex
   | Opencode _ \<Rightarrow> BaseOpencode | CursorAgent _ \<Rightarrow> BaseCursorAgent | QwenCode _ \<Rightarrow> BaseQwenCode
   | Copilot _ \<Rightarrow> BaseCopilot | Droid _ \<Rightarrow> BaseDroid | Grok _ \<Rightarrow> BaseGrok)"

record recent_models =
  rm_models :: "string list"
  rm_reasoning_by_model :: "string \<rightharpoonup> string"

record executor_profile =
  ep_recently_used_models :: "recent_models option"
  ep_disabled_models :: "string list"
  ep_disabled :: bool
  ep_configurations :: "(string \<times> CodingAgent) list"

type_synonym executor_configs = "(BaseCodingAgent \<times> executor_profile) list"

record profile_id =
  pi_executor :: BaseCodingAgent
  pi_variant :: "string option"

datatype ValidationIssue =
    MissingDefault BaseCodingAgent
  | AgentMismatch BaseCodingAgent CodingAgent
  | ReservedName string

datatype ProfileError =
    CannotDeleteExecutor BaseCodingAgent
  | CannotDeleteBuiltInConfig BaseCodingAgent string
  | Validation ValidationIssue
  | NoAvailableExecutorProfile

section \<open>Variant keys\<close>

definition DEFAULT :: string where
  "DEFAULT = ''DEFAULT''"

definition eq_ignore_ascii_case :: "string \<Rightarrow> string \<Rightarrow> bool" where
  "eq_ignore_ascii_case a b \<longleftrightarrow> to_ascii_lowercase a = to_ascii_lowercase b"

definition canonical_variant_key :: "(string \<Rightarrow> string) \<Rightarrow> string \<Rightarrow> string" where
  "canonical_variant_key screaming_snake key =
     (if eq_ignore_ascii_case key DEFAULT then DEFAULT else screaming_snake key)"

definition get_variant :: "executor_profile \<Rightarrow> string \<Rightarrow> CodingAgent option" where
  "get_variant p variant = map_of (ep_configurations p) variant"

definition set_variant ::
  "(string \<Rightarrow> string) \<Rightarrow> string \<Rightarrow> CodingAgent \<Rightarrow> executor_profile \<Rightarrow> executor_profile option" where
  "set_variant screaming_snake variant config p =
     (let key = canonical_variant_key screaming_snake variant
      in if key = DEFAULT then None
         else Some (p\<lparr> ep_configurations := AList.update key config (ep_configurations p) \<rparr>))"

definition set_default :: "CodingAgent \<Rightarrow> executor_profile \<Rightarrow> executor_profile" where
  "set_default config p = p\<lparr> ep_configurations := AList.update DEFAULT config (ep_configurations p) \<rparr>"

definition rename_variant ::
  "string \<times> string \<Rightarrow> (string \<times> CodingAgent) list \<Rightarrow> (string \<times> CodingAgent) list" where
  "rename_variant r cs = (case r of (old, new) \<Rightarrow> (case map_of cs old of
     None \<Rightarrow> cs
   | Some cfg \<Rightarrow> (let cs' = AList.delete old cs
       in if map_of cs' new = None then AList.update new cfg cs' else cs')))"

definition canonicalise_profile ::
  "(string \<Rightarrow> string) \<Rightarrow> executor_profile \<Rightarrow> executor_profile" where
  "canonicalise_profile screaming_snake p =
     (let keys = map fst (ep_configurations p);
          replacements = List.map_filter
            (\<lambda>k. let c = canonical_variant_key screaming_snake k in if c \<noteq> k then Some (k, c) else None) keys
      in p\<lparr> ep_configurations := fold rename_variant replacements (ep_configurations p) \<rparr>)"

definition canonicalise :: "(string \<Rightarrow> string) \<Rightarrow> executor_configs \<Rightarrow> executor_configs" where
  "canonicalise screaming_snake cs = map (\<lambda>(k, p). (k, canonicalise_profile screaming_snake p)) cs"

section \<open>Merging and overrides\<close>

definition merge_profile :: "executor_profile \<Rightarrow> executor_profile \<Rightarrow> executor_profile" where
  "merge_profile d override = d\<lparr>
     ep_configurations := fold (\<lambda>(n, c) cs. AList.update n c cs) (ep_configurations override)
       (ep_configurations d),
     ep_recently_used_models := (if ep_recently_used_models override \<noteq> None
       then ep_recently_used_models override else ep_recently_used_models d),
     ep_disabled_models := (if ep_disabled_models override \<noteq> []
       then ep_disabled_models override else ep_disabled_models d),
     ep_disabled := (if ep_disabled override then True else ep_disabled d) \<rparr>"

definition merge_with_defaults :: "executor_configs \<Rightarrow> executor_configs \<Rightarrow> executor_configs" where
  "merge_with_defaults defaults overrides = fold (\<lambda>(k, override) ds. case map_of ds k of
       Some d \<Rightarrow> AList.update k (merge_profile d override) ds
     | None \<Rightarrow> AList.update k override ds) overrides defaults"

text \<open>The scan for illegal deletions: the first one met ends it.\<close>

fun scan_configurations ::
  "BaseCodingAgent \<Rightarrow> (string \<times> CodingAgent) list \<Rightarrow> executor_profile \<Rightarrow> ProfileError option" where
  "scan_configurations k [] p = None"
| "scan_configurations k ((n, c) # cs) p =
     (if map_of (ep_configurations p) n = None then Some (CannotDeleteBuiltInConfig k n)
      else scan_configurations k cs p)"

fun scan_deletions :: "executor_configs \<Rightarrow> executor_configs \<Rightarrow> ProfileError option" where
  "scan_deletions [] current = None"
| "scan_deletions ((k, d) # ds) current = (case map_of current k of
     None \<Rightarrow> Some (CannotDeleteExecutor k)
   | Some p \<Rightarrow> (case scan_configurations k (ep_configurations d) p of
       Some e \<Rightarrow> Some e | None \<Rightarrow> scan_deletions ds current))"

definition override_profile :: "executor_profile \<Rightarrow> executor_profile \<Rightarrow> executor_profile" where
  "override_profile d p = \<lparr>
     ep_recently_used_models = (if ep_recently_used_models p \<noteq> ep_recently_used_models d
       then (case ep_recently_used_models p of Some r \<Rightarrow> Some r
         | None \<Rightarrow> Some \<lparr> rm_models = [], rm_reasoning_by_model = Map.empty \<rparr>)
       else None),
     ep_disabled_models = (if ep_disabled_models p \<noteq> ep_disabled_models d then ep_disabled_models p else []),
     ep_disabled = (if ep_disabled p \<noteq> ep_disabled d then ep_disabled p else False),
     ep_configurations = filter (\<lambda>(n, c). case map_of (ep_configurations d) n of
         Some dc \<Rightarrow> c \<noteq> dc | None \<Rightarrow> True) (ep_configurations p) \<rparr>"

definition override_needed :: "executor_profile \<Rightarrow> bool" where
  "override_needed o_p \<longleftrightarrow> ep_configurations o_p \<noteq> [] \<or> ep_recently_used_models o_p \<noteq> None
     \<or> ep_disabled_models o_p \<noteq> [] \<or> ep_disabled o_p"

definition compute_overrides ::
  "executor_configs \<Rightarrow> executor_configs \<Rightarrow> ProfileError + executor_configs" where
  "compute_overrides defaults current = (case scan_deletions defaults current of
     Some e \<Rightarrow> Inl e
   | None \<Rightarrow> Inr (List.map_filter (\<lambda>(k, p). case map_of defaults k of
         Some d \<Rightarrow> (let o_p = override_profile d p in if override_needed o_p then Some (k, o_p) else None)
       | None \<Rightarrow> Some (k, p)) current))"

definition validate_profile :: "BaseCodingAgent \<Rightarrow> executor_profile \<Rightarrow> ProfileError + unit" where
  "validate_profile k p = (case map_of (ep_configurations p) DEFAULT of
     None \<Rightarrow> Inl (Validation (MissingDefault k))
   | Some c \<Rightarrow> if base_agent c \<noteq> k then Inl (Validation (AgentMismatch k c))
       else (case filter (\<lambda>n. strip_prefix ''__'' n \<noteq> None) (map fst (ep_configurations p)) of
           n # _ \<Rightarrow> Inl (Validation (ReservedName n))
         | [] \<Rightarrow> Inr ()))"

fun validate_merged :: "executor_configs \<Rightarrow> ProfileError + unit" where
  "validate_merged [] = Inr ()"
| "validate_merged ((k, p) # ps) = try_bind (validate_profile k p) (\<lambda>_. validate_merged ps)"

text \<open>\<open>save_overrides\<close>: what is written to the file.\<close>

definition save_overrides ::
  "(string \<Rightarrow> string) \<Rightarrow> executor_configs \<Rightarrow> (executor_configs \<Rightarrow> string) \<Rightarrow> executor_configs
    \<Rightarrow> ProfileError + string" where
  "save_overrides screaming_snake shipped to_json current =
     (let defaults = canonicalise screaming_snake shipped
      in try_bind (compute_overrides defaults (canonicalise screaming_snake current))
           (\<lambda>overrides. try_bind (validate_merged (merge_with_defaults defaults overrides))
              (\<lambda>_. Inr (to_json overrides))))"

text \<open>\<open>load\<close>: \<open>content\<close> is what the file holds, if it can be read.\<close>

definition load_profiles ::
  "(string \<Rightarrow> string) \<Rightarrow> executor_configs \<Rightarrow> (string \<Rightarrow> executor_configs option) \<Rightarrow> string option
    \<Rightarrow> executor_configs" where
  "load_profiles screaming_snake shipped from_json content =
     (let defaults = canonicalise screaming_snake shipped
      in case content of
          None \<Rightarrow> defaults
        | Some s \<Rightarrow> (case from_json s of
            Some overrides \<Rightarrow> merge_with_defaults defaults (canonicalise screaming_snake overrides)
          | None \<Rightarrow> defaults))"

section \<open>Look-up and recommendation\<close>

definition get_coding_agent :: "executor_configs \<Rightarrow> profile_id \<Rightarrow> CodingAgent option" where
  "get_coding_agent cs i = Option.bind (map_of cs (pi_executor i))
     (\<lambda>p. get_variant p (case pi_variant i of Some v \<Rightarrow> v | None \<Rightarrow> DEFAULT))"

text \<open>\<open>None\<close> is the panic of \<open>expect("No default variant found")\<close>.\<close>

definition get_coding_agent_or_default :: "executor_configs \<Rightarrow> profile_id \<Rightarrow> CodingAgent option" where
  "get_coding_agent_or_default cs i = (case get_coding_agent cs i of
     Some c \<Rightarrow> Some c
   | None \<Rightarrow> get_coding_agent cs (i\<lparr> pi_variant := Some DEFAULT \<rparr>))"

datatype AvailabilityInfo = LoginDetected int | InstallationFound | NotFound

definition is_available :: "AvailabilityInfo \<Rightarrow> bool" where
  "is_available a \<longleftrightarrow> (case a of LoginDetected _ \<Rightarrow> True | InstallationFound \<Rightarrow> True | NotFound \<Rightarrow> False)"

datatype Ordering = OLess | OEqual | OGreater

definition availability_cmp :: "AvailabilityInfo \<Rightarrow> AvailabilityInfo \<Rightarrow> Ordering" where
  "availability_cmp a b = (case (a, b) of
     (LoginDetected ta, LoginDetected tb) \<Rightarrow>
       (if tb < ta then OLess else if tb = ta then OEqual else OGreater)
   | (LoginDetected _, InstallationFound) \<Rightarrow> OLess
   | (InstallationFound, LoginDetected _) \<Rightarrow> OGreater
   | (LoginDetected _, NotFound) \<Rightarrow> OLess
   | (NotFound, LoginDetected _) \<Rightarrow> OGreater
   | (InstallationFound, NotFound) \<Rightarrow> OLess
   | (NotFound, InstallationFound) \<Rightarrow> OGreater
   | _ \<Rightarrow> OEqual)"

text \<open>\<open>sort_by\<close> is a stable sort.\<close>

fun insert_by :: "('a \<Rightarrow> 'a \<Rightarrow> Ordering) \<Rightarrow> 'a \<Rightarrow> 'a list \<Rightarrow> 'a list" where
  "insert_by cmp x [] = [x]"
| "insert_by cmp x (y # ys) = (if cmp x y = OGreater then y # insert_by cmp x ys else x # y # ys)"

definition sort_by :: "('a \<Rightarrow> 'a \<Rightarrow> Ordering) \<Rightarrow> 'a list \<Rightarrow> 'a list" where
  "sort_by cmp xs = foldr (insert_by cmp) xs []"

definition recommendation_candidates :: "executor_configs \<Rightarrow> BaseCodingAgent list" where
  "recommendation_candidates cs = map fst (filter (\<lambda>(k, p). \<not> ep_disabled p) cs)"

definition agents_with_info ::
  "(CodingAgent \<Rightarrow> AvailabilityInfo) \<Rightarrow> executor_configs \<Rightarrow> (BaseCodingAgent \<times> AvailabilityInfo) list" where
  "agents_with_info probe cs = List.map_filter (\<lambda>k.
     case get_coding_agent cs \<lparr> pi_executor = k, pi_variant = None \<rparr> of
       None \<Rightarrow> None
     | Some agent \<Rightarrow> if is_available (probe agent) then Some (k, probe agent) else None)
     (recommendation_candidates cs)"

definition get_recommended_executor_profile ::
  "(CodingAgent \<Rightarrow> AvailabilityInfo) \<Rightarrow> executor_configs \<Rightarrow> ProfileError + profile_id" where
  "get_recommended_executor_profile probe cs =
     (case sort_by (\<lambda>a b. availability_cmp (snd a) (snd b)) (agents_with_info probe cs) of
        [] \<Rightarrow> Inl NoAvailableExecutorProfile
      | (k, _) # _ \<Rightarrow> Inr \<lparr> pi_executor = k, pi_variant = None \<rparr>)"

section \<open>Maps\<close>

text \<open>A well-formed map has one entry per key.\<close>

definition map_ok :: "('k \<times> 'v) list \<Rightarrow> bool" where
  "map_ok xs \<longleftrightarrow> distinct (map fst xs)"

definition configs_ok :: "executor_configs \<Rightarrow> bool" where
  "configs_ok cs \<longleftrightarrow> map_ok cs \<and> (\<forall>p \<in> snd ` set cs. map_ok (ep_configurations p))"

definition profile_eq :: "executor_profile \<Rightarrow> executor_profile \<Rightarrow> bool" where
  "profile_eq p q \<longleftrightarrow> ep_recently_used_models p = ep_recently_used_models q
     \<and> ep_disabled_models p = ep_disabled_models q \<and> ep_disabled p = ep_disabled q
     \<and> map_of (ep_configurations p) = map_of (ep_configurations q)"

definition configs_eq :: "executor_configs \<Rightarrow> executor_configs \<Rightarrow> bool" where
  "configs_eq a b \<longleftrightarrow> (\<forall>k. rel_option profile_eq (map_of a k) (map_of b k))"

lemma profile_eq_refl [simp]: "profile_eq p p"
  by (simp add: profile_eq_def)

lemma map_ok_simps [simp]:
  "map_ok []" "map_ok ((k, v) # xs) \<longleftrightarrow> k \<notin> fst ` set xs \<and> map_ok xs"
  by (auto simp: map_ok_def)

lemma map_of_filter_ok:
  "map_ok xs \<Longrightarrow> map_of (filter (\<lambda>(k, v). P k v) xs) k
     = (case map_of xs k of Some v \<Rightarrow> if P k v then Some v else None | None \<Rightarrow> None)"
proof (induction xs)
  case (Cons x xs)
  obtain j v where x: "x = (j, v)" by (cases x)
  then have "map_of xs j = None" using Cons.prems by (simp add: map_of_eq_None_iff)
  then show ?case using Cons by (auto simp: x split: option.split)
qed simp

lemma map_filter_Cons:
  "List.map_filter f (x # xs) = (case f x of None \<Rightarrow> List.map_filter f xs | Some y \<Rightarrow> y # List.map_filter f xs)"
  by (simp add: List.map_filter_def split: option.split)

lemma map_filter_set: "y \<in> set (List.map_filter f xs) \<longleftrightarrow> (\<exists>x \<in> set xs. f x = Some y)"
  by (induction xs) (auto simp: map_filter_Cons List.map_filter_def split: option.split)

lemma map_of_map_filter_ok:
  assumes "map_ok xs"
  shows "map_of (List.map_filter (\<lambda>(k, v). map_option (Pair k) (f k v)) xs) k
    = Option.bind (map_of xs k) (f k)"
  using assms
proof (induction xs)
  case Nil
  show ?case by (simp add: List.map_filter_def)
next
  case (Cons x xs)
  obtain j v where x: "x = (j, v)" by (cases x)
  then have "map_of xs j = None" using Cons.prems by (simp add: map_of_eq_None_iff)
  then show ?case using Cons by (auto simp: x map_filter_Cons split: option.split)
qed

lemma map_ok_map_filter:
  "map_ok xs \<Longrightarrow> map_ok (List.map_filter (\<lambda>(k, v). map_option (Pair k) (f k v)) xs)"
proof (induction xs)
  case (Cons x xs)
  obtain j v where x: "x = (j, v)" by (cases x)
  have "fst ` set (List.map_filter (\<lambda>(k, v). map_option (Pair k) (f k v)) xs) \<subseteq> fst ` set xs"
    by (auto simp: List.map_filter_def) force
  then show ?case using Cons by (auto simp: x map_filter_Cons split: option.split)
qed (simp add: List.map_filter_def)

lemma fold_update_map:
  "map_ok ys \<Longrightarrow> map_of (fold (\<lambda>(n, c) cs. AList.update n c cs) ys xs) = map_of xs ++ map_of ys"
proof (induction ys arbitrary: xs)
  case (Cons y ys)
  then have "map_of ys (fst y) = None" by (cases y) (simp add: map_of_eq_None_iff)
  then show ?case using Cons
    by (cases y) (auto simp: update_conv' map_add_def fun_eq_iff split: option.splits)
qed simp

lemma merge_profile_map:
  "map_ok (ep_configurations override) \<Longrightarrow>
   map_of (ep_configurations (merge_profile d override))
     = map_of (ep_configurations d) ++ map_of (ep_configurations override)"
  by (simp add: merge_profile_def fold_update_map)

lemma merge_map:
  "map_ok overrides \<Longrightarrow> map_of (merge_with_defaults defaults overrides) k
    = (case map_of overrides k of
        None \<Rightarrow> map_of defaults k
      | Some override \<Rightarrow> Some (case map_of defaults k of
          None \<Rightarrow> override | Some d \<Rightarrow> merge_profile d override))"
proof (induction overrides arbitrary: defaults)
  case Nil
  show ?case by (simp add: merge_with_defaults_def)
next
  case (Cons x overrides)
  obtain j p where x: "x = (j, p)" by (cases x)
  have none: "map_of overrides j = None" using Cons.prems by (simp add: x map_of_eq_None_iff)
  let ?ds = "case map_of defaults j of Some d \<Rightarrow> AList.update j (merge_profile d p) defaults
    | None \<Rightarrow> AList.update j p defaults"
  have "merge_with_defaults defaults (x # overrides) = merge_with_defaults ?ds overrides"
    by (simp add: merge_with_defaults_def x)
  moreover have "map_ok overrides" using Cons.prems by (simp add: x)
  ultimately show ?case using Cons.IH [of ?ds] none
    by (auto simp: x update_conv' split: option.splits)
qed

section \<open>What saving and loading keep\<close>

text \<open>Whether a current set of profiles lacks a built-in agent or a built-in configuration.\<close>

definition lacks_configuration :: "(string \<times> CodingAgent) list \<Rightarrow> executor_profile \<Rightarrow> bool" where
  "lacks_configuration cs p \<longleftrightarrow> (\<exists>(n, c) \<in> set cs. map_of (ep_configurations p) n = None)"

definition deletes_built_in :: "executor_configs \<Rightarrow> executor_configs \<Rightarrow> bool" where
  "deletes_built_in defaults current \<longleftrightarrow> (\<exists>(k, d) \<in> set defaults. case map_of current k of
     None \<Rightarrow> True | Some p \<Rightarrow> lacks_configuration (ep_configurations d) p)"

lemma lacks_configuration_simps [simp]:
  "\<not> lacks_configuration [] p"
  "lacks_configuration ((n, c) # cs) p \<longleftrightarrow> map_of (ep_configurations p) n = None \<or> lacks_configuration cs p"
  by (simp_all add: lacks_configuration_def)

lemma deletes_built_in_simps [simp]:
  "\<not> deletes_built_in [] current"
  "deletes_built_in ((k, d) # ds) current \<longleftrightarrow> (case map_of current k of
     None \<Rightarrow> True | Some p \<Rightarrow> lacks_configuration (ep_configurations d) p) \<or> deletes_built_in ds current"
  by (simp_all add: deletes_built_in_def)

lemma scan_configurations_None: "scan_configurations k cs p = None \<longleftrightarrow> \<not> lacks_configuration cs p"
  by (induction k cs p rule: scan_configurations.induct) auto

lemma scan_deletions_None: "scan_deletions ds current = None \<longleftrightarrow> \<not> deletes_built_in ds current"
proof (induction ds)
  case (Cons x ds)
  obtain k d where x: "x = (k, d)" by (cases x)
  show ?case
  proof (cases "map_of current k")
    case (Some p)
    then show ?thesis using Cons scan_configurations_None [of k "ep_configurations d" p]
      by (cases "scan_configurations k (ep_configurations d) p") (simp_all add: x)
  qed (simp add: x)
qed simp


text \<open>The shipped profiles hide nothing and remember no models.\<close>

definition plain_defaults :: "executor_configs \<Rightarrow> bool" where
  "plain_defaults ds \<longleftrightarrow> (\<forall>d \<in> snd ` set ds. ep_recently_used_models d = None
     \<and> ep_disabled_models d = [] \<and> \<not> ep_disabled d)"

lemma override_configurations_map:
  assumes "map_ok (ep_configurations p)" "\<not> lacks_configuration (ep_configurations d) p"
  shows "map_of (ep_configurations d) ++ map_of (ep_configurations (override_profile d p))
    = map_of (ep_configurations p)"
proof
  fix n
  have "map_of (ep_configurations d) n \<noteq> None \<Longrightarrow> map_of (ep_configurations p) n \<noteq> None"
    using assms(2) map_of_SomeD by (fastforce simp: lacks_configuration_def)
  then show "(map_of (ep_configurations d) ++ map_of (ep_configurations (override_profile d p))) n
      = map_of (ep_configurations p) n"
    by (cases "map_of (ep_configurations p) n"; cases "map_of (ep_configurations d) n")
      (simp_all add: override_profile_def map_add_def map_of_filter_ok [OF assms(1)])
qed

lemma merge_override_profile:
  assumes p: "map_ok (ep_configurations p)" "\<not> lacks_configuration (ep_configurations d) p"
    and d: "ep_recently_used_models d = None" "ep_disabled_models d = []" "\<not> ep_disabled d"
  shows "profile_eq (merge_profile d (override_profile d p)) p"
proof -
  have "map_ok (ep_configurations (override_profile d p))"
    using p(1) by (auto simp: override_profile_def map_ok_def intro: distinct_map_filter)
  then have "map_of (ep_configurations (merge_profile d (override_profile d p))) = map_of (ep_configurations p)"
    by (simp only: merge_profile_map override_configurations_map [OF p])
  then show ?thesis using d
    by (auto simp: profile_eq_def merge_profile_def override_profile_def split: option.splits)
qed

lemma no_override_profile:
  assumes p: "map_ok (ep_configurations p)" "\<not> lacks_configuration (ep_configurations d) p"
    and d: "ep_recently_used_models d = None" "ep_disabled_models d = []" "\<not> ep_disabled d"
    and no: "\<not> override_needed (override_profile d p)"
  shows "profile_eq d p"
proof -
  have "map_of (ep_configurations d) = map_of (ep_configurations p)"
    using override_configurations_map [OF p] no by (simp add: override_needed_def)
  then show ?thesis using d no
    by (auto simp: profile_eq_def override_needed_def override_profile_def split: if_splits option.splits)
qed

lemma overrides_merge_back:
  assumes "compute_overrides defaults current = Inr overrides"
    and ok: "configs_ok defaults" "configs_ok current" "plain_defaults defaults"
  shows "configs_eq (merge_with_defaults defaults overrides) current"
  unfolding configs_eq_def
proof
  fix k
  define f where "f k p = (case map_of defaults k of
      Some d \<Rightarrow> if override_needed (override_profile d p) then Some (override_profile d p) else None
    | None \<Rightarrow> Some p)" for k p
  have kept: "\<not> deletes_built_in defaults current"
    and o: "overrides = List.map_filter (\<lambda>(k, p). map_option (Pair k) (f k p)) current"
    using assms(1) scan_deletions_None [of defaults current]
    by (auto simp: compute_overrides_def f_def Let_def intro!: arg_cong2 [of _ _ _ _ List.map_filter]
        split: option.splits)
  have cok: "map_ok current" using ok(2) by (simp add: configs_ok_def)
  have m: "map_of overrides k = Option.bind (map_of current k) (f k)" "map_ok overrides"
    unfolding o by (rule map_of_map_filter_ok [OF cok], rule map_ok_map_filter [OF cok])
  show "rel_option profile_eq (map_of (merge_with_defaults defaults overrides) k) (map_of current k)"
  proof (cases "map_of defaults k")
    case None
    then show ?thesis by (cases "map_of current k") (simp_all add: merge_map [OF m(2)] m(1) f_def)
  next
    case (Some d)
    then have d: "(k, d) \<in> set defaults" by (rule map_of_SomeD)
    then obtain p where p: "map_of current k = Some p" "\<not> lacks_configuration (ep_configurations d) p"
      using kept by (fastforce simp: deletes_built_in_def split: option.splits)
    have plain: "ep_recently_used_models d = None" "ep_disabled_models d = []" "\<not> ep_disabled d"
      using ok(3) d by (force simp: plain_defaults_def)+
    have pok: "map_ok (ep_configurations p)"
      using ok(2) map_of_SomeD [OF p(1)] by (force simp: configs_ok_def)
    show ?thesis
      using Some p(1) merge_override_profile [OF pok p(2) plain] no_override_profile [OF pok p(2) plain]
      by (simp add: merge_map [OF m(2)] m(1) f_def)
  qed
qed

section \<open>Canonical keys\<close>

definition canonical_keys :: "(string \<Rightarrow> string) \<Rightarrow> (string \<times> CodingAgent) list \<Rightarrow> bool" where
  "canonical_keys ss cs \<longleftrightarrow> (\<forall>k \<in> fst ` set cs. canonical_variant_key ss k = k)"

definition key_idempotent :: "(string \<Rightarrow> string) \<Rightarrow> bool" where
  "key_idempotent ss \<longleftrightarrow> (\<forall>k. canonical_variant_key ss (canonical_variant_key ss k) = canonical_variant_key ss k)"

lemma rename_variant_ok: "map_ok cs \<Longrightarrow> map_ok (rename_variant r cs)"
  by (auto simp: rename_variant_def map_ok_def Let_def distinct_update distinct_delete
      split: prod.split option.split)

lemma rename_variant_keys:
  "fst ` set (rename_variant (old, new) cs) \<subseteq> insert new (fst ` set cs - {old})"
proof (cases "map_of cs old")
  case None
  then have "rename_variant (old, new) cs = cs" by (simp add: rename_variant_def)
  moreover have "old \<notin> fst ` set cs" using None by (simp add: map_of_eq_None_iff)
  ultimately show ?thesis by auto
next
  case (Some c)
  have "dom (map_of (rename_variant (old, new) cs)) \<subseteq> insert new (dom (map_of cs) - {old})"
    using Some by (auto simp: rename_variant_def Let_def delete_conv' update_conv' split: if_splits)
  then show ?thesis by (simp add: dom_map_of_conv_image_fst)
qed

lemma fold_rename:
  assumes "\<forall>(old, new) \<in> set rs. canonical_variant_key ss new = new"
    and "\<forall>k \<in> fst ` set cs. canonical_variant_key ss k = k \<or> k \<in> fst ` set rs"
  shows "canonical_keys ss (fold rename_variant rs cs)"
  using assms
proof (induction rs arbitrary: cs)
  case Nil
  then show ?case by (simp add: canonical_keys_def)
next
  case (Cons r rs)
  obtain old new where r: "r = (old, new)" by (cases r)
  have "\<forall>k \<in> fst ` set (rename_variant r cs). canonical_variant_key ss k = k \<or> k \<in> fst ` set rs"
    using rename_variant_keys [of old new cs] Cons.prems by (auto simp: r) force
  then show ?case using Cons by simp
qed

lemma canonicalise_profile_keys:
  assumes "key_idempotent ss"
  shows "canonical_keys ss (ep_configurations (canonicalise_profile ss p))"
proof -
  have "canonical_keys ss (fold rename_variant (List.map_filter
      (\<lambda>k. let c = canonical_variant_key ss k in if c \<noteq> k then Some (k, c) else None)
      (map fst (ep_configurations p))) (ep_configurations p))"
    by (rule fold_rename) (use assms in \<open>auto simp: key_idempotent_def List.map_filter_def Let_def image_iff split: if_splits\<close>)
  then show ?thesis by (simp add: canonicalise_profile_def Let_def)
qed

lemma canonicalise_profile_ok: "map_ok (ep_configurations p) \<Longrightarrow> map_ok (ep_configurations (canonicalise_profile ss p))"
proof -
  have "map_ok cs \<Longrightarrow> map_ok (fold rename_variant rs cs)" for rs cs
    by (induction rs arbitrary: cs) (auto intro: rename_variant_ok)
  then show "map_ok (ep_configurations p) \<Longrightarrow> ?thesis" by (simp add: canonicalise_profile_def Let_def)
qed

lemma canonicalise_profile_id:
  "canonical_keys ss (ep_configurations p) \<Longrightarrow> canonicalise_profile ss p = p"
proof -
  assume c: "canonical_keys ss (ep_configurations p)"
  have "List.map_filter (\<lambda>k. let c = canonical_variant_key ss k in if c \<noteq> k then Some (k, c) else None)
      (map fst (ep_configurations p)) = []"
    using c by (auto simp: List.map_filter_def filter_empty_conv canonical_keys_def Let_def)
  then show ?thesis by (simp add: canonicalise_profile_def Let_def)
qed

lemma canonicalise_ok: "configs_ok cs \<Longrightarrow> configs_ok (canonicalise ss cs)"
proof -
  assume c: "configs_ok cs"
  have m: "map fst (canonicalise ss cs) = map fst cs" by (auto simp: canonicalise_def)
  have "\<forall>p \<in> snd ` set (canonicalise ss cs). map_ok (ep_configurations p)"
    using c canonicalise_profile_ok by (force simp: configs_ok_def canonicalise_def)
  then show ?thesis using c by (simp add: configs_ok_def map_ok_def m)
qed

lemma canonicalise_plain: "plain_defaults ds \<Longrightarrow> plain_defaults (canonicalise ss ds)"
  by (force simp: plain_defaults_def canonicalise_def canonicalise_profile_def Let_def)

lemma overrides_canonical:
  assumes "key_idempotent ss" "compute_overrides ds (canonicalise ss current) = Inr overrides"
  shows "canonicalise ss overrides = overrides"
proof -
  have "canonical_keys ss (ep_configurations q)" if "(k, q) \<in> set overrides" for k q
  proof -
    have "(k, q) \<in> set (List.map_filter (\<lambda>(k, p). case map_of ds k of
        Some d \<Rightarrow> (let o_p = override_profile d p in if override_needed o_p then Some (k, o_p) else None)
      | None \<Rightarrow> Some (k, p)) (canonicalise ss current))"
      using assms(2) that by (simp add: compute_overrides_def split: option.splits)
    then obtain p where p: "(k, p) \<in> set (canonicalise ss current)" and "q = p \<or> (\<exists>d. q = override_profile d p)"
      by (fastforce simp: map_filter_set Let_def split: option.splits if_splits)
    moreover have "canonical_keys ss (ep_configurations p)"
      using p canonicalise_profile_keys [OF assms(1)] by (auto simp: canonicalise_def)
    ultimately show ?thesis by (auto simp: canonical_keys_def override_profile_def)
  qed
  then have "map (\<lambda>(k, p). (k, canonicalise_profile ss p)) overrides = map (\<lambda>x. x) overrides"
    by (intro map_cong) (auto intro: canonicalise_profile_id)
  then show ?thesis by (simp add: canonicalise_def)
qed

text \<open>
  C28: what is saved is what is loaded. If saving a set of profiles succeeds, loading the file it wrote
  gives back that set with its variant names in canonical form: the file holds only the differences
  from the shipped profiles, and merging them over the shipped profiles loses none of them and adds
  nothing. It rests on the shipped profiles hiding no model and no agent, as those of the
  repository do: a list or flag a default sets could not be taken back by an override.
\<close>

theorem profiles_save_load:
  assumes "key_idempotent screaming_snake"
    and "\<And>overrides. compute_overrides (canonicalise screaming_snake shipped)
      (canonicalise screaming_snake current) = Inr overrides \<Longrightarrow> from_json (to_json overrides) = Some overrides"
    and "configs_ok shipped" "configs_ok current" "plain_defaults shipped"
    and "save_overrides screaming_snake shipped to_json current = Inr content"
  shows "configs_eq (load_profiles screaming_snake shipped from_json (Some content))
    (canonicalise screaming_snake current)"
proof -
  obtain overrides where o: "compute_overrides (canonicalise screaming_snake shipped)
      (canonicalise screaming_snake current) = Inr overrides" "content = to_json overrides"
    using assms(6) by (auto simp: save_overrides_def Let_def)
  have "configs_eq (merge_with_defaults (canonicalise screaming_snake shipped) overrides)
      (canonicalise screaming_snake current)"
    by (rule overrides_merge_back [OF o(1) canonicalise_ok [OF assms(3)] canonicalise_ok [OF assms(4)]
          canonicalise_plain [OF assms(5)]])
  then show ?thesis using overrides_canonical [OF assms(1) o(1)]
    by (simp add: load_profiles_def Let_def o(2) assms(2) [OF o(1)])
qed

definition demo_shipped :: executor_configs where
  "demo_shipped = [(BaseCodex, \<lparr> ep_recently_used_models = None, ep_disabled_models = [],
     ep_disabled = False, ep_configurations = [(DEFAULT, Codex JNull)] \<rparr>)]"

definition demo_current :: executor_configs where
  "demo_current = [(BaseCodex, \<lparr> ep_recently_used_models = None, ep_disabled_models = [''o3''],
     ep_disabled = True, ep_configurations = [(DEFAULT, Codex JNull), (''PLAN'', Codex (JBool True))] \<rparr>)]"

definition demo_saved_profiles :: executor_configs where
  "demo_saved_profiles = [(BaseCodex, \<lparr> ep_recently_used_models = None, ep_disabled_models = [''o3''],
     ep_disabled = True, ep_configurations = [(''PLAN'', Codex (JBool True))] \<rparr>)]"

lemma key_idempotent_id: "key_idempotent (\<lambda>k. k)"
  by (simp add: key_idempotent_def canonical_variant_key_def eq_ignore_ascii_case_def)

lemma demo_canonical:
  "canonicalise (\<lambda>k. k) demo_shipped = demo_shipped" "canonicalise (\<lambda>k. k) demo_current = demo_current"
proof -
  have "canonical_variant_key (\<lambda>k. k) DEFAULT = DEFAULT" "canonical_variant_key (\<lambda>k. k) ''PLAN'' = ''PLAN''"
    by (simp_all add: canonical_variant_key_def DEFAULT_def eq_ignore_ascii_case_def to_ascii_lowercase_def)
  then show "canonicalise (\<lambda>k. k) demo_shipped = demo_shipped" "canonicalise (\<lambda>k. k) demo_current = demo_current"
    by (simp_all add: canonicalise_def demo_shipped_def demo_current_def canonicalise_profile_def
        List.map_filter_def Let_def)
qed

lemma demo_overrides: "compute_overrides demo_shipped demo_current = Inr demo_saved_profiles"
  by (simp add: compute_overrides_def demo_shipped_def demo_current_def demo_saved_profiles_def DEFAULT_def
      override_profile_def override_needed_def map_filter_Cons Let_def)

lemma demo_valid: "validate_merged (merge_with_defaults demo_shipped demo_saved_profiles) = Inr ()"
  by (simp add: merge_with_defaults_def demo_shipped_def demo_saved_profiles_def DEFAULT_def merge_profile_def
      validate_profile_def base_agent_def)

theorem profiles_save_load_witness:
  "configs_eq (load_profiles (\<lambda>k. k) demo_shipped (\<lambda>s. if s = ''saved'' then Some demo_saved_profiles else None)
     (Some ''saved'')) demo_current"
proof -
  have "save_overrides (\<lambda>k. k) demo_shipped (\<lambda>_. ''saved'') demo_current = Inr ''saved''"
    by (simp add: save_overrides_def demo_canonical demo_overrides demo_valid)
  moreover have "configs_ok demo_shipped" "configs_ok demo_current" "plain_defaults demo_shipped"
    by (simp_all add: configs_ok_def demo_shipped_def demo_current_def plain_defaults_def DEFAULT_def)
  ultimately show ?thesis
    using profiles_save_load [of "\<lambda>k. k" demo_shipped demo_current
        "\<lambda>s. if s = ''saved'' then Some demo_saved_profiles else None" "\<lambda>_. ''saved''" "''saved''"]
    by (simp add: key_idempotent_id demo_canonical demo_overrides)
qed

section \<open>The recommended agent\<close>

definition total_cmp :: "('a \<Rightarrow> 'a \<Rightarrow> Ordering) \<Rightarrow> bool" where
  "total_cmp cmp \<longleftrightarrow> (\<forall>x y z. cmp x y \<noteq> OGreater \<longrightarrow> cmp y z \<noteq> OGreater \<longrightarrow> cmp x z \<noteq> OGreater)
     \<and> (\<forall>x y. cmp x y = OGreater \<longrightarrow> cmp y x \<noteq> OGreater)"

lemma total_cmp_refl: "total_cmp cmp \<Longrightarrow> cmp x x \<noteq> OGreater"
  unfolding total_cmp_def by blast

lemma total_cmp_trans: "total_cmp cmp \<Longrightarrow> cmp x y \<noteq> OGreater \<Longrightarrow> cmp y z \<noteq> OGreater \<Longrightarrow> cmp x z \<noteq> OGreater"
  unfolding total_cmp_def by blast

lemma insert_by_set: "set (insert_by cmp x ys) = insert x (set ys)"
  by (induction ys) auto

lemma sort_by_set [simp]: "set (sort_by cmp xs) = set xs"
  by (induction xs) (simp_all add: sort_by_def insert_by_set)

lemma insert_by_head:
  assumes cmp: "total_cmp cmp" and ys: "\<forall>z \<in> set ys. cmp (hd ys) z \<noteq> OGreater"
  shows "\<forall>z \<in> set (insert_by cmp x ys). cmp (hd (insert_by cmp x ys)) z \<noteq> OGreater"
proof (cases ys)
  case Nil
  then show ?thesis using total_cmp_refl [OF cmp] by simp
next
  case (Cons y ys')
  show ?thesis
  proof (cases "cmp x y = OGreater")
    case True
    then have "cmp y x \<noteq> OGreater" using cmp unfolding total_cmp_def by blast
    then show ?thesis using True ys Cons by (simp add: insert_by_set)
  next
    case False
    then have "\<forall>z \<in> set ys. cmp x z \<noteq> OGreater" using ys Cons total_cmp_trans [OF cmp, of x y] by simp
    then show ?thesis using False Cons total_cmp_refl [OF cmp, of x] by simp
  qed
qed

lemma sort_by_head: "total_cmp cmp \<Longrightarrow> \<forall>z \<in> set xs. cmp (hd (sort_by cmp xs)) z \<noteq> OGreater"
proof (induction xs)
  case (Cons x xs)
  then have "\<forall>z \<in> set (sort_by cmp xs). cmp (hd (sort_by cmp xs)) z \<noteq> OGreater" by simp
  from insert_by_head [OF Cons.prems this, of x]
  have "\<forall>z \<in> set (sort_by cmp (x # xs)). cmp (hd (sort_by cmp (x # xs))) z \<noteq> OGreater"
    by (simp add: sort_by_def)
  then show ?case by (simp only: sort_by_set)
qed simp

lemma availability_total: "total_cmp (\<lambda>a b. availability_cmp (snd a) (snd b))"
  unfolding total_cmp_def
  by (auto simp: availability_cmp_def split: AvailabilityInfo.splits if_splits)

definition default_agent :: "executor_configs \<Rightarrow> BaseCodingAgent \<Rightarrow> CodingAgent option" where
  "default_agent cs k = get_coding_agent cs \<lparr> pi_executor = k, pi_variant = None \<rparr>"

lemma agents_with_info_iff:
  "(k, i) \<in> set (agents_with_info probe cs) \<longleftrightarrow>
     k \<in> set (recommendation_candidates cs)
     \<and> (\<exists>a. default_agent cs k = Some a \<and> is_available (probe a) \<and> i = probe a)"
  by (auto simp: agents_with_info_def default_agent_def map_filter_set split: option.splits if_splits)

text \<open>
  The recommended agent is one the user has not disabled and whose default configuration is
  installed, and no other such agent ranks before it: a detected login comes before a mere
  installation, and the most recent login first.
\<close>

theorem recommended_agent_best:
  assumes "get_recommended_executor_profile probe cs = Inr i"
  shows "\<exists>a. pi_executor i \<in> set (recommendation_candidates cs)
    \<and> default_agent cs (pi_executor i) = Some a \<and> is_available (probe a)
    \<and> (\<forall>k \<in> set (recommendation_candidates cs). \<forall>b. default_agent cs k = Some b \<longrightarrow>
         is_available (probe b) \<longrightarrow> availability_cmp (probe a) (probe b) \<noteq> OGreater)"
proof -
  let ?cmp = "\<lambda>a b. availability_cmp (snd a) (snd b)"
  obtain k v rest where s: "sort_by ?cmp (agents_with_info probe cs) = (k, v) # rest"
    and i: "i = \<lparr> pi_executor = k, pi_variant = None \<rparr>"
    using assms by (auto simp: get_recommended_executor_profile_def split: list.splits)
  have "(k, v) \<in> set (sort_by ?cmp (agents_with_info probe cs))" by (simp add: s)
  then have kv: "(k, v) \<in> set (agents_with_info probe cs)" by simp
  have best: "availability_cmp v (probe b) \<noteq> OGreater"
    if "j \<in> set (recommendation_candidates cs)" "default_agent cs j = Some b" "is_available (probe b)" for j b
  proof -
    have "(j, probe b) \<in> set (agents_with_info probe cs)" using that by (auto simp: agents_with_info_iff)
    then show ?thesis using sort_by_head [OF availability_total, of "agents_with_info probe cs"] s by fastforce
  qed
  show ?thesis using kv best by (auto simp: agents_with_info_iff i)
qed

theorem recommended_agent_best_witness:
  "get_recommended_executor_profile (\<lambda>_. InstallationFound) demo_shipped
     = Inr \<lparr> pi_executor = BaseCodex, pi_variant = None \<rparr>
   \<and> is_available ((\<lambda>_. InstallationFound) (Codex JNull))"
proof -
  have "get_recommended_executor_profile (\<lambda>_. InstallationFound) demo_shipped
      = Inr \<lparr> pi_executor = BaseCodex, pi_variant = None \<rparr>"
    by (simp add: get_recommended_executor_profile_def agents_with_info_def recommendation_candidates_def
        demo_shipped_def get_coding_agent_def get_variant_def is_available_def map_filter_Cons sort_by_def
        List.map_filter_def)
  then show ?thesis
    using recommended_agent_best [of "\<lambda>_. InstallationFound" demo_shipped
        "\<lparr> pi_executor = BaseCodex, pi_variant = None \<rparr>"] by auto
qed

end
