(* ===== verification/Worker_Events.thy ===== *)
theory Worker_Events
  imports Reconcile Worker_Job Executor_Profiles
begin

text \<open>
  What the coordinator makes of a worker's answers: the check of an event batch
  (\<open>services/cluster/client.rs\<close>), the evidence a job summary gives about an execution, and the log
  messages an event stands for (the helpers at the top of \<open>local-deployment/src/container.rs\<close>,
  \<open>executors/src/logs/utils/patch.rs\<close>). \<open>String::from_utf8_lossy\<close> is written out; base64, the
  reading of JSON texts and the generated reader of \<open>NormalizedEntry\<close> are the parameters of
  \<open>tracker_lib\<close>.
\<close>

section \<open>Checking a batch\<close>

text \<open>The causes that come from other crates are their texts.\<close>

datatype WorkerClientError =
    WceEndpointNotFound uuid
  | WceInvalidUrl string
  | WceTransport string
  | WceWebSocket string
  | WceRejected nat string
  | WceDigestConflict
  | ReplayGap u64 u64
      \<comment> \<open>\<open>requested_after\<close>, \<open>earliest_available\<close>\<close>
  | WceNotImplemented string
  | WceResponseTooLarge nat
  | WceMalformedResponse string

fun check_sequences :: "u64 \<Rightarrow> execution_event list \<Rightarrow> WorkerClientError + unit" where
  "check_sequences expected [] = Ok ()"
| "check_sequences expected (e # es) =
     (if ev_sequence e \<noteq> expected
      then Err (ReplayGap (saturating_sub expected 1) (ev_sequence e))
      else check_sequences (saturating_add expected 1) es)"

definition validate_event_batch :: "event_batch \<Rightarrow> WorkerClientError + unit" where
  "validate_event_batch b =
     (if eb_replay_gap b
      then Err (ReplayGap (eb_requested_after b) (eb_earliest_available b))
      else check_sequences (saturating_add (eb_requested_after b) 1) (eb_events b))"

text \<open>\<open>WorkerClient::events\<close>, given the decoded answer or why there is none.\<close>

definition client_events :: "WorkerClientError + event_batch \<Rightarrow> WorkerClientError + event_batch" where
  "client_events response =
     try_bind response (\<lambda>b. try_bind (validate_event_batch b) (\<lambda>_. Ok b))"

section \<open>Evidence\<close>

definition should_ack_worker_batch :: "u64 \<Rightarrow> bool \<Rightarrow> bool" where
  "should_ack_worker_batch cursor has_terminal \<longleftrightarrow> 0 < cursor \<and> \<not> has_terminal"

definition same_dispatch :: "execution_worker_job \<Rightarrow> uuid \<Rightarrow> uuid \<Rightarrow> job_summary \<Rightarrow> bool" where
  "same_dispatch known worker i summary \<longleftrightarrow>
     ej_worker_node_id known = worker \<and> ej_execution_process_id known = i
     \<and> js_execution_id summary = i \<and> js_worker_job_id summary = ej_worker_job_id known
     \<and> js_request_digest summary = ej_request_digest known"

definition replay_gap_job_is_live :: "execution_worker_job \<Rightarrow> uuid \<Rightarrow> uuid \<Rightarrow> job_summary \<Rightarrow> bool" where
  "replay_gap_job_is_live known worker i summary \<longleftrightarrow>
     same_dispatch known worker i summary \<and> \<not> JobState_is_terminal (js_state summary)"

definition should_hand_off_worker_job :: "execution_worker_job option \<Rightarrow> bool" where
  "should_hand_off_worker_job job \<longleftrightarrow> job \<noteq> None"

definition durable_worker_cursor :: "u64 \<Rightarrow> u64 set \<Rightarrow> u64" where
  "durable_worker_cursor cursor unresolved =
     (if unresolved = {} then cursor else min cursor (saturating_sub (Min unresolved) 1))"

fun worker_event_is_output :: "ExecutionEventPayload \<Rightarrow> bool" where
  "worker_event_is_output (EvStdout _) = True"
| "worker_event_is_output (EvStderr _) = True"
| "worker_event_is_output (EvStructured _) = True"
| "worker_event_is_output EvAccepted = True"
| "worker_event_is_output EvStarting = True"
| "worker_event_is_output (EvInteractionAcknowledged _) = True"
| "worker_event_is_output (EvPreview _) = True"
| "worker_event_is_output _ = False"

type_synonym outcome = "ExecutionWorkerDispatchState \<times> ExecutionProcessStatus \<times> terminal_evidence"

definition terminal_summary_states :: "job_summary \<Rightarrow> outcome option" where
  "terminal_summary_states summary = Option.bind (js_terminal summary) (\<lambda>evidence.
     map_option (\<lambda>(w, p). (w, p, evidence)) (case (js_state summary, te_state evidence) of
       (JobCompleted, TermCompleted) \<Rightarrow> Some (DsCompleted, EpCompleted)
     | (JobFailed, TermFailed) \<Rightarrow> Some (DsFailed, EpFailed)
     | (JobKilled, TermKilled) \<Rightarrow> Some (DsKilled, EpKilled)
     | (JobInterrupted, TermInterrupted) \<Rightarrow> Some (DsInterrupted, EpInterrupted)
     | _ \<Rightarrow> None))"

text \<open>\<open>u64::try_from(known.worker_last_sequence).ok()?\<close>: a negative column gives no evidence.\<close>

definition replay_gap_terminal_evidence ::
  "execution_worker_job \<Rightarrow> uuid \<Rightarrow> uuid \<Rightarrow> u64 \<Rightarrow> job_summary \<Rightarrow> outcome option" where
  "replay_gap_terminal_evidence known worker i earliest_available summary =
     (if \<not> same_dispatch known worker i summary
         \<or> js_last_sequence summary < earliest_available
         \<or> ej_worker_last_sequence known < 0
         \<or> uint (js_last_sequence summary) < ej_worker_last_sequence known
      then None else terminal_summary_states summary)"

definition worker_journal_regressed :: "u64 \<Rightarrow> u64 \<Rightarrow> bool" where
  "worker_journal_regressed cursor latest_available \<longleftrightarrow> latest_available < cursor"

definition journal_regression_terminal_evidence ::
  "execution_worker_job \<Rightarrow> uuid \<Rightarrow> uuid \<Rightarrow> u64 \<Rightarrow> job_summary \<Rightarrow> outcome option" where
  "journal_regression_terminal_evidence known worker i latest_available summary =
     (if \<not> same_dispatch known worker i summary \<or> js_last_sequence summary \<noteq> latest_available
      then None else terminal_summary_states summary)"

definition worker_job_has_positive_liveness :: "execution_worker_job \<Rightarrow> datetime \<Rightarrow> bool \<Rightarrow> bool" where
  "worker_job_has_positive_liveness job now live_lease_is_turn_evidence \<longleftrightarrow>
     live_lease_is_turn_evidence \<and> \<not> DispatchState_is_terminal (ej_dispatch_state job)
     \<and> is_some_and (ej_lease_expires_at job) (\<lambda>lease. now < lease)"

definition worker_lease_is_turn_evidence :: "BaseCodingAgent option \<Rightarrow> bool" where
  "worker_lease_is_turn_evidence base_executor \<longleftrightarrow>
     base_executor \<notin> {Some BaseCodex, Some BaseOpencode, Some BaseGemini, Some BaseQwenCode,
                        Some BaseCopilot, Some BaseGrok}"

section \<open>Output\<close>

text \<open>
  \<open>String::from_utf8_lossy\<close>: every maximal prefix of an ill-formed sequence becomes one
  replacement character. \<open>utf8_chunk\<close> gives the length of the next sequence and whether it is
  well formed.
\<close>

definition byte :: "char \<Rightarrow> nat" where
  "byte c = of_char c"

definition continuation :: "char \<Rightarrow> bool" where
  "continuation c \<longleftrightarrow> 0x80 \<le> byte c \<and> byte c \<le> 0xBF"

definition second_ok :: "nat \<Rightarrow> char \<Rightarrow> bool" where
  "second_ok b c \<longleftrightarrow>
     (if b = 0xE0 then 0xA0 \<le> byte c \<and> byte c \<le> 0xBF
      else if b = 0xED then 0x80 \<le> byte c \<and> byte c \<le> 0x9F
      else if b = 0xF0 then 0x90 \<le> byte c \<and> byte c \<le> 0xBF
      else if b = 0xF4 then 0x80 \<le> byte c \<and> byte c \<le> 0x8F
      else continuation c)"

definition utf8_width :: "nat \<Rightarrow> nat" where
  "utf8_width b = (if b < 0x80 then 1 else if 0xC2 \<le> b \<and> b \<le> 0xDF then 2
     else if 0xE0 \<le> b \<and> b \<le> 0xEF then 3 else if 0xF0 \<le> b \<and> b \<le> 0xF4 then 4 else 0)"

text \<open>How many of the bytes that should follow are there and are continuation bytes.\<close>

definition run_of :: "nat \<Rightarrow> char list \<Rightarrow> nat" where
  "run_of n cs = length (takeWhile continuation (take n cs))"

definition utf8_chunk :: "char \<Rightarrow> char list \<Rightarrow> nat \<times> bool" where
  "utf8_chunk c cs = (let w = utf8_width (byte c) in
     if w = 0 then (1, False)
     else if w = 1 then (1, True)
     else (case cs of
         [] \<Rightarrow> (1, False)
       | d # ds \<Rightarrow> if \<not> second_ok (byte c) d then (1, False)
           else let k = run_of (w - 2) ds in (2 + k, k = w - 2)))"

definition REPLACEMENT :: string where
  "REPLACEMENT = [char_of (0xEF :: nat), char_of (0xBF :: nat), char_of (0xBD :: nat)]"

function from_utf8_lossy :: "char list \<Rightarrow> string" where
  "from_utf8_lossy [] = []"
| "from_utf8_lossy (c # cs) = (let (n, ok) = utf8_chunk c cs in
     (if ok then take n (c # cs) else REPLACEMENT) @ from_utf8_lossy (drop (n - 1) cs))"
  by pat_completeness auto

termination
  by (relation "measure length") auto

text \<open>
  The \<open>NormalizedEntry\<close> a patch carries. Reading it from JSON is the generated \<open>serde\<close> code and
  so a parameter, as are base64 and the JSON texts of the worker.
\<close>

datatype NormalizedEntryType =
    UserMessage
  | UserFeedback string
  | AssistantMessage
  | ToolUse string json json
  | SystemMessage
  | ErrorMessage json
  | Thinking
  | Loading
  | NextAction bool nat bool
  | TokenUsageInfo u32 u32
  | UserAnsweredQuestions "(string \<times> string list) list"

record normalized_entry =
  ne_timestamp :: "string option"
  ne_entry_type :: NormalizedEntryType
  ne_content :: string
  ne_metadata :: "json option"

record tracker_lib =
  tl_base64 :: "string \<Rightarrow> string + char list"
  tl_log_msg :: "string \<Rightarrow> LogMsg option"
  tl_object :: "string \<Rightarrow> (string \<times> json) list option"
  tl_entry :: "json \<Rightarrow> normalized_entry option"

definition normalized_entry_from_patch_value :: "tracker_lib \<Rightarrow> json \<Rightarrow> normalized_entry option" where
  "normalized_entry_from_patch_value lib v =
     (if json_get_str v ''type'' = Some ''NORMALIZED_ENTRY''
      then Option.bind (json_get ''content'' v) (tl_entry lib) else None)"

text \<open>The \<open>path\<close> and the \<open>value\<close> member of a serialised operation.\<close>

fun op_members :: "PatchOperation \<Rightarrow> string \<times> json option" where
  "op_members (OpAdd path v) = (path, Some v)"
| "op_members (OpRemove path) = (path, None)"
| "op_members (OpReplace path v) = (path, Some v)"
| "op_members (OpMove _ path) = (path, None)"
| "op_members (OpCopy _ path) = (path, None)"
| "op_members (OpTest path v) = (path, Some v)"

fun find_map :: "('x \<Rightarrow> 'y option) \<Rightarrow> 'x list \<Rightarrow> 'y option" where
  "find_map f [] = None"
| "find_map f (x # xs) = (case f x of Some y \<Rightarrow> Some y | None \<Rightarrow> find_map f xs)"

definition extract_normalized_entry_from_patch ::
  "tracker_lib \<Rightarrow> patch \<Rightarrow> (nat \<times> normalized_entry) option" where
  "extract_normalized_entry_from_patch lib p = find_map (\<lambda>op.
     (let (path, v) = op_members op in
      Option.bind (entry_index path) (\<lambda>i. Option.bind v (\<lambda>v.
        map_option (\<lambda>entry. (i, entry)) (normalized_entry_from_patch_value lib v))))) (rev p)"

definition normalized_final_assistant_state :: "tracker_lib \<Rightarrow> LogMsg \<Rightarrow> bool option" where
  "normalized_final_assistant_state lib m = (case m of
     JsonPatch p \<Rightarrow> (case extract_normalized_entry_from_patch lib p of
         None \<Rightarrow> None
       | Some (_, entry) \<Rightarrow> (case ne_entry_type entry of
             AssistantMessage \<Rightarrow> Some (trim (ne_content entry) \<noteq> [])
           | TokenUsageInfo _ _ \<Rightarrow> None
           | Loading \<Rightarrow> None
           | Thinking \<Rightarrow> None
           | _ \<Rightarrow> Some False))
   | _ \<Rightarrow> None)"

definition history_has_final_assistant_message :: "tracker_lib \<Rightarrow> LogMsg list \<Rightarrow> bool" where
  "history_has_final_assistant_message lib history =
     (case find_map (normalized_final_assistant_state lib) (rev history) of
        Some b \<Rightarrow> b | None \<Rightarrow> False)"

definition push_worker_bytes :: "tracker_lib \<Rightarrow> string \<Rightarrow> bool \<Rightarrow> LogMsg" where
  "push_worker_bytes lib encoded stderr = (case tl_base64 lib encoded of
     Inl e \<Rightarrow> Stderr (''Worker returned invalid base64 output: '' @ e)
   | Inr bytes \<Rightarrow> (if stderr then Stderr (from_utf8_lossy bytes) else Stdout (from_utf8_lossy bytes)))"

datatype WorkerStructuredEvent =
    WseLog LogMsg
  | WseCancellationPhase string
  | WseDiagnostic string

definition classify_worker_structured :: "tracker_lib \<Rightarrow> string \<Rightarrow> WorkerStructuredEvent" where
  "classify_worker_structured lib js = (case tl_log_msg lib js of
     Some m \<Rightarrow> WseLog m
   | None \<Rightarrow> (case tl_object lib js of
       Some [(key, JStr v)] \<Rightarrow>
         if key = ''cancellation_phase'' then WseCancellationPhase v
         else if key = ''worker_error'' then WseDiagnostic (''Worker error: '' @ v)
         else if key = ''stream_error'' then WseDiagnostic (''Worker output stream error: '' @ v)
         else WseDiagnostic (''Unrecognized worker event: '' @ js)
     | _ \<Rightarrow> WseDiagnostic (''Unrecognized worker event: '' @ js)))"

section \<open>Decoding piece by piece\<close>

text \<open>
  Decoding piece by piece is harmless when every piece ends at the end of a character; \<open>whole_characters\<close>
  says that a byte list is a sequence of well-formed characters.
\<close>

function whole_characters :: "char list \<Rightarrow> bool" where
  "whole_characters [] = True"
| "whole_characters (c # cs) = (let (n, ok) = utf8_chunk c cs in ok \<and> whole_characters (drop (n - 1) cs))"
  by pat_completeness auto

termination
  by (relation "measure length") auto

declare whole_characters.simps [simp del] from_utf8_lossy.simps [simp del]

lemma run_of_append: "run_of n ds = n \<Longrightarrow> run_of n (ds @ b) = n"
proof (induction n arbitrary: ds)
  case (Suc n)
  then show ?case by (cases ds) (auto simp: run_of_def split: if_splits)
qed (simp add: run_of_def)

lemma run_of_le: "run_of n ds = n \<Longrightarrow> n \<le> length ds"
  by (metis length_take length_takeWhile_le min.bounded_iff run_of_def order_refl)

lemma utf8_chunk_append:
  assumes "utf8_chunk c cs = (n, True)"
  shows "utf8_chunk c (cs @ b) = (n, True)" and "1 \<le> n" and "n \<le> Suc (length cs)"
proof -
  have w4: "utf8_width (byte c) \<le> 4" by (simp add: utf8_width_def)
  show "utf8_chunk c (cs @ b) = (n, True)" "1 \<le> n" "n \<le> Suc (length cs)"
    using assms w4 run_of_append run_of_le
    by (cases cs; fastforce simp: utf8_chunk_def Let_def split: if_splits)+
qed

lemma from_utf8_lossy_append: "whole_characters a \<Longrightarrow> from_utf8_lossy (a @ b) = a @ from_utf8_lossy b"
proof (induction a rule: whole_characters.induct)
  case (2 c cs)
  obtain n where n: "utf8_chunk c cs = (n, True)" "whole_characters (drop (n - 1) cs)"
    using "2.prems" by (auto simp: whole_characters.simps split: prod.splits)
  note ap = utf8_chunk_append [OF n(1)]
  from "2.IH" [OF refl n(1) [symmetric]] n(2)
  have "from_utf8_lossy (drop (n - 1) cs @ b) = drop (n - 1) cs @ from_utf8_lossy b" by simp
  moreover have "drop (n - 1) (cs @ b) = drop (n - 1) cs @ b" "take n (c # cs @ b) = c # take (n - 1) cs"
    using ap(2,3) by (cases n; simp)+
  ultimately show ?case
    by (simp add: from_utf8_lossy.simps ap(1))
qed simp

lemma from_utf8_lossy_complete: "whole_characters a \<Longrightarrow> from_utf8_lossy a = a"
  using from_utf8_lossy_append [of a "[]"] by (simp add: from_utf8_lossy.simps)

lemma pieces_conserved: "\<forall>p \<in> set ps. whole_characters p \<Longrightarrow> concat (map from_utf8_lossy ps) = concat ps"
  by (induction ps) (simp_all add: from_utf8_lossy_complete)

end
