(* ===== verification/Worker_Tracker.thy ===== *)
theory Worker_Tracker
  imports Worker_Events "HOL-Library.Sublist"
begin

text \<open>
  How the coordinator follows an execution on a worker: \<open>track_worker_msgs_in_store\<close>
  (\<open>local-deployment/src/container.rs\<close>), the writer of the raw log
  (\<open>services/execution_process.rs\<close>), the hand-over at shutdown, the re-attachment at boot and the
  remote part of \<open>stop_execution\<close>; and what each piece leaves alone.

  One iteration of the poll loop is one step. What it reads from outside comes in a
  \<open>poll_env\<close>: the answer of the worker, its inventory, the clocks, and for every database
  statement whether it succeeds; a loop that retries until a statement succeeds takes the list of
  its attempts, and an exhausted list means it is still retrying. The messages pushed to the
  \<open>MsgStore\<close> are kept as one list; its byte bound is in Msg_Store. Waiting times are not
  modelled.
\<close>

section \<open>The tracker\<close>

text \<open>
  The local state of the task together with what it shares: the pushed cursor, the set of
  interaction requests whose response is not delivered, the store, the rows of the execution, and
  the raw log on disk with the number of its lines the store was seeded with. Since it was
  attached, \<open>tk_routed\<close> lists the requests handed to a routing task and \<open>tk_answered\<close> those whose
  response was delivered; \<open>tk_worker_acks\<close> are the cursors acknowledged to the worker. These are the
  record of what happened and nothing reads them.
\<close>

record tracker =
  tk_execution_id :: uuid
  tk_worker_node_id :: uuid
  tk_lease_is_evidence :: bool
  tk_cursor :: u64
  tk_pushed :: u64
  tk_unresolved :: "u64 set"
  tk_deadline :: "nat option"
  tk_regression_reported :: bool
  tk_output :: "LogMsg list"
  tk_jobs :: job_table
  tk_processes :: process_table
  tk_disk :: "LogMsg list"
  tk_seeded :: nat
  tk_routed :: "(u64 \<times> interaction_request) list"
  tk_answered :: "u64 set"
  tk_worker_acks :: "u64 list"
  tk_cancels :: nat

text \<open>Milliseconds.\<close>

definition FINAL_OUTPUT_RECONCILIATION_TIMEOUT :: nat where
  "FINAL_OUTPUT_RECONCILIATION_TIMEOUT = 45000"

type_synonym burst = "nat \<Rightarrow> bool"

record gap_attempt_env =
  ga_mark_ok :: bool
  ga_state_ok :: bool
  ga_stopped_read_ok :: bool
  ga_burst :: burst

record poll_env =
  pe_answer :: "WorkerClientError + event_batch"
  pe_row_read_ok :: bool
  pe_inventory :: "job_summary list option"
  pe_now :: datetime
  pe_instant :: nat
  pe_mark_ok :: bool
  pe_state_ok :: bool
  pe_completion_ok :: bool
  pe_ack_ok :: bool
  pe_stopped_read_ok :: bool
  pe_burst :: burst
  pe_bursts :: "burst list"
  pe_gap_attempts :: "gap_attempt_env list"
  pe_resolved :: "u64 set"

datatype flow = Polling tracker | Ended tracker | Stalled tracker

definition push_out :: "LogMsg \<Rightarrow> tracker \<Rightarrow> tracker" where
  "push_out m tk = tk\<lparr> tk_output := tk_output tk @ [m] \<rparr>"

definition advance_pushed :: "u64 \<Rightarrow> tracker \<Rightarrow> tracker" where
  "advance_pushed n tk = tk\<lparr> tk_pushed := max (tk_pushed tk) n \<rparr>"

definition durable :: "tracker \<Rightarrow> u64" where
  "durable tk = durable_worker_cursor (tk_cursor tk) (tk_unresolved tk)"

definition known_row :: "poll_env \<Rightarrow> tracker \<Rightarrow> execution_worker_job option" where
  "known_row env tk =
     (if pe_row_read_ok env then find_job (tk_execution_id tk) (tk_jobs tk) else None)"

text \<open>\<open>was_stopped\<close> answers \<open>false\<close> when the row cannot be read.\<close>

definition stopped :: "bool \<Rightarrow> tracker \<Rightarrow> bool" where
  "stopped read_ok tk \<longleftrightarrow> read_ok \<and> was_stopped (tk_execution_id tk) (tk_processes tk)"

definition write_state :: "datetime \<Rightarrow> ExecutionWorkerDispatchState \<Rightarrow> terminal_evidence option
    \<Rightarrow> datetime \<Rightarrow> tracker \<Rightarrow> bool \<times> tracker" where
  "write_state now st evidence at_time tk =
     (let (found, jobs) = update_state now (tk_execution_id tk) st evidence (Some at_time) (tk_jobs tk)
      in (found, tk\<lparr> tk_jobs := jobs \<rparr>))"

definition write_incomplete :: "datetime \<Rightarrow> tracker \<Rightarrow> bool \<times> tracker" where
  "write_incomplete now tk =
     (let (found, jobs) = mark_output_incomplete now (tk_execution_id tk) (tk_jobs tk)
      in (found, tk\<lparr> tk_jobs := jobs \<rparr>))"

definition write_completion ::
  "datetime \<Rightarrow> ExecutionProcessStatus \<Rightarrow> int option \<Rightarrow> tracker \<Rightarrow> tracker" where
  "write_completion now st code tk = tk\<lparr> tk_processes :=
     update_completion now (tk_execution_id tk) st code (tk_processes tk) \<rparr>"

definition write_ack :: "datetime \<Rightarrow> u64 \<Rightarrow> u64 \<Rightarrow> tracker \<Rightarrow> tracker" where
  "write_ack now sequence worker_last tk = tk\<lparr> tk_jobs := snd (acknowledge_sequence now
     (tk_execution_id tk) (sint sequence) (sint worker_last) (tk_jobs tk)) \<rparr>"

definition send_ack :: "tracker \<Rightarrow> tracker" where
  "send_ack tk = tk\<lparr> tk_worker_acks := tk_worker_acks tk @ [tk_cursor tk] \<rparr>"

text \<open>\<open>update_completion_with_retry\<close>: at most three attempts; and the loop around it.\<close>

fun completion_attempts :: "burst \<Rightarrow> nat list \<Rightarrow> datetime \<Rightarrow> ExecutionProcessStatus \<Rightarrow> int option
    \<Rightarrow> tracker \<Rightarrow> bool \<times> tracker" where
  "completion_attempts succeeds [] now st code tk = (False, tk)"
| "completion_attempts succeeds (attempt # rest) now st code tk =
     (if succeeds attempt then (True, write_completion now st code tk)
      else completion_attempts succeeds rest now st code tk)"

definition update_completion_with_retry ::
  "burst \<Rightarrow> datetime \<Rightarrow> ExecutionProcessStatus \<Rightarrow> int option \<Rightarrow> tracker \<Rightarrow> bool \<times> tracker" where
  "update_completion_with_retry succeeds = completion_attempts succeeds [1, 2, 3]"

fun persist_completion :: "burst list \<Rightarrow> datetime \<Rightarrow> ExecutionProcessStatus \<Rightarrow> int option
    \<Rightarrow> tracker \<Rightarrow> bool \<times> tracker" where
  "persist_completion [] now st code tk = (False, tk)"
| "persist_completion (b # bs) now st code tk =
     (case update_completion_with_retry b now st code tk of
        (True, tk') \<Rightarrow> (True, tk')
      | (False, tk') \<Rightarrow> persist_completion bs now st code tk')"

definition mark_remote_execution_indeterminate :: "poll_env \<Rightarrow> tracker \<Rightarrow> bool \<times> tracker" where
  "mark_remote_execution_indeterminate env tk =
     (if \<not> pe_state_ok env then (False, tk)
      else let tk = snd (write_state (pe_now env) DsIndeterminate None (pe_now env) tk)
        in if \<not> pe_completion_ok env then (False, tk)
           else (True, write_completion (pe_now env) EpIndeterminate None tk))"

section \<open>A replay gap\<close>

definition gap_evidence :: "poll_env \<Rightarrow> u64 \<Rightarrow> tracker \<Rightarrow> outcome option \<times> bool" where
  "gap_evidence env earliest tk = (case (known_row env tk, pe_inventory env) of
     (Some known, Some inventory) \<Rightarrow>
       (find_map (replay_gap_terminal_evidence known (tk_worker_node_id tk) (tk_execution_id tk)
                    (max earliest (tk_cursor tk))) inventory,
        \<exists>s \<in> set inventory. replay_gap_job_is_live known (tk_worker_node_id tk) (tk_execution_id tk) s)
   | _ \<Rightarrow> (None, False))"

definition gap_attempt :: "datetime \<Rightarrow> ExecutionWorkerDispatchState \<Rightarrow> ExecutionProcessStatus
    \<Rightarrow> terminal_evidence option \<Rightarrow> gap_attempt_env \<Rightarrow> tracker \<Rightarrow> bool \<times> tracker" where
  "gap_attempt now ws ps evidence a tk =
     (if \<not> ga_mark_ok a then (False, tk)
      else case write_incomplete now tk of
        (False, tk) \<Rightarrow> (False, tk)
      | (True, tk) \<Rightarrow>
          if \<not> ga_state_ok a then (False, tk)
          else (case write_state now ws evidence
                  (case evidence of Some e \<Rightarrow> te_observed_at e | None \<Rightarrow> now) tk of
              (False, tk) \<Rightarrow> (False, tk)
            | (True, tk) \<Rightarrow>
                if stopped (ga_stopped_read_ok a) tk then (True, tk)
                else update_completion_with_retry (ga_burst a) now ps
                  (Option.bind evidence te_exit_code) tk))"

fun gap_persist :: "datetime \<Rightarrow> ExecutionWorkerDispatchState \<Rightarrow> ExecutionProcessStatus
    \<Rightarrow> terminal_evidence option \<Rightarrow> gap_attempt_env list \<Rightarrow> tracker \<Rightarrow> bool \<times> tracker" where
  "gap_persist now ws ps evidence [] tk = (False, tk)"
| "gap_persist now ws ps evidence (a # as) tk =
     (case gap_attempt now ws ps evidence a tk of
        (True, tk') \<Rightarrow> (True, tk')
      | (False, tk') \<Rightarrow> gap_persist now ws ps evidence as tk')"

fun debug_status :: "ExecutionProcessStatus \<Rightarrow> string" where
  "debug_status EpRunning = ''Running''"
| "debug_status EpCompleted = ''Completed''"
| "debug_status EpFailed = ''Failed''"
| "debug_status EpKilled = ''Killed''"
| "debug_status EpInterrupted = ''Interrupted''"
| "debug_status EpIndeterminate = ''Indeterminate''"

definition show_u64 :: "u64 \<Rightarrow> string" where
  "show_u64 n = show_nat (unat n)"

definition lost_output_text :: "u64 \<Rightarrow> u64 \<Rightarrow> string" where
  "lost_output_text requested_after earliest =
     ''Output events '' @ show_u64 (saturating_add requested_after 1) @ '' to ''
     @ show_u64 (saturating_sub earliest 1)
     @ '' were lost while Vibe Kanban was unavailable; the execution is still running on its worker and output continues below''"

definition gap_text :: "u64 \<Rightarrow> u64 \<Rightarrow> terminal_evidence option \<Rightarrow> ExecutionProcessStatus \<Rightarrow> string" where
  "gap_text requested_after earliest evidence ps =
     ''Worker output replay gap after sequence '' @ show_u64 requested_after
     @ '' (earliest retained: '' @ show_u64 earliest @ ''); output is incomplete; ''
     @ (if evidence \<noteq> None
        then ''execution outcome recovered from worker terminal evidence: '' @ debug_status ps
        else ''execution state is indeterminate'')"

definition follow_gap :: "poll_env \<Rightarrow> u64 \<Rightarrow> u64 \<Rightarrow> tracker \<Rightarrow> flow" where
  "follow_gap env requested_after earliest tk =
     (let (recovered, job_is_live) = gap_evidence env earliest tk in
      if recovered = None \<and> job_is_live
      then
        let tk = (if pe_mark_ok env then snd (write_incomplete (pe_now env) tk) else tk);
            tk = push_out (Stderr (lost_output_text requested_after earliest)) tk;
            tk = tk\<lparr> tk_cursor := saturating_sub earliest 1 \<rparr>
        in Polling (advance_pushed (durable tk) tk)
      else
        let (ws, ps, evidence) = (case recovered of
               Some (ws, ps, e) \<Rightarrow> (ws, ps, Some e)
             | None \<Rightarrow> (DsIndeterminate, EpIndeterminate, None))
        in case gap_persist (pe_now env) ws ps evidence (pe_gap_attempts env) tk of
             (False, tk) \<Rightarrow> Stalled tk
           | (True, tk) \<Rightarrow> Ended (push_out (Stderr (gap_text requested_after earliest evidence ps)) tk))"

section \<open>A failed poll and a regressed journal\<close>

definition deadline_passed :: "poll_env \<Rightarrow> tracker \<Rightarrow> bool" where
  "deadline_passed env tk \<longleftrightarrow> is_some_and (tk_deadline tk) (\<lambda>d. d \<le> pe_instant env)"

definition follow_failure :: "poll_env \<Rightarrow> tracker \<Rightarrow> flow" where
  "follow_failure env tk =
     (if deadline_passed env tk
      then (case mark_remote_execution_indeterminate env tk of
              (False, tk) \<Rightarrow> Polling tk
            | (True, tk) \<Rightarrow> Ended tk)
      else Polling tk)"

definition regression_text :: "u64 \<Rightarrow> string" where
  "regression_text cursor =
     ''The worker restarted while this execution was running; output after event '' @ show_u64 cursor
     @ '' may be missing''"

definition report_regression :: "poll_env \<Rightarrow> tracker \<Rightarrow> tracker" where
  "report_regression env tk =
     (if tk_regression_reported tk then tk
      else let tk = tk\<lparr> tk_regression_reported := True \<rparr>;
               tk = (if pe_mark_ok env then snd (write_incomplete (pe_now env) tk) else tk)
           in push_out (Stderr (regression_text (tk_cursor tk))) tk)"

text \<open>Either the iteration is over, or it goes on with the recovered outcome.\<close>

definition follow_regression :: "poll_env \<Rightarrow> u64 \<Rightarrow> tracker \<Rightarrow> flow + tracker \<times> outcome" where
  "follow_regression env latest tk = (case (known_row env tk, pe_inventory env) of
     (Some known, Some inventory) \<Rightarrow>
       let recovered = find_map (journal_regression_terminal_evidence known (tk_worker_node_id tk)
             (tk_execution_id tk) latest) inventory;
           tk = report_regression env tk
       in (case recovered of
             Some r \<Rightarrow> Inr (tk, r)
           | None \<Rightarrow> Inl
               (if stopped (pe_stopped_read_ok env) tk then Ended tk
                else (case mark_remote_execution_indeterminate env tk of
                        (False, tk) \<Rightarrow> Polling tk
                      | (True, tk) \<Rightarrow> Ended tk)))
   | _ \<Rightarrow> Inl (Polling tk))"

section \<open>The events of a batch\<close>

record batch_run =
  br_tracker :: tracker
  br_output_only :: bool
  br_terminal :: "outcome option"

definition arm_deadline :: "nat \<Rightarrow> tracker \<Rightarrow> tracker" where
  "arm_deadline instant tk =
     tk\<lparr> tk_deadline := Some (instant + FINAL_OUTPUT_RECONCILIATION_TIMEOUT) \<rparr>"

definition disarm_deadline :: "tracker \<Rightarrow> tracker" where
  "disarm_deadline tk = tk\<lparr> tk_deadline := None \<rparr>"

definition receive_event :: "execution_event \<Rightarrow> batch_run \<Rightarrow> batch_run" where
  "receive_event ev br =
     (let tk = (br_tracker br)\<lparr> tk_cursor := ev_sequence ev \<rparr>;
          only = (br_output_only br \<and> worker_event_is_output (ev_payload ev))
      in br\<lparr> br_tracker := (if only then advance_pushed (durable tk) tk else tk),
             br_output_only := only \<rparr>)"

definition push_structured :: "tracker_lib \<Rightarrow> poll_env \<Rightarrow> string \<Rightarrow> tracker \<Rightarrow> tracker" where
  "push_structured lib env js tk = (case classify_worker_structured lib js of
     WseLog m \<Rightarrow> push_out m (case normalized_final_assistant_state lib m of
         Some True \<Rightarrow> arm_deadline (pe_instant env) tk
       | Some False \<Rightarrow> disarm_deadline tk
       | None \<Rightarrow> tk)
   | WseCancellationPhase _ \<Rightarrow> tk
   | WseDiagnostic m \<Rightarrow> push_out (Stderr m) tk)"

definition indeterminate_text :: "string \<Rightarrow> string" where
  "indeterminate_text reason = ''Worker reported an indeterminate execution: '' @ reason"

definition end_indeterminate :: "poll_env \<Rightarrow> string \<Rightarrow> tracker \<Rightarrow> flow" where
  "end_indeterminate env reason tk =
     (let tk = push_out (Stderr (indeterminate_text reason)) tk;
          tk = (if pe_state_ok env
                then snd (write_state (pe_now env) DsIndeterminate None (pe_now env) tk) else tk)
      in case persist_completion (pe_bursts env) (pe_now env) EpIndeterminate None tk of
           (False, tk) \<Rightarrow> Stalled tk
         | (True, tk) \<Rightarrow> Ended tk)"

definition request_interaction :: "interaction_request \<Rightarrow> tracker \<Rightarrow> tracker" where
  "request_interaction interaction tk = tk\<lparr> tk_deadline := None,
     tk_unresolved := insert (tk_cursor tk) (tk_unresolved tk),
     tk_routed := tk_routed tk @ [(tk_cursor tk, interaction)] \<rparr>"

definition with_tracker :: "(tracker \<Rightarrow> tracker) \<Rightarrow> batch_run \<Rightarrow> batch_run" where
  "with_tracker f br = br\<lparr> br_tracker := f (br_tracker br) \<rparr>"

definition handle_event ::
  "tracker_lib \<Rightarrow> poll_env \<Rightarrow> execution_event \<Rightarrow> batch_run \<Rightarrow> flow + batch_run" where
  "handle_event lib env ev br0 =
     (let br = receive_event ev br0 in
      case ev_payload ev of
        EvStdout d \<Rightarrow> Inr (with_tracker (push_out (push_worker_bytes lib d False)) br)
      | EvStderr d \<Rightarrow> Inr (with_tracker (push_out (push_worker_bytes lib d True)) br)
      | EvStructured js \<Rightarrow> Inr (with_tracker (push_structured lib env js) br)
      | EvCompleted e \<Rightarrow> Inr (br\<lparr> br_terminal := Some (DsCompleted, EpCompleted, e) \<rparr>)
      | EvFailed e \<Rightarrow> Inr (br\<lparr> br_terminal := Some (DsFailed, EpFailed, e) \<rparr>)
      | EvKilled e \<Rightarrow> Inr (br\<lparr> br_terminal := Some (DsKilled, EpKilled, e) \<rparr>)
      | EvInterrupted e \<Rightarrow> Inr (br\<lparr> br_terminal := Some (DsInterrupted, EpInterrupted, e) \<rparr>)
      | EvIndeterminate reason \<Rightarrow> Inl (end_indeterminate env reason (br_tracker br))
      | EvInteractionRequested interaction \<Rightarrow> Inr (with_tracker (request_interaction interaction) br)
      | EvAccepted \<Rightarrow> Inr br
      | EvStarting \<Rightarrow> Inr (with_tracker disarm_deadline br)
      | EvInteractionAcknowledged _ \<Rightarrow> Inr br
      | EvPreview _ \<Rightarrow> Inr br)"

fun handle_events ::
  "tracker_lib \<Rightarrow> poll_env \<Rightarrow> execution_event list \<Rightarrow> batch_run \<Rightarrow> flow + batch_run" where
  "handle_events lib env [] br = Inr br"
| "handle_events lib env (ev # evs) br =
     try_bind (handle_event lib env ev br) (handle_events lib env evs)"

section \<open>After the events\<close>

text \<open>Responses are delivered by other tasks; \<open>pe_resolved\<close> says which, while the events run.\<close>

definition deliver_responses :: "u64 set \<Rightarrow> tracker \<Rightarrow> tracker" where
  "deliver_responses done tk = tk\<lparr> tk_answered := tk_answered tk \<union> (tk_unresolved tk \<inter> done),
     tk_unresolved := tk_unresolved tk - done \<rparr>"

definition acknowledge_batch :: "poll_env \<Rightarrow> u64 \<Rightarrow> bool \<Rightarrow> tracker \<Rightarrow> tracker" where
  "acknowledge_batch env latest has_terminal tk =
     (let d = durable tk in
      if should_ack_worker_batch (tk_cursor tk) has_terminal
      then advance_pushed d (send_ack (if pe_ack_ok env then write_ack (pe_now env) d latest tk else tk))
      else tk)"

definition end_terminal :: "poll_env \<Rightarrow> u64 \<Rightarrow> outcome \<Rightarrow> tracker \<Rightarrow> flow" where
  "end_terminal env latest out tk =
     (let (ws, ps, evidence) = out;
          tk = (if pe_state_ok env
                then snd (write_state (pe_now env) ws (Some evidence) (te_observed_at evidence) tk)
                else tk)
      in case (if stopped (pe_stopped_read_ok env) tk then (True, tk)
               else persist_completion (pe_bursts env) (pe_now env) ps (te_exit_code evidence) tk) of
           (False, tk) \<Rightarrow> Stalled tk
         | (True, tk) \<Rightarrow> Ended (send_ack
             (if pe_ack_ok env then write_ack (pe_now env) (tk_cursor tk) latest tk else tk)))"

definition final_output_text :: string where
  "final_output_text =
     ''Final response arrived without worker terminal evidence; execution state is indeterminate''"

definition check_deadline :: "poll_env \<Rightarrow> tracker \<Rightarrow> flow" where
  "check_deadline env tk =
     (if \<not> deadline_passed env tk then Polling tk
      else if \<not> pe_row_read_ok env
        \<or> is_some_and (known_row env tk) (\<lambda>job. worker_job_has_positive_liveness job (pe_now env)
              (tk_lease_is_evidence tk))
      then Polling (arm_deadline (pe_instant env) tk)
      else
        let tk = tk\<lparr> tk_cancels := tk_cancels tk + 1 \<rparr>;
            tk = (if pe_state_ok env
                  then snd (write_state (pe_now env) DsIndeterminate None (pe_now env) tk) else tk)
        in case update_completion_with_retry (pe_burst env) (pe_now env) EpIndeterminate None tk of
             (False, tk) \<Rightarrow> Polling tk
           | (True, tk) \<Rightarrow> Ended (push_out (Stderr final_output_text) tk))"

definition follow_events ::
  "tracker_lib \<Rightarrow> poll_env \<Rightarrow> event_batch \<Rightarrow> outcome option \<Rightarrow> tracker \<Rightarrow> flow" where
  "follow_events lib env b recovered tk = (case handle_events lib env (eb_events b)
       \<lparr> br_tracker = tk, br_output_only = True, br_terminal = recovered \<rparr> of
     Inl fl \<Rightarrow> fl
   | Inr br \<Rightarrow>
       let tk = deliver_responses (pe_resolved env) (br_tracker br);
           tk = (if eb_events b \<noteq> [] \<and> tk_deadline tk \<noteq> None
                 then arm_deadline (pe_instant env) tk else tk);
           tk = acknowledge_batch env (eb_latest_available b) (br_terminal br \<noteq> None) tk
       in (case br_terminal br of
             Some out \<Rightarrow> end_terminal env (eb_latest_available b) out tk
           | None \<Rightarrow> check_deadline env tk))"

definition follow_batch :: "tracker_lib \<Rightarrow> poll_env \<Rightarrow> event_batch \<Rightarrow> tracker \<Rightarrow> flow" where
  "follow_batch lib env b tk =
     (if worker_journal_regressed (tk_cursor tk) (eb_latest_available b)
      then (case follow_regression env (eb_latest_available b) tk of
              Inl fl \<Rightarrow> fl
            | Inr (tk, r) \<Rightarrow> follow_events lib env b (Some r) tk)
      else follow_events lib env b None tk)"

text \<open>One iteration of the poll loop.\<close>

definition iterate :: "tracker_lib \<Rightarrow> poll_env \<Rightarrow> tracker \<Rightarrow> flow" where
  "iterate lib env tk = (case client_events (pe_answer env) of
     Inr b \<Rightarrow> follow_batch lib env b tk
   | Inl (ReplayGap requested_after earliest) \<Rightarrow> follow_gap env requested_after earliest tk
   | Inl _ \<Rightarrow> follow_failure env tk)"

section \<open>Shutdown and boot\<close>

text \<open>
  The raw-log writer: the lines it appends for the messages of the store, after skipping those
  already on disk; it ends with the store.
\<close>

definition is_raw :: "LogMsg \<Rightarrow> bool" where
  "is_raw m = (case m of Stdout _ \<Rightarrow> True | Stderr _ \<Rightarrow> True | _ \<Rightarrow> False)"

fun should_write_raw :: "nat \<Rightarrow> bool \<times> nat" where
  "should_write_raw 0 = (True, 0)"
| "should_write_raw (Suc n) = (False, n)"

fun write_raw_logs :: "nat \<Rightarrow> LogMsg list \<Rightarrow> LogMsg list" where
  "write_raw_logs skip [] = []"
| "write_raw_logs skip (m # ms) =
     (if is_raw m
      then (case should_write_raw skip of
              (True, skip') \<Rightarrow> m # write_raw_logs skip' ms
            | (False, skip') \<Rightarrow> write_raw_logs skip' ms)
      else if m = Finished then [] else write_raw_logs skip ms)"

text \<open>
  \<open>kill_all_running_processes\<close> for a worker-owned row: the tracker stops, the store ends, and the
  pushed cursor is persisted only if the writer got through all its lines in time; otherwise it got
  through the first \<open>written\<close> of them.
\<close>

record handoff_env =
  he_flushed :: bool
  he_written :: nat
  he_ack_ok :: bool
  he_now :: datetime

definition hand_off :: "handoff_env \<Rightarrow> tracker \<Rightarrow> tracker" where
  "hand_off h tk =
     (let lines = write_raw_logs (tk_seeded tk) (tk_output tk @ [Finished]) in
      if he_flushed h
      then (let tk = tk\<lparr> tk_disk := tk_disk tk @ lines \<rparr>
            in if he_ack_ok h then write_ack (he_now h) (tk_pushed tk) (tk_pushed tk) tk else tk)
      else tk\<lparr> tk_disk := tk_disk tk @ take (he_written h) lines \<rparr>)"

definition persisted_cursor :: "execution_worker_job \<Rightarrow> u64" where
  "persisted_cursor job =
     (if 0 \<le> ej_last_event_sequence job then word_of_int (ej_last_event_sequence job) else 0)"

text \<open>
  \<open>reattach_worker_execution\<close>: the store is seeded with the lines on disk, which the new writer
  skips, and the tracker resumes after the persisted cursor.
\<close>

definition track_worker_msgs ::
  "LogMsg list \<Rightarrow> u64 \<Rightarrow> tracker \<Rightarrow> tracker" where
  "track_worker_msgs history resume_from tk = tk\<lparr> tk_cursor := resume_from, tk_pushed := resume_from,
     tk_unresolved := {}, tk_deadline := None, tk_regression_reported := False,
     tk_output := history, tk_seeded := length (filter is_raw history),
     tk_routed := [], tk_answered := {} \<rparr>"

definition reattach_worker_execution :: "tracker \<Rightarrow> tracker option" where
  "reattach_worker_execution tk =
     (let job = find_job (tk_execution_id tk) (tk_jobs tk) in
      if \<not> should_hand_off_worker_job job then None
      else map_option (\<lambda>job. track_worker_msgs (tk_disk tk) (persisted_cursor job) tk) job)"

section \<open>Stopping a worker's execution\<close>

text \<open>
  The part of \<open>stop_execution\<close> for a row with a worker job, given the worker's answer to the
  cancellation. The tracker task keeps running.
\<close>

definition stop_confirmed :: "cancellation_status \<Rightarrow> terminal_evidence option" where
  "stop_confirmed response =
     (if cs_phase response = PhConfirmed \<or> cs_phase response = PhAlreadyTerminal
      then cs_terminal response else None)"

definition evidence_dispatch_state :: "TerminalState \<Rightarrow> ExecutionWorkerDispatchState" where
  "evidence_dispatch_state st = (case st of TermCompleted \<Rightarrow> DsCompleted | TermFailed \<Rightarrow> DsFailed
     | TermKilled \<Rightarrow> DsKilled | TermInterrupted \<Rightarrow> DsInterrupted)"

definition stop_worker_execution ::
  "poll_env \<Rightarrow> string + cancellation_status \<Rightarrow> tracker \<Rightarrow> bool \<times> tracker" where
  "stop_worker_execution env response tk =
     (case (case response of Inr r \<Rightarrow> stop_confirmed r | Inl _ \<Rightarrow> None) of
        Some evidence \<Rightarrow>
          if \<not> pe_state_ok env then (False, tk)
          else let tk = snd (write_state (pe_now env) (evidence_dispatch_state (te_state evidence))
                 (Some evidence) (te_observed_at evidence) tk)
            in if \<not> pe_completion_ok env then (False, tk)
               else (True, write_completion (pe_now env) (process_state (te_state evidence))
                 (te_exit_code evidence) tk)
      | None \<Rightarrow> mark_remote_execution_indeterminate env tk)"

section \<open>What the pieces leave alone\<close>

text \<open>
  \<open>progress\<close> is what says how far the tracker got, \<open>logs\<close> what was said. Most pieces change
  neither, and each has its lemma in the collection \<open>tracker_frame\<close>.
\<close>

definition acked :: "tracker \<Rightarrow> int option" where
  "acked tk = map_option ej_last_event_sequence (find_job (tk_execution_id tk) (tk_jobs tk))"

definition progress :: "tracker \<Rightarrow> uuid \<times> (u64 \<times> u64 \<times> u64 set) \<times> ((u64 \<times> interaction_request) list
    \<times> u64 set) \<times> int option \<times> u64 list" where
  "progress tk = (tk_execution_id tk, (tk_cursor tk, tk_pushed tk, tk_unresolved tk),
     (tk_routed tk, tk_answered tk), acked tk, tk_worker_acks tk)"

definition logs :: "tracker \<Rightarrow> LogMsg list \<times> LogMsg list \<times> nat" where
  "logs tk = (tk_output tk, tk_disk tk, tk_seeded tk)"

named_theorems tracker_frame \<open>the fields a piece of the tracker leaves alone\<close>

lemma find_job_update:
  assumes "\<And>j. ej_execution_process_id (f j) = ej_execution_process_id j"
  shows "find_job i (snd (sql_update p f t)) = map_option (\<lambda>j. if p j then f j else j) (find_job i t)"
  unfolding find_job_def by (rule sql_find_update) (rule assms)

lemma acked_write_state [tracker_frame]: "acked (snd (write_state now st ev t tk)) = acked tk"
  by (simp add: acked_def write_state_def split_beta find_job_def sql_find_modify option.map_comp comp_def)

lemma acked_write_incomplete [tracker_frame]: "acked (snd (write_incomplete now tk)) = acked tk"
  by (cases "find_job (tk_execution_id tk) (tk_jobs tk)")
    (simp_all add: acked_def write_incomplete_def mark_output_incomplete_def split_beta find_job_update)

lemma write_state_frame [tracker_frame]:
  "progress (snd (write_state now st ev t tk)) = progress tk"
  "logs (snd (write_state now st ev t tk)) = logs tk"
  "tk_processes (snd (write_state now st ev t tk)) = tk_processes tk"
  "tk_execution_id (snd (write_state now st ev t tk)) = tk_execution_id tk"
  using acked_write_state [of now st ev t tk]
  by (simp_all add: progress_def logs_def write_state_def split_beta)

lemma write_incomplete_frame [tracker_frame]:
  "progress (snd (write_incomplete now tk)) = progress tk"
  "logs (snd (write_incomplete now tk)) = logs tk"
  "tk_processes (snd (write_incomplete now tk)) = tk_processes tk"
  "tk_execution_id (snd (write_incomplete now tk)) = tk_execution_id tk"
  using acked_write_incomplete [of now tk]
  by (simp_all add: progress_def logs_def write_incomplete_def split_beta)

lemma write_completion_frame [tracker_frame]:
  "progress (write_completion now st code tk) = progress tk"
  "logs (write_completion now st code tk) = logs tk"
  "tk_execution_id (write_completion now st code tk) = tk_execution_id tk"
  by (simp_all add: progress_def logs_def write_completion_def acked_def)

lemma small_frame [tracker_frame]:
  "progress (push_out m tk) = progress tk"
  "progress (arm_deadline n tk) = progress tk" "logs (arm_deadline n tk) = logs tk"
  "progress (disarm_deadline tk) = progress tk" "logs (disarm_deadline tk) = logs tk"
  "progress (tk\<lparr> tk_cancels := c \<rparr>) = progress tk" "logs (tk\<lparr> tk_cancels := c \<rparr>) = logs tk"
  "progress (tk\<lparr> tk_regression_reported := b \<rparr>) = progress tk"
  "logs (tk\<lparr> tk_regression_reported := b \<rparr>) = logs tk"
  "logs (advance_pushed p tk) = logs tk" "logs (send_ack tk) = logs tk"
  "logs (write_ack now s w tk) = logs tk" "logs (deliver_responses done tk) = logs tk"
  "logs (request_interaction r tk) = logs tk" "logs (tk\<lparr> tk_cursor := s \<rparr>) = logs tk"
  by (simp_all add: progress_def logs_def acked_def push_out_def arm_deadline_def disarm_deadline_def
      advance_pushed_def send_ack_def write_ack_def deliver_responses_def request_interaction_def)

lemma logs_push_out [simp]: "logs (push_out m tk) = (tk_output tk @ [m], tk_disk tk, tk_seeded tk)"
  by (simp add: logs_def push_out_def)

lemma retry_frame [tracker_frame]:
  "progress (snd (completion_attempts b ns now st code tk)) = progress tk"
  "logs (snd (completion_attempts b ns now st code tk)) = logs tk"
  by (induction ns) (simp_all add: tracker_frame)

lemma update_retry_frame [tracker_frame]:
  "progress (snd (update_completion_with_retry b now st code tk)) = progress tk"
  "logs (snd (update_completion_with_retry b now st code tk)) = logs tk"
  by (simp_all only: update_completion_with_retry_def retry_frame)

text \<open>A failed burst has changed nothing; a successful one has written the completion once.\<close>

definition burst_ok :: "burst \<Rightarrow> bool" where
  "burst_ok b \<longleftrightarrow> b 1 \<or> b 2 \<or> b 3"

definition some_burst_ok :: "burst list \<Rightarrow> bool" where
  "some_burst_ok bs \<longleftrightarrow> (\<exists>b \<in> set bs. burst_ok b)"

lemma update_retry_cases:
  "update_completion_with_retry b now st code tk =
     (if burst_ok b then (True, write_completion now st code tk) else (False, tk))"
  by (simp add: update_completion_with_retry_def burst_ok_def)

lemma persist_completion_cases:
  "persist_completion bs now st code tk =
     (if some_burst_ok bs then (True, write_completion now st code tk) else (False, tk))"
  by (induction bs) (auto simp: update_retry_cases some_burst_ok_def)

lemma mark_remote_frame [tracker_frame]:
  "progress (snd (mark_remote_execution_indeterminate env tk)) = progress tk"
  "logs (snd (mark_remote_execution_indeterminate env tk)) = logs tk"
  by (simp_all add: mark_remote_execution_indeterminate_def Let_def tracker_frame)

text \<open>The same for the results of the two writes, which later pieces take apart.\<close>

definition same_track :: "tracker \<Rightarrow> tracker \<Rightarrow> bool" where
  "same_track tk tk' \<longleftrightarrow> progress tk' = progress tk \<and> logs tk' = logs tk"

lemma write_result:
  "write_incomplete now tk = (b, tk') \<Longrightarrow> same_track tk tk' \<and> tk_processes tk' = tk_processes tk
    \<and> tk_execution_id tk' = tk_execution_id tk"
  "write_state now st ev t tk = (b, tk') \<Longrightarrow> same_track tk tk' \<and> tk_processes tk' = tk_processes tk
    \<and> tk_execution_id tk' = tk_execution_id tk"
  using write_incomplete_frame [of now tk] write_state_frame [of now st ev t tk]
  by (simp_all add: same_track_def)

lemma same_track_trans: "same_track a b \<Longrightarrow> same_track b c \<Longrightarrow> same_track a c"
  by (simp add: same_track_def)

lemma same_track_refl [simp]: "same_track a a"
  by (simp add: same_track_def)

lemma same_track_retry: "same_track tk (snd (update_completion_with_retry b now st code tk))"
  by (simp add: same_track_def tracker_frame)

lemma same_track_gap_attempt: "same_track tk (snd (gap_attempt now ws ps ev a tk))"
  unfolding gap_attempt_def
  by (auto dest!: write_result intro: same_track_trans same_track_retry
      split: prod.splits bool.splits)

lemma same_track_gap_persist: "same_track tk (snd (gap_persist now ws ps ev as tk))"
proof (induction as arbitrary: tk)
  case (Cons a as)
  show ?case
    using same_track_gap_attempt [of tk now ws ps ev a] Cons.IH
    by (auto intro: same_track_trans split: prod.splits bool.splits)
qed simp

lemmas gap_persist_frame [tracker_frame] = same_track_gap_persist [unfolded same_track_def, THEN conjunct1]
  same_track_gap_persist [unfolded same_track_def, THEN conjunct2]

lemma report_regression_frame [tracker_frame]:
  "progress (report_regression env tk) = progress tk"
  by (simp add: report_regression_def Let_def tracker_frame)

lemma push_structured_frame [tracker_frame]:
  "progress (push_structured lib env js tk) = progress tk"
  by (simp add: push_structured_def tracker_frame split: WorkerStructuredEvent.split option.split bool.split)

section \<open>The messages of an event\<close>

fun event_messages :: "tracker_lib \<Rightarrow> ExecutionEventPayload \<Rightarrow> LogMsg list" where
  "event_messages lib (EvStdout d) = [push_worker_bytes lib d False]"
| "event_messages lib (EvStderr d) = [push_worker_bytes lib d True]"
| "event_messages lib (EvStructured js) = (case classify_worker_structured lib js of
     WseLog m \<Rightarrow> [m] | WseCancellationPhase _ \<Rightarrow> [] | WseDiagnostic m \<Rightarrow> [Stderr m])"
| "event_messages lib _ = []"

definition messages :: "tracker_lib \<Rightarrow> execution_event list \<Rightarrow> LogMsg list" where
  "messages lib evs = concat (map (event_messages lib \<circ> ev_payload) evs)"

lemma messages_simps [simp]:
  "messages lib [] = []" "messages lib (e # evs) = event_messages lib (ev_payload e) @ messages lib evs"
  "messages lib (evs @ evs') = messages lib evs @ messages lib evs'"
  by (simp_all add: messages_def)

lemma logs_push_structured: "logs (push_structured lib env js tk) =
  (tk_output tk @ event_messages lib (EvStructured js), tk_disk tk, tk_seeded tk)"
  by (simp add: push_structured_def logs_def push_out_def arm_deadline_def disarm_deadline_def
      split: WorkerStructuredEvent.split option.split bool.split)

lemma logs_receive [simp]: "logs (br_tracker (receive_event ev br)) = logs (br_tracker br)"
  by (simp add: receive_event_def Let_def tracker_frame)

lemma cursor_receive [simp]: "tk_cursor (br_tracker (receive_event ev br)) = ev_sequence ev"
  by (simp add: receive_event_def Let_def advance_pushed_def)

lemma handle_event_logs:
  assumes "handle_event lib env ev br = Inr br'" and "logs (br_tracker br) = (out, disk, n)"
  shows "logs (br_tracker br') = (out @ event_messages lib (ev_payload ev), disk, n)"
proof -
  have r: "tk_output (br_tracker (receive_event ev br)) = out"
    "tk_disk (br_tracker (receive_event ev br)) = disk" "tk_seeded (br_tracker (receive_event ev br)) = n"
    using assms(2) logs_receive [of ev br] by (simp_all add: logs_def)
  from assms(1) show ?thesis
    by (cases "ev_payload ev")
      (auto simp: handle_event_def Let_def with_tracker_def r tracker_frame logs_push_structured assms(2)
        simp del: event_messages.simps(3))
qed

lemma cursor_progress: "progress tk = progress tk' \<Longrightarrow> tk_cursor tk = tk_cursor tk'"
  by (simp add: progress_def)

lemma handle_event_cursor:
  "handle_event lib env ev br = Inr br' \<Longrightarrow> tk_cursor (br_tracker br') = ev_sequence ev"
  by (cases "ev_payload ev") (auto simp: handle_event_def with_tracker_def push_out_def Let_def
      disarm_deadline_def request_interaction_def cursor_progress [OF push_structured_frame])

lemma handle_events_logs:
  assumes "handle_events lib env evs br = Inr br'" and "logs (br_tracker br) = (out, disk, n)"
  shows "logs (br_tracker br') = (out @ messages lib evs, disk, n)
    \<and> tk_cursor (br_tracker br') = (if evs = [] then tk_cursor (br_tracker br) else ev_sequence (last evs))"
  using assms
proof (induction evs arbitrary: br out)
  case (Cons ev evs)
  from Cons.prems(1) obtain b where b: "handle_event lib env ev br = Inr b"
      "handle_events lib env evs b = Inr br'"
    by (cases "handle_event lib env ev br") auto
  show ?case
    using Cons.IH [OF b(2) handle_event_logs [OF b(1) Cons.prems(2)]] handle_event_cursor [OF b(1)]
    by simp
qed simp

end
