(* ===== verification/Tracker_Safety.thy ===== *)
theory Tracker_Safety
  imports Worker_Tracker
begin

text \<open>
  The tracker as a state machine: its cursors, the journal it follows, restarts, and the outcomes it
  records. The invariant is \<open>cursor_ok\<close>; \<open>tracker_step\<close> lets worker, database and shutdowns do
  what they like, \<open>follow_step\<close> composes the tracker with the worker's journal.
\<close>

text \<open>
  The worker cuts its output where a read of the pipe ended, and the coordinator decodes every
  piece by itself. When a two-byte character is cut, both halves become replacement characters,
  although the bytes together are the character.
\<close>

theorem cut_character_corrupted:
  assumes "tl_base64 lib x = Inr [c]" and "tl_base64 lib y = Inr [d]"
    and "utf8_width (byte c) = 2" and "continuation d"
  shows "messages lib [ev \<lparr> ev_payload := EvStdout x \<rparr>, ev' \<lparr> ev_payload := EvStdout y \<rparr>] =
      [Stdout REPLACEMENT, Stdout REPLACEMENT] \<and> from_utf8_lossy [c, d] = [c, d]"
proof -
  have b: "0xC2 \<le> byte c" "byte c \<le> 0xDF" using assms(3) by (auto simp: utf8_width_def split: if_splits)
  have w: "utf8_width (byte d) = 0" using assms(4) by (simp add: continuation_def utf8_width_def)
  have "from_utf8_lossy [c] = REPLACEMENT" "from_utf8_lossy [d] = REPLACEMENT"
    by (simp_all add: from_utf8_lossy.simps utf8_chunk_def assms(3) w)
  moreover have "from_utf8_lossy [c, d] = [c, d]"
    using b assms(4) by (simp add: from_utf8_lossy.simps utf8_chunk_def assms(3) second_ok_def run_of_def)
  ultimately show ?thesis
    by (simp add: messages_def push_worker_bytes_def assms(1,2))
qed

section \<open>An iteration that goes on\<close>

lemma end_indeterminate_not_polling: "end_indeterminate env reason tk \<noteq> Polling t"
  by (auto simp: end_indeterminate_def Let_def persist_completion_cases)

lemma handle_events_not_polling: "handle_events lib env evs br \<noteq> Inl (Polling t)"
proof (induction evs arbitrary: br)
  case (Cons ev evs)
  have "handle_event lib env ev br \<noteq> Inl (Polling t)"
    by (cases "ev_payload ev") (simp_all add: handle_event_def Let_def end_indeterminate_not_polling)
  with Cons show ?case by (cases "handle_event lib env ev br") auto
qed simp

lemma same_track_mark_remote: "same_track tk (snd (mark_remote_execution_indeterminate env tk))"
  by (simp add: same_track_def tracker_frame)

lemma follow_failure_polling: "follow_failure env tk = Polling tk' \<Longrightarrow> same_track tk tk'"
  using same_track_mark_remote [of tk env]
  by (auto simp: follow_failure_def split: if_splits prod.splits bool.splits)

lemma check_deadline_polling: "check_deadline env tk = Polling tk' \<Longrightarrow> same_track tk tk'"
  by (auto simp: check_deadline_def Let_def update_retry_cases same_track_def tracker_frame
      split: if_splits)

lemma follow_events_polling:
  assumes "follow_events lib env b None tk = Polling tk'"
  obtains br tk1 where "handle_events lib env (eb_events b)
      \<lparr> br_tracker = tk, br_output_only = True, br_terminal = None \<rparr> = Inr br"
    and "br_terminal br = None"
    and "same_track (deliver_responses (pe_resolved env) (br_tracker br)) tk1"
    and "same_track (acknowledge_batch env (eb_latest_available b) False tk1) tk'"
proof -
  let ?start = "\<lparr> br_tracker = tk, br_output_only = True, br_terminal = None \<rparr>"
  obtain br where br: "handle_events lib env (eb_events b) ?start = Inr br"
    using assms handle_events_not_polling [of lib env "eb_events b" ?start tk']
    by (cases "handle_events lib env (eb_events b) ?start") (auto simp: follow_events_def)
  let ?tk0 = "deliver_responses (pe_resolved env) (br_tracker br)"
  let ?tk1 = "if eb_events b \<noteq> [] \<and> tk_deadline ?tk0 \<noteq> None then arm_deadline (pe_instant env) ?tk0 else ?tk0"
  have none: "br_terminal br = None"
    using assms br by (auto simp: follow_events_def Let_def end_terminal_def persist_completion_cases
        split: option.splits if_splits)
  have "check_deadline env (acknowledge_batch env (eb_latest_available b) False ?tk1) = Polling tk'"
    using assms br none by (simp add: follow_events_def Let_def)
  from check_deadline_polling [OF this] that [OF br none, of ?tk1] show thesis
    by (simp add: same_track_def tracker_frame)
qed

section \<open>Following a journal\<close>

lemma check_sequences_ok:
  "(\<And>i. i < length es \<Longrightarrow> unat (ev_sequence (es ! i)) = unat expected + i) \<Longrightarrow>
   check_sequences expected es = Ok ()"
proof (induction es arbitrary: expected)
  case (Cons e es)
  have e: "ev_sequence e = expected" using Cons.prems [of 0] by (simp add: word_unat_eq_iff)
  have "check_sequences (saturating_add expected 1) es = Ok ()"
  proof (rule Cons.IH)
    fix i assume i: "i < length es"
    have "unat expected + 1 = unat (ev_sequence ((e # es) ! 1))" using Cons.prems [of 1] i by (cases es) auto
    also have "\<dots> < 2 ^ 64" using unsigned_less [of "ev_sequence ((e # es) ! 1)"] by simp
    finally show "unat (ev_sequence (es ! i)) = unat (saturating_add expected 1) + i"
      using Cons.prems [of "Suc i"] i by (simp add: unat_saturating_add)
  qed
  with e show ?case by simp
qed simp

lemma window_replay_drop:
  assumes win: "window_of 0 accepted j" and gap: "\<not> eb_replay_gap (journal_replay_after j a)"
    and a: "unat a \<le> length accepted"
  shows "eb_events (journal_replay_after j a) = drop (unat a) accepted"
proof -
  have seq: "unat (ev_sequence (accepted ! i)) = Suc i" if "i < length accepted" for i
    using window_bounds(2) [OF win that] by simp
  have "filter (\<lambda>e. a < ev_sequence e) (take (unat a) accepted) = []"
    using a by (auto simp: filter_empty_conv in_set_conv_nth seq word_less_nat_alt)
  moreover have "filter (\<lambda>e. a < ev_sequence e) (drop (unat a) accepted) = drop (unat a) accepted"
    using a by (auto simp: filter_id_conv in_set_conv_nth seq word_less_nat_alt)
  ultimately have "filter (\<lambda>e. a < ev_sequence e) accepted = drop (unat a) accepted"
    by (metis append_Nil append_take_drop_id filter_append)
  then show ?thesis by (simp add: window_replay_events [OF win gap])
qed

lemma window_client_events:
  assumes win: "window_of 0 accepted j" and gap: "\<not> eb_replay_gap (journal_replay_after j a)"
    and a: "unat a \<le> length accepted"
  shows "client_events (Inr (journal_replay_after j a)) = Inr (journal_replay_after j a)"
proof -
  let ?b = "journal_replay_after j a"
  have "check_sequences (saturating_add a 1) (eb_events ?b) = Ok ()"
  proof (rule check_sequences_ok)
    fix i assume "i < length (eb_events ?b)"
    then have i: "unat a + i < length accepted" by (simp add: window_replay_drop [OF assms])
    have "unat (ev_sequence (accepted ! (unat a + i))) < 2 ^ 64"
      using unsigned_less [of "ev_sequence (accepted ! (unat a + i))"] by simp
    then show "unat (ev_sequence (eb_events ?b ! i)) = unat (saturating_add a 1) + i"
      using window_bounds(2) [OF win i] i
      by (simp add: window_replay_drop [OF assms] unat_saturating_add)
  qed
  moreover have "eb_requested_after ?b = a" by (simp add: journal_replay_after_def Let_def)
  ultimately show ?thesis using gap by (simp add: client_events_def validate_event_batch_def)
qed

lemma window_latest:
  assumes "window_of 0 accepted j"
  shows "unat (eb_latest_available (journal_replay_after j a)) = length accepted"
  using assms unat_pred [of "ej_next_sequence j"]
  by (simp add: window_of_def journal_replay_after_def Let_def journal_last_sequence_def)

text \<open>A poll of the journal without a gap brings the tracker to its end.\<close>

lemma follow_journal:
  assumes win: "window_of 0 accepted j" and gap: "\<not> eb_replay_gap (journal_replay_after j (tk_cursor tk))"
    and le: "unat (tk_cursor tk) \<le> length accepted"
    and answer: "pe_answer env = Inr (journal_replay_after j (tk_cursor tk))"
    and poll: "iterate lib env tk = Polling tk'"
  obtains br tk1 where "handle_events lib env (drop (unat (tk_cursor tk)) accepted)
      \<lparr> br_tracker = tk, br_output_only = True, br_terminal = None \<rparr> = Inr br"
    and "same_track (deliver_responses (pe_resolved env) (br_tracker br)) tk1"
    and "same_track (acknowledge_batch env (eb_latest_available (journal_replay_after j (tk_cursor tk)))
           False tk1) tk'"
proof -
  let ?b = "journal_replay_after j (tk_cursor tk)"
  have "follow_batch lib env ?b tk = Polling tk'"
    using poll answer window_client_events [OF win gap le] by (simp add: iterate_def)
  moreover have "\<not> worker_journal_regressed (tk_cursor tk) (eb_latest_available ?b)"
    using window_latest [OF win, of "tk_cursor tk"] le
    by (simp add: worker_journal_regressed_def word_less_nat_alt)
  ultimately have "follow_events lib env ?b None tk = Polling tk'" by (simp add: follow_batch_def)
  then show thesis
    by (rule follow_events_polling)
      (metis that window_replay_drop [OF win gap le])
qed

definition ack_value :: "u64 \<Rightarrow> int \<Rightarrow> int" where
  "ack_value s l = (if l \<le> sint s then sint s else l)"

lemma acked_write_ack: "acked (write_ack now s w tk) = map_option (ack_value s) (acked tk)"
proof (cases "find_job (tk_execution_id tk) (tk_jobs tk)")
  case (Some job)
  then have "ej_execution_process_id job = tk_execution_id tk"
    by (auto simp: find_job_def dest: sql_find_Some)
  with Some show ?thesis
    by (simp add: acked_def write_ack_def acknowledge_sequence_def split_beta find_job_update ack_value_def)
qed (simp add: acked_def write_ack_def acknowledge_sequence_def split_beta find_job_update)

lemma acknowledge_batch_frame:
  "logs (acknowledge_batch env latest t tk) = logs tk"
  "tk_cursor (acknowledge_batch env latest t tk) = tk_cursor tk"
  "tk_unresolved (acknowledge_batch env latest t tk) = tk_unresolved tk"
  "tk_routed (acknowledge_batch env latest t tk) = tk_routed tk"
  "tk_answered (acknowledge_batch env latest t tk) = tk_answered tk"
  "tk_execution_id (acknowledge_batch env latest t tk) = tk_execution_id tk"
  "tk_pushed (acknowledge_batch env latest t tk) =
     (if should_ack_worker_batch (tk_cursor tk) t then max (tk_pushed tk) (durable tk) else tk_pushed tk)"
  "acked (acknowledge_batch env latest t tk) =
     (if should_ack_worker_batch (tk_cursor tk) t \<and> pe_ack_ok env
      then map_option (ack_value (durable tk)) (acked tk) else acked tk)"
proof -
  have a: "acked (advance_pushed p tk) = acked tk" "acked (send_ack tk) = acked tk" for p tk
    by (simp_all add: acked_def advance_pushed_def send_ack_def)
  show "acked (acknowledge_batch env latest t tk) =
     (if should_ack_worker_batch (tk_cursor tk) t \<and> pe_ack_ok env
      then map_option (ack_value (durable tk)) (acked tk) else acked tk)"
    by (simp add: acknowledge_batch_def Let_def a acked_write_ack)
qed (simp_all add: acknowledge_batch_def Let_def logs_def advance_pushed_def send_ack_def write_ack_def)

section \<open>The cursors\<close>

text \<open>
  Neither the pushed nor the persisted cursor is ahead of what was received, nor at or past a
  request whose response is outstanding.
\<close>

definition cursor_ok :: "tracker \<Rightarrow> bool" where
  "cursor_ok tk \<longleftrightarrow> finite (tk_unresolved tk) \<and> tk_pushed tk \<le> tk_cursor tk
     \<and> (\<forall>u \<in> tk_unresolved tk. tk_pushed tk < u \<and> u \<le> tk_cursor tk)
     \<and> fst ` set (tk_routed tk) \<subseteq> tk_answered tk \<union> tk_unresolved tk
     \<and> (\<forall>l. acked tk = Some l \<longrightarrow> 0 \<le> l \<and> l \<le> uint (tk_pushed tk))"

lemma same_track_fields:
  assumes "same_track tk tk'"
  shows "tk_cursor tk' = tk_cursor tk" "tk_pushed tk' = tk_pushed tk" "tk_unresolved tk' = tk_unresolved tk"
    "tk_routed tk' = tk_routed tk" "tk_answered tk' = tk_answered tk" "acked tk' = acked tk"
    "tk_output tk' = tk_output tk" "tk_disk tk' = tk_disk tk" "tk_seeded tk' = tk_seeded tk"
    "tk_execution_id tk' = tk_execution_id tk" "tk_worker_acks tk' = tk_worker_acks tk"
  using assms by (auto simp: same_track_def progress_def logs_def)

lemma cursor_ok_progress: "progress tk' = progress tk \<Longrightarrow> cursor_ok tk' = cursor_ok tk"
  by (simp add: progress_def cursor_ok_def)

lemma cursor_ok_same_track: "same_track tk tk' \<Longrightarrow> cursor_ok tk' = cursor_ok tk"
  by (rule cursor_ok_progress) (simp add: same_track_def)

lemma durable_le: "durable tk \<le> tk_cursor tk"
  by (simp add: durable_def durable_worker_cursor_def)

lemma durable_less:
  assumes "finite (tk_unresolved tk)" "u \<in> tk_unresolved tk" "0 < u"
  shows "durable tk < u"
proof -
  have "Min (tk_unresolved tk) \<le> u" using assms by simp
  then have "unat (saturating_sub (Min (tk_unresolved tk)) 1) < unat u"
    using assms(3) by (simp add: unat_saturating_sub word_le_nat_alt word_less_nat_alt)
  with assms(2) show ?thesis
    by (auto simp: durable_def durable_worker_cursor_def min_def word_less_nat_alt word_le_nat_alt)
qed

lemma acked_fields:
  "acked (tk\<lparr> tk_cursor := c \<rparr>) = acked tk" "acked (advance_pushed p tk) = acked tk"
  "acked (deliver_responses R tk) = acked tk" "acked (request_interaction r tk) = acked tk"
  "acked (send_ack tk) = acked tk"
  by (simp_all add: acked_def advance_pushed_def deliver_responses_def request_interaction_def send_ack_def)

lemma cursor_ok_advance:
  assumes "cursor_ok tk" shows "cursor_ok (advance_pushed (durable tk) tk)"
proof -
  have "durable tk < u" if "u \<in> tk_unresolved tk" for u
    using assms that by (intro durable_less) (auto simp: cursor_ok_def word_less_nat_alt)
  with assms durable_le [of tk] show ?thesis
    by (auto simp: cursor_ok_def acked_fields advance_pushed_def [of _ tk] acked_def word_le_def max_def)
qed

lemma cursor_ok_cursor: "cursor_ok tk \<Longrightarrow> tk_cursor tk \<le> c \<Longrightarrow> cursor_ok (tk\<lparr> tk_cursor := c \<rparr>)"
  by (auto simp: cursor_ok_def acked_fields intro: order_trans)

lemma cursor_ok_deliver: "cursor_ok tk \<Longrightarrow> cursor_ok (deliver_responses R tk)"
  unfolding cursor_ok_def acked_fields by (auto simp: deliver_responses_def)

lemma cursor_ok_request:
  "cursor_ok tk \<Longrightarrow> tk_pushed tk < tk_cursor tk \<Longrightarrow> cursor_ok (request_interaction r tk)"
  unfolding cursor_ok_def acked_fields by (auto simp: request_interaction_def)

lemma cursor_ok_receive:
  assumes "cursor_ok (br_tracker br)" "tk_cursor (br_tracker br) < ev_sequence ev"
  shows "cursor_ok (br_tracker (receive_event ev br))"
  using cursor_ok_advance [OF cursor_ok_cursor [OF assms(1) order.strict_implies_order [OF assms(2)]]]
    cursor_ok_cursor [OF assms(1) order.strict_implies_order [OF assms(2)]]
  by (simp add: receive_event_def Let_def)

lemma receive_request_pushed:
  assumes "cursor_ok (br_tracker br)" "tk_cursor (br_tracker br) < ev_sequence ev"
    "ev_payload ev = EvInteractionRequested r"
  shows "tk_pushed (br_tracker (receive_event ev br)) < tk_cursor (br_tracker (receive_event ev br))"
  using assms by (auto simp: receive_event_def Let_def cursor_ok_def)

lemma cursor_ok_handle_event:
  assumes "handle_event lib env ev br = Inr br'" "cursor_ok (br_tracker br)"
    "tk_cursor (br_tracker br) < ev_sequence ev"
  shows "cursor_ok (br_tracker br')"
proof -
  note r = cursor_ok_receive [OF assms(2,3)]
  show ?thesis
    using assms(1) r cursor_ok_request [OF r receive_request_pushed [OF assms(2,3)]]
    by (cases "ev_payload ev") (auto simp: handle_event_def Let_def with_tracker_def
        cursor_ok_progress [OF small_frame(1)] cursor_ok_progress [OF small_frame(4)]
        cursor_ok_progress [OF push_structured_frame])
qed

fun ascending :: "u64 \<Rightarrow> execution_event list \<Rightarrow> bool" where
  "ascending c [] = True"
| "ascending c (e # es) = (c < ev_sequence e \<and> ascending (ev_sequence e) es)"

lemma cursor_ok_handle_events:
  "handle_events lib env evs br = Inr br' \<Longrightarrow> cursor_ok (br_tracker br) \<Longrightarrow>
   ascending (tk_cursor (br_tracker br)) evs \<Longrightarrow> cursor_ok (br_tracker br')"
proof (induction evs arbitrary: br)
  case (Cons ev evs)
  then obtain b where b: "handle_event lib env ev br = Inr b" "handle_events lib env evs b = Inr br'"
    by (cases "handle_event lib env ev br") auto
  show ?case
    using Cons.IH [OF b(2)] Cons.prems(2,3) cursor_ok_handle_event [OF b(1)] handle_event_cursor [OF b(1)]
    by simp
qed simp

lemma sint_cases: "sint s = uint s \<or> sint s < 0" for s :: u64
proof -
  have "sint s = uint s - 2 ^ 64 * of_bool (bit (uint s) 63)"
    using uint_bounded [of s]
    by (simp add: sint_uint signed_take_bit_eq_take_bit_minus take_bit_int_eq_self)
  then show ?thesis using uint_bounded [of s] by (cases "bit (uint s) 63") simp_all
qed

lemma sint_small:
  assumes "unat s < 2 ^ 63" shows "sint s = uint (s :: u64)"
proof -
  have "uint s < 2 ^ 63" using assms by (simp flip: nat_uint_eq add: nat_less_iff)
  moreover have "- (2 ^ 63) \<le> uint s" by (rule order_trans [OF _ uint_ge_0]) simp
  ultimately show ?thesis by (simp only: sint_uint) (simp add: signed_take_bit_int_eq_self)
qed

lemma ack_value_bounds:
  "0 \<le> l \<Longrightarrow> 0 \<le> ack_value s l \<and> ack_value s l \<le> max l (uint s)"
  using sint_cases [of s] by (auto simp: ack_value_def)

lemma cursor_ok_cong:
  assumes "cursor_ok tk" "tk_cursor tk' = tk_cursor tk" "tk_unresolved tk' = tk_unresolved tk"
    "tk_routed tk' = tk_routed tk" "tk_answered tk' = tk_answered tk"
    "tk_pushed tk' = tk_pushed tk \<or> tk_pushed tk' = max (tk_pushed tk) (durable tk)"
    "acked tk' = acked tk \<or> (\<exists>s. acked tk' = map_option (ack_value s) (acked tk) \<and> s \<le> tk_pushed tk')"
  shows "cursor_ok tk'"
proof -
  have adv: "cursor_ok (advance_pushed (durable tk) tk)" by (rule cursor_ok_advance [OF assms(1)])
  have mono: "uint (tk_pushed tk) \<le> uint (tk_pushed tk')"
    using assms(6) by (auto simp: word_le_def [symmetric])
  have "\<forall>l. acked tk' = Some l \<longrightarrow> 0 \<le> l \<and> l \<le> uint (tk_pushed tk')"
  proof (intro allI impI)
    fix l assume l: "acked tk' = Some l"
    from assms(7) show "0 \<le> l \<and> l \<le> uint (tk_pushed tk')"
    proof
      assume "acked tk' = acked tk"
      with l assms(1) mono show ?thesis by (auto simp: cursor_ok_def)
    next
      assume "\<exists>s. acked tk' = map_option (ack_value s) (acked tk) \<and> s \<le> tk_pushed tk'"
      then obtain s l0 where s: "s \<le> tk_pushed tk'" "acked tk = Some l0" "l = ack_value s l0"
        using l by (cases "acked tk") auto
      then have "0 \<le> l0" "l0 \<le> uint (tk_pushed tk')" "uint s \<le> uint (tk_pushed tk')"
        using assms(1) mono by (auto simp: cursor_ok_def word_le_def)
      with ack_value_bounds [of l0 s] s(3) show ?thesis by auto
    qed
  qed
  with assms adv show ?thesis
    by (auto simp: cursor_ok_def advance_pushed_def)
qed

lemma cursor_ok_ack:
  "cursor_ok tk \<Longrightarrow> s \<le> tk_pushed tk \<Longrightarrow> cursor_ok (write_ack now s w tk)"
  by (rule cursor_ok_cong [of tk]) (auto simp: write_ack_def acked_write_ack [unfolded write_ack_def])

lemma cursor_ok_acknowledge: "cursor_ok tk \<Longrightarrow> cursor_ok (acknowledge_batch env latest t tk)"
  by (rule cursor_ok_cong [of tk]) (auto simp: acknowledge_batch_frame)

section \<open>The tracker as a state machine\<close>

text \<open>
  What the client relies on: the worker answers for the cursor it was asked about, sequence numbers
  stay below the last one (the journal refuses to append there), and a gap lies after the cursor.
\<close>

definition answer_ok :: "poll_env \<Rightarrow> tracker \<Rightarrow> bool" where
  "answer_ok env tk \<longleftrightarrow> (case client_events (pe_answer env) of
     Inr b \<Rightarrow> eb_requested_after b = tk_cursor tk \<and> unat (tk_cursor tk) + length (eb_events b) < 2 ^ 64
   | Inl (ReplayGap _ earliest) \<Rightarrow> tk_cursor tk < earliest
   | Inl _ \<Rightarrow> True)"

fun live_tracker :: "flow \<Rightarrow> tracker option" where
  "live_tracker (Polling tk) = Some tk"
| "live_tracker (Stalled tk) = Some tk"
| "live_tracker (Ended tk) = None"

definition tracker_start :: "tracker \<Rightarrow> bool" where
  "tracker_start tk \<longleftrightarrow> tk_cursor tk = 0 \<and> tk_pushed tk = 0 \<and> tk_unresolved tk = {}
     \<and> tk_routed tk = [] \<and> tk_answered tk = {} \<and> acked tk = Some 0
     \<and> tk_output tk = [] \<and> tk_disk tk = [] \<and> tk_seeded tk = 0"

text \<open>
  \<open>turn\<close> is an iteration, also one that is still retrying; \<open>interrupted\<close> a state inside the
  loop over the events; \<open>delivered\<close> a response that reached the worker; \<open>restarted\<close> a shutdown,
  orderly or not, and the boot after it.
\<close>

inductive tracker_step :: "tracker_lib \<Rightarrow> tracker \<Rightarrow> tracker \<Rightarrow> bool" for lib where
  turn: "answer_ok env tk \<Longrightarrow> live_tracker (iterate lib env tk) = Some tk' \<Longrightarrow> tracker_step lib tk tk'"
| interrupted: "ascending (tk_cursor tk) evs \<Longrightarrow> handle_events lib env evs
      \<lparr> br_tracker = tk, br_output_only = True, br_terminal = t \<rparr> = Inr br \<Longrightarrow>
    tracker_step lib tk (br_tracker br)"
| delivered: "tracker_step lib tk (deliver_responses R tk)"
| restarted: "reattach_worker_execution (hand_off h tk) = Some tk' \<Longrightarrow> tracker_step lib tk tk'"

inductive_cases tracker_stepE: "tracker_step lib tk tk'"

lemma check_sequences_ascending:
  "check_sequences (saturating_add c 1) es = Ok () \<Longrightarrow> unat c + length es < 2 ^ 64 \<Longrightarrow> ascending c es"
proof (induction es arbitrary: c)
  case (Cons e es)
  have "unat (saturating_add c 1) = Suc (unat c)"
    using Cons.prems(2) by (simp add: unat_saturating_add)
  moreover have "ev_sequence e = saturating_add c 1" "check_sequences (saturating_add (saturating_add c 1) 1) es = Ok ()"
    using Cons.prems(1) by (auto split: if_splits)
  ultimately show ?case
    using Cons.IH [of "saturating_add c 1"] Cons.prems(2) by (simp add: word_less_nat_alt)
qed simp

lemma answer_ascending:
  assumes "answer_ok env tk" "client_events (pe_answer env) = Inr b"
  shows "ascending (tk_cursor tk) (eb_events b)"
proof -
  have "validate_event_batch b = Ok ()"
    using assms(2) by (cases "pe_answer env"; cases "validate_event_batch b")
      (auto simp: client_events_def)
  then show ?thesis
    using assms by (intro check_sequences_ascending)
      (auto simp: answer_ok_def validate_event_batch_def split: if_splits)
qed

lemma end_indeterminate_cases:
  "end_indeterminate env reason tk =
     (let tk1 = push_out (Stderr (indeterminate_text reason)) tk;
          tk2 = (if pe_state_ok env
                 then snd (write_state (pe_now env) DsIndeterminate None (pe_now env) tk1) else tk1)
      in if some_burst_ok (pe_bursts env)
         then Ended (write_completion (pe_now env) EpIndeterminate None tk2) else Stalled tk2)"
  by (simp add: end_indeterminate_def Let_def persist_completion_cases)

lemma end_indeterminate_live:
  "live_tracker (end_indeterminate env reason tk) = Some tk' \<Longrightarrow> progress tk' = progress tk"
  by (auto simp: end_indeterminate_cases Let_def tracker_frame split: if_splits)

lemma handle_events_Inl:
  "handle_events lib env evs br = Inl fl \<Longrightarrow> live_tracker fl = Some tk' \<Longrightarrow>
   cursor_ok (br_tracker br) \<Longrightarrow> ascending (tk_cursor (br_tracker br)) evs \<Longrightarrow> cursor_ok tk'"
proof (induction evs arbitrary: br)
  case (Cons ev evs)
  have less: "tk_cursor (br_tracker br) < ev_sequence ev" using Cons.prems(4) by simp
  show ?case
  proof (cases "handle_event lib env ev br")
    case (Inl fl')
    then obtain reason where "fl = end_indeterminate env reason (br_tracker (receive_event ev br))"
      using Cons.prems(1) by (cases "ev_payload ev") (auto simp: handle_event_def Let_def)
    with Cons.prems(2) have "progress tk' = progress (br_tracker (receive_event ev br))"
      by (auto dest: end_indeterminate_live)
    then show ?thesis
      using cursor_ok_progress cursor_ok_receive [OF Cons.prems(3) less] by blast
  next
    case (Inr b)
    show ?thesis
      using Cons.IH [of b] Cons.prems Inr cursor_ok_handle_event [OF Inr Cons.prems(3) less]
        handle_event_cursor [OF Inr] by simp
  qed
qed simp

lemma end_terminal_cases:
  "end_terminal env latest (ws, ps, ev) tk =
     (let tk1 = (if pe_state_ok env
                 then snd (write_state (pe_now env) ws (Some ev) (te_observed_at ev) tk) else tk);
          tk2 = (if stopped (pe_stopped_read_ok env) tk1 then tk1
                 else write_completion (pe_now env) ps (te_exit_code ev) tk1)
      in if stopped (pe_stopped_read_ok env) tk1 \<or> some_burst_ok (pe_bursts env)
         then Ended (send_ack
           (if pe_ack_ok env then write_ack (pe_now env) (tk_cursor tk2) latest tk2 else tk2))
         else Stalled tk1)"
  by (simp add: end_terminal_def Let_def persist_completion_cases)

lemma end_terminal_live:
  "live_tracker (end_terminal env latest out tk) = Some tk' \<Longrightarrow> progress tk' = progress tk"
  by (cases out) (auto simp: end_terminal_cases Let_def tracker_frame split: if_splits)

lemma cursor_ok_follow_events:
  assumes "cursor_ok tk" "ascending (tk_cursor tk) (eb_events b)"
    and "live_tracker (follow_events lib env b recovered tk) = Some tk'"
  shows "cursor_ok tk'"
proof -
  let ?start = "\<lparr> br_tracker = tk, br_output_only = True, br_terminal = recovered \<rparr>"
  show ?thesis
  proof (cases "handle_events lib env (eb_events b) ?start")
    case (Inl fl)
    then show ?thesis using assms handle_events_Inl [OF Inl] by (simp add: follow_events_def)
  next
    case (Inr br)
    let ?tk0 = "deliver_responses (pe_resolved env) (br_tracker br)"
    let ?tk1 = "if eb_events b \<noteq> [] \<and> tk_deadline ?tk0 \<noteq> None then arm_deadline (pe_instant env) ?tk0 else ?tk0"
    let ?tk2 = "acknowledge_batch env (eb_latest_available b) (br_terminal br \<noteq> None) ?tk1"
    have "cursor_ok (br_tracker br)" using cursor_ok_handle_events [OF Inr] assms by simp
    then have "cursor_ok ?tk1"
      using cursor_ok_deliver cursor_ok_progress [OF small_frame(2)] by auto
    then have ok: "cursor_ok ?tk2" by (rule cursor_ok_acknowledge)
    have "progress tk' = progress ?tk2"
    proof (cases "br_terminal br")
      case None
      with Inr assms(3) have "live_tracker (check_deadline env ?tk2) = Some tk'"
        by (simp add: follow_events_def Let_def)
      then show ?thesis
        using check_deadline_polling [of env ?tk2] 
        by (cases "check_deadline env ?tk2")
          (auto simp: same_track_def, auto simp: check_deadline_def Let_def update_retry_cases split: if_splits)
    next
      case (Some out)
      with Inr assms(3) have "live_tracker (end_terminal env (eb_latest_available b) out ?tk2) = Some tk'"
        by (simp add: follow_events_def Let_def)
      then show ?thesis by (rule end_terminal_live)
    qed
    then show ?thesis using ok cursor_ok_progress by blast
  qed
qed

lemma follow_regression_cases:
  "follow_regression env latest tk = Inr (tk1, r) \<Longrightarrow> progress tk1 = progress tk"
  "follow_regression env latest tk = Inl fl \<Longrightarrow> live_tracker fl = Some tk1 \<Longrightarrow> progress tk1 = progress tk"
  using report_regression_frame [of env tk] mark_remote_frame(1) [of env "report_regression env tk"]
  by (auto simp: follow_regression_def Let_def split: option.splits if_splits prod.splits bool.splits)

lemma cursor_ok_follow_gap:
  assumes "cursor_ok tk" "tk_cursor tk < earliest"
    and "live_tracker (follow_gap env requested_after earliest tk) = Some tk'"
  shows "cursor_ok tk'"
proof (cases "fst (gap_evidence env earliest tk) = None \<and> snd (gap_evidence env earliest tk)")
  case True
  let ?tk1 = "push_out (Stderr (lost_output_text requested_after earliest))
    (if pe_mark_ok env then snd (write_incomplete (pe_now env) tk) else tk)"
  let ?tk2 = "?tk1\<lparr> tk_cursor := saturating_sub earliest 1 \<rparr>"
  have p: "progress ?tk1 = progress tk" by (simp add: tracker_frame)
  then have "cursor_ok ?tk1" using cursor_ok_progress assms(1) by blast
  moreover have "tk_cursor ?tk1 \<le> saturating_sub earliest 1"
    using cursor_progress [OF p] assms(2)
    by (simp add: word_le_nat_alt word_less_nat_alt unat_saturating_sub)
  ultimately have "cursor_ok (advance_pushed (durable ?tk2) ?tk2)"
    by (intro cursor_ok_advance cursor_ok_cursor)
  moreover have "tk' = advance_pushed (durable ?tk2) ?tk2"
    using assms(3) True by (simp add: follow_gap_def Let_def split_beta)
  ultimately show ?thesis by simp
next
  case False
  have "same_track tk tk'"
    using assms(3) False
    by (auto simp: follow_gap_def Let_def split_beta split: option.splits bool.splits prod.splits if_splits
        intro: same_track_gap_persist)
  then show ?thesis using assms(1) cursor_ok_same_track by blast
qed

lemma cursor_ok_turn:
  assumes ok: "cursor_ok tk" and ans: "answer_ok env tk"
    and live: "live_tracker (iterate lib env tk) = Some tk'"
  shows "cursor_ok tk'"
proof (cases "client_events (pe_answer env)")
  case (Inr b)
  note asc = answer_ascending [OF ans Inr]
  show ?thesis
  proof (cases "worker_journal_regressed (tk_cursor tk) (eb_latest_available b)")
    case False
    with live Inr have "live_tracker (follow_events lib env b None tk) = Some tk'"
      by (simp add: iterate_def follow_batch_def)
    then show ?thesis by (rule cursor_ok_follow_events [OF ok asc])
  next
    case True
    show ?thesis
    proof (cases "follow_regression env (eb_latest_available b) tk")
      case (Inl fl)
      with live \<open>client_events _ = Inr b\<close> True have "live_tracker fl = Some tk'"
        by (simp add: iterate_def follow_batch_def)
      then show ?thesis using follow_regression_cases(2) [OF Inl] ok cursor_ok_progress by blast
    next
      case (Inr p)
      obtain tk1 r where p: "p = (tk1, r)" by (cases p)
      have prog: "progress tk1 = progress tk" using follow_regression_cases(1) Inr p by blast
      have "live_tracker (follow_events lib env b (Some r) tk1) = Some tk'"
        using live \<open>client_events _ = Inr b\<close> True Inr p by (simp add: iterate_def follow_batch_def)
      then show ?thesis
        using cursor_ok_follow_events [of tk1 b] ok asc cursor_ok_progress [OF prog] cursor_progress [OF prog]
        by simp
    qed
  qed
next
  case (Inl e)
  show ?thesis
  proof (cases "\<exists>r n. e = ReplayGap r n")
    case True
    with Inl ans live show ?thesis
      by (auto simp: answer_ok_def iterate_def intro: cursor_ok_follow_gap [OF ok])
  next
    case False
    with Inl live have "live_tracker (follow_failure env tk) = Some tk'"
      by (cases e) (simp_all add: iterate_def)
    then have "same_track tk tk'"
      using follow_failure_polling [of env tk]
      by (cases "follow_failure env tk") (auto simp: follow_failure_def split: if_splits prod.splits bool.splits)
    then show ?thesis using ok cursor_ok_same_track by blast
  qed
qed

lemma cursor_ok_hand_off:
  assumes "cursor_ok tk" shows "cursor_ok (hand_off h tk)"
proof -
  have "cursor_ok (tk\<lparr> tk_disk := d \<rparr>)" for d
    using assms by (simp add: cursor_ok_def acked_def)
  then show ?thesis by (auto simp: hand_off_def Let_def intro!: cursor_ok_ack)
qed

lemma hand_off_simps [simp]:
  "tk_cursor (hand_off h tk) = tk_cursor tk" "tk_pushed (hand_off h tk) = tk_pushed tk"
  "tk_unresolved (hand_off h tk) = tk_unresolved tk" "tk_routed (hand_off h tk) = tk_routed tk"
  "tk_answered (hand_off h tk) = tk_answered tk" "tk_output (hand_off h tk) = tk_output tk"
  "tk_execution_id (hand_off h tk) = tk_execution_id tk"
  by (simp_all add: hand_off_def Let_def write_ack_def)

text \<open>Where a re-attached tracker starts.\<close>

lemma reattach_Some:
  assumes "reattach_worker_execution tk = Some tk'" "cursor_ok tk"
  obtains l where "acked tk = Some l" "uint (tk_cursor tk') = l" "tk_cursor tk' \<le> tk_pushed tk"
    "tk' = track_worker_msgs (tk_disk tk) (tk_cursor tk') tk"
proof -
  obtain job where job: "find_job (tk_execution_id tk) (tk_jobs tk) = Some job"
    "tk' = track_worker_msgs (tk_disk tk) (persisted_cursor job) tk"
    using assms(1) by (auto simp: reattach_worker_execution_def Let_def should_hand_off_worker_job_def
        split: if_splits)
  let ?l = "ej_last_event_sequence job"
  have l: "acked tk = Some ?l" using job(1) by (simp add: acked_def)
  with assms(2) have b: "0 \<le> ?l" "?l \<le> uint (tk_pushed tk)" by (auto simp: cursor_ok_def)
  have "tk_cursor tk' = persisted_cursor job" using job(2) by (simp add: track_worker_msgs_def)
  moreover have "uint (persisted_cursor job) = ?l"
    using b uint_bounded [of "tk_pushed tk"] by (simp add: persisted_cursor_def word_of_int_inverse uint_word_of_int)
  ultimately show thesis using that l b job(2) by (metis word_le_def)
qed

lemma cursor_ok_reattach:
  assumes "reattach_worker_execution tk = Some tk'" "cursor_ok tk"
  shows "cursor_ok tk'"
proof -
  obtain l where l: "acked tk = Some l" "uint (tk_cursor tk') = l"
    "tk' = track_worker_msgs (tk_disk tk) (tk_cursor tk') tk"
    using reattach_Some [OF assms] by metis
  have "acked tk' = acked tk" by (subst l(3)) (simp add: acked_def track_worker_msgs_def)
  moreover have "tk_pushed tk' = tk_cursor tk'" "tk_unresolved tk' = {}" "tk_routed tk' = []"
    by (subst l(3), simp add: track_worker_msgs_def)+
  ultimately show ?thesis using l(1,2) by (auto simp: cursor_ok_def)
qed

lemma cursor_ok_start: "tracker_start tk \<Longrightarrow> cursor_ok tk"
  by (simp add: tracker_start_def cursor_ok_def)

lemma cursor_ok_step: "cursor_ok tk \<Longrightarrow> tracker_step lib tk tk' \<Longrightarrow> cursor_ok tk'"
  by (erule tracker_stepE)
    (auto intro: cursor_ok_turn cursor_ok_handle_events cursor_ok_deliver cursor_ok_reattach cursor_ok_hand_off)

interpretation tracker: invariant_system tracker_start "tracker_step lib" cursor_ok for lib
  by unfold_locales (auto intro: cursor_ok_start cursor_ok_step)

text \<open>
  However and whenever the coordinator goes down, the tracker of the next run starts before every
  interaction request this run received and did not get the response of to the worker, so the
  request is replayed and its waiter built anew.
\<close>

theorem unanswered_request_replayed:
  assumes "reach tracker_start (tracker_step lib) tk"
    and "reattach_worker_execution (hand_off h tk) = Some tk'"
    and "(s, interaction) \<in> set (tk_routed tk)" and "s \<notin> tk_answered tk"
  shows "tk_cursor tk' < s"
proof -
  have ok: "cursor_ok tk" by (rule tracker.inv_reach [OF assms(1)])
  have "fst (s, interaction) \<in> fst ` set (tk_routed tk)" by (rule imageI) (rule assms(3))
  with ok assms(4) have "s \<in> tk_unresolved tk" by (auto simp: cursor_ok_def)
  with ok have "tk_pushed tk < s" by (auto simp: cursor_ok_def)
  moreover have "tk_cursor tk' \<le> tk_pushed tk"
    using reattach_Some [OF assms(2) cursor_ok_hand_off [OF ok]] by auto
  ultimately show ?thesis by simp
qed

section \<open>Nothing the worker wrote is lost\<close>

text \<open>
  The tracker against the journal of the worker: appends, polls that find no gap, failed polls,
  delivered responses, and restarts whose writer got through its lines. With \<open>clean\<close> a restart
  also waits until everything received is acknowledged.
\<close>

inductive follow_step :: "tracker_lib \<Rightarrow> bool \<Rightarrow> event_journal \<times> execution_event list \<times> tracker
    \<Rightarrow> event_journal \<times> execution_event list \<times> tracker \<Rightarrow> bool" for lib clean where
  append: "journal_append j ts p = (Ok s, j') \<Longrightarrow>
    follow_step lib clean (j, es, tk) (j', es @ [stamped j ts p], tk)"
| poll: "\<not> eb_replay_gap (journal_replay_after j (tk_cursor tk)) \<Longrightarrow>
    pe_answer env = Inr (journal_replay_after j (tk_cursor tk)) \<Longrightarrow>
    iterate lib env tk = Polling tk' \<Longrightarrow> follow_step lib clean (j, es, tk) (j, es, tk')"
| failed: "pe_answer env = Inl e \<Longrightarrow> \<forall>r n. e \<noteq> ReplayGap r n \<Longrightarrow> iterate lib env tk = Polling tk' \<Longrightarrow>
    follow_step lib clean (j, es, tk) (j, es, tk')"
| delivered: "follow_step lib clean (j, es, tk) (j, es, deliver_responses R tk)"
| restarted: "he_flushed h \<Longrightarrow>
    (clean \<Longrightarrow> he_ack_ok h \<and> tk_pushed tk = tk_cursor tk \<and> unat (tk_cursor tk) < 2 ^ 63) \<Longrightarrow>
    reattach_worker_execution (hand_off h tk) = Some tk' \<Longrightarrow>
    follow_step lib clean (j, es, tk) (j, es, tk')"

fun follow_start :: "event_journal \<times> execution_event list \<times> tracker \<Rightarrow> bool" where
  "follow_start (j, es, tk) \<longleftrightarrow> (\<exists>i c. journal_new i c = Ok j) \<and> es = [] \<and> tracker_start tk"

text \<open>The raw lines of the events up to a cursor.\<close>

definition raw_lines :: "tracker_lib \<Rightarrow> execution_event list \<Rightarrow> u64 \<Rightarrow> LogMsg list" where
  "raw_lines lib es cursor = filter is_raw (messages lib (take (unat cursor) es))"

lemma filter_raw_lines [simp]: "filter is_raw (raw_lines lib es c) = raw_lines lib es c"
  by (simp add: raw_lines_def)

definition log_ok :: "bool \<Rightarrow> LogMsg list \<Rightarrow> LogMsg list \<times> LogMsg list \<times> nat \<Rightarrow> bool" where
  "log_ok clean lines l \<longleftrightarrow> (case l of (out, disk, seeded) \<Rightarrow>
     Finished \<notin> set out \<and> seeded \<le> length (filter is_raw out) \<and> disk = take seeded (filter is_raw out)
     \<and> subseq lines (filter is_raw out) \<and> (clean \<longrightarrow> filter is_raw out = lines))"

fun follow_ok :: "tracker_lib \<Rightarrow> bool \<Rightarrow> event_journal \<times> execution_event list \<times> tracker \<Rightarrow> bool" where
  "follow_ok lib clean (j, es, tk) \<longleftrightarrow> window_of 0 es j \<and> unat (tk_cursor tk) \<le> length es
     \<and> cursor_ok tk \<and> acked tk \<noteq> None
     \<and> (Finished \<notin> set (messages lib es) \<longrightarrow> log_ok clean (raw_lines lib es (tk_cursor tk)) (logs tk))"

lemma is_raw_Finished [simp]: "\<not> is_raw Finished"
  by (simp add: is_raw_def)

lemma write_raw_logs_drop:
  "Finished \<notin> set out \<Longrightarrow> write_raw_logs n (out @ [Finished]) = drop n (filter is_raw out)"
proof (induction out arbitrary: n)
  case (Cons m ms)
  then show ?case by (cases n) auto
qed simp

lemma log_ok_extend:
  "log_ok clean lines (out, disk, n) \<Longrightarrow> Finished \<notin> set ms \<Longrightarrow>
   log_ok clean (lines @ filter is_raw ms) (out @ ms, disk, n)"
  by (auto simp: log_ok_def list_emb_append_mono)

text \<open>A flushed hand-over leaves all raw lines on disk, and the next store starts with them.\<close>

lemma log_ok_restart:
  assumes "log_ok clean lines (tk_output tk, tk_disk tk, tk_seeded tk)" and "he_flushed h"
  shows "tk_disk (hand_off h tk) = filter is_raw (tk_output tk)"
  using assms write_raw_logs_drop [of "tk_output tk" "tk_seeded tk"]
  by (auto simp: hand_off_def Let_def log_ok_def write_ack_def)

lemma subseq_raw_lines_le:
  assumes "unat c \<le> unat d" shows "subseq (raw_lines lib es c) (raw_lines lib es d)"
proof -
  have "take (unat d) es = take (unat c) es @ drop (unat c) (take (unat d) es)"
    using assms by (metis append_take_drop_id min.absorb1 take_take)
  then have "raw_lines lib es d = raw_lines lib es c @
      filter is_raw (messages lib (drop (unat c) (take (unat d) es)))"
    unfolding raw_lines_def by (metis filter_append messages_simps(3))
  then show ?thesis by (simp add: prefix_imp_subseq)
qed

lemma handle_events_acked:
  "handle_events lib env evs br = Inr br' \<Longrightarrow> acked (br_tracker br') = acked (br_tracker br)"
proof (induction evs arbitrary: br)
  case (Cons ev evs)
  then obtain b where b: "handle_event lib env ev br = Inr b" "handle_events lib env evs b = Inr br'"
    by (cases "handle_event lib env ev br") auto
  have p: "acked tk' = acked tk" if "progress tk' = progress tk" for tk tk'
    using that by (simp add: progress_def)
  have "acked (br_tracker (receive_event ev br)) = acked (br_tracker br)"
    by (simp add: receive_event_def Let_def acked_fields)
  with b(1) have "acked (br_tracker b) = acked (br_tracker br)"
    by (cases "ev_payload ev") (auto simp: handle_event_def Let_def with_tracker_def acked_fields
        p [OF small_frame(1)] p [OF small_frame(4)] p [OF push_structured_frame])
  with Cons.IH [OF b(2)] show ?case by simp
qed simp

lemma ascending_window:
  assumes "window_of 0 es j" shows "ascending c (drop (unat c) es)"
proof -
  have "ascending c (drop n es)" if "unat c \<le> n" for c n
    using that
  proof (induction "length es - n" arbitrary: c n)
    case (Suc k)
    then have n: "n < length es" by simp
    then have d: "drop n es = es ! n # drop (Suc n) es" by (simp add: Cons_nth_drop_Suc)
    have "unat (ev_sequence (es ! n)) = Suc n" using window_bounds(2) [OF assms n] by simp
    with Suc.hyps(1) [of "Suc n" "ev_sequence (es ! n)"] Suc.hyps(2) Suc.prems d show ?case
      by (simp add: word_less_nat_alt)
  qed simp
  then show ?thesis by simp
qed

lemma follow_ok_poll:
  assumes ok: "follow_ok lib clean (j, es, tk)"
    and gap: "\<not> eb_replay_gap (journal_replay_after j (tk_cursor tk))"
    and ans: "pe_answer env = Inr (journal_replay_after j (tk_cursor tk))"
    and poll: "iterate lib env tk = Polling tk'"
  shows "follow_ok lib clean (j, es, tk')"
proof -
  let ?c = "unat (tk_cursor tk)" let ?evs = "drop ?c es"
  have win: "window_of 0 es j" and le: "?c \<le> length es" and cok: "cursor_ok tk"
    and some: "acked tk \<noteq> None"
    and log: "Finished \<notin> set (messages lib es) \<longrightarrow> log_ok clean (raw_lines lib es (tk_cursor tk)) (logs tk)"
    using ok by auto
  obtain br tk1 where br: "handle_events lib env ?evs
        \<lparr> br_tracker = tk, br_output_only = True, br_terminal = None \<rparr> = Inr br"
      and t1: "same_track (deliver_responses (pe_resolved env) (br_tracker br)) tk1"
      and t2: "same_track (acknowledge_batch env (eb_latest_available (journal_replay_after j (tk_cursor tk)))
        False tk1) tk'"
    by (rule follow_journal [OF win gap le ans poll])
  have lg: "logs (br_tracker br) = (tk_output tk @ messages lib ?evs, tk_disk tk, tk_seeded tk)"
    and cur: "tk_cursor (br_tracker br) = (if ?evs = [] then tk_cursor tk else ev_sequence (last ?evs))"
    using handle_events_logs [OF br] by (simp_all add: logs_def)
  have "cursor_ok (br_tracker br)"
    using cursor_ok_handle_events [OF br] cok ascending_window [OF win] by simp
  then have c1: "cursor_ok tk1" using cursor_ok_deliver cursor_ok_same_track [OF t1] by blast
  then have "cursor_ok tk'" using cursor_ok_acknowledge cursor_ok_same_track [OF t2] by blast
  moreover have "acked tk' \<noteq> None"
    using some handle_events_acked [OF br] same_track_fields(6) [OF t1] same_track_fields(6) [OF t2]
    by (auto simp: acknowledge_batch_frame acked_fields)
  moreover have cur': "unat (tk_cursor tk') = length es"
  proof -
    have "tk_cursor tk' = tk_cursor (br_tracker br)"
      using same_track_fields(1) [OF t1] same_track_fields(1) [OF t2]
      by (simp add: acknowledge_batch_frame deliver_responses_def)
    moreover have "unat (ev_sequence (last ?evs)) = length es" if "?evs \<noteq> []"
      using that window_bounds(2) [OF win, of "length es - 1"] by (simp add: last_conv_nth)
    ultimately show ?thesis using le cur by (cases "?evs = []") auto
  qed
  moreover have "log_ok clean (raw_lines lib es (tk_cursor tk')) (logs tk')" if "Finished \<notin> set (messages lib es)"
  proof -
    have split: "messages lib es = messages lib (take ?c es) @ messages lib ?evs"
      by (metis append_take_drop_id messages_simps(3))
    have "logs tk' = (tk_output tk @ messages lib ?evs, tk_disk tk, tk_seeded tk)"
      using t1 t2 lg by (simp add: same_track_def acknowledge_batch_frame tracker_frame)
    moreover have "raw_lines lib es (tk_cursor tk') =
        raw_lines lib es (tk_cursor tk) @ filter is_raw (messages lib ?evs)"
      by (simp add: raw_lines_def cur' split)
    ultimately show ?thesis
      using log that split log_ok_extend [of clean "raw_lines lib es (tk_cursor tk)"] by (simp add: logs_def)
  qed
  ultimately show ?thesis using win by simp
qed

lemma follow_ok_same:
  assumes "follow_ok lib clean (j, es, tk)" "progress tk' = progress tk" "logs tk' = logs tk"
  shows "follow_ok lib clean (j, es, tk')"
  using assms cursor_progress [OF assms(2)] cursor_ok_progress [OF assms(2)]
  by (simp add: progress_def)

lemma follow_ok_append:
  assumes "follow_ok lib clean (j, es, tk)" "journal_append j ts p = (Ok s, j')"
  shows "follow_ok lib clean (j', es @ [stamped j ts p], tk)"
proof -
  have "raw_lines lib (es @ [stamped j ts p]) (tk_cursor tk) = raw_lines lib es (tk_cursor tk)"
    using assms(1) by (simp add: raw_lines_def)
  with assms window_of_append [of 0 es j ts p s j'] show ?thesis by simp
qed

lemma follow_ok_restart:
  assumes ok: "follow_ok lib clean (j, es, tk)" and fl: "he_flushed h"
    and cl: "clean \<Longrightarrow> he_ack_ok h \<and> tk_pushed tk = tk_cursor tk \<and> unat (tk_cursor tk) < 2 ^ 63"
    and re: "reattach_worker_execution (hand_off h tk) = Some tk'"
  shows "follow_ok lib clean (j, es, tk')"
proof -
  have cok: "cursor_ok tk" using ok by simp
  obtain l where l: "acked (hand_off h tk) = Some l" "uint (tk_cursor tk') = l"
    "tk_cursor tk' \<le> tk_pushed (hand_off h tk)"
    "tk' = track_worker_msgs (tk_disk (hand_off h tk)) (tk_cursor tk') (hand_off h tk)"
    by (rule reattach_Some [OF re cursor_ok_hand_off [OF cok]])
  have le: "tk_cursor tk' \<le> tk_cursor tk" using l(3) cok by (auto simp: cursor_ok_def)
  have "acked tk' \<noteq> None" using l(1) by (subst l(4)) (auto simp: acked_def track_worker_msgs_def)
  moreover have "log_ok clean (raw_lines lib es (tk_cursor tk')) (logs tk')"
    if "Finished \<notin> set (messages lib es)"
  proof -
    have log: "log_ok clean (raw_lines lib es (tk_cursor tk)) (tk_output tk, tk_disk tk, tk_seeded tk)"
      using ok that by (simp add: logs_def)
    let ?raw = "filter is_raw (tk_output tk)"
    have "logs tk' = (?raw, ?raw, length ?raw)"
      by (subst l(4)) (simp add: logs_def track_worker_msgs_def log_ok_restart [OF log fl])
    moreover have "subseq (raw_lines lib es (tk_cursor tk')) ?raw"
      using subseq_raw_lines_le [of "tk_cursor tk'" "tk_cursor tk" lib es] le log
      by (auto simp: log_ok_def word_le_nat_alt intro: subseq_order.order_trans)
    moreover have "tk_cursor tk' = tk_cursor tk" if clean
    proof -
      have "sint (tk_pushed tk) = uint (tk_pushed tk)" using cl [OF that] sint_small by simp
      obtain l0 where l0: "acked tk = Some l0" "l0 \<le> uint (tk_pushed tk)"
        using ok by (auto simp: cursor_ok_def)
      have "acked (hand_off h tk) = map_option (ack_value (tk_pushed tk)) (acked tk)"
      proof -
        have "acked (tk\<lparr> tk_disk := d \<rparr>) = acked tk" for d by (simp add: acked_def)
        with cl [OF that] fl show ?thesis by (simp add: hand_off_def Let_def acked_write_ack)
      qed
      with l0 l(1,2) \<open>sint _ = uint _\<close> have "uint (tk_cursor tk') = uint (tk_pushed tk)"
        by (simp add: ack_value_def)
      with cl [OF that] show ?thesis by (simp add: word_uint_eq_iff)
    qed
    ultimately show ?thesis using log by (auto simp: log_ok_def)
  qed
  ultimately show ?thesis
    using ok le cursor_ok_reattach [OF re cursor_ok_hand_off [OF cok]]
    by (auto simp: word_le_nat_alt)
qed

inductive_cases follow_stepE: "follow_step lib clean s t"

lemma follow_ok_start: "follow_start s \<Longrightarrow> follow_ok lib clean s"
  by (cases s) (auto simp: tracker_start_def cursor_ok_start [unfolded tracker_start_def] window_of_new
      log_ok_def logs_def raw_lines_def)

lemma follow_ok_step: "follow_ok lib clean s \<Longrightarrow> follow_step lib clean s t \<Longrightarrow> follow_ok lib clean t"
proof (erule follow_stepE, goal_cases)
  case (3 env e tk tk' j es)
  then have "follow_failure env tk = Polling tk'"
    by (cases e) (simp_all add: iterate_def client_events_def)
  then have "same_track tk tk'" by (rule follow_failure_polling)
  with 3 show ?case using follow_ok_same by (simp add: same_track_def del: follow_ok.simps)
next
  case (4 j es tk R)
  have "tk_cursor (deliver_responses R tk) = tk_cursor tk" by (simp add: deliver_responses_def)
  with 4 show ?case by (simp add: cursor_ok_deliver acked_fields tracker_frame)
qed (auto intro: follow_ok_append follow_ok_poll follow_ok_restart simp del: follow_ok.simps)

interpretation follower: invariant_system follow_start "follow_step lib clean" "follow_ok lib clean" for lib clean
  by unfold_locales (auto intro: follow_ok_start follow_ok_step simp del: follow_ok.simps)


section \<open>Outcomes\<close>

lemma find_process_write_completion:
  "find_process i (tk_processes (write_completion now st code tk)) =
     (if i = tk_execution_id tk then map_option (completion_row now st code) (find_process i (tk_processes tk))
      else find_process i (tk_processes tk))"
  by (auto simp: write_completion_def update_completion_def find_process_def sql_find_modify)

text \<open>A gap: what \<open>gap_persist\<close> leaves in the process rows.\<close>

lemma gap_attempt_processes:
  "tk_execution_id (snd (gap_attempt now ws ps ev a tk)) = tk_execution_id tk
   \<and> (tk_processes (snd (gap_attempt now ws ps ev a tk)) = tk_processes tk
     \<or> fst (gap_attempt now ws ps ev a tk) \<and> tk_processes (snd (gap_attempt now ws ps ev a tk)) =
         update_completion now (tk_execution_id tk) ps (Option.bind ev te_exit_code) (tk_processes tk))"
  unfolding gap_attempt_def
  by (auto dest!: write_result simp: update_retry_cases write_completion_def
      split: prod.splits bool.splits)

lemma gap_persist_processes:
  "tk_execution_id (snd (gap_persist now ws ps ev as tk)) = tk_execution_id tk
   \<and> (tk_processes (snd (gap_persist now ws ps ev as tk)) = tk_processes tk
     \<or> tk_processes (snd (gap_persist now ws ps ev as tk)) =
         update_completion now (tk_execution_id tk) ps (Option.bind ev te_exit_code) (tk_processes tk))"
proof (induction as arbitrary: tk)
  case (Cons a as)
  obtain ok tk1 where a: "gap_attempt now ws ps ev a tk = (ok, tk1)" by fastforce
  show ?case
    using Cons.IH [of tk1] gap_attempt_processes [of now ws ps ev a tk] a by (cases ok) auto
qed simp

text \<open>The loop that persists a gap's outcome ends once one attempt succeeds in all its writes.\<close>

lemma gap_persist_iff:
  "fst (gap_persist now ws ps ev (as @ [a]) tk) \<longleftrightarrow>
     fst (gap_persist now ws ps ev as tk)
     \<or> fst (gap_attempt now ws ps ev a (snd (gap_persist now ws ps ev as tk)))"
  by (induction as arbitrary: tk) (auto split: prod.splits bool.splits)

lemma terminal_summary_Some:
  "terminal_summary_states s = Some (ws, ps, e) \<Longrightarrow>
   js_terminal s = Some e \<and> ps = process_state (te_state e) \<and> ws = dispatch_state (js_state s)
   \<and> JobState_is_terminal (js_state s)"
  by (auto simp: terminal_summary_states_def split: option.splits JobState.splits TerminalState.splits
      Option.bind_splits)

lemma find_map_Some: "find_map f xs = Some y \<Longrightarrow> \<exists>x \<in> set xs. f x = Some y"
  by (induction xs) (auto split: option.splits)

text \<open>What backs an outcome: a terminal summary of this very dispatch at or past the gap.\<close>

definition outcome_backed ::
  "poll_env \<Rightarrow> tracker \<Rightarrow> u64 \<Rightarrow> ExecutionProcessStatus \<Rightarrow> bool" where
  "outcome_backed env tk earliest st \<longleftrightarrow> (\<exists>known inventory s e.
     find_job (tk_execution_id tk) (tk_jobs tk) = Some known \<and> pe_inventory env = Some inventory
     \<and> s \<in> set inventory \<and> same_dispatch known (tk_worker_node_id tk) (tk_execution_id tk) s
     \<and> earliest \<le> js_last_sequence s \<and> tk_cursor tk \<le> js_last_sequence s
     \<and> JobState_is_terminal (js_state s) \<and> js_terminal s = Some e \<and> st = process_state (te_state e))"

lemma gap_evidence_backed:
  assumes "fst (gap_evidence env earliest tk) = Some (ws, ps, e)"
  shows "outcome_backed env tk earliest ps"
proof -
  obtain known inventory where k: "known_row env tk = Some known" "pe_inventory env = Some inventory"
      "find_map (replay_gap_terminal_evidence known (tk_worker_node_id tk) (tk_execution_id tk)
          (max earliest (tk_cursor tk))) inventory = Some (ws, ps, e)"
    using assms by (auto simp: gap_evidence_def split: option.splits)
  from find_map_Some [OF k(3)] obtain s where s: "s \<in> set inventory"
      "replay_gap_terminal_evidence known (tk_worker_node_id tk) (tk_execution_id tk)
          (max earliest (tk_cursor tk)) s = Some (ws, ps, e)" by blast
  have "find_job (tk_execution_id tk) (tk_jobs tk) = Some known"
    using k(1) by (auto simp: known_row_def split: if_splits)
  moreover have "same_dispatch known (tk_worker_node_id tk) (tk_execution_id tk) s"
    "max earliest (tk_cursor tk) \<le> js_last_sequence s" "terminal_summary_states s = Some (ws, ps, e)"
    using s(2) by (auto simp: replay_gap_terminal_evidence_def not_less split: if_splits)
  ultimately show ?thesis
    using s(1) k(2) terminal_summary_Some [of s ws ps e] unfolding outcome_backed_def by auto
qed

text \<open>
  Output the worker no longer has cannot decide an outcome: when the tracker ends an execution
  because of a replay gap, the row keeps its status, becomes indeterminate, or takes the status of
  a terminal summary the worker gave for this very dispatch, reaching at least the gap.
\<close>

theorem gap_outcome_backed:
  assumes "client_events (pe_answer env) = Inl (ReplayGap requested_after earliest)"
    and "iterate lib env tk = Ended tk'"
    and "find_process (tk_execution_id tk) (tk_processes tk) = Some p"
    and "find_process (tk_execution_id tk) (tk_processes tk') = Some p'"
  shows "ep_status p' = ep_status p \<or> ep_status p' = EpIndeterminate
    \<or> outcome_backed env tk earliest (ep_status p')"
proof -
  obtain recovered live where g: "gap_evidence env earliest tk = (recovered, live)" by fastforce
  define w where "w = (case recovered of Some (ws, ps, e) \<Rightarrow> (ws, ps, Some e)
    | None \<Rightarrow> (DsIndeterminate, EpIndeterminate, None))"
  obtain ws ps ev where w': "w = (ws, ps, ev)" by (cases w)
  have "follow_gap env requested_after earliest tk = Ended tk'" using assms(1,2) by (simp add: iterate_def)
  then obtain tk1 where tk1: "gap_persist (pe_now env) ws ps ev (pe_gap_attempts env) tk = (True, tk1)"
      "tk_processes tk' = tk_processes tk1"
    using g w' by (auto simp: follow_gap_def Let_def w_def [symmetric] push_out_def
        split: if_splits prod.splits bool.splits)
  have "ps = EpIndeterminate \<or> outcome_backed env tk earliest ps"
    using gap_evidence_backed [of env earliest tk] g w' by (auto simp: w_def split: option.splits)
  moreover have "ep_status p' = ep_status p \<or> ep_status p' = ps"
    using gap_persist_processes [of "pe_now env" ws ps ev "pe_gap_attempts env" tk] tk1 assms(3,4)
    by (auto simp: update_completion_def find_process_def sql_find_modify)
  ultimately show ?thesis by auto
qed

text \<open>A terminal event: what the tracker remembers of it, and what the events leave alone.\<close>

definition payload_outcome :: "ExecutionEventPayload \<Rightarrow> outcome option" where
  "payload_outcome p = (case p of
     EvCompleted e \<Rightarrow> Some (DsCompleted, EpCompleted, e)
   | EvFailed e \<Rightarrow> Some (DsFailed, EpFailed, e)
   | EvKilled e \<Rightarrow> Some (DsKilled, EpKilled, e)
   | EvInterrupted e \<Rightarrow> Some (DsInterrupted, EpInterrupted, e)
   | _ \<Rightarrow> None)"

definition rows :: "tracker \<Rightarrow> uuid \<times> process_table \<times> int option \<times> u64 list" where
  "rows tk = (tk_execution_id tk, tk_processes tk, acked tk, tk_worker_acks tk)"

lemma rows_frame:
  "rows (push_out m tk) = rows tk" "rows (advance_pushed p tk) = rows tk"
  "rows (tk\<lparr> tk_cursor := c \<rparr>) = rows tk" "rows (disarm_deadline tk) = rows tk"
  "rows (arm_deadline n tk) = rows tk" "rows (request_interaction r tk) = rows tk"
  "rows (deliver_responses R tk) = rows tk"
  "rows (snd (write_state now st ev t tk)) = rows tk"
  using acked_write_state [of now st ev t tk]
  by (simp_all add: rows_def acked_def push_out_def advance_pushed_def disarm_deadline_def
      arm_deadline_def request_interaction_def deliver_responses_def write_state_def split_beta)

lemma rows_push_structured: "rows (push_structured lib env js tk) = rows tk"
  by (simp add: push_structured_def rows_frame split: WorkerStructuredEvent.split option.split bool.split)

lemma rows_receive: "rows (br_tracker (receive_event ev br)) = rows (br_tracker br)"
  by (simp add: receive_event_def Let_def rows_frame)

lemma handle_event_outcome:
  assumes "handle_event lib env ev br = Inr br'"
  shows "rows (br_tracker br') = rows (br_tracker br)"
    and "br_terminal br' = (case payload_outcome (ev_payload ev) of Some r \<Rightarrow> Some r | None \<Rightarrow> br_terminal br)"
proof -
  have t: "br_terminal (receive_event ev br) = br_terminal br" by (simp add: receive_event_def Let_def)
  show "rows (br_tracker br') = rows (br_tracker br)"
    using assms by (cases "ev_payload ev")
      (auto simp: handle_event_def Let_def with_tracker_def rows_frame rows_push_structured rows_receive)
  show "br_terminal br' = (case payload_outcome (ev_payload ev) of Some r \<Rightarrow> Some r | None \<Rightarrow> br_terminal br)"
    using assms t by (cases "ev_payload ev")
      (auto simp: handle_event_def Let_def with_tracker_def payload_outcome_def)
qed

definition plain_event :: "execution_event \<Rightarrow> bool" where
  "plain_event ev \<longleftrightarrow> payload_outcome (ev_payload ev) = None \<and> (\<forall>r. ev_payload ev \<noteq> EvIndeterminate r)"

lemma handle_event_total: "(\<forall>r. ev_payload ev \<noteq> EvIndeterminate r) \<Longrightarrow> \<exists>br'. handle_event lib env ev br = Inr br'"
  by (cases "ev_payload ev") (simp_all add: handle_event_def Let_def)

text \<open>A batch that ends with a terminal event, as the journal serves it, is handled to its end.\<close>

lemma handle_events_terminal:
  assumes "\<forall>p \<in> set pre. plain_event p" and "payload_outcome (ev_payload ev) = Some r"
  shows "\<exists>br'. handle_events lib env (pre @ [ev]) br = Inr br' \<and> br_terminal br' = Some r
    \<and> rows (br_tracker br') = rows (br_tracker br)"
  using assms(1)
proof (induction pre arbitrary: br)
  case Nil
  have "\<forall>r. ev_payload ev \<noteq> EvIndeterminate r" using assms(2) by (auto simp: payload_outcome_def)
  then obtain br' where "handle_event lib env ev br = Inr br'" using handle_event_total by blast
  with handle_event_outcome [OF this] assms(2) show ?case by simp
next
  case (Cons p pre)
  then obtain b where b: "handle_event lib env p br = Inr b"
    using handle_event_total [of p lib env br] by (auto simp: plain_event_def)
  have "\<exists>br'. handle_events lib env (pre @ [ev]) b = Inr br' \<and> br_terminal br' = Some r
      \<and> rows (br_tracker br') = rows (br_tracker b)"
    using Cons.IH Cons.prems by simp
  with b show ?case by (simp add: handle_event_outcome(1) [OF b])
qed

lemma rows_acknowledge_terminal: "rows (acknowledge_batch env latest True tk) = rows tk"
  by (simp add: acknowledge_batch_def should_ack_worker_batch_def Let_def)

lemma rows_fields:
  "rows tk' = rows tk \<Longrightarrow> tk_execution_id tk' = tk_execution_id tk \<and> tk_processes tk' = tk_processes tk
    \<and> acked tk' = acked tk \<and> tk_worker_acks tk' = tk_worker_acks tk"
  by (simp add: rows_def)

lemma follow_terminal:
  assumes "client_events (pe_answer env) = Inr b" and "eb_events b = pre @ [ev]"
    and "\<forall>p \<in> set pre. plain_event p" and "payload_outcome (ev_payload ev) = Some r"
    and "\<not> worker_journal_regressed (tk_cursor tk) (eb_latest_available b)"
  obtains tk1 where "iterate lib env tk = end_terminal env (eb_latest_available b) r tk1"
    and "rows tk1 = rows tk"
proof -
  obtain br where br: "handle_events lib env (pre @ [ev])
        \<lparr> br_tracker = tk, br_output_only = True, br_terminal = None \<rparr> = Inr br"
      "br_terminal br = Some r" "rows (br_tracker br) = rows tk"
    using handle_events_terminal [OF assms(3,4), of lib env
        "\<lparr> br_tracker = tk, br_output_only = True, br_terminal = None \<rparr>"] by auto
  let ?tk0 = "deliver_responses (pe_resolved env) (br_tracker br)"
  let ?tk1 = "if tk_deadline ?tk0 \<noteq> None then arm_deadline (pe_instant env) ?tk0 else ?tk0"
  show thesis
  proof (rule that [of "acknowledge_batch env (eb_latest_available b) True ?tk1"])
    show "iterate lib env tk = end_terminal env (eb_latest_available b) r
        (acknowledge_batch env (eb_latest_available b) True ?tk1)"
      using assms(1,2,5) br(1,2) by (simp add: iterate_def follow_batch_def follow_events_def Let_def)
    show "rows (acknowledge_batch env (eb_latest_available b) True ?tk1) = rows tk"
      using br(3) by (simp add: rows_acknowledge_terminal rows_frame)
  qed
qed

text \<open>What the process row must hold once the tracker is through with an outcome.\<close>

definition recorded ::
  "poll_env \<Rightarrow> outcome \<Rightarrow> execution_process option \<Rightarrow> execution_process option \<Rightarrow> bool" where
  "recorded env out before afterwards = (case out of (_, ps, e) \<Rightarrow>
     afterwards = map_option (completion_row (pe_now env) ps (te_exit_code e)) before
     \<or> pe_stopped_read_ok env \<and> afterwards = before \<and> is_some_and before (\<lambda>p.
         ep_status p = EpKilled \<or> ep_status p = EpInterrupted \<or> ep_status p = EpCompleted))"

text \<open>
  C12: terminal evidence is acknowledged, to the database cursor or to the worker, only after the
  process row holds it: a batch that ends in a terminal event either leaves the tracker retrying
  with both acknowledgements as they were, or ends with the outcome recorded, or with a row that
  was stopped before.
\<close>

theorem terminal_recorded_before_ack:
  assumes "client_events (pe_answer env) = Inr b" and "eb_events b = pre @ [ev]"
    and "\<forall>p \<in> set pre. plain_event p" and "payload_outcome (ev_payload ev) = Some r"
    and "\<not> worker_journal_regressed (tk_cursor tk) (eb_latest_available b)"
  shows "case iterate lib env tk of
      Polling tk' \<Rightarrow> False
    | Stalled tk' \<Rightarrow> acked tk' = acked tk \<and> tk_worker_acks tk' = tk_worker_acks tk
        \<and> tk_processes tk' = tk_processes tk
    | Ended tk' \<Rightarrow> recorded env r (find_process (tk_execution_id tk) (tk_processes tk))
        (find_process (tk_execution_id tk) (tk_processes tk'))"
proof -
  obtain tk1 where tk1: "iterate lib env tk = end_terminal env (eb_latest_available b) r tk1"
      "rows tk1 = rows tk"
    by (rule follow_terminal [OF assms])
  obtain ws ps e where r: "r = (ws, ps, e)" by (cases r)
  let ?tk2 = "if pe_state_ok env
    then snd (write_state (pe_now env) ws (Some e) (te_observed_at e) tk1) else tk1"
  have rows2: "rows ?tk2 = rows tk" using tk1(2) by (simp add: rows_frame)
  note f = rows_fields [OF rows2]
  have p: "tk_processes (write_ack now s w t) = tk_processes t" "tk_processes (send_ack t) = tk_processes t"
    for now s w t by (simp_all add: write_ack_def send_ack_def)
  show ?thesis
  proof (cases "stopped (pe_stopped_read_ok env) ?tk2")
    case True
    then have "is_some_and (find_process (tk_execution_id tk) (tk_processes tk)) (\<lambda>p.
        ep_status p = EpKilled \<or> ep_status p = EpInterrupted \<or> ep_status p = EpCompleted)"
      "pe_stopped_read_ok env"
      using f by (simp_all add: stopped_def was_stopped_def)
    then show ?thesis
      using True f tk1(1) by (simp add: r end_terminal_cases Let_def p recorded_def)
  next
    case False
    then show ?thesis
      using f tk1(1) find_process_write_completion [of "tk_execution_id tk" "pe_now env" ps "te_exit_code e" ?tk2]
      by (simp add: r end_terminal_cases Let_def p recorded_def)
  qed
qed

text \<open>A poll that finds nothing outstanding leaves every cursor at the end of what was received.\<close>

lemma caught_up:
  assumes win: "window_of 0 es j" and cok: "cursor_ok tk"
    and gap: "\<not> eb_replay_gap (journal_replay_after j (tk_cursor tk))"
    and le: "unat (tk_cursor tk) \<le> length es"
    and ans: "pe_answer env = Inr (journal_replay_after j (tk_cursor tk))"
    and poll: "iterate lib env tk = Polling tk'"
    and none: "tk_unresolved tk' = {}" and es: "es \<noteq> []"
  shows "unat (tk_cursor tk') = length es" "tk_pushed tk' = tk_cursor tk'"
    "pe_ack_ok env \<Longrightarrow> length es < 2 ^ 63 \<Longrightarrow> acked tk = Some l \<Longrightarrow> acked tk' = Some (int (length es))"
    "tk_disk tk' = tk_disk tk" "cursor_ok tk'"
proof -
  let ?evs = "drop (unat (tk_cursor tk)) es"
  obtain br tk1 where br: "handle_events lib env ?evs
        \<lparr> br_tracker = tk, br_output_only = True, br_terminal = None \<rparr> = Inr br"
      and t1: "same_track (deliver_responses (pe_resolved env) (br_tracker br)) tk1"
      and t2: "same_track (acknowledge_batch env (eb_latest_available (journal_replay_after j (tk_cursor tk)))
        False tk1) tk'"
    by (rule follow_journal [OF win gap le ans poll])
  note h = handle_events_logs [OF br, simplified logs_def select_convs, OF refl]
  have "cursor_ok (br_tracker br)"
    using cursor_ok_handle_events [OF br] cok ascending_window [OF win] by simp
  then have c1: "cursor_ok tk1" using cursor_ok_deliver cursor_ok_same_track [OF t1] by blast
  then show c2: "cursor_ok tk'" using cursor_ok_acknowledge cursor_ok_same_track [OF t2] by blast
  have cur: "tk_cursor tk' = tk_cursor tk1" "tk_cursor tk1 = tk_cursor (br_tracker br)"
    using same_track_fields(1) [OF t1] same_track_fields(1) [OF t2]
    by (simp_all add: acknowledge_batch_frame deliver_responses_def)
  have "unat (ev_sequence (last ?evs)) = length es" if "?evs \<noteq> []"
    using that window_bounds(2) [OF win, of "length es - 1"] by (simp add: last_conv_nth)
  with h le show len: "unat (tk_cursor tk') = length es" by (cases "?evs = []") (auto simp: cur)
  then have pos: "should_ack_worker_batch (tk_cursor tk1) False"
    using es cur(1) by (auto simp: should_ack_worker_batch_def word_less_nat_alt)
  have "tk_unresolved tk1 = {}"
    using none same_track_fields(3) [OF t2] by (simp add: acknowledge_batch_frame)
  then have d: "durable tk1 = tk_cursor tk1" by (simp add: durable_def durable_worker_cursor_def)
  have "tk_pushed tk' = max (tk_pushed tk1) (tk_cursor tk1)"
    using same_track_fields(2) [OF t2] pos d by (simp add: acknowledge_batch_frame)
  with c1 cur(1) show "tk_pushed tk' = tk_cursor tk'" by (simp add: cursor_ok_def max_def)
  show "tk_disk tk' = tk_disk tk"
    using same_track_fields(8) [OF t1] same_track_fields(8) [OF t2] h
      acknowledge_batch_frame(1) [of env "eb_latest_available (journal_replay_after j (tk_cursor tk))" False tk1]
    by (simp add: logs_def deliver_responses_def)
  assume ack: "pe_ack_ok env" "length es < 2 ^ 63" "acked tk = Some l"
  have "acked tk1 = Some l"
    using same_track_fields(6) [OF t1] handle_events_acked [OF br] ack(3) by (simp add: acked_fields)
  moreover have "l \<le> uint (tk_cursor tk1)"
    using c1 calculation by (auto simp: cursor_ok_def word_le_def intro: order_trans)
  moreover have "sint (tk_cursor tk1) = uint (tk_cursor tk1)"
    using sint_small [of "tk_cursor tk1"] len ack(2) cur(1) by simp
  moreover have "uint (tk_cursor tk1) = int (length es)" using len cur(1) by (metis uint_nat)
  ultimately show "acked tk' = Some (int (length es))"
    using same_track_fields(6) [OF t2] pos ack(1) d by (simp add: acknowledge_batch_frame ack_value_def)
qed

text \<open>
  The acknowledgement of a batch does not wait for the writer of the raw log. When the writer does
  not get through its lines at shutdown, the cursor stays where it is, but that is already after
  events whose lines are not on disk: the next run resumes behind them and they are gone.
\<close>

theorem unflushed_lines_lost:
  assumes "reach follow_start (follow_step lib clean) (j, es, tk)"
    and "\<not> eb_replay_gap (journal_replay_after j (tk_cursor tk))"
    and "pe_answer env = Inr (journal_replay_after j (tk_cursor tk))" and "pe_ack_ok env"
    and "iterate lib env tk = Polling tk'" and "tk_unresolved tk' = {}"
    and "es \<noteq> []" and "length es < 2 ^ 63"
    and "\<not> he_flushed h" and "he_written h = 0"
    and "reattach_worker_execution (hand_off h tk') = Some tk''"
  shows "unat (tk_cursor tk'') = length es \<and> tk_output tk'' = tk_disk tk"
proof -
  have ok: "window_of 0 es j" "unat (tk_cursor tk) \<le> length es" "cursor_ok tk" "acked tk \<noteq> None"
    using follower.inv_reach [OF assms(1)] by auto
  then obtain l where l: "acked tk = Some l" by auto
  note up = caught_up [OF ok(1,3) assms(2) ok(2) assms(3,5,6,7)]
  have same: "acked (hand_off h tk') = acked tk'" "tk_disk (hand_off h tk') = tk_disk tk'"
    using assms(9,10) by (simp_all add: hand_off_def Let_def acked_def)
  obtain l' where l': "acked (hand_off h tk') = Some l'" "uint (tk_cursor tk'') = l'"
      "tk'' = track_worker_msgs (tk_disk (hand_off h tk')) (tk_cursor tk'') (hand_off h tk')"
    using reattach_Some [OF assms(11) cursor_ok_hand_off [OF up(5)]] by metis
  have "uint (tk_cursor tk'') = int (length es)" using l' same(1) up(3) [OF assms(4,8) l] by simp
  moreover have "tk_output tk'' = tk_disk tk"
    by (subst l'(3)) (simp add: track_worker_msgs_def same(2) up(4))
  ultimately show ?thesis by (metis nat_int nat_uint_eq)
qed

text \<open>
  A stop that the worker confirmed is not final for the row: the tracker goes on polling, and if the
  worker cannot be reached when the deadline after the last assistant message has passed, the row
  becomes indeterminate, because this path does not look whether the execution was stopped.
\<close>

theorem confirmed_stop_overwritten:
  assumes "stop_worker_execution stop_env (Inr response) tk = (True, tk1)"
    and "stop_confirmed response = Some e"
    and "find_process (tk_execution_id tk) (tk_processes tk) = Some p"
    and "pe_answer env = Inl failure" and "\<forall>r n. failure \<noteq> ReplayGap r n" and "deadline_passed env tk1"
    and "pe_state_ok env" and "pe_completion_ok env"
  shows "map_option ep_status (find_process (tk_execution_id tk) (tk_processes tk1)) =
      Some (process_state (te_state e)) \<and>
    (\<exists>tk2. iterate lib env tk1 = Ended tk2 \<and>
      map_option ep_status (find_process (tk_execution_id tk) (tk_processes tk2)) = Some EpIndeterminate)"
proof -
  let ?w = "snd (write_state (pe_now stop_env) (evidence_dispatch_state (te_state e)) (Some e)
    (te_observed_at e) tk)"
  have tk1: "tk1 = write_completion (pe_now stop_env) (process_state (te_state e)) (te_exit_code e) ?w"
    using assms(1,2) by (simp add: stop_worker_execution_def Let_def split: if_splits)
  have i: "tk_execution_id tk1 = tk_execution_id tk" by (simp add: tk1 tracker_frame)
  have p1: "find_process (tk_execution_id tk) (tk_processes tk1) =
      Some (completion_row (pe_now stop_env) (process_state (te_state e)) (te_exit_code e) p)"
    by (simp add: tk1 find_process_write_completion write_state_frame assms(3))
  let ?v = "snd (write_state (pe_now env) DsIndeterminate None (pe_now env) tk1)"
  have "iterate lib env tk1 = Ended (write_completion (pe_now env) EpIndeterminate None ?v)"
    using assms(4-8) by (cases failure) (auto simp: iterate_def client_events_def follow_failure_def
        mark_remote_execution_indeterminate_def Let_def)
  moreover have "map_option ep_status (find_process (tk_execution_id tk)
      (tk_processes (write_completion (pe_now env) EpIndeterminate None ?v))) = Some EpIndeterminate"
    by (simp add: find_process_write_completion write_state_frame i p1)
  ultimately show ?thesis using p1 by simp
qed

section \<open>The properties at work\<close>

definition track_lib :: tracker_lib where
  "track_lib = \<lparr> tl_base64 = Inr, tl_log_msg = (\<lambda>_. None), tl_object = (\<lambda>_. None), tl_entry = (\<lambda>_. None) \<rparr>"

definition track_start :: tracker where
  "track_start = \<lparr> tk_execution_id = 7, tk_worker_node_id = 3, tk_lease_is_evidence = False,
     tk_cursor = 0, tk_pushed = 0, tk_unresolved = {}, tk_deadline = None,
     tk_regression_reported = False, tk_output = [], tk_jobs = [demo_job 7 DsRunning],
     tk_processes = [demo_process 7 EpRunning], tk_disk = [], tk_seeded = 0, tk_routed = [],
     tk_answered = {}, tk_worker_acks = [], tk_cancels = 0 \<rparr>"

definition good_burst :: burst where
  "good_burst n = True"

definition track_env :: "WorkerClientError + event_batch \<Rightarrow> poll_env" where
  "track_env answer = \<lparr> pe_answer = answer, pe_row_read_ok = True, pe_inventory = Some [],
     pe_now = 100, pe_instant = 1000, pe_mark_ok = True, pe_state_ok = True, pe_completion_ok = True,
     pe_ack_ok = True, pe_stopped_read_ok = True, pe_burst = good_burst, pe_bursts = [good_burst],
     pe_gap_attempts = [\<lparr> ga_mark_ok = True, ga_state_ok = True, ga_stopped_read_ok = True,
       ga_burst = good_burst \<rparr>],
     pe_resolved = {} \<rparr>"

definition track_batch :: "ExecutionEventPayload list \<Rightarrow> event_batch" where
  "track_batch ps = \<lparr> eb_execution_id = 7, eb_requested_after = 0, eb_earliest_available = 1,
     eb_latest_available = of_nat (length ps), eb_replay_gap = False,
     eb_events = map (\<lambda>(n, p). \<lparr> ev_execution_id = 7, ev_sequence = n, ev_worker_timestamp = 50,
       ev_payload = p \<rparr>) (zip [1, 2, 3] ps) \<rparr>"

definition track_request :: interaction_request where
  "track_request = \<lparr> ir_interaction_id = 9, ir_kind = ''tool'', ir_prompt = ''Bash'',
     ir_expires_at = None, ir_disconnect_policy = FailClosed \<rparr>"

lemmas track_defs = track_lib_def track_start_def track_env_def track_batch_def demo_job_def
  demo_process_def

text \<open>A line, a request for an approval, and a second line while the request is open.\<close>

definition asked_env :: poll_env where
  "asked_env = track_env (Inr (track_batch [EvStdout ''a'', EvInteractionRequested track_request,
     EvStdout ''b'']))"

lemma asked_turn:
  "\<exists>tk. iterate track_lib asked_env track_start = Polling tk \<and> tk_cursor tk = 3 \<and> tk_unresolved tk = {2}
     \<and> tk_routed tk = [(2, track_request)] \<and> tk_answered tk = {}
     \<and> (\<exists>job. find_job 7 (tk_jobs tk) = Some job \<and> ej_last_event_sequence job = 1)
     \<and> tk_execution_id tk = 7 \<and> tk_pushed tk = 1"
  by (simp add: iterate_def asked_env_def track_defs client_events_def validate_event_batch_def
      saturating_add_def saturating_sub_def follow_batch_def worker_journal_regressed_def follow_events_def
      handle_event_def receive_event_def with_tracker_def push_out_def request_interaction_def
      push_worker_bytes_def advance_pushed_def durable_def durable_worker_cursor_def deliver_responses_def
      acknowledge_batch_def should_ack_worker_batch_def send_ack_def write_ack_def acknowledge_sequence_def
      sql_update_def check_deadline_def deadline_passed_def Let_def find_job_def pending_row_def)

lemma acked_hand_off: "acked (hand_off h tk) = None \<longleftrightarrow> acked tk = None"
proof -
  have "acked (tk\<lparr> tk_disk := d \<rparr>) = acked tk" for d by (simp add: acked_def)
  then show ?thesis by (simp add: hand_off_def Let_def acked_write_ack)
qed

lemma reattach_exists:
  assumes "acked tk \<noteq> None"
  shows "\<exists>tk'. reattach_worker_execution (hand_off h tk) = Some tk'"
proof -
  have "acked (hand_off h tk) \<noteq> None" using assms acked_hand_off by simp
  then show ?thesis
    by (auto simp: acked_def reattach_worker_execution_def Let_def should_hand_off_worker_job_def)
qed

lemma track_started: "tracker_start track_start"
  by (simp add: tracker_start_def track_defs acked_def find_job_def pending_row_def)

definition orderly :: handoff_env where
  "orderly = \<lparr> he_flushed = True, he_written = 0, he_ack_ok = True, he_now = 200 \<rparr>"

definition killed_writer :: handoff_env where
  "killed_writer = orderly\<lparr> he_flushed := False \<rparr>"

theorem unanswered_request_replayed_witness:
  "\<exists>tk tk'. iterate track_lib asked_env track_start = Polling tk \<and> tk_cursor tk = 3 \<and>
    reattach_worker_execution (hand_off orderly tk) = Some tk' \<and> tk_cursor tk' < 2"
proof -
  obtain tk where tk: "iterate track_lib asked_env track_start = Polling tk" "tk_cursor tk = 3"
      "tk_routed tk = [(2, track_request)]" "tk_answered tk = {}" "acked tk \<noteq> None"
    using asked_turn by (auto simp: acked_def)
  have "answer_ok asked_env track_start"
    by (simp add: answer_ok_def asked_env_def track_defs client_events_def validate_event_batch_def
        saturating_add_def)
  then have "tracker_step track_lib track_start tk"
    by (rule tracker_step.turn) (simp add: tk(1))
  moreover have "reach tracker_start (tracker_step track_lib) track_start"
    by (rule reach_start) (rule track_started)
  ultimately have r: "reach tracker_start (tracker_step track_lib) tk" by (blast intro: reach_step)
  obtain tk' where tk': "reattach_worker_execution (hand_off orderly tk) = Some tk'"
    using reattach_exists [OF tk(5)] by blast
  with unanswered_request_replayed [OF r tk', of 2 track_request] tk show ?thesis by auto
qed

text \<open>One line in a journal, polled.\<close>

definition line_journal :: event_journal where
  "line_journal = \<lparr> ej_execution_id = 7, ej_capacity = 10, ej_next_sequence = 2,
     ej_events = [\<lparr> ev_execution_id = 7, ev_sequence = 1, ev_worker_timestamp = 50,
       ev_payload = EvStdout ''a'' \<rparr>], ej_terminal = None \<rparr>"

definition line_env :: poll_env where
  "line_env = track_env (Inr (journal_replay_after line_journal 0))"

lemma line_appended:
  "\<exists>j. journal_new 7 10 = Ok j \<and> journal_append j 50 (EvStdout ''a'') = (Ok 1, line_journal)
     \<and> [] @ [stamped j 50 (EvStdout ''a'')] = ej_events line_journal"
  by (simp add: journal_new_def journal_append_def checked_add_def line_journal_def stamped_def)

lemma line_polled:
  "\<exists>tk. iterate track_lib line_env track_start = Polling tk \<and> tk_cursor tk = 1 \<and> tk_pushed tk = 1
     \<and> tk_unresolved tk = {} \<and> acked tk \<noteq> None
     \<and> tk_output tk = [Stdout (from_utf8_lossy ''a'')]"
  by (simp add: iterate_def line_env_def line_journal_def journal_replay_after_def journal_last_sequence_def
      track_defs client_events_def validate_event_batch_def
      saturating_add_def saturating_sub_def follow_batch_def worker_journal_regressed_def follow_events_def
      handle_event_def receive_event_def with_tracker_def push_out_def
      push_worker_bytes_def advance_pushed_def durable_def durable_worker_cursor_def deliver_responses_def
      acknowledge_batch_def should_ack_worker_batch_def send_ack_def write_ack_def acknowledge_sequence_def
      sql_update_def check_deadline_def deadline_passed_def Let_def find_job_def pending_row_def acked_def)

lemma line_reached:
  "reach follow_start (follow_step track_lib clean) (line_journal, ej_events line_journal, track_start)"
proof -
  obtain j where j: "journal_new 7 10 = Ok j" "journal_append j 50 (EvStdout ''a'') = (Ok 1, line_journal)"
      "[] @ [stamped j 50 (EvStdout ''a'')] = ej_events line_journal"
    using line_appended by blast
  have "follow_start (j, [], track_start)" using j(1) track_started by auto
  then have "reach follow_start (follow_step track_lib clean) (j, [], track_start)" by (rule reach_start)
  moreover have "follow_step track_lib clean (j, [], track_start)
      (line_journal, [] @ [stamped j 50 (EvStdout ''a'')], track_start)"
    by (rule follow_step.append [OF j(2)])
  ultimately show ?thesis unfolding j(3) by (rule reach_step)
qed

lemma line_poll:
  "\<not> eb_replay_gap (journal_replay_after line_journal (tk_cursor track_start))"
  "pe_answer line_env = Inr (journal_replay_after line_journal (tk_cursor track_start))"
  "pe_ack_ok line_env" "ej_events line_journal \<noteq> []" "length (ej_events line_journal) < 2 ^ 63"
  by (simp_all add: line_env_def track_env_def line_journal_def journal_replay_after_def
      saturating_add_def track_start_def)

lemma line_messages: "Finished \<notin> set (messages track_lib (ej_events line_journal))"
  by (simp add: line_journal_def track_lib_def push_worker_bytes_def)


theorem unflushed_lines_lost_witness:
  "\<exists>tk tk'. iterate track_lib line_env track_start = Polling tk \<and> tk_output tk \<noteq> [] \<and>
    reattach_worker_execution (hand_off killed_writer tk) = Some tk' \<and>
    unat (tk_cursor tk') = 1 \<and> tk_output tk' = []"
proof -
  obtain tk where tk: "iterate track_lib line_env track_start = Polling tk" "tk_unresolved tk = {}"
      "acked tk \<noteq> None" "tk_output tk \<noteq> []" using line_polled by force
  obtain tk' where tk': "reattach_worker_execution (hand_off killed_writer tk) = Some tk'"
    using reattach_exists [OF tk(3)] by blast
  have "unat (tk_cursor tk') = length (ej_events line_journal) \<and> tk_output tk' = tk_disk track_start"
    by (rule unflushed_lines_lost [OF line_reached [of True] line_poll(1-3) tk(1,2) line_poll(4,5) _ _ tk'])
      (simp_all add: killed_writer_def orderly_def)
  with tk tk' show ?thesis by (auto simp: line_journal_def track_start_def)
qed

text \<open>A batch that ends in a completion, a gap with a matching summary, a stop.\<close>

definition ended_env :: poll_env where
  "ended_env = track_env (Inr (track_batch [EvStdout ''a'', EvCompleted demo_evidence]))"

lemma ended_batch:
  "client_events (pe_answer ended_env) = Inr (track_batch [EvStdout ''a'', EvCompleted demo_evidence])"
  "\<not> worker_journal_regressed (tk_cursor track_start)
     (eb_latest_available (track_batch [EvStdout ''a'', EvCompleted demo_evidence]))"
  by (simp_all add: ended_env_def track_defs client_events_def validate_event_batch_def saturating_add_def
      worker_journal_regressed_def)

theorem terminal_recorded_before_ack_witness:
  "\<exists>pre ev. eb_events (track_batch [EvStdout ''a'', EvCompleted demo_evidence]) = pre @ [ev] \<and>
    payload_outcome (ev_payload ev) = Some (DsCompleted, EpCompleted, demo_evidence) \<and>
    (case iterate track_lib ended_env track_start of
       Polling tk' \<Rightarrow> False
     | Stalled tk' \<Rightarrow> acked tk' = acked track_start \<and> tk_worker_acks tk' = tk_worker_acks track_start
         \<and> tk_processes tk' = tk_processes track_start
     | Ended tk' \<Rightarrow> recorded ended_env (DsCompleted, EpCompleted, demo_evidence)
         (find_process (tk_execution_id track_start) (tk_processes track_start))
         (find_process (tk_execution_id track_start) (tk_processes tk')))"
proof -
  let ?pre = "[\<lparr> ev_execution_id = 7, ev_sequence = 1, ev_worker_timestamp = 50, ev_payload = EvStdout ''a'' \<rparr>]"
  let ?ev = "\<lparr> ev_execution_id = 7, ev_sequence = 2, ev_worker_timestamp = 50,
    ev_payload = EvCompleted demo_evidence \<rparr>"
  have e: "eb_events (track_batch [EvStdout ''a'', EvCompleted demo_evidence]) = ?pre @ [?ev]"
    by (simp add: track_batch_def)
  have plain: "\<forall>p \<in> set ?pre. plain_event p" by (simp add: plain_event_def payload_outcome_def)
  have out: "payload_outcome (ev_payload ?ev) = Some (DsCompleted, EpCompleted, demo_evidence)"
    by (simp add: payload_outcome_def)
  from terminal_recorded_before_ack [OF ended_batch(1) e plain out ended_batch(2), of track_lib]
  show ?thesis using e out by blast
qed

definition gap_env :: poll_env where
  "gap_env = (track_env (Inr ((track_batch []) \<lparr> eb_replay_gap := True, eb_earliest_available := 4 \<rparr>)))
     \<lparr> pe_inventory := Some [demo_summary \<lparr> js_execution_id := 7, js_worker_job_id := 7 \<rparr>] \<rparr>"

lemma gap_answer: "client_events (pe_answer gap_env) = Inl (ReplayGap 0 4)"
  by (simp add: gap_env_def track_defs client_events_def validate_event_batch_def)

lemma gap_followed:
  "\<exists>tk. iterate track_lib gap_env track_start = Ended tk
     \<and> find_process 7 (tk_processes tk) = Some (completion_row 100 EpCompleted (Some 0) (demo_process 7 EpRunning))"
  by (simp add: iterate_def gap_answer)
    (simp add: gap_env_def track_defs follow_gap_def gap_evidence_def known_row_def find_job_def pending_row_def
      replay_gap_terminal_evidence_def same_dispatch_def demo_summary_def terminal_summary_states_def
      demo_evidence_def replay_gap_job_is_live_def gap_attempt_def write_incomplete_def mark_output_incomplete_def
      sql_update_def write_state_def update_state_def state_row_def stopped_def was_stopped_def find_process_def
      update_retry_cases burst_ok_def good_burst_def write_completion_def update_completion_def sql_modify_def
      completion_row_def push_out_def Let_def)

theorem gap_outcome_backed_witness:
  "\<exists>tk p'. iterate track_lib gap_env track_start = Ended tk \<and> find_process 7 (tk_processes tk) = Some p'
    \<and> ep_status p' = EpCompleted \<and> outcome_backed gap_env track_start 4 EpCompleted"
proof -
  let ?p' = "completion_row 100 EpCompleted (Some 0) (demo_process 7 EpRunning)"
  obtain tk where tk: "iterate track_lib gap_env track_start = Ended tk"
      "find_process 7 (tk_processes tk) = Some ?p'"
    using gap_followed by blast
  have p: "find_process (tk_execution_id track_start) (tk_processes track_start) = Some (demo_process 7 EpRunning)"
    and p': "find_process (tk_execution_id track_start) (tk_processes tk) = Some ?p'"
    using tk(2) by (simp_all add: track_start_def find_process_def demo_process_def)
  from gap_outcome_backed [OF gap_answer tk(1) p p'] tk show ?thesis
    by (auto simp: demo_process_def)
qed

definition stop_answer :: cancellation_status where
  "stop_answer = \<lparr> cs_execution_id = 7, cs_phase = PhConfirmed,
     cs_terminal = Some (demo_evidence \<lparr> te_state := TermKilled \<rparr>) \<rparr>"

definition answered_tracker :: tracker where
  "answered_tracker = track_start \<lparr> tk_deadline := Some 900 \<rparr>"

theorem confirmed_stop_overwritten_witness:
  "\<exists>tk1 tk2. stop_worker_execution (track_env (Inl (WceTransport []))) (Inr stop_answer) answered_tracker = (True, tk1)
    \<and> map_option ep_status (find_process 7 (tk_processes tk1)) = Some EpKilled
    \<and> iterate track_lib (track_env (Inl (WceTransport []))) tk1 = Ended tk2
    \<and> map_option ep_status (find_process 7 (tk_processes tk2)) = Some EpIndeterminate"
proof -
  let ?e = "demo_evidence \<lparr> te_state := TermKilled \<rparr>" and ?env = "track_env (Inl (WceTransport []))"
  have conf: "stop_confirmed stop_answer = Some ?e" by (simp add: stop_confirmed_def stop_answer_def)
  obtain tk1 where tk1: "stop_worker_execution ?env (Inr stop_answer) answered_tracker = (True, tk1)"
      "tk_deadline tk1 = Some 900"
    by (simp add: stop_worker_execution_def conf track_env_def write_completion_def write_state_def Let_def
        split_beta answered_tracker_def)
  have p: "find_process (tk_execution_id answered_tracker) (tk_processes answered_tracker) =
      Some (demo_process 7 EpRunning)"
    by (simp add: answered_tracker_def track_start_def find_process_def demo_process_def)
  have env: "pe_answer ?env = Inl (WceTransport [])" "\<forall>r n. WceTransport [] \<noteq> ReplayGap r n" "deadline_passed ?env tk1" "pe_state_ok ?env" "pe_completion_ok ?env"
    by (simp_all add: track_env_def deadline_passed_def tk1(2))
  have i: "tk_execution_id answered_tracker = 7" by (simp add: answered_tracker_def track_start_def)
  from confirmed_stop_overwritten [OF tk1(1) conf p env, of track_lib] tk1(1) show ?thesis
    by (auto simp: i demo_evidence_def)
qed

theorem cut_character_corrupted_witness:
  "messages track_lib [stamped line_journal 60 (EvStdout [char_of (0xC3 :: nat)]),
      stamped line_journal 61 (EvStdout [char_of (0xA9 :: nat)])] =
    [Stdout REPLACEMENT, Stdout REPLACEMENT] \<and>
   from_utf8_lossy [char_of (0xC3 :: nat), char_of (0xA9 :: nat)] = [char_of (0xC3 :: nat), char_of (0xA9 :: nat)]"
proof -
  let ?c = "char_of (0xC3 :: nat)" and ?d = "char_of (0xA9 :: nat)"
  let ?e = "stamped line_journal 60 (EvStdout [?c])" and ?f = "stamped line_journal 61 (EvStdout [?d])"
  have "messages track_lib [?e \<lparr> ev_payload := EvStdout [?c] \<rparr>, ?f \<lparr> ev_payload := EvStdout [?d] \<rparr>] =
      [Stdout REPLACEMENT, Stdout REPLACEMENT] \<and> from_utf8_lossy [?c, ?d] = [?c, ?d]"
    by (rule cut_character_corrupted) (simp_all add: track_lib_def utf8_width_def continuation_def byte_def)
  then show ?thesis by (simp add: stamped_def)
qed

end
