(* ===== verification/Interaction_Broker.thy ===== *)
theory Interaction_Broker
  imports Approvals Worker_Job Rust_Strings
begin

text \<open>
  Tool approvals and questions of an agent that runs on a worker. The worker's side is the broker
  and the approval service of a job (\<open>worker/src/interaction.rs\<close>); the coordinator's side is the routing task
  (\<open>route_worker_interaction\<close> in \<open>local-deployment/src/container.rs\<close>), which waits on the approvals
  of theory Approvals and sends the outcome back until the worker takes it.

  A one-shot channel is its index in the list of all channels made; the sender is the index in the
  pending table or in the hands of a responder, the receiver the index in the table of receivers
  or in the hands of a waiter. \<open>respond\<close> takes two locks in three separate steps, so the step
  relation keeps every caller's position. The text form of a UUID and its parser are parameters.
  Times are in seconds here.
\<close>

section \<open>Outcomes for the executor\<close>

datatype ExecutorApprovalError =
    SessionNotRegistered
  | RequestFailed string
  | ServiceUnavailable
  | ExecutorCancelled

datatype ApprovalStatus = StPending | StApproved | StDenied "string option" | StTimedOut

datatype QuestionStatus = QsAnswered "(string \<times> string list) list" | QsTimedOut

fun tool_status :: "ApprovalOutcome \<Rightarrow> ExecutorApprovalError + ApprovalStatus" where
  "tool_status Approved = Ok StApproved"
| "tool_status (Denied reason) = Ok (StDenied reason)"
| "tool_status TimedOut = Ok StTimedOut"
| "tool_status (Answered _) = Err (RequestFailed ''question answer returned for tool approval'')"

fun question_status :: "ApprovalOutcome \<Rightarrow> ExecutorApprovalError + QuestionStatus" where
  "question_status (Answered answers) = Ok (QsAnswered answers)"
| "question_status TimedOut = Ok QsTimedOut"
| "question_status _ = Err (RequestFailed ''tool decision returned for question'')"

section \<open>The broker and the approval service\<close>

datatype responder =
    Checked uuid ApprovalOutcome
  | Holding uuid ApprovalOutcome nat
  | Recorded uuid ApprovalOutcome nat
  | Returned uuid bool

record approval_service =
  as_pending :: "uuid \<rightharpoonup> nat"
  as_completed :: "uuid \<rightharpoonup> ApprovalOutcome"
  as_receivers :: "uuid \<rightharpoonup> nat"
  as_channels :: "channel list"
  as_responders :: "nat \<rightharpoonup> responder"
  as_created :: "uuid \<rightharpoonup> nat"

definition service_new :: approval_service where
  "service_new = \<lparr> as_pending = Map.empty, as_completed = Map.empty, as_receivers = Map.empty,
     as_channels = [], as_responders = Map.empty, as_created = Map.empty \<rparr>"

text \<open>
  Inserting over an old sender drops it. \<open>as_created\<close> is the record of which channel an interaction
  got; nothing reads it.
\<close>

definition register_interaction :: "uuid \<Rightarrow> approval_service \<Rightarrow> nat \<times> approval_service" where
  "register_interaction i s =
     (let n = length (as_channels s);
          channels = as_channels s @ [ChOpen]
      in (n, s\<lparr> as_channels := (case as_pending s i of
                   Some old \<Rightarrow> channels[old := ChDropped] | None \<Rightarrow> channels),
                as_pending := (as_pending s)(i \<mapsto> n), as_created := (as_created s)(i \<mapsto> n) \<rparr>))"

definition add_receiver :: "uuid \<Rightarrow> nat \<Rightarrow> approval_service \<Rightarrow> approval_service" where
  "add_receiver i n s = s\<lparr> as_receivers := (as_receivers s)(i \<mapsto> n) \<rparr>"

text \<open>The pieces of \<open>respond\<close>: the check, the removal, the record, the send.\<close>

definition respond_seen :: "uuid \<Rightarrow> approval_service \<Rightarrow> bool" where
  "respond_seen i s \<longleftrightarrow> as_completed s i \<noteq> None"

definition respond_take :: "uuid \<Rightarrow> approval_service \<Rightarrow> nat option \<times> approval_service" where
  "respond_take i s = (as_pending s i, s\<lparr> as_pending := (as_pending s)(i := None) \<rparr>)"

definition record_outcome :: "uuid \<Rightarrow> ApprovalOutcome \<Rightarrow> approval_service \<Rightarrow> approval_service" where
  "record_outcome i out s = s\<lparr> as_completed := (as_completed s)(i \<mapsto> out) \<rparr>"

definition send_outcome :: "nat \<Rightarrow> ApprovalOutcome \<Rightarrow> approval_service \<Rightarrow> approval_service" where
  "send_outcome n out s = s\<lparr> as_channels := (as_channels s)[n := ChSent out] \<rparr>"

definition broker_respond :: "uuid \<Rightarrow> ApprovalOutcome \<Rightarrow> approval_service \<Rightarrow> bool \<times> approval_service" where
  "broker_respond i out s =
     (if respond_seen i s then (True, s)
      else case respond_take i s of
        (None, s) \<Rightarrow> (False, s)
      | (Some n, s) \<Rightarrow> (True, send_outcome n out (record_outcome i out s)))"

definition INTERACTION_TIMEOUT :: duration where
  "INTERACTION_TIMEOUT = 36000"

text \<open>\<open>create\<close>, for the UUID \<open>i\<close> that \<open>Uuid::new_v4\<close> gave; the request is emitted to the job's journal.\<close>

definition create_interaction :: "(uuid \<Rightarrow> string) \<Rightarrow> uuid \<Rightarrow> datetime \<Rightarrow> string \<Rightarrow> string
    \<Rightarrow> DisconnectPolicy \<Rightarrow> approval_service \<times> worker_job \<Rightarrow> string \<times> approval_service \<times> worker_job" where
  "create_interaction show_uuid i now kind prompt policy sj =
     (let (s, job) = sj;
          (n, s) = register_interaction i s;
          request = \<lparr> ir_interaction_id = i, ir_kind = kind, ir_prompt = prompt,
            ir_expires_at = Some (now + INTERACTION_TIMEOUT), ir_disconnect_policy = policy \<rparr>
      in (show_uuid i, add_receiver i n s, emit now (EvInteractionRequested request) job))"

definition create_tool_approval :: "(uuid \<Rightarrow> string) \<Rightarrow> uuid \<Rightarrow> datetime \<Rightarrow> string
    \<Rightarrow> approval_service \<times> worker_job \<Rightarrow> string \<times> approval_service \<times> worker_job" where
  "create_tool_approval show_uuid i now tool_name =
     create_interaction show_uuid i now ''tool'' tool_name FailClosed"

definition create_question_approval :: "(uuid \<Rightarrow> string) \<Rightarrow> uuid \<Rightarrow> datetime \<Rightarrow> string \<Rightarrow> nat
    \<Rightarrow> approval_service \<times> worker_job \<Rightarrow> string \<times> approval_service \<times> worker_job" where
  "create_question_approval show_uuid i now tool_name question_count =
     create_interaction show_uuid i now ''question'' (tool_name @ '':'' @ show_nat question_count) Timeout"

text \<open>
  \<open>wait\<close> takes the receiver out first; \<open>select!\<close> then polls both branches in random order, so every
  result that is ready may be the answer, and none means it still waits.
\<close>

definition take_receiver :: "(string \<Rightarrow> string + uuid) \<Rightarrow> string \<Rightarrow> approval_service
    \<Rightarrow> (ExecutorApprovalError + nat) \<times> approval_service" where
  "take_receiver parse_uuid approval_id s = (case parse_uuid approval_id of
     Inl e \<Rightarrow> (Err (RequestFailed e), s)
   | Inr i \<Rightarrow> (ok_or (as_receivers s i) SessionNotRegistered,
               s\<lparr> as_receivers := (as_receivers s)(i := None) \<rparr>))"

definition ready_results :: "bool \<Rightarrow> channel \<Rightarrow> (ExecutorApprovalError + ApprovalOutcome) list" where
  "ready_results cancelled c =
     (if cancelled then [Err ExecutorCancelled] else [])
     @ (case c of ChOpen \<Rightarrow> [] | ChSent out \<Rightarrow> [Ok out] | ChDropped \<Rightarrow> [Err ServiceUnavailable])"

definition wait_tool_approval :: "ExecutorApprovalError + ApprovalOutcome \<Rightarrow> ExecutorApprovalError + ApprovalStatus" where
  "wait_tool_approval r = try_bind r tool_status"

definition wait_question_answer :: "ExecutorApprovalError + ApprovalOutcome \<Rightarrow> ExecutorApprovalError + QuestionStatus" where
  "wait_question_answer r = try_bind r question_status"

section \<open>The routing task of the coordinator\<close>

definition APPROVAL_TIMEOUT_SECONDS :: duration where
  "APPROVAL_TIMEOUT_SECONDS = 36000"

text \<open>\<open>ApprovalRequest::new\<close>, with the text of its fresh UUID; the task then takes over the interaction's.\<close>

definition approval_request_new :: "string \<Rightarrow> datetime \<Rightarrow> string \<Rightarrow> uuid \<Rightarrow> approval_request" where
  "approval_request_new fresh now tool_name execution =
     \<lparr> ar_id = fresh, ar_tool_name = tool_name, ar_execution_process_id = execution,
       ar_created_at = now, ar_timeout_at = now + APPROVAL_TIMEOUT_SECONDS \<rparr>"

definition route_request :: "(uuid \<Rightarrow> string) \<Rightarrow> string \<Rightarrow> datetime \<Rightarrow> uuid \<Rightarrow> interaction_request
    \<Rightarrow> approval_request" where
  "route_request show_uuid fresh now execution interaction =
     (let request = approval_request_new fresh now (ir_prompt interaction) execution;
          request = request\<lparr> ar_id := show_uuid (ir_interaction_id interaction) \<rparr>
      in case ir_expires_at interaction of
           Some expires_at \<Rightarrow> request\<lparr> ar_timeout_at := expires_at \<rparr>
         | None \<Rightarrow> request)"

definition route_is_question :: "interaction_request \<Rightarrow> bool" where
  "route_is_question interaction \<longleftrightarrow> ir_kind interaction = ''question''"

definition past_deadline :: "interaction_request \<Rightarrow> datetime \<Rightarrow> bool" where
  "past_deadline interaction now \<longleftrightarrow> is_some_and (ir_expires_at interaction) (\<lambda>deadline. deadline \<le> now)"

definition undelivered :: ApprovalOutcome where
  "undelivered = Denied (Some ''coordinator could not deliver approval before timeout'')"

definition before_send :: "interaction_request \<Rightarrow> datetime \<Rightarrow> ApprovalOutcome \<Rightarrow> ApprovalOutcome" where
  "before_send interaction now out =
     (if ir_disconnect_policy interaction = FailClosed \<and> past_deadline interaction now
      then undelivered else out)"

definition after_failure :: "interaction_request \<Rightarrow> datetime \<Rightarrow> ApprovalOutcome \<Rightarrow> ApprovalOutcome" where
  "after_failure interaction now out =
     (if ir_disconnect_policy interaction = Timeout \<and> past_deadline interaction now
      then TimedOut else out)"

text \<open>
  The loop, with the coordinator's clock before the send and after a failure, and the worker as a
  state transformer; the result tells whether the loop has ended, and lists what was sent.
\<close>

fun route_loop :: "(ApprovalOutcome \<Rightarrow> 'w \<Rightarrow> bool \<times> 'w) \<Rightarrow> interaction_request
    \<Rightarrow> (datetime \<times> datetime) list \<Rightarrow> ApprovalOutcome \<Rightarrow> 'w \<Rightarrow> bool \<times> (datetime \<times> ApprovalOutcome) list \<times> 'w" where
  "route_loop deliver interaction [] out w = (False, [], w)"
| "route_loop deliver interaction ((now, later) # clocks) out w =
     (let out = before_send interaction now out in
      case deliver out w of
        (True, w) \<Rightarrow> (True, [(now, out)], w)
      | (False, w) \<Rightarrow>
          let (ended, sent, w) = route_loop deliver interaction clocks (after_failure interaction later out) w
          in (ended, (now, out) # sent, w))"

section \<open>Interleaved steps\<close>

text \<open>
  \<open>created\<close> relies on \<open>Uuid::new_v4\<close> never giving the same UUID twice. Callers are numbered; a
  caller that answers a known interaction returns at once.
\<close>

inductive service_step :: "approval_service \<Rightarrow> approval_service \<Rightarrow> bool" where
  created: "as_created s i = None \<Longrightarrow> register_interaction i s = (n, s') \<Longrightarrow>
    service_step s (add_receiver i n s')"
| checked: "as_responders s t = None \<Longrightarrow> service_step s (s\<lparr> as_responders := (as_responders s)(t \<mapsto>
      if respond_seen i s then Returned i True else Checked i out) \<rparr>)"
| missed: "as_responders s t = Some (Checked i out) \<Longrightarrow> respond_take i s = (None, s') \<Longrightarrow>
    service_step s (s'\<lparr> as_responders := (as_responders s')(t \<mapsto> Returned i False) \<rparr>)"
| taken: "as_responders s t = Some (Checked i out) \<Longrightarrow> respond_take i s = (Some n, s') \<Longrightarrow>
    service_step s (s'\<lparr> as_responders := (as_responders s')(t \<mapsto> Holding i out n) \<rparr>)"
| recorded: "as_responders s t = Some (Holding i out n) \<Longrightarrow>
    service_step s ((record_outcome i out s)\<lparr> as_responders := (as_responders s)(t \<mapsto> Recorded i out n) \<rparr>)"
| sent: "as_responders s t = Some (Recorded i out n) \<Longrightarrow>
    service_step s ((send_outcome n out s)\<lparr> as_responders := (as_responders s)(t \<mapsto> Returned i True) \<rparr>)"
| waited: "take_receiver parse approval_id s = (r, s') \<Longrightarrow> service_step s s'"

inductive_cases service_stepE: "service_step s s'"

text \<open>
  The sender of an interaction is pending, or with one caller, or spent; a caller records the
  outcome before it sends it.
\<close>

definition holds :: "approval_service \<Rightarrow> nat \<Rightarrow> nat \<Rightarrow> bool" where
  "holds s t n \<longleftrightarrow> (\<exists>i out. as_responders s t = Some (Holding i out n) \<or> as_responders s t = Some (Recorded i out n))"

definition interaction_ok :: "approval_service \<Rightarrow> uuid \<Rightarrow> nat \<Rightarrow> bool" where
  "interaction_ok s i n \<longleftrightarrow> n < length (as_channels s)
     \<and> (case as_channels s ! n of
          ChOpen \<Rightarrow>
            as_pending s i = Some n \<and> as_completed s i = None \<and> (\<forall>t. \<not> holds s t n)
            \<or> as_pending s i = None \<and> (\<exists>t. (\<forall>t'. holds s t' n \<longleftrightarrow> t' = t) \<and>
                (\<exists>out. as_responders s t = Some (Holding i out n) \<and> as_completed s i = None
                     \<or> as_responders s t = Some (Recorded i out n) \<and> as_completed s i = Some out))
        | ChSent out \<Rightarrow> as_pending s i = None \<and> as_completed s i = Some out \<and> (\<forall>t. \<not> holds s t n)
        | ChDropped \<Rightarrow> False)"

definition service_inv :: "approval_service \<Rightarrow> bool" where
  "service_inv s \<longleftrightarrow>
     (\<forall>i n. as_created s i = Some n \<longrightarrow> interaction_ok s i n)
     \<and> inj_on (as_created s) (dom (as_created s))
     \<and> (\<forall>i. as_created s i = None \<longrightarrow> as_pending s i = None \<and> as_completed s i = None)
     \<and> (\<forall>t i out n. as_responders s t = Some (Holding i out n) \<or> as_responders s t = Some (Recorded i out n)
          \<longrightarrow> as_created s i = Some n)
     \<and> (\<forall>t i. as_responders s t = Some (Returned i True) \<longrightarrow> as_completed s i \<noteq> None)
     \<and> (\<forall>i n. as_receivers s i = Some n \<longrightarrow> as_created s i = Some n)"

named_theorems service_defs \<open>unfolding of the pieces of the broker's operations\<close>

lemmas [service_defs] = register_interaction_def add_receiver_def respond_seen_def respond_take_def
  record_outcome_def send_outcome_def Let_def

lemma service_inv_new: "service_inv service_new"
  by (simp add: service_inv_def service_new_def)

lemma holds_created: "service_inv s \<Longrightarrow> holds s t n \<Longrightarrow> \<exists>i. as_created s i = Some n"
  unfolding service_inv_def holds_def by blast

text \<open>What an interaction depends on.\<close>

lemma interaction_ok_cong:
  assumes "n < length (as_channels s') \<longleftrightarrow> n < length (as_channels s)" "as_channels s' ! n = as_channels s ! n"
    and "as_pending s' i = as_pending s i" "as_completed s' i = as_completed s i"
    and "\<And>t k out. as_responders s' t = Some (Holding k out n) \<longleftrightarrow> as_responders s t = Some (Holding k out n)"
    and "\<And>t k out. as_responders s' t = Some (Recorded k out n) \<longleftrightarrow> as_responders s t = Some (Recorded k out n)"
  shows "interaction_ok s' i n = interaction_ok s i n"
proof -
  have h: "holds s' t n = holds s t n" for t using assms(5,6) by (simp add: holds_def)
  show ?thesis unfolding interaction_ok_def h assms ..
qed

text \<open>A step of one interaction leaves the others as they are.\<close>

lemma service_inv_one:
  assumes ok: "interaction_ok s' i n" and inv: "service_inv s" and c: "as_created s i = Some n"
    and same: "as_created s' = as_created s"
    and others: "\<And>k m. k \<noteq> i \<Longrightarrow> m \<noteq> n \<Longrightarrow> interaction_ok s' k m = interaction_ok s k m"
    and rest: "\<And>k. as_created s k = None \<Longrightarrow> as_pending s' k = None \<and> as_completed s' k = None"
    and resp: "\<And>t k out m. as_responders s' t = Some (Holding k out m) \<or> as_responders s' t = Some (Recorded k out m)
      \<Longrightarrow> as_created s k = Some m"
    and ret: "\<And>t k. as_responders s' t = Some (Returned k True) \<Longrightarrow> as_completed s' k \<noteq> None"
    and rec: "as_receivers s' = as_receivers s"
  shows "service_inv s'"
proof -
  have inj: "k = i" if "as_created s k = Some n" for k
    using inv c that by (auto simp: service_inv_def inj_on_def dom_def)
  have "interaction_ok s' k m" if "as_created s' k = Some m" for k m
  proof (cases "k = i")
    case True
    with that c same ok show ?thesis by simp
  next
    case False
    with that same inj have "interaction_ok s' k m = interaction_ok s k m" by (intro others) auto
    with inv that same show ?thesis by (simp add: service_inv_def)
  qed
  with inv rest resp ret show ?thesis unfolding service_inv_def same rec by blast
qed

lemma service_inv_created:
  assumes inv: "service_inv s" and new: "as_created s i = None" and reg: "register_interaction i s = (n, s')"
  shows "service_inv (add_receiver i n s')"
proof -
  have pend: "as_pending s i = None" "as_completed s i = None" using inv new by (auto simp: service_inv_def)
  then have n: "n = length (as_channels s)" and s': "s' = s\<lparr> as_channels := as_channels s @ [ChOpen],
      as_pending := (as_pending s)(i \<mapsto> n), as_created := (as_created s)(i \<mapsto> n) \<rparr>"
    using reg by (auto simp: register_interaction_def Let_def)
  have old: "m < length (as_channels s)" if "as_created s k = Some m" for k m
    using inv that by (auto simp: service_inv_def interaction_ok_def)
  have unheld: "\<not> holds s t n" for t
    using holds_created [OF inv, of t n] old by (auto simp: n)
  have holds: "holds (add_receiver i n s') t m = holds s t m" for t m
    by (simp add: holds_def add_receiver_def s')
  have "interaction_ok (add_receiver i n s') k m" if "as_created (add_receiver i n s') k = Some m" for k m
  proof (cases "k = i")
    case True
    with that have m: "m = n" by (simp add: add_receiver_def s')
    have "as_channels (add_receiver i n s') ! n = ChOpen" "n < length (as_channels (add_receiver i n s'))"
      "as_pending (add_receiver i n s') i = Some n" "as_completed (add_receiver i n s') i = None"
      using pend by (simp_all add: add_receiver_def s' n)
    then show ?thesis using unheld by (simp add: interaction_ok_def holds m True)
  next
    case False
    with that have k: "as_created s k = Some m" by (simp add: add_receiver_def s')
    have "interaction_ok (add_receiver i n s') k m = interaction_ok s k m"
      using old [OF k] False by (intro interaction_ok_cong) (auto simp: add_receiver_def s' nth_append)
    with k inv show ?thesis by (simp add: service_inv_def)
  qed
  moreover have "inj_on ((as_created s)(i \<mapsto> n)) (dom ((as_created s)(i \<mapsto> n)))"
  proof (rule inj_onI)
    have fresh: "as_created s k \<noteq> Some n" for k using old [of k n] n by auto
    have inj: "inj_on (as_created s) (dom (as_created s))" using inv by (simp add: service_inv_def)
    show "x = y" if "x \<in> dom ((as_created s)(i \<mapsto> n))" "y \<in> dom ((as_created s)(i \<mapsto> n))"
      "((as_created s)(i \<mapsto> n)) x = ((as_created s)(i \<mapsto> n)) y" for x y
      using that fresh [of x] fresh [of y] inj_onD [OF inj, of x y] by (auto split: if_splits)
  qed
  ultimately show ?thesis
    using inv new by (auto simp: service_inv_def add_receiver_def s')
qed

lemma service_inv_idle:
  assumes inv: "service_inv s" and t: "\<forall>i out n. as_responders s t \<noteq> Some (Holding i out n)
      \<and> as_responders s t \<noteq> Some (Recorded i out n)"
    and r: "\<forall>i out n. r \<noteq> Holding i out n \<and> r \<noteq> Recorded i out n"
    and ret: "\<forall>i. r = Returned i True \<longrightarrow> as_completed s i \<noteq> None"
  shows "service_inv (s\<lparr> as_responders := (as_responders s)(t \<mapsto> r) \<rparr>)"
proof -
  have "interaction_ok (s\<lparr> as_responders := (as_responders s)(t \<mapsto> r) \<rparr>) i n = interaction_ok s i n" for i n
    using t r by (intro interaction_ok_cong) auto
  with inv r ret show ?thesis unfolding service_inv_def by auto
qed

lemma service_inv_taken:
  assumes inv: "service_inv s" and t: "as_responders s t = Some (Checked i out)"
    and p: "as_pending s i = Some n"
  shows "service_inv (s\<lparr> as_pending := (as_pending s)(i := None),
      as_responders := (as_responders s)(t \<mapsto> Holding i out n) \<rparr>)" (is "service_inv ?s")
proof -
  have c: "as_created s i = Some n"
  proof -
    obtain m where m: "as_created s i = Some m" using inv p by (cases "as_created s i") (auto simp: service_inv_def)
    then have "interaction_ok s i m" using inv by (simp add: service_inv_def)
    with p m show ?thesis by (auto simp: interaction_ok_def split: channel.splits)
  qed
  then have ok: "interaction_ok s i n" using inv by (simp add: service_inv_def)
  with p have op: "as_channels s ! n = ChOpen" "as_completed s i = None" "\<forall>t. \<not> holds s t n"
    by (auto simp: interaction_ok_def split: channel.splits)
  have "holds ?s t' n \<longleftrightarrow> t' = t" for t' using op(3) by (auto simp: holds_def)
  with ok op have "interaction_ok ?s i n" by (auto simp: interaction_ok_def)
  then show ?thesis
  proof (rule service_inv_one [OF _ inv c])
    show "interaction_ok ?s k m = interaction_ok s k m" if "k \<noteq> i" "m \<noteq> n" for k m
      using that t by (intro interaction_ok_cong) auto
  qed (use inv c in \<open>auto simp: service_inv_def split: if_splits\<close>)
qed

lemma service_inv_recorded:
  assumes inv: "service_inv s" and t: "as_responders s t = Some (Holding i out n)"
  shows "service_inv ((record_outcome i out s)\<lparr> as_responders := (as_responders s)(t \<mapsto> Recorded i out n) \<rparr>)"
    (is "service_inv ?s")
proof -
  have c: "as_created s i = Some n" using inv t unfolding service_inv_def by blast
  then have ok: "interaction_ok s i n" using inv by (simp add: service_inv_def)
  have ht: "holds s t n" using t by (auto simp: holds_def)
  have h: "holds ?s t' m \<longleftrightarrow> holds s t' m" for t' m using t by (auto simp: holds_def record_outcome_def)
  have "interaction_ok ?s i n"
    using ok ht t unfolding interaction_ok_def h by (auto simp: record_outcome_def split: channel.splits)
  then show ?thesis
  proof (rule service_inv_one [OF _ inv c])
    show "interaction_ok ?s k m = interaction_ok s k m" if "k \<noteq> i" "m \<noteq> n" for k m
      using that t by (intro interaction_ok_cong) (auto simp: record_outcome_def)
  qed (use inv c in \<open>auto simp: service_inv_def record_outcome_def split: if_splits\<close>)
qed

lemma service_inv_sent:
  assumes inv: "service_inv s" and t: "as_responders s t = Some (Recorded i out n)"
  shows "service_inv ((send_outcome n out s)\<lparr> as_responders := (as_responders s)(t \<mapsto> Returned i True) \<rparr>)"
    (is "service_inv ?s")
proof -
  have c: "as_created s i = Some n" using inv t unfolding service_inv_def by blast
  then have ok: "interaction_ok s i n" using inv by (simp add: service_inv_def)
  have ht: "holds s t n" using t by (auto simp: holds_def)
  with ok t have st: "n < length (as_channels s)" "as_pending s i = None" "as_completed s i = Some out"
      "\<forall>t'. holds s t' n \<longleftrightarrow> t' = t"
    by (auto simp: interaction_ok_def split: channel.splits)
  have "\<not> holds ?s t' n" for t' using st(4) by (auto simp: holds_def send_outcome_def split: if_splits)
  then have "interaction_ok ?s i n"
    using st by (simp add: interaction_ok_def) (simp add: send_outcome_def)
  then show ?thesis
  proof (rule service_inv_one [OF _ inv c])
    show "interaction_ok ?s k m = interaction_ok s k m" if "k \<noteq> i" "m \<noteq> n" for k m
      using that t by (intro interaction_ok_cong) (auto simp: send_outcome_def)
  qed (use inv c st(3) in \<open>auto simp: service_inv_def send_outcome_def split: if_splits\<close>)
qed

lemma service_inv_step:
  assumes inv: "service_inv s" and step: "service_step s s'"
  shows "service_inv s'"
  using step
proof cases
  case (created i n s'')
  with inv show ?thesis by (simp add: service_inv_created)
next
  case (checked t i out)
  have "service_inv (s\<lparr> as_responders := (as_responders s)(t \<mapsto>
      if respond_seen i s then Returned i True else Checked i out) \<rparr>)"
    using checked(2) by (intro service_inv_idle [OF inv]) (auto simp: respond_seen_def)
  with checked(1) show ?thesis by simp
next
  case (missed t i out s'')
  then have "s'' = s" by (auto simp: respond_take_def fun_upd_idem)
  moreover have "service_inv (s\<lparr> as_responders := (as_responders s)(t \<mapsto> Returned i False) \<rparr>)"
    using missed(2) by (intro service_inv_idle [OF inv]) auto
  ultimately show ?thesis using missed(1) by simp
next
  case (taken t i out n s'')
  with service_inv_taken [OF inv taken(2)] show ?thesis by (auto simp: respond_take_def)
next
  case (recorded t i out n)
  with service_inv_recorded [OF inv recorded(2)] show ?thesis by simp
next
  case (sent t i out n)
  with service_inv_sent [OF inv sent(2)] show ?thesis by simp
next
  case (waited parse approval_id r)
  then obtain f where s': "s' = s\<lparr> as_receivers := f \<rparr>" and f: "\<And>i n. f i = Some n \<Longrightarrow> as_receivers s i = Some n"
  proof (cases "parse approval_id")
    case (Inl e)
    with waited have "s' = s\<lparr> as_receivers := as_receivers s \<rparr>" by (simp add: take_receiver_def)
    then show thesis by (rule that) simp
  next
    case (Inr i)
    with waited have "s' = s\<lparr> as_receivers := (as_receivers s)(i := None) \<rparr>" by (simp add: take_receiver_def)
    then show thesis by (rule that) (simp split: if_splits)
  qed
  have "interaction_ok s' i n = interaction_ok s i n" for i n by (intro interaction_ok_cong) (simp_all add: s')
  with inv f show ?thesis by (auto simp: service_inv_def s')
qed

interpretation broker: invariant_system "\<lambda>s. s = service_new" service_step service_inv
  by unfold_locales (auto intro: service_inv_new service_inv_step)

text \<open>An interaction is answered when its channel carries an outcome.\<close>

definition answered :: "uuid \<Rightarrow> ApprovalOutcome \<Rightarrow> approval_service \<Rightarrow> bool" where
  "answered i out s \<longleftrightarrow> (\<exists>n. as_created s i = Some n \<and> n < length (as_channels s) \<and> as_channels s ! n = ChSent out)"

lemma answered_completed:
  assumes "service_inv s" "answered i out s"
  shows "as_completed s i = Some out" and "as_pending s i = None"
proof -
  obtain n where n: "as_created s i = Some n" "as_channels s ! n = ChSent out"
    using assms(2) by (auto simp: answered_def)
  then have "interaction_ok s i n" using assms(1) by (simp add: service_inv_def)
  with n show "as_completed s i = Some out" "as_pending s i = None" by (simp_all add: interaction_ok_def)
qed

lemma answered_step:
  assumes inv: "service_inv s" and a: "answered i out s" and step: "service_step s s'"
  shows "answered i out s'"
proof -
  obtain n where n: "as_created s i = Some n" "n < length (as_channels s)" "as_channels s ! n = ChSent out"
    using a by (auto simp: answered_def)
  with inv have ok: "interaction_ok s i n" by (simp add: service_inv_def)
  have unheld: "\<not> holds s t n" for t using ok n by (simp add: interaction_ok_def)
  show ?thesis
    using step
  proof cases
    case (created k m s'')
    then have "as_pending s k = None" "k \<noteq> i" using inv n by (auto simp: service_inv_def)
    with created n show ?thesis
      by (auto simp: answered_def register_interaction_def add_receiver_def Let_def nth_append)
  next
    case (sent t k o' m)
    with unheld [of t] have "m \<noteq> n" by (auto simp: holds_def)
    with sent n show ?thesis by (auto simp: answered_def send_outcome_def)
  qed (use n in \<open>auto simp: answered_def respond_take_def record_outcome_def take_receiver_def
      split: sum.splits\<close>)
qed

interpretation answer: absorbing_system "\<lambda>s. s = service_new" service_step service_inv "answered i out"
  by unfold_locales (auto intro: answered_step)

section \<open>Properties\<close>

definition demo_answer :: "nat \<Rightarrow> uuid \<Rightarrow> ApprovalOutcome \<Rightarrow> approval_service \<Rightarrow> approval_service" where
  "demo_answer t i out s = (let (_, s) = broker_respond i out s
     in s\<lparr> as_responders := (as_responders s)(t \<mapsto> Returned i True) \<rparr>)"

text \<open>One caller's uninterrupted call is a run of the step relation.\<close>

lemma demo_answer_steps:
  assumes t: "as_responders s t = None" and c: "as_completed s i = None" and p: "as_pending s i = Some n"
  shows "service_step\<^sup>*\<^sup>* s (demo_answer t i out s)"
proof -
  let ?a = "s\<lparr> as_responders := (as_responders s)(t \<mapsto> Checked i out) \<rparr>"
  have a: "service_step s ?a" using service_step.checked [OF t, of i out] c by (simp add: respond_seen_def)
  let ?b = "?a\<lparr> as_pending := (as_pending s)(i := None), as_responders := (as_responders s)(t \<mapsto> Holding i out n) \<rparr>"
  have b: "service_step ?a ?b"
    using service_step.taken [of ?a t i out n] p by (simp add: respond_take_def)
  let ?c = "(record_outcome i out ?b)\<lparr> as_responders := (as_responders s)(t \<mapsto> Recorded i out n) \<rparr>"
  have cc: "service_step ?b ?c"
    using service_step.recorded [of ?b t i out n] by simp
  have "service_step ?c ((send_outcome n out ?c)\<lparr> as_responders := (as_responders s)(t \<mapsto> Returned i True) \<rparr>)"
    using service_step.sent [of ?c t i out n] by (simp add: record_outcome_def)
  moreover have "(send_outcome n out ?c)\<lparr> as_responders := (as_responders s)(t \<mapsto> Returned i True) \<rparr> = demo_answer t i out s"
    using c p by (simp add: demo_answer_def broker_respond_def respond_seen_def respond_take_def
        record_outcome_def send_outcome_def)
  ultimately have d: "service_step ?c (demo_answer t i out s)" by simp
  have "service_step\<^sup>*\<^sup>* ?c (demo_answer t i out s)" using d by (rule r_into_rtranclp)
  with cc have "service_step\<^sup>*\<^sup>* ?b (demo_answer t i out s)" by (rule converse_rtranclp_into_rtranclp)
  with b have "service_step\<^sup>*\<^sup>* ?a (demo_answer t i out s)" by (rule converse_rtranclp_into_rtranclp)
  with a show ?thesis by (rule converse_rtranclp_into_rtranclp)
qed

definition demo_asked :: approval_service where
  "demo_asked = add_receiver 7 0 (snd (register_interaction 7 service_new))"

lemma demo_asked_reach: "reach (\<lambda>s. s = service_new) service_step demo_asked"
proof -
  have "service_step service_new demo_asked"
    unfolding demo_asked_def
    by (rule service_step.created) (simp_all add: service_new_def register_interaction_def Let_def)
  then show ?thesis by (blast intro: reach_start reach_step)
qed

lemma demo_answered_reach: "reach (\<lambda>s. s = service_new) service_step (demo_answer 2 7 Approved demo_asked)"
proof -
  have "as_responders demo_asked 2 = None" "as_completed demo_asked 7 = None" "as_pending demo_asked 7 = Some 0"
    by (simp_all add: demo_asked_def service_new_def service_defs)
  then have "service_step\<^sup>*\<^sup>* demo_asked (demo_answer 2 7 Approved demo_asked)" by (rule demo_answer_steps)
  with demo_asked_reach show ?thesis by (rule reach_rtranclp)
qed

lemmas demo_defs = demo_asked_def demo_answer_def service_new_def broker_respond_def service_defs

text \<open>
  C16: an interaction is answered once. The agent's channel carries one outcome, which is the one the
  broker remembers; no later response, in any interleaving, replaces it.
\<close>

theorem interaction_answered_once:
  assumes "reach (\<lambda>s. s = service_new) service_step s" and "answered i out s"
    and "service_step\<^sup>*\<^sup>* s s'"
  shows "answered i out s' \<and> as_completed s' i = Some out \<and> (\<forall>out'. answered i out' s' \<longrightarrow> out' = out)"
proof -
  have inv: "service_inv s" using assms(1) by (rule broker.inv_reach)
  have a: "answered i out s'" using assms(3) inv assms(2) by (rule answer.final_steps)
  moreover have "as_completed s' i = Some out"
    using broker.inv_steps [OF assms(3) inv] a by (rule answered_completed)
  ultimately show ?thesis by (auto simp: answered_def)
qed

theorem interaction_answered_once_witness:
  "as_completed (demo_answer 2 7 Approved demo_asked) 7 = Some Approved"
proof -
  let ?s = "demo_answer 2 7 Approved demo_asked"
  note demo_answered_reach
  moreover have "answered 7 Approved ?s" by (simp add: answered_def demo_defs)
  ultimately show ?thesis using interaction_answered_once [of ?s 7 Approved ?s] by blast
qed

text \<open>
  A response that the broker took is not lost. Once some caller was told that its response to an
  interaction was taken and no caller is between the record and the send, the agent's channel
  carries the recorded outcome; and the channel of an interaction is never dropped unanswered, so
  a waiting agent never sees \<open>ServiceUnavailable\<close>.
\<close>

theorem acknowledged_response_delivered:
  assumes "reach (\<lambda>s. s = service_new) service_step s" and "as_created s i = Some n"
  shows "Err ServiceUnavailable \<notin> set (ready_results c (as_channels s ! n))
    \<and> (as_responders s t = Some (Returned i True) \<longrightarrow> (\<forall>t' out m. as_responders s t' \<noteq> Some (Recorded i out m))
       \<longrightarrow> (\<exists>out. as_completed s i = Some out \<and> answered i out s))"
proof -
  have inv: "service_inv s" using assms(1) by (rule broker.inv_reach)
  then have ok: "interaction_ok s i n" using assms(2) by (simp add: service_inv_def)
  then have "as_channels s ! n \<noteq> ChDropped" by (auto simp: interaction_ok_def)
  then have "Err ServiceUnavailable \<notin> set (ready_results c (as_channels s ! n))"
    by (auto simp: ready_results_def split: channel.splits)
  moreover have "\<exists>out. as_completed s i = Some out \<and> answered i out s"
    if "as_responders s t = Some (Returned i True)" "\<forall>t' out m. as_responders s t' \<noteq> Some (Recorded i out m)"
  proof -
    have "as_completed s i \<noteq> None" using inv that(1) unfolding service_inv_def by blast
    with ok that(2) have "\<exists>out. as_channels s ! n = ChSent out" by (auto simp: interaction_ok_def split: channel.splits)
    then obtain out where "answered i out s" using assms(2) ok by (auto simp: answered_def interaction_ok_def)
    then show ?thesis using answered_completed(1) [OF inv] by blast
  qed
  ultimately show ?thesis by blast
qed

theorem acknowledged_response_delivered_witness:
  "\<exists>out. as_completed (demo_answer 2 7 Approved demo_asked) 7 = Some out
     \<and> answered 7 out (demo_answer 2 7 Approved demo_asked)"
proof -
  let ?s = "demo_answer 2 7 Approved demo_asked"
  note demo_answered_reach
  moreover have "as_created ?s 7 = Some 0" "as_responders ?s 2 = Some (Returned 7 True)"
    "\<forall>t' out m. as_responders ?s t' \<noteq> Some (Recorded 7 out m)" by (simp_all add: demo_defs)
  ultimately show ?thesis using acknowledged_response_delivered [of ?s 7 0 False 2] by blast
qed

section \<open>The routing task against the broker\<close>

text \<open>What is sent is the waiter's outcome, or what the disconnect policy says instead.\<close>

lemma route_loop_sent:
  "(t, x) \<in> set (fst (snd (route_loop deliver ia clocks out w))) \<Longrightarrow>
     (x = out \<or> ir_disconnect_policy ia = FailClosed \<and> x = undelivered
        \<or> ir_disconnect_policy ia = Timeout \<and> x = TimedOut)
     \<and> (ir_disconnect_policy ia = FailClosed \<and> past_deadline ia t \<longrightarrow> x = undelivered)"
proof (induction deliver ia clocks out w rule: route_loop.induct)
  case (1 deliver ia out w)
  then show ?case by simp
next
  case (2 deliver ia now later clocks out w)
  let ?out = "before_send ia now out" and ?next = "after_failure ia later (before_send ia now out)"
  have bs: "(?out = out \<or> ir_disconnect_policy ia = FailClosed \<and> ?out = undelivered)
      \<and> (ir_disconnect_policy ia = FailClosed \<and> past_deadline ia now \<longrightarrow> ?out = undelivered)"
    by (simp add: before_send_def)
  have af: "?next = ?out \<or> ir_disconnect_policy ia = Timeout \<and> ?next = TimedOut" by (simp add: after_failure_def)
  obtain b w' where d: "deliver ?out w = (b, w')" by fastforce
  obtain e s u where r: "route_loop deliver ia clocks ?next w' = (e, s, u)" by (metis prod_cases3)
  show ?case
  proof (cases b)
    case True
    with 2(2) d have "t = now" "x = ?out" by (simp_all add: Let_def)
    with bs show ?thesis by blast
  next
    case False
    with 2(2) d r have "(t, x) = (now, ?out) \<or> (t, x) \<in> set s" by (auto simp: Let_def)
    then show ?thesis
    proof
      assume "(t, x) = (now, ?out)"
      with bs show ?thesis by blast
    next
      assume "(t, x) \<in> set s"
      with r have "(t, x) \<in> set (fst (snd (route_loop deliver ia clocks ?next w')))" by simp
      moreover note 2(1) [OF refl d [symmetric]]
      ultimately show ?thesis using False bs af by auto
    qed
  qed
qed

text \<open>
  The outcome that reaches the agent is one its wait accepts. Whatever callers respond with on the
  coordinator and however the calls interleave with the timeouts, the routing task of a tool
  approval sends no answers and that of a question sends no approval or denial, also when a
  deadline passes while the worker cannot be reached.
\<close>

theorem routed_answer_fits:
  assumes "reach (\<lambda>a. a = approvals_new) approval_step a"
    and "r = route_request show_uuid fresh now execution ia" and "ap_channel a (ar_id r) = None"
    and "approval_step\<^sup>*\<^sup>* (create_with_waiter a r (route_is_question ia)) b"
    and "ap_channel b (ar_id r) = Some c" and "waiter_outcome c = Some out"
    and "(t, x) \<in> set (fst (snd (route_loop deliver ia clocks out w)))"
    and "ir_kind ia = ''tool'' \<and> ir_disconnect_policy ia = FailClosed
       \<or> ir_kind ia = ''question'' \<and> ir_disconnect_policy ia = Timeout"
  shows "if route_is_question ia then is_ok (question_status x) else is_ok (tool_status x)"
proof -
  have "validate_approval_response out (route_is_question ia) = Ok ()"
  proof (cases c)
    case (ChSent y)
    with assms(6) have "ap_channel b (ar_id r) = Some (ChSent out)" using assms(5) by simp
    with assms(1,3,4) show ?thesis by (rule approval_answer_kind)
  qed (use assms(6) in auto)
  with route_loop_sent [OF assms(7)] assms(8) show ?thesis
    by (cases out) (auto simp: route_is_question_def undelivered_def)
qed

definition demo_interaction :: "string \<Rightarrow> DisconnectPolicy \<Rightarrow> interaction_request" where
  "demo_interaction kind policy = \<lparr> ir_interaction_id = 7, ir_kind = kind, ir_prompt = ''a'',
     ir_expires_at = Some 100, ir_disconnect_policy = policy \<rparr>"

theorem routed_answer_fits_witness: "is_ok (question_status TimedOut)"
proof -
  let ?ia = "demo_interaction ''question'' Timeout"
  let ?r = "route_request (\<lambda>_. ''a'') ''f'' 1 2 ?ia"
  let ?b = "snd (respond (create_with_waiter approvals_new ?r True) ''a'' (Answered []))"
  have q: "route_is_question ?ia" by (simp add: route_is_question_def demo_interaction_def)
  have id: "ar_id ?r = ''a''" by (simp add: route_request_def approval_request_new_def Let_def split: option.split)
  have "approval_step\<^sup>*\<^sup>* (create_with_waiter approvals_new ?r True) ?b" by (rule respond_steps)
  moreover have "ap_channel ?b ''a'' = Some (ChSent (Answered []))"
    by (simp add: respond_def approval_defs pending_of_def id)
  moreover have "(101, TimedOut) \<in> set (fst (snd (route_loop (\<lambda>out w. (w = 1, w + 1 :: nat)) ?ia
      [(99, 100), (101, 102)] (Answered []) 0)))"
    by (simp add: before_send_def after_failure_def past_deadline_def demo_interaction_def)
  ultimately show ?thesis
    using routed_answer_fits [of approvals_new ?r "\<lambda>_. ''a''" "''f''" 1 2 ?ia ?b "ChSent (Answered [])" "Answered []"] q id
    by (fastforce simp: reach_start approvals_new_def demo_interaction_def)
qed

text \<open>
  Tool approvals fail closed. Past the deadline of a tool approval the routing task sends a denial
  and nothing else, even when the user has approved, and the agent's wait turns it into a denial.
\<close>

theorem late_approval_denied:
  assumes "ir_disconnect_policy ia = FailClosed" and "past_deadline ia t"
    and "(t, x) \<in> set (fst (snd (route_loop deliver ia clocks out w)))"
  shows "\<exists>reason. tool_status x = Ok (StDenied reason)"
  using route_loop_sent [OF assms(3)] assms(1,2) by (auto simp: undelivered_def)

theorem late_approval_denied_witness:
  "\<exists>reason. tool_status (before_send (demo_interaction ''tool'' FailClosed) 101 Approved) = Ok (StDenied reason)"
  by (rule late_approval_denied [where ia = "demo_interaction ''tool'' FailClosed" and t = 101
        and clocks = "[(99, 100), (101, 102)]" and out = Approved
        and deliver = "\<lambda>out w. (w = 1, w + 1 :: nat)" and w = 0])
     (simp_all add: before_send_def after_failure_def past_deadline_def demo_interaction_def)

text \<open>
  The network between the task and the broker: the request may be lost, or the response, in which
  case the worker has taken the outcome and the task tries again.
\<close>

datatype attempt = RequestLost | ResponseLost | Through

fun over_network :: "uuid \<Rightarrow> ApprovalOutcome \<Rightarrow> attempt list \<times> approval_service
    \<Rightarrow> bool \<times> (attempt list \<times> approval_service)" where
  "over_network i out ([], s) = (False, ([], s))"
| "over_network i out (RequestLost # net, s) = (False, (net, s))"
| "over_network i out (ResponseLost # net, s) = (False, (net, snd (broker_respond i out s)))"
| "over_network i out (Through # net, s) =
     (let (taken, s) = broker_respond i out s in (taken, (net, s)))"

lemma broker_respond_seen [simp]: "as_completed s i = Some y \<Longrightarrow> broker_respond i out s = (True, s)"
  by (simp add: broker_respond_def respond_seen_def)

lemma broker_respond_first:
  "as_completed s i = None \<Longrightarrow> as_pending s i = Some n \<Longrightarrow>
     fst (broker_respond i out s) \<and> as_completed (snd (broker_respond i out s)) i = Some out
     \<and> as_channels (snd (broker_respond i out s)) = (as_channels s)[n := ChSent out]"
  by (simp add: broker_respond_def service_defs)

lemma route_loop_repeated:
  "as_completed s i = Some y \<Longrightarrow> Through \<in> set (take (length clocks) net) \<Longrightarrow>
     \<exists>es net'. route_loop (over_network i) ia clocks out (net, s) = (True, es, (net', s))"
proof (induction clocks arbitrary: out net)
  case Nil
  then show ?case by simp
next
  case (Cons c clocks)
  obtain now later where c: "c = (now, later)" by fastforce
  from Cons.prems(2) obtain a rest where net: "net = a # rest" by (cases net) auto
  show ?case
  proof (cases a)
    case Through
    with net c Cons.prems(1) show ?thesis by (simp add: Let_def)
  next
    case RequestLost
    with net Cons.prems have "Through \<in> set (take (length clocks) rest)" by auto
    from Cons.IH [OF Cons.prems(1) this, of "after_failure ia later (before_send ia now out)"]
    show ?thesis using RequestLost net c by (auto simp: Let_def)
  next
    case ResponseLost
    with net Cons.prems have "Through \<in> set (take (length clocks) rest)" by auto
    from Cons.IH [OF Cons.prems(1) this, of "after_failure ia later (before_send ia now out)"]
    show ?thesis using ResponseLost net c Cons.prems(1) by (auto simp: Let_def)
  qed
qed

lemma route_loop_first:
  "as_completed s i = None \<Longrightarrow> as_pending s i = Some n \<Longrightarrow> Through \<in> set (take (length clocks) net) \<Longrightarrow>
     \<exists>es net'. route_loop (over_network i) ia clocks out (net, s) =
       (True, es, (net', snd (broker_respond i (snd (es ! length (takeWhile ((=) RequestLost) net))) s)))"
proof (induction clocks arbitrary: out net)
  case Nil
  then show ?case by simp
next
  case (Cons c clocks)
  obtain now later where c: "c = (now, later)" by fastforce
  from Cons.prems(3) obtain a rest where net: "net = a # rest" by (cases net) auto
  let ?out = "before_send ia now out"
  note first = broker_respond_first [OF Cons.prems(1,2), of ?out]
  show ?case
  proof (cases a)
    case Through
    obtain b s' where "broker_respond i ?out s = (b, s')" by fastforce
    with net c first Through show ?thesis by (simp add: Let_def)
  next
    case RequestLost
    with net Cons.prems have "Through \<in> set (take (length clocks) rest)" by auto
    from Cons.IH [OF Cons.prems(1,2) this, of "after_failure ia later ?out"]
    show ?thesis using RequestLost net c by (auto simp: Let_def)
  next
    case ResponseLost
    with net Cons.prems have th: "Through \<in> set (take (length clocks) rest)" by auto
    from first have "as_completed (snd (broker_respond i ?out s)) i = Some ?out" by blast
    from route_loop_repeated [OF this th, of ia "after_failure ia later ?out"]
    show ?thesis using ResponseLost net c by (auto simp: Let_def)
  qed
qed

text \<open>
  C15: an answer gets through. When the worker's broker has the interaction pending and one of the
  attempts gets a response back, the routing task ends, and the agent's channel carries the
  outcome of the first attempt that reached the worker, however many requests and responses were
  lost before; later attempts with another outcome (after a deadline) change nothing.
\<close>

theorem answer_gets_through:
  assumes "as_completed s i = None" and "as_pending s i = Some n" and "n < length (as_channels s)"
    and "Through \<in> set (take (length clocks) net)"
  shows "let (ended, es, (net', s')) = route_loop (over_network i) ia clocks out (net, s)
    in ended \<and> as_channels s' ! n = ChSent (snd (es ! length (takeWhile ((=) RequestLost) net)))"
proof -
  obtain es net' where r: "route_loop (over_network i) ia clocks out (net, s) =
      (True, es, (net', snd (broker_respond i (snd (es ! length (takeWhile ((=) RequestLost) net))) s)))"
    using route_loop_first [OF assms(1,2,4)] by blast
  show ?thesis unfolding r using broker_respond_first [OF assms(1,2)] assms(3) by simp
qed

theorem answer_gets_through_witness:
  "let (ended, es, (net', s')) = route_loop (over_network 7) (demo_interaction ''question'' Timeout)
      [(98, 99), (99, 100), (101, 102)] (Answered []) ([RequestLost, ResponseLost, Through], demo_asked)
   in ended \<and> as_channels s' ! 0 = ChSent (snd (es ! length (takeWhile ((=) RequestLost) [RequestLost, ResponseLost, Through])))"
  by (rule answer_gets_through) (simp_all add: demo_asked_def service_new_def service_defs)

text \<open>
  A restarted worker rebuilds its jobs with an empty broker, so it takes no response to an
  interaction that was requested before: the routing task sends again on every attempt and has no
  way to end, with a deadline or without.
\<close>

theorem restarted_worker_never_answers:
  "let (ended, es, s) = route_loop (broker_respond i) ia clocks out service_new
   in \<not> ended \<and> s = service_new \<and> map fst es = map fst clocks"
proof -
  have none: "broker_respond i x service_new = (False, service_new)" for x
  proof -
    have "as_pending service_new = Map.empty" "as_completed service_new = Map.empty"
      by (simp_all add: service_new_def)
    moreover have "service_new\<lparr> as_pending := Map.empty \<rparr> = service_new" by (simp add: service_new_def)
    ultimately show ?thesis by (simp add: broker_respond_def respond_seen_def respond_take_def)
  qed
  show ?thesis
  proof (induction clocks arbitrary: out)
    case (Cons c clocks)
    obtain now later where c: "c = (now, later)" by fastforce
    from Cons.IH [of "after_failure ia later (before_send ia now out)"]
    show ?case by (auto simp: c none Let_def split: prod.splits)
  qed simp
qed

end
