(* ===== verification/Worker_Api.thy ===== *)
theory Worker_Api
  imports Worker_Supervisor Interaction_Broker Relay_Signing Worker_Events
begin

text \<open>
  The worker's HTTP interface (\<open>worker/src/worker_api.rs\<close>): the check of the coordinator's signature on
  every request, the check of the authority in a request's body with its nonces, the handlers of
  dispatch, events, acknowledgement, cancellation, interaction responses, quarantine, quiescing and
  inventory, and the status of an error; and the coordinator's side of a call
  (\<open>services/cluster/client.rs\<close>): signing, decoding, the search for an endpoint and the one retry of a
  dispatch.

  Routing and the reading of JSON are axum's and serde's: the parameter \<open>read_call\<close> gives the call a
  request stands for. \<open>ae_wall\<close> is the system clock, \<open>ae_mono\<close> the monotonic clock, both in
  nanoseconds; one request reads each once.
\<close>

section \<open>Calls and errors\<close>

record dispatch_payload = execution_dispatch +
  dp_authority :: request_authority

record event_acknowledgement =
  ak_authority :: request_authority
  ak_execution_id :: uuid
  ak_highest_contiguous_sequence :: u64

record cancellation_request =
  cr_authority :: request_authority
  cr_execution_id :: uuid
  cr_graceful_timeout_seconds :: u32
  cr_terminate_timeout_seconds :: u32

record quarantine_request =
  qr_authority :: request_authority
  qr_execution_id :: uuid
  qr_reason :: string

record interaction_response =
  is_authority :: request_authority
  is_execution_id :: uuid
  is_interaction_id :: uuid
  is_response :: string

record quiescence_request =
  qx_authority :: request_authority
  qx_operation_id :: uuid
  qx_execution_id :: uuid
  qx_workspace_id :: uuid

text \<open>A request after routing: the path's parameters and the body.\<close>

datatype api_call =
    CallInventory
  | CallEvents uuid u64
  | CallDispatch uuid dispatch_payload
  | CallAcknowledge uuid event_acknowledgement
  | CallCancel uuid cancellation_request
  | CallRespond uuid uuid interaction_response
  | CallQuarantine uuid quarantine_request
  | CallQuiesce uuid quiescence_request
  | CallResume uuid quiescence_request

fun call_authority :: "api_call \<Rightarrow> request_authority option" where
  "call_authority (CallDispatch _ p) = Some (dp_authority p)"
| "call_authority (CallAcknowledge _ p) = Some (ak_authority p)"
| "call_authority (CallCancel _ p) = Some (cr_authority p)"
| "call_authority (CallRespond _ _ p) = Some (is_authority p)"
| "call_authority (CallQuarantine _ p) = Some (qr_authority p)"
| "call_authority (CallQuiesce _ p) = Some (qx_authority p)"
| "call_authority (CallResume _ p) = Some (qx_authority p)"
| "call_authority _ = None"

datatype api_reply =
    RpJobs "job_summary list"
  | RpEvents event_batch
  | RpAccepted dispatch_accepted
  | RpAcknowledged u64
  | RpCancellation cancellation_status
  | RpInteraction
  | RpQuarantined job_summary
  | RpQuiescence uuid uuid bool

datatype 'io WorkerApiError =
    Unauthorized
  | Forbidden
  | BadRequest string
  | ApiExecution "'io ExecutionError"

text \<open>\<open>into_response\<close>; the texts of execution errors are a parameter.\<close>

fun into_response :: "('io ExecutionError \<Rightarrow> string) \<Rightarrow> 'io WorkerApiError \<Rightarrow> nat \<times> string" where
  "into_response show_ex Unauthorized = (401, ''invalid request signature'')"
| "into_response show_ex Forbidden = (403, ''request authority rejected'')"
| "into_response show_ex (BadRequest message) = (400, message)"
| "into_response show_ex (ApiExecution (DigestConflict _)) = (409, ''execution digest conflict'')"
| "into_response show_ex (ApiExecution ExDraining) = (503, ''worker is draining for a release handoff'')"
| "into_response show_ex (ApiExecution (UnderPressure p)) = (503, show_ex (UnderPressure p))"
| "into_response show_ex (ApiExecution e) = (400, show_ex e)"

section \<open>The state\<close>

text \<open>
  The broker of each job, which the supervisor's jobs hold in the code, is kept per execution;
  a job that was recovered has an empty one. \<open>wa_launched\<close> records the \<open>run_job\<close> tasks spawned.
\<close>

record worker_api =
  wa_supervisor :: supervisor
  wa_worker_node_id :: uuid
  wa_coordinator_id :: uuid
  wa_coordinator_key :: string
  wa_seen_nonces :: "string \<rightharpoonup> int"
  wa_brokers :: "uuid \<Rightarrow> approval_service"
  wa_launched :: "(uuid \<times> string) list"

record 'io api_env =
  ae_wall :: int
  ae_mono :: int
  ae_host :: "'io host"
  ae_cancel :: "cancellation_request \<Rightarrow> cancel_env"
  ae_kill_ok :: bool
  ae_outcome :: "string \<Rightarrow> string + ApprovalOutcome"
  ae_show_cancel :: "CancellationError \<Rightarrow> string"

definition NANOS :: int where "NANOS = 1000000000"

definition MAX_TIMESTAMP_DRIFT_SECONDS :: int where "MAX_TIMESTAMP_DRIFT_SECONDS = 30"

definition NONCE_RETENTION :: int where "NONCE_RETENTION = 120 * NANOS"

section \<open>Authority\<close>

text \<open>\<open>num_seconds\<close> rounds towards zero. A refused nonce leaves the expired ones removed.\<close>

definition authority_fits :: "'io api_env \<Rightarrow> worker_api \<Rightarrow> request_authority \<Rightarrow> bool" where
  "authority_fits env w a \<longleftrightarrow> protocol_version a = PROTOCOL_VERSION
     \<and> authority_worker_node_id a = wa_worker_node_id w \<and> coordinator_id a = wa_coordinator_id w
     \<and> \<bar>ae_wall env - issued_at a\<bar> div NANOS \<le> MAX_TIMESTAMP_DRIFT_SECONDS"

definition validate_api_authority :: "'io api_env \<Rightarrow> request_authority \<Rightarrow> worker_api
    \<Rightarrow> ('io WorkerApiError + unit) \<times> worker_api" where
  "validate_api_authority env a w =
     (if \<not> authority_fits env w a then (Err Forbidden, w)
      else let nonces = map_retain (\<lambda>seen. elapsed (ae_mono env) seen \<le> NONCE_RETENTION) (wa_seen_nonces w)
        in if nonces (nonce a) \<noteq> None then (Err Forbidden, w\<lparr> wa_seen_nonces := nonces \<rparr>)
           else (Ok (), w\<lparr> wa_seen_nonces := nonces(nonce a \<mapsto> ae_mono env) \<rparr>))"

text \<open>\<open>validate_authority(..).await?\<close>, then a guard over the path and the body, then the rest.\<close>

definition guarded :: "'io api_env \<Rightarrow> request_authority \<Rightarrow> bool \<Rightarrow> 'io WorkerApiError
    \<Rightarrow> (worker_api \<Rightarrow> ('io WorkerApiError + api_reply) \<times> worker_api)
    \<Rightarrow> worker_api \<Rightarrow> ('io WorkerApiError + api_reply) \<times> worker_api" where
  "guarded env a mismatch e rest w =
     (case validate_api_authority env a w of
        (Inl refused, w) \<Rightarrow> (Err refused, w)
      | (Inr _, w) \<Rightarrow> if mismatch then (Err e, w) else rest w)"

section \<open>Handlers\<close>

definition handle_dispatch :: "'io api_env \<Rightarrow> uuid \<Rightarrow> dispatch_payload \<Rightarrow> worker_api
    \<Rightarrow> ('io WorkerApiError + api_reply) \<times> worker_api" where
  "handle_dispatch env i p = guarded env (dp_authority p)
     (ed_execution_id p \<noteq> i \<or> correlation_id (dp_authority p) \<noteq> i)
     (BadRequest ''path execution ID does not match dispatch'')
     (\<lambda>w. case dispatch (ae_host env) (execution_dispatch.truncate p) (wa_supervisor w) of
        (r, sv, launched) \<Rightarrow> (map_err ApiExecution (try_bind r (\<lambda>acc. Ok (RpAccepted acc))),
           w\<lparr> wa_supervisor := sv, wa_launched := wa_launched w @ option_list launched \<rparr>))"

definition handle_event_query :: "uuid \<Rightarrow> u64 \<Rightarrow> worker_api \<Rightarrow> ('io WorkerApiError + api_reply) \<times> worker_api" where
  "handle_event_query i after w =
     (map_err ApiExecution (try_bind (events i after (wa_supervisor w)) (\<lambda>b. Ok (RpEvents b))), w)"

definition handle_inventory :: "worker_api \<Rightarrow> ('io WorkerApiError + api_reply) \<times> worker_api" where
  "handle_inventory w = (Ok (RpJobs (inventory (wa_supervisor w))), w)"

definition handle_acknowledge :: "'io api_env \<Rightarrow> uuid \<Rightarrow> event_acknowledgement \<Rightarrow> worker_api
    \<Rightarrow> ('io WorkerApiError + api_reply) \<times> worker_api" where
  "handle_acknowledge env i p = guarded env (ak_authority p) (ak_execution_id p \<noteq> i)
     (BadRequest ''path execution ID does not match acknowledgement'')
     (\<lambda>w. case acknowledge i (ak_highest_contiguous_sequence p) (wa_supervisor w) of
        (r, sv) \<Rightarrow> (map_err ApiExecution (try_bind r (\<lambda>n. Ok (RpAcknowledged n))), w\<lparr> wa_supervisor := sv \<rparr>))"

definition handle_cancel :: "'io api_env \<Rightarrow> uuid \<Rightarrow> cancellation_request \<Rightarrow> worker_api
    \<Rightarrow> ('io WorkerApiError + api_reply) \<times> worker_api" where
  "handle_cancel env i p = guarded env (cr_authority p) (cr_execution_id p \<noteq> i)
     (BadRequest ''path execution ID does not match cancellation'')
     (\<lambda>w. case cancel_execution (ae_cancel env p) (cr_execution_id p) (wa_supervisor w) of
        (r, sv) \<Rightarrow> (map_err (\<lambda>e. BadRequest (ae_show_cancel env e)) (try_bind r (\<lambda>s. Ok (RpCancellation s))),
           w\<lparr> wa_supervisor := sv \<rparr>))"

text \<open>\<open>ExecutionSupervisor::respond_interaction\<close>, then its handler.\<close>

definition supervisor_respond :: "datetime \<Rightarrow> uuid \<Rightarrow> uuid \<Rightarrow> ApprovalOutcome \<Rightarrow> worker_api
    \<Rightarrow> ('io ExecutionError + bool) \<times> worker_api" where
  "supervisor_respond now i k out w =
     (case find_worker_job i (wa_supervisor w) of
        None \<Rightarrow> (Err (ExNotFound i), w)
      | Some _ \<Rightarrow>
          let (responded, b) = broker_respond k out (wa_brokers w i);
              w = w\<lparr> wa_brokers := (wa_brokers w)(i := b) \<rparr>
          in (Ok responded,
              if responded
              then w\<lparr> wa_supervisor := set_job i (emit now (EvInteractionAcknowledged k)) (wa_supervisor w) \<rparr>
              else w))"

definition handle_respond :: "'io api_env \<Rightarrow> uuid \<Rightarrow> uuid \<Rightarrow> interaction_response \<Rightarrow> worker_api
    \<Rightarrow> ('io WorkerApiError + api_reply) \<times> worker_api" where
  "handle_respond env i k p = guarded env (is_authority p) (is_execution_id p \<noteq> i \<or> is_interaction_id p \<noteq> k)
     (BadRequest ''path IDs do not match interaction response'')
     (\<lambda>w. case ae_outcome env (is_response p) of
        Inl e \<Rightarrow> (Err (BadRequest (''invalid interaction response: '' @ e)), w)
      | Inr out \<Rightarrow>
          (case supervisor_respond (h_now (ae_host env)) i k out w of
             (Inl e, w) \<Rightarrow> (Err (ApiExecution e), w)
           | (Inr responded, w) \<Rightarrow>
               (if responded then Ok RpInteraction else Err (BadRequest ''interaction is not pending''), w)))"

definition handle_quarantine :: "'io api_env \<Rightarrow> uuid \<Rightarrow> quarantine_request \<Rightarrow> worker_api
    \<Rightarrow> ('io WorkerApiError + api_reply) \<times> worker_api" where
  "handle_quarantine env i p = guarded env (qr_authority p) (qr_execution_id p \<noteq> i)
     (BadRequest ''path execution ID does not match quarantine request'')
     (\<lambda>w. let cancellation = \<lparr> cr_authority = qr_authority p, cr_execution_id = i,
             cr_graceful_timeout_seconds = 0, cr_terminate_timeout_seconds = 0 \<rparr>
        in case cancel_execution (ae_cancel env cancellation) i (wa_supervisor w) of
             (Inl e, sv) \<Rightarrow> (Err (BadRequest (ae_show_cancel env e)), w\<lparr> wa_supervisor := sv \<rparr>)
           | (Inr _, sv) \<Rightarrow>
               (case quarantine (h_disk_ok (ae_host env)) i sv of
                  (r, sv) \<Rightarrow> (map_err ApiExecution (try_bind r (\<lambda>s. Ok (RpQuarantined s))),
                    w\<lparr> wa_supervisor := sv \<rparr>)))"

text \<open>Both quiescence handlers, on a Unix host.\<close>

definition validate_transfer_authority :: "uuid \<Rightarrow> request_authority \<Rightarrow> 'io WorkerApiError + unit" where
  "validate_transfer_authority operation a =
     (if correlation_id a \<noteq> operation
      then Err (BadRequest ''session transfer authority is not bound to the operation'') else Ok ())"

definition handle_quiescence :: "bool \<Rightarrow> 'io api_env \<Rightarrow> uuid \<Rightarrow> quiescence_request \<Rightarrow> worker_api
    \<Rightarrow> ('io WorkerApiError + api_reply) \<times> worker_api" where
  "handle_quiescence quiesced env operation p = guarded env (qx_authority p) False Forbidden
     (\<lambda>w. case validate_transfer_authority operation (qx_authority p) of
        Inl e \<Rightarrow> (Err e, w)
      | Inr _ \<Rightarrow>
          if qx_operation_id p \<noteq> operation then (Err Forbidden, w)
          else case set_quiesced (ae_kill_ok env) (qx_execution_id p) (qx_workspace_id p) operation quiesced
                 (wa_supervisor w) of
             (r, sv) \<Rightarrow> (map_err ApiExecution
                 (try_bind r (\<lambda>_. Ok (RpQuiescence (qx_execution_id p) operation quiesced))),
               w\<lparr> wa_supervisor := sv \<rparr>))"

fun handle :: "'io api_env \<Rightarrow> api_call \<Rightarrow> worker_api \<Rightarrow> ('io WorkerApiError + api_reply) \<times> worker_api" where
  "handle env CallInventory w = handle_inventory w"
| "handle env (CallEvents i after) w = handle_event_query i after w"
| "handle env (CallDispatch i p) w = handle_dispatch env i p w"
| "handle env (CallAcknowledge i p) w = handle_acknowledge env i p w"
| "handle env (CallCancel i p) w = handle_cancel env i p w"
| "handle env (CallRespond i k p) w = handle_respond env i k p w"
| "handle env (CallQuarantine i p) w = handle_quarantine env i p w"
| "handle env (CallQuiesce operation p) w = handle_quiescence True env operation p w"
| "handle env (CallResume operation p) w = handle_quiescence False env operation p w"

section \<open>The signature of a request\<close>

record http_request =
  hr_method :: string
  hr_target :: string
  hr_timestamp :: "string option"
  hr_signature :: "string option"
  hr_content_digest :: "string option"
  hr_body :: "string option"
    \<comment> \<open>\<open>None\<close>: longer than the cap, or the connection broke\<close>

text \<open>\<open>parse::<i64>\<close>: an optional sign and at least one digit.\<close>

definition parse_i64 :: "string \<Rightarrow> int option" where
  "parse_i64 s = (case s of
     [] \<Rightarrow> None
   | c # ds \<Rightarrow>
       if c = CHR ''-'' then
         (if ds = [] then None else Option.bind (parse_digits 0 ds) (\<lambda>n.
            if i64_min \<le> - int n then Some (- int n) else None))
       else Option.bind (parse_nat s) (\<lambda>n. if int n \<le> i64_max then Some (int n) else None))"

definition signed_message :: "int \<Rightarrow> string \<Rightarrow> string \<Rightarrow> string \<Rightarrow> string" where
  "signed_message timestamp verb target digest =
     show_int timestamp @ ''.'' @ verb @ ''.'' @ target @ ''.'' @ digest"

text \<open>\<open>None\<close> is the overflow of \<open>abs\<close>.\<close>

definition timestamp_fresh :: "int \<Rightarrow> int \<Rightarrow> bool option" where
  "timestamp_fresh now timestamp =
     map_option (\<lambda>drift. drift \<le> MAX_TIMESTAMP_DRIFT_SECONDS) (i64_abs (i64_saturating_sub now timestamp))"

definition require_signature :: "crypto \<Rightarrow> int \<Rightarrow> string \<Rightarrow> http_request \<Rightarrow> ('io WorkerApiError + string) option" where
  "require_signature cy now key req =
     (case Option.bind (hr_timestamp req) parse_i64 of
        None \<Rightarrow> Some (Err Unauthorized)
      | Some timestamp \<Rightarrow> map_option (\<lambda>fresh.
          if \<not> fresh then Err Unauthorized
          else try_bind (ok_or (Option.bind (Option.bind (hr_signature req) (cy_b64_decode cy)) (cy_signature cy))
                 Unauthorized) (\<lambda>signature.
               try_bind (ok_or (hr_content_digest req) Unauthorized) (\<lambda>content_digest.
               try_bind (ok_or (hr_body req) Unauthorized) (\<lambda>body.
               if content_digest \<noteq> cy_b64 cy (cy_sha256 cy body) then Err Unauthorized
               else if \<not> cy_verify cy key (signed_message timestamp (hr_method req) (hr_target req) content_digest) signature
               then Err Unauthorized
               else Ok body))))
          (timestamp_fresh now timestamp))"

text \<open>A request that no route or extractor takes is answered by axum; the state stays as it is.\<close>

datatype 'io api_failure = ApiError "'io WorkerApiError" | Unroutable | Panicked

type_synonym extractor = "string \<Rightarrow> string \<Rightarrow> string \<Rightarrow> api_call option"

definition serve :: "crypto \<Rightarrow> extractor \<Rightarrow> 'io api_env \<Rightarrow> http_request \<Rightarrow> worker_api
    \<Rightarrow> ('io api_failure + api_reply) \<times> worker_api" where
  "serve cy read_call env req w =
     (case require_signature cy (ae_wall env div NANOS) (wa_coordinator_key w) req of
        None \<Rightarrow> (Err Panicked, w)
      | Some (Inl e) \<Rightarrow> (Err (ApiError e), w)
      | Some (Inr body) \<Rightarrow>
          (case read_call (hr_method req) (hr_target req) body of
             None \<Rightarrow> (Err Unroutable, w)
           | Some call \<Rightarrow> (case handle env call w of (r, w) \<Rightarrow> (map_err ApiError r, w))))"

section \<open>The coordinator's side\<close>

definition client_signed :: "crypto \<Rightarrow> string \<Rightarrow> int \<Rightarrow> string \<Rightarrow> string \<Rightarrow> string \<Rightarrow> http_request" where
  "client_signed cy key now verb path body =
     (let content_digest = cy_b64 cy (cy_sha256 cy body);
          signature = cy_sign cy key (signed_message now verb path content_digest)
      in \<lparr> hr_method = verb, hr_target = path, hr_timestamp = Some (show_int now),
           hr_signature = Some (cy_b64 cy signature), hr_content_digest = Some content_digest,
           hr_body = Some body \<rparr>)"

text \<open>
  \<open>endpoint_for\<close>, given what \<open>/health\<close> of each endpoint says, in the order of the configuration. The
  cache is filled on the way; \<open>join\<close>, here \<open>url_join\<close>, is the URL package's.
\<close>

fun probe_endpoints :: "(string \<Rightarrow> string + string) \<Rightarrow> (string \<Rightarrow> uuid option) \<Rightarrow> uuid \<Rightarrow> string list
    \<Rightarrow> (uuid \<rightharpoonup> string) \<Rightarrow> (WorkerClientError + string) \<times> (uuid \<rightharpoonup> string)" where
  "probe_endpoints url_join health i [] cache = (Err (WceEndpointNotFound i), cache)"
| "probe_endpoints url_join health i (endpoint # endpoints) cache =
     (case url_join endpoint of
        Inl e \<Rightarrow> (Err (WceInvalidUrl e), cache)
      | Inr url \<Rightarrow>
          (case health url of
             None \<Rightarrow> probe_endpoints url_join health i endpoints cache
           | Some found \<Rightarrow>
               let cache = cache(found \<mapsto> endpoint)
               in if found = i then (Ok endpoint, cache) else probe_endpoints url_join health i endpoints cache))"

definition endpoint_for :: "(string \<Rightarrow> string + string) \<Rightarrow> (string \<Rightarrow> uuid option) \<Rightarrow> uuid \<Rightarrow> string list
    \<Rightarrow> (uuid \<rightharpoonup> string) \<Rightarrow> (WorkerClientError + string) \<times> (uuid \<rightharpoonup> string)" where
  "endpoint_for url_join health i endpoints cache =
     (case cache i of Some endpoint \<Rightarrow> (Ok endpoint, cache)
      | None \<Rightarrow> probe_endpoints url_join health i endpoints cache)"

text \<open>\<open>decode\<close>: the status, the reading of a success body, and the \<open>error\<close> field of a failure body.\<close>

definition client_decode :: "nat \<Rightarrow> string + 'r \<Rightarrow> string option \<Rightarrow> WorkerClientError + 'r" where
  "client_decode status success_body error_body =
     (if 200 \<le> status \<and> status < 300 then map_err WceTransport success_body
      else if status = 409 then Err WceDigestConflict
      else Err (WceRejected status
        (case error_body of Some message \<Rightarrow> message | None \<Rightarrow> ''unspecified worker error'')))"

definition service_unavailable_reason :: "WorkerClientError \<Rightarrow> string option" where
  "service_unavailable_reason e = (case e of
     WceRejected status message \<Rightarrow> if status = 503 then Some message else None
   | _ \<Rightarrow> None)"

definition refresh_dispatch_authority :: "datetime \<Rightarrow> string \<Rightarrow> dispatch_payload \<Rightarrow> dispatch_payload" where
  "refresh_dispatch_authority now fresh p =
     p\<lparr> dp_authority := (dp_authority p)\<lparr> issued_at := now, nonce := fresh \<rparr> \<rparr>"

definition retryable_dispatch_error :: "WorkerClientError \<Rightarrow> bool" where
  "retryable_dispatch_error e = (case e of
     WceTransport _ \<Rightarrow> True
   | WceRejected status _ \<Rightarrow> 500 \<le> status \<and> status < 600 \<or> status = 408 \<or> status = 429
   | _ \<Rightarrow> False)"

text \<open>Two attempts; the second with a fresh time and nonce.\<close>

definition client_dispatch :: "(nat \<Rightarrow> dispatch_payload \<Rightarrow> 'w \<Rightarrow> (WorkerClientError + dispatch_accepted) \<times> 'w)
    \<Rightarrow> datetime \<Rightarrow> string \<Rightarrow> dispatch_payload \<Rightarrow> 'w \<Rightarrow> (WorkerClientError + dispatch_accepted) \<times> 'w" where
  "client_dispatch post now fresh p w =
     (case post 0 p w of
        (Inl e, w) \<Rightarrow> if retryable_dispatch_error e
                     then post 1 (refresh_dispatch_authority now fresh p) w else (Err e, w)
      | (Inr acc, w) \<Rightarrow> (Ok acc, w))"

section \<open>What the checks let through\<close>

lemma timestamp_fresh_True: "timestamp_fresh now ts = Some True \<Longrightarrow> \<bar>now - ts\<bar> \<le> 30"
  by (auto simp: timestamp_fresh_def i64_abs_def i64_saturating_sub_def i64_min_def i64_max_def
      MAX_TIMESTAMP_DRIFT_SECONDS_def min_def max_def split: if_splits)

lemma require_signature_Ok:
  assumes "require_signature cy now key req = Some (Inr body)"
  obtains ts signature where "Option.bind (hr_timestamp req) parse_i64 = Some ts" "\<bar>now - ts\<bar> \<le> 30"
    "hr_body req = Some body"
    "cy_verify cy key (signed_message ts (hr_method req) (hr_target req) (cy_b64 cy (cy_sha256 cy body))) signature"
proof -
  obtain ts where ts: "Option.bind (hr_timestamp req) parse_i64 = Some ts"
    using assms by (auto simp: require_signature_def split: option.splits)
  obtain fresh where f: "timestamp_fresh now ts = Some fresh"
    using assms ts by (auto simp: require_signature_def)
  with assms ts have fresh by (auto simp: require_signature_def split: if_splits)
  note checks = assms [unfolded require_signature_def ts f option.case option.map]
  obtain signature where s: "Option.bind (Option.bind (hr_signature req) (cy_b64_decode cy)) (cy_signature cy) = Some signature"
    using checks \<open>fresh\<close> by (cases "Option.bind (Option.bind (hr_signature req) (cy_b64_decode cy)) (cy_signature cy)") auto
  obtain digest where d: "hr_content_digest req = Some digest"
    using checks \<open>fresh\<close> s by (cases "hr_content_digest req") auto
  obtain b where b: "hr_body req = Some b" using checks \<open>fresh\<close> s d by (cases "hr_body req") auto
  have "b = body" "digest = cy_b64 cy (cy_sha256 cy body)"
    "cy_verify cy key (signed_message ts (hr_method req) (hr_target req) digest) signature"
    using checks \<open>fresh\<close> s d b by (auto split: if_splits)
  with ts f b \<open>fresh\<close> show thesis by (intro that) (auto intro: timestamp_fresh_True)
qed

lemma validate_api_frame [simp]:
  "wa_supervisor (snd (validate_api_authority env a w)) = wa_supervisor w"
  "wa_brokers (snd (validate_api_authority env a w)) = wa_brokers w"
  "wa_launched (snd (validate_api_authority env a w)) = wa_launched w"
  "wa_worker_node_id (snd (validate_api_authority env a w)) = wa_worker_node_id w"
  "wa_coordinator_id (snd (validate_api_authority env a w)) = wa_coordinator_id w"
  "wa_coordinator_key (snd (validate_api_authority env a w)) = wa_coordinator_key w"
  by (simp_all add: validate_api_authority_def Let_def)

lemmas handler_defs = handle_inventory_def handle_event_query_def handle_dispatch_def handle_acknowledge_def
  handle_cancel_def handle_respond_def handle_quarantine_def handle_quiescence_def

lemma handle_refused:
  assumes "call_authority call = Some a" "fst (validate_api_authority env a w) = Inl e"
  shows "handle env call w = (Inl e, snd (validate_api_authority env a w))"
proof -
  obtain w1 where "validate_api_authority env a w = (Inl e, w1)" using assms(2) by (metis prod.collapse)
  then show ?thesis using assms(1) by (cases call) (auto simp: handler_defs guarded_def)
qed

lemma handle_unbound: "call_authority call = None \<Longrightarrow> snd (handle env call w) = w"
  by (cases call) (simp_all add: handler_defs)

text \<open>A handler keeps the identity of the worker and touches the nonces only in the check.\<close>

definition same_identity :: "worker_api \<Rightarrow> worker_api \<Rightarrow> bool" where
  "same_identity w w' \<longleftrightarrow> wa_worker_node_id w' = wa_worker_node_id w \<and> wa_coordinator_id w' = wa_coordinator_id w
     \<and> wa_coordinator_key w' = wa_coordinator_key w"

lemma guarded_frame:
  assumes "\<And>w. same_identity w (snd (rest w)) \<and> wa_seen_nonces (snd (rest w)) = wa_seen_nonces w"
  shows "same_identity w (snd (guarded env a mismatch e rest w))
    \<and> wa_seen_nonces (snd (guarded env a mismatch e rest w)) = wa_seen_nonces (snd (validate_api_authority env a w))"
proof -
  obtain r w1 where v: "validate_api_authority env a w = (r, w1)" by fastforce
  then have "same_identity w w1" using validate_api_frame [of env a w] by (simp add: same_identity_def)
  with assms [of w1] v show ?thesis
    by (auto simp: guarded_def same_identity_def split: sum.splits)
qed

lemma handle_frame:
  "same_identity w (snd (handle env call w)) \<and> wa_seen_nonces (snd (handle env call w)) =
     (case call_authority call of None \<Rightarrow> wa_seen_nonces w
      | Some a \<Rightarrow> wa_seen_nonces (snd (validate_api_authority env a w)))"
proof (cases call)
  case (CallDispatch i p)
  show ?thesis unfolding CallDispatch handle.simps handle_dispatch_def call_authority.simps option.case
    by (rule guarded_frame) (auto simp: same_identity_def split: prod.splits)
next
  case (CallAcknowledge i p)
  show ?thesis unfolding CallAcknowledge handle.simps handle_acknowledge_def call_authority.simps option.case
    by (rule guarded_frame) (auto simp: same_identity_def split: prod.splits)
next
  case (CallCancel i p)
  show ?thesis unfolding CallCancel handle.simps handle_cancel_def call_authority.simps option.case
    by (rule guarded_frame) (auto simp: same_identity_def split: prod.splits)
next
  case (CallRespond i k p)
  show ?thesis unfolding CallRespond handle.simps handle_respond_def call_authority.simps option.case
    by (rule guarded_frame) (auto simp: same_identity_def supervisor_respond_def Let_def split: sum.splits option.splits prod.splits)
next
  case (CallQuarantine i p)
  show ?thesis unfolding CallQuarantine handle.simps handle_quarantine_def call_authority.simps option.case Let_def
    by (rule guarded_frame) (auto simp: same_identity_def split: sum.splits prod.splits)
next
  case (CallQuiesce i p)
  show ?thesis unfolding CallQuiesce handle.simps handle_quiescence_def call_authority.simps option.case
    by (rule guarded_frame) (auto simp: same_identity_def split: sum.splits prod.splits)
next
  case (CallResume i p)
  show ?thesis unfolding CallResume handle.simps handle_quiescence_def call_authority.simps option.case
    by (rule guarded_frame) (auto simp: same_identity_def split: sum.splits prod.splits)
qed (simp_all add: same_identity_def handler_defs)

definition touched :: "worker_api \<Rightarrow> worker_api \<Rightarrow> bool" where
  "touched w w' \<longleftrightarrow> wa_supervisor w' \<noteq> wa_supervisor w \<or> wa_brokers w' \<noteq> wa_brokers w \<or> wa_launched w' \<noteq> wa_launched w"

lemma serve_handled:
  assumes "serve cy read_call env req w = (r, w')" and "(\<exists>x. r = Inr x) \<or> touched w w'"
  obtains body call where "require_signature cy (ae_wall env div NANOS) (wa_coordinator_key w) req
      = Some (Inr body :: 'io WorkerApiError + string)"
    "read_call (hr_method req) (hr_target req) body = Some call" "w' = snd (handle (env :: 'io api_env) call w)"
    "\<forall>a. call_authority call = Some a \<longrightarrow> is_ok (fst (validate_api_authority env a w))"
proof -
  obtain body where b: "require_signature cy (ae_wall env div NANOS) (wa_coordinator_key w) req
      = Some (Inr body :: 'io WorkerApiError + string)"
    using assms by (auto simp: serve_def touched_def split: option.splits sum.splits)
  obtain call where c: "read_call (hr_method req) (hr_target req) body = Some call"
    using assms b by (auto simp: serve_def touched_def split: option.splits)
  obtain r' where h: "handle env call w = (r', w')" "r = map_err ApiError r'"
    using assms(1) b c by (auto simp: serve_def split: prod.splits)
  have "is_ok (fst (validate_api_authority env a w))" if a: "call_authority call = Some a" for a
  proof (rule ccontr)
    assume "\<not> ?thesis"
    then obtain e where "fst (validate_api_authority env a w) = Inl e"
      by (cases "fst (validate_api_authority env a w)") auto
    with handle_refused [OF a this] h assms(2) show False
      by (auto simp: touched_def)
  qed
  with b c h show thesis by (intro that) auto
qed


section \<open>Signatures of genuine requests\<close>

lemma parse_i64_show_int:
  assumes "i64_min \<le> n" "n \<le> i64_max"
  shows "parse_i64 (show_int n) = Some n"
proof (cases "n < 0")
  case True
  with assms show ?thesis by (simp add: show_int_def parse_i64_def parse_digits_show_nat)
next
  case False
  obtain c ds where c: "show_nat (nat n) = c # ds" by (cases "show_nat (nat n)") auto
  then have "c \<noteq> CHR ''-''" using show_nat_no_minus [of "nat n"] by auto
  with False assms parse_nat_show_nat [of "nat n"] c show ?thesis by (simp add: show_int_def parse_i64_def)
qed

lemma client_signed_accepted:
  assumes "crypto_ok cy" and "0 \<le> now" "now \<le> i64_max" "0 \<le> ts" "ts \<le> i64_max" "\<bar>now - ts\<bar> \<le> 30"
  shows "require_signature cy now (cy_public cy key) (client_signed cy key ts verb path body) = Some (Ok body)"
proof -
  have p: "parse_i64 (show_int ts) = Some ts" using assms by (intro parse_i64_show_int) (simp_all add: i64_min_def)
  have f: "timestamp_fresh now ts = Some True"
    using assms(2-6) by (auto simp: timestamp_fresh_def i64_abs_def i64_saturating_sub_def i64_min_def i64_max_def
        MAX_TIMESTAMP_DRIFT_SECONDS_def min_def max_def)
  show ?thesis using assms(1)
    by (simp add: require_signature_def client_signed_def Let_def p f crypto_ok_def)
qed

text \<open>
  A signature is good for one request only. Two requests with the same signed text have the same
  time stamp, method, target (with its query) and body digest; methods and base64 texts have no dot.
\<close>

theorem signed_message_binds:
  assumes "signed_message ts verb target digest = signed_message ts' verb' target' digest'"
    and "CHR ''.'' \<notin> set verb" "CHR ''.'' \<notin> set verb'" "CHR ''.'' \<notin> set digest" "CHR ''.'' \<notin> set digest'"
  shows "ts = ts' \<and> verb = verb' \<and> target = target' \<and> digest = digest'"
proof -
  have digits: "CHR ''.'' \<notin> set (show_nat n)" for n using show_nat_digits [of "CHR ''.''" n] by auto
  then have dot: "CHR ''.'' \<notin> set (show_int n)" for n by (simp add: show_int_def)
  have "show_int ts @ CHR ''.'' # (verb @ CHR ''.'' # (target @ CHR ''.'' # digest))
      = show_int ts' @ CHR ''.'' # (verb' @ CHR ''.'' # (target' @ CHR ''.'' # digest'))"
    using assms(1) by (simp add: signed_message_def)
  then have ts: "ts = ts'" and rest: "verb @ CHR ''.'' # (target @ CHR ''.'' # digest)
      = verb' @ CHR ''.'' # (target' @ CHR ''.'' # digest')"
    unfolding first_field [OF dot dot] by auto
  have "verb = verb' \<and> target @ CHR ''.'' # digest = target' @ CHR ''.'' # digest'"
    using rest unfolding first_field [OF assms(2,3)] .
  then have verb: "verb = verb'" and tail: "target @ CHR ''.'' # digest = target' @ CHR ''.'' # digest'" by simp_all
  have "target = target' \<and> digest = digest'" using tail unfolding last_field [OF assms(4,5)] .
  with ts verb show ?thesis by blast
qed

theorem signed_message_binds_witness:
  "signed_message 5 ''GET'' ''/v1/jobs'' ''d'' \<noteq> signed_message 5 ''GET'' ''/v1/jobs?after=1'' ''d''"
  using signed_message_binds [of 5 "''GET''" "''/v1/jobs''" "''d''" 5 "''GET''" "''/v1/jobs?after=1''" "''d''"] by auto

section \<open>Replays\<close>

definition serve_all :: "crypto \<Rightarrow> extractor \<Rightarrow> ('io api_env \<times> http_request) list \<Rightarrow> worker_api \<Rightarrow> worker_api" where
  "serve_all cy read_call calls w = fold (\<lambda>(env, req) w. snd (serve cy read_call env req w)) calls w"

lemma serve_nonce_held:
  assumes "wa_seen_nonces w n = Some t" and "elapsed (ae_mono env) t \<le> NONCE_RETENTION"
  shows "wa_seen_nonces (snd (serve cy read_call env req w)) n = Some t"
proof -
  have v: "wa_seen_nonces (snd (validate_api_authority env a w)) n = Some t" for a
    using assms by (auto simp: validate_api_authority_def Let_def)
  have "wa_seen_nonces (snd (handle env call w)) n = Some t" for call
    using handle_frame [of w env call] v assms(1) by (auto split: option.splits)
  then show ?thesis using assms(1)
    by (auto simp: serve_def split: option.splits sum.splits prod.splits) (metis snd_conv)
qed

lemma serve_all_nonce_held:
  assumes "wa_seen_nonces w n = Some t" and "\<forall>(env, _) \<in> set calls. elapsed (ae_mono env) t \<le> NONCE_RETENTION"
  shows "wa_seen_nonces (serve_all cy read_call calls w) n = Some t"
  using assms
proof (induction calls arbitrary: w)
  case Nil
  then show ?case by (simp add: serve_all_def)
next
  case (Cons c calls)
  obtain env req where c: "c = (env, req)" by fastforce
  with Cons.prems have "wa_seen_nonces (snd (serve cy read_call env req w)) n = Some t"
    by (intro serve_nonce_held) auto
  from Cons.IH [OF this] Cons.prems(2) show ?case by (simp add: c serve_all_def)
qed

text \<open>
  A captured request is no use to anyone. Once a request with an authority was accepted, no later
  request with the same authority succeeds or changes anything, whatever is served in between, as
  long as the system clock does not fall behind the monotonic clock by more than 58 seconds: what
  the nonces forget after two minutes is refused for its age by then.
\<close>

theorem authority_accepted_once:
  fixes env env' :: "'io api_env"
  assumes "serve cy read_call env req w = (Inr x, w1)"
    and "read_call (hr_method req) (hr_target req) (the (hr_body req)) = Some call" "call_authority call = Some a"
    and "\<forall>(e, _) \<in> set calls. ae_mono env \<le> ae_mono e \<and> ae_mono e \<le> ae_mono env'"
    and "ae_mono env \<le> ae_mono env'" "ae_mono env' - ae_mono env \<le> ae_wall env' - ae_wall env + 58 * NANOS"
    and "read_call (hr_method req') (hr_target req') (the (hr_body req')) = Some call'" "call_authority call' = Some a"
    and "serve cy read_call env' req' (serve_all cy read_call calls w1) = (r, w2)"
  shows "(\<exists>e. r = Inl e) \<and> \<not> touched (serve_all cy read_call calls w1) w2"
proof (rule ccontr)
  assume contra: "\<not> ?thesis"
  let ?w = "serve_all cy read_call calls w1"
  obtain body c where h: "require_signature cy (ae_wall env div NANOS) (wa_coordinator_key w) req
      = Some (Inr body :: 'io WorkerApiError + string)" "read_call (hr_method req) (hr_target req) body = Some c"
    "w1 = snd (handle env c w)" "\<forall>a. call_authority c = Some a \<longrightarrow> is_ok (fst (validate_api_authority env a w))"
    by (rule serve_handled [OF assms(1)]) auto
  have "c = call" using h(1,2) assms(2) by (auto elim: require_signature_Ok)
  with h(4) assms(3) have v: "is_ok (fst (validate_api_authority env a w))" by blast
  then have fits: "authority_fits env w a" and "wa_seen_nonces (snd (validate_api_authority env a w)) (nonce a) = Some (ae_mono env)"
    by (auto simp: validate_api_authority_def Let_def split: if_splits)
  with handle_frame [of w env call] assms(3) h(3) \<open>c = call\<close>
  have held: "wa_seen_nonces w1 (nonce a) = Some (ae_mono env)" by simp
  from contra have "(\<exists>x. r = Inr x) \<or> touched ?w w2" by (cases r) auto
  with assms(9) obtain body' c' where h': "require_signature cy (ae_wall env' div NANOS) (wa_coordinator_key ?w) req'
      = Some (Inr body' :: 'io WorkerApiError + string)" "read_call (hr_method req') (hr_target req') body' = Some c'"
    "\<forall>a. call_authority c' = Some a \<longrightarrow> is_ok (fst (validate_api_authority env' a ?w))"
    by (rule serve_handled)
  have "c' = call'" using h'(1,2) assms(7) by (auto elim: require_signature_Ok)
  with h'(3) assms(8) have v': "is_ok (fst (validate_api_authority env' a ?w))" by blast
  then have fits': "authority_fits env' ?w a"
    by (auto simp: validate_api_authority_def split: if_splits)
  have "ae_wall env' - ae_wall env < 62 * NANOS"
    using fits fits' by (auto simp: authority_fits_def MAX_TIMESTAMP_DRIFT_SECONDS_def NANOS_def)
  with assms(6) have late: "ae_mono env' - ae_mono env \<le> NONCE_RETENTION" by (simp add: NONCE_RETENTION_def NANOS_def)
  have "wa_seen_nonces ?w (nonce a) = Some (ae_mono env)"
    using held
  proof (rule serve_all_nonce_held)
    show "\<forall>(e, _) \<in> set calls. elapsed (ae_mono e) (ae_mono env) \<le> NONCE_RETENTION"
      using assms(4) late by (auto simp: elapsed_def NONCE_RETENTION_def NANOS_def)
  qed
  with v' fits' late show False
    by (auto simp: validate_api_authority_def Let_def elapsed_def NONCE_RETENTION_def NANOS_def split: if_splits)
qed

section \<open>Endpoints\<close>

text \<open>The cache holds endpoints that reported the worker they are cached for.\<close>

definition cache_sound :: "(string \<Rightarrow> string + string) \<Rightarrow> (string \<Rightarrow> uuid option) \<Rightarrow> (uuid \<rightharpoonup> string) \<Rightarrow> bool" where
  "cache_sound join_url health cache \<longleftrightarrow>
     (\<forall>i e. cache i = Some e \<longrightarrow> (\<exists>url. join_url e = Inr url \<and> health url = Some i))"

lemma probe_endpoints_sound:
  "cache_sound join_url health cache \<Longrightarrow> probe_endpoints join_url health i endpoints cache = (r, cache') \<Longrightarrow>
     cache_sound join_url health cache' \<and> (\<forall>e. r = Inr e \<longrightarrow> cache' i = Some e)"
proof (induction join_url health i endpoints cache arbitrary: r cache' rule: probe_endpoints.induct)
  case (1 join_url health i cache)
  then show ?case by auto
next
  case (2 join_url health i endpoint endpoints cache)
  show ?case
  proof (cases "join_url endpoint")
    case (Inl e)
    with 2(3,4) show ?thesis by auto
  next
    case url: (Inr url)
    show ?thesis
    proof (cases "health url")
      case None
      with 2(1) [OF url None 2(3), of r cache'] 2(4) url show ?thesis by simp
    next
      case (Some found)
      have sound: "cache_sound join_url health (cache(found \<mapsto> endpoint))"
        using 2(3) url Some by (auto simp: cache_sound_def)
      show ?thesis
      proof (cases "found = i")
        case True
        with 2(4) url Some sound show ?thesis by auto
      next
        case False
        then have "probe_endpoints join_url health i endpoints (cache(found \<mapsto> endpoint)) = (r, cache')"
          using 2(4) url Some by (simp add: Let_def)
        then show ?thesis by (rule 2(2) [OF url Some refl False sound])
      qed
    qed
  qed
qed

theorem endpoint_reported_worker:
  assumes "cache_sound join_url health cache" and "endpoint_for join_url health i endpoints cache = (Inr e, cache')"
  shows "(\<exists>url. join_url e = Inr url \<and> health url = Some i) \<and> cache_sound join_url health cache'"
proof (cases "cache i")
  case None
  with assms probe_endpoints_sound [OF assms(1), of i endpoints "Inr e" cache']
  show ?thesis by (auto simp: endpoint_for_def cache_sound_def)
next
  case (Some e')
  with assms show ?thesis by (auto simp: endpoint_for_def cache_sound_def)
qed

theorem endpoint_reported_worker_witness:
  "\<exists>url. Ok ''b/health'' = (Ok url :: string + string) \<and> (if url = ''b/health'' then Some 2 else Some (1 :: uuid)) = Some 2"
  using endpoint_reported_worker [of "\<lambda>e. Ok (e @ ''/health'')" "\<lambda>url. if url = ''b/health'' then Some 2 else Some 1"
      Map.empty 2 "[''a'', ''b'']" "''b''" "[1 \<mapsto> ''a'', 2 \<mapsto> ''b'']"]
  by (simp add: cache_sound_def endpoint_for_def fun_upd_def)

section \<open>A dispatch whose answer is lost\<close>

text \<open>
  One attempt of the client: signed at \<open>sent\<close>, over the network of theory Interaction_Broker,
  against the worker; \<open>enc\<close> gives the path and the JSON body.
\<close>

definition api_answer :: "('io ExecutionError \<Rightarrow> string) \<Rightarrow> 'io api_failure + api_reply
    \<Rightarrow> WorkerClientError + dispatch_accepted" where
  "api_answer show_ex r = (case r of
     Inr (RpAccepted acc) \<Rightarrow> Ok acc
   | Inr _ \<Rightarrow> Err (WceTransport ''error decoding response body'')
   | Inl (ApiError e) \<Rightarrow> client_decode (fst (into_response show_ex e)) (Inl []) (Some (snd (into_response show_ex e)))
   | Inl Unroutable \<Rightarrow> client_decode 404 (Inl []) None
   | Inl Panicked \<Rightarrow> Err (WceTransport ''connection closed''))"

definition post_over :: "crypto \<Rightarrow> extractor \<Rightarrow> string \<Rightarrow> (dispatch_payload \<Rightarrow> string \<times> string)
    \<Rightarrow> ('io ExecutionError \<Rightarrow> string) \<Rightarrow> 'io api_env \<Rightarrow> int \<Rightarrow> attempt \<Rightarrow> dispatch_payload \<Rightarrow> worker_api
    \<Rightarrow> (WorkerClientError + dispatch_accepted) \<times> worker_api" where
  "post_over cy read_call key enc show_ex env sent net p w =
     (let req = client_signed cy key sent ''POST'' (fst (enc p)) (snd (enc p)) in
      case net of
        RequestLost \<Rightarrow> (Err (WceTransport ''error sending request''), w)
      | ResponseLost \<Rightarrow> (Err (WceTransport ''error sending request''), snd (serve cy read_call env req w))
      | Through \<Rightarrow> (case serve cy read_call env req w of (r, w) \<Rightarrow> (api_answer show_ex r, w)))"

definition clocks_close :: "int \<Rightarrow> int \<Rightarrow> bool" where
  "clocks_close worker sent \<longleftrightarrow> 0 \<le> worker \<and> worker \<le> i64_max \<and> 0 \<le> sent \<and> sent \<le> i64_max \<and> \<bar>worker - sent\<bar> \<le> 30"

lemma serve_genuine_dispatch:
  assumes "crypto_ok cy" "wa_coordinator_key w = cy_public cy key" "clocks_close (ae_wall env div NANOS) sent"
    and "read_call ''POST'' path body = Some (CallDispatch (ed_execution_id p) p)"
    and "correlation_id (dp_authority p) = ed_execution_id p" "authority_fits env w (dp_authority p)"
    and "wa_seen_nonces w (nonce (dp_authority p)) = None"
    and "dispatch (ae_host env) (execution_dispatch.truncate p) (wa_supervisor w) = (Inr acc, sv, l)"
  shows "\<exists>w'. serve cy read_call env (client_signed cy key sent ''POST'' path body) w = (Inr (RpAccepted acc), w')
    \<and> wa_supervisor w' = sv \<and> wa_launched w' = wa_launched w @ option_list l \<and> same_identity w w'
    \<and> (\<forall>n. wa_seen_nonces w n = None \<longrightarrow> n \<noteq> nonce (dp_authority p) \<longrightarrow> wa_seen_nonces w' n = None)"
proof -
  have req: "hr_method (client_signed cy key sent ''POST'' path body) = ''POST''"
    "hr_target (client_signed cy key sent ''POST'' path body) = path" by (simp_all add: client_signed_def Let_def)
  have sig: "require_signature cy (ae_wall env div NANOS) (wa_coordinator_key w)
      (client_signed cy key sent ''POST'' path body) = Some (Ok body)"
    unfolding assms(2) using assms(1,3) by (intro client_signed_accepted) (auto simp: clocks_close_def)
  obtain w0 where v: "validate_api_authority env (dp_authority p) w = (Ok (), w0)"
    "\<forall>n. wa_seen_nonces w n = None \<longrightarrow> n \<noteq> nonce (dp_authority p) \<longrightarrow> wa_seen_nonces w0 n = None"
    using assms(6,7) by (auto simp: validate_api_authority_def Let_def)
  have f: "wa_supervisor w0 = wa_supervisor w" "wa_launched w0 = wa_launched w" "same_identity w w0"
    using validate_api_frame [of env "dp_authority p" w] v(1) by (simp_all add: same_identity_def)
  have "serve cy read_call env (client_signed cy key sent ''POST'' path body) w =
      (Inr (RpAccepted acc), w0\<lparr> wa_supervisor := sv, wa_launched := wa_launched w @ option_list l \<rparr>)"
    by (simp add: serve_def sig req assms(4,5,8) handle_dispatch_def guarded_def v(1) f)
  with v(2) f(3) show ?thesis by (auto simp: same_identity_def)
qed

lemma refresh_dispatch_fields [simp]:
  "execution_dispatch.truncate (refresh_dispatch_authority now fresh p) = execution_dispatch.truncate p"
  "ed_execution_id (refresh_dispatch_authority now fresh p) = ed_execution_id p"
  "correlation_id (dp_authority (refresh_dispatch_authority now fresh p)) = correlation_id (dp_authority p)"
  "nonce (dp_authority (refresh_dispatch_authority now fresh p)) = fresh"
  by (simp_all add: refresh_dispatch_authority_def execution_dispatch.truncate_def)

text \<open>
  C14: a lost answer does not lose an execution, nor start it twice. When the worker accepts a dispatch
  and the answer does not reach the coordinator, the client's one retry, whatever the worker did in
  the meantime, is answered with the job that was started first, and nothing more is launched.
\<close>

theorem lost_acceptance_recovered:
  fixes env env' :: "string api_env"
  assumes "crypto_ok cy" and "wa_coordinator_key w = cy_public cy key"
    and "\<forall>q \<in> {p, refresh_dispatch_authority now fresh p}.
      read_call ''POST'' (fst (enc q)) (snd (enc q)) = Some (CallDispatch (ed_execution_id q) q)"
    and "clocks_close (ae_wall env div NANOS) sent" "clocks_close (ae_wall env' div NANOS) sent'"
    and "correlation_id (dp_authority p) = ed_execution_id p"
    and "authority_fits env w (dp_authority p)"
    and "authority_fits env' w (dp_authority (refresh_dispatch_authority now fresh p))"
    and "wa_seen_nonces w (nonce (dp_authority p)) = None" "wa_seen_nonces w fresh = None"
    and "fresh \<noteq> nonce (dp_authority p)"
    and "dispatch (ae_host env) (execution_dispatch.truncate p) (wa_supervisor w) = (Inr acc, sv, l)"
    and "sup_step\<^sup>*\<^sup>* (sv, ls) (run sv, ls')"
    and "client_dispatch (\<lambda>k q u. if k = 0 then post_over cy read_call key enc show_ex env sent ResponseLost q u
        else post_over cy read_call key enc show_ex env' sent' Through q
          (u\<lparr> wa_supervisor := run (wa_supervisor u) \<rparr>)) now fresh p w = (r, w')"
  shows "\<exists>acc'. r = Ok acc' \<and> da_worker_job_id acc' = da_worker_job_id acc
    \<and> wa_launched w' = wa_launched w @ option_list l"
proof -
  let ?q = "refresh_dispatch_authority now fresh p"
  obtain x y where e: "enc p = (x, y)" by (cases "enc p")
  have ext0: "read_call ''POST'' x y = Some (CallDispatch (ed_execution_id p) p)"
    using bspec [OF assms(3), of p] e by simp
  obtain w1 where w1: "serve cy read_call env (client_signed cy key sent ''POST'' x y) w = (Inr (RpAccepted acc), w1)"
    "wa_supervisor w1 = sv" "wa_launched w1 = wa_launched w @ option_list l" "same_identity w w1"
    "\<forall>n. wa_seen_nonces w n = None \<longrightarrow> n \<noteq> nonce (dp_authority p) \<longrightarrow> wa_seen_nonces w1 n = None"
    using serve_genuine_dispatch [of cy w key env sent read_call x y p acc sv l,
        OF assms(1,2,4) ext0 assms(6,7,9,12)] by blast
  let ?w1 = "w1\<lparr> wa_supervisor := run sv \<rparr>"
  obtain acc' where again: "dispatch (ae_host env') (execution_dispatch.truncate ?q) (run sv) = (Inr acc', run sv, None)"
    "da_worker_job_id acc' = da_worker_job_id acc"
    using dispatch_again [OF assms(12,13), of "execution_dispatch.truncate p" "ae_host env'"] by auto
  obtain x' y' where e': "enc ?q = (x', y')" by (cases "enc ?q")
  have key: "wa_coordinator_key ?w1 = cy_public cy key" using w1(4) assms(2) by (simp add: same_identity_def)
  have fits: "authority_fits env' ?w1 (dp_authority ?q)"
    using assms(8) w1(4) by (simp add: authority_fits_def same_identity_def)
  have corr: "correlation_id (dp_authority ?q) = ed_execution_id ?q" using assms(6) by simp
  have new: "wa_seen_nonces ?w1 (nonce (dp_authority ?q)) = None" using w1(5) assms(10,11) by simp
  have ext: "read_call ''POST'' x' y' = Some (CallDispatch (ed_execution_id ?q) ?q)"
    using bspec [OF assms(3), of ?q] e' by simp
  have disp: "dispatch (ae_host env') (execution_dispatch.truncate ?q) (wa_supervisor ?w1) = (Inr acc', run sv, None)"
    using again(1) by simp
  obtain w2 where w2: "serve cy read_call env' (client_signed cy key sent' ''POST'' x' y') ?w1 = (Inr (RpAccepted acc'), w2)"
    "wa_launched w2 = wa_launched ?w1 @ option_list None"
    using serve_genuine_dispatch [of cy ?w1 key env' sent' read_call x' y' ?q acc' "run sv" None,
        OF assms(1) key assms(5) ext corr fits new disp] by blast
  have "(r, w') = (Inr acc', w2)"
    using assms(14) by (simp add: client_dispatch_def post_over_def Let_def e e' w1(1,2) w2(1)
        retryable_dispatch_error_def api_answer_def)
  with again(2) w1(3) w2(2) show ?thesis by auto
qed

text \<open>
  The coordinator tells a worker that takes no new work from a broken one: the client reports a
  worker as unavailable exactly when it is draining or under pressure.
\<close>

theorem unavailable_iff_refused:
  "(\<exists>ce. client_decode (fst (into_response show_ex e)) answer (Some (snd (into_response show_ex e))) = Err ce
      \<and> service_unavailable_reason ce = Some (snd (into_response show_ex e)))
   \<longleftrightarrow> e = ApiExecution ExDraining \<or> (\<exists>p. e = ApiExecution (UnderPressure p))"
proof (cases e)
  case (ApiExecution x)
  then show ?thesis by (cases x) (simp_all add: client_decode_def service_unavailable_reason_def)
qed (simp_all add: client_decode_def service_unavailable_reason_def)

section \<open>Witnesses\<close>

definition api_authority :: "datetime \<Rightarrow> string \<Rightarrow> request_authority" where
  "api_authority now fresh = \<lparr> protocol_version = PROTOCOL_VERSION, coordinator_id = 7,
     authority_worker_node_id = 8, correlation_id = 1, issued_at = now, nonce = fresh \<rparr>"

definition demo_payload :: dispatch_payload where
  "demo_payload = execution_dispatch.extend demo_dispatch
     (dispatch_payload.fields (api_authority (100 * NANOS) ''n''))"

definition demo_api :: worker_api where
  "demo_api = \<lparr> wa_supervisor = demo_supervisor, wa_worker_node_id = 8, wa_coordinator_id = 7,
     wa_coordinator_key = ''k'', wa_seen_nonces = Map.empty, wa_brokers = (\<lambda>_. service_new), wa_launched = [] \<rparr>"

definition env_at :: "int \<Rightarrow> int \<Rightarrow> string api_env" where
  "env_at wall tick = \<lparr> ae_wall = wall * NANOS, ae_mono = tick * NANOS, ae_host = demo_host,
     ae_cancel = (\<lambda>_. quiet_env), ae_kill_ok = True, ae_outcome = (\<lambda>_. Inl ''EOF''), ae_show_cancel = (\<lambda>_. []) \<rparr>"

definition demo_reader :: extractor where
  "demo_reader verb target body = Some (CallDispatch 1 (if body = ''n'' then demo_payload
     else refresh_dispatch_authority (101 * NANOS) ''m'' demo_payload))"

definition demo_http_request :: http_request where
  "demo_http_request = client_signed demo_crypto ''k'' 100 ''POST'' ''/v1/executions/1'' ''n''"

lemma demo_payload_fields:
  "execution_dispatch.truncate demo_payload = demo_dispatch" "ed_execution_id demo_payload = 1"
  "dp_authority demo_payload = api_authority (100 * NANOS) ''n''"
  by (simp_all add: demo_payload_def execution_dispatch.extend_def execution_dispatch.truncate_def
      dispatch_payload.fields_def demo_dispatch_def)

lemma env_at_fields [simp]:
  "ae_wall (env_at wall tick) = wall * NANOS" "ae_mono (env_at wall tick) = tick * NANOS"
  "ae_host (env_at wall tick) = demo_host" "wall * NANOS div NANOS = wall"
  by (simp_all add: env_at_def) (simp add: NANOS_def)

lemma demo_fits: "\<bar>wall - at_wall\<bar> \<le> 30 \<Longrightarrow> authority_fits (env_at wall tick) demo_api (api_authority (at_wall * NANOS) n)"
proof -
  assume "\<bar>wall - at_wall\<bar> \<le> 30"
  moreover have "\<bar>wall * NANOS - at_wall * NANOS\<bar> = \<bar>wall - at_wall\<bar> * NANOS"
  proof -
    have "wall * NANOS - at_wall * NANOS = (wall - at_wall) * NANOS" by (simp only: left_diff_distrib)
    then show ?thesis by (simp only: abs_mult) (simp add: NANOS_def)
  qed
  moreover have "\<bar>wall - at_wall\<bar> * NANOS div NANOS = \<bar>wall - at_wall\<bar>" by (simp add: NANOS_def)
  ultimately show ?thesis
    by (simp add: authority_fits_def demo_api_def api_authority_def MAX_TIMESTAMP_DRIFT_SECONDS_def)
qed

lemma demo_clocks: "clocks_close (ae_wall (env_at 100 0) div NANOS) 100" "clocks_close (ae_wall (env_at 105 5) div NANOS) 101"
  by (simp_all add: clocks_close_def i64_max_def)

lemma demo_served:
  "\<exists>w'. serve demo_crypto demo_reader (env_at 100 0) demo_http_request demo_api = (Inr (RpAccepted demo_accepted), w')
    \<and> wa_launched w' = [(1, ''/s/w/r'')]"
  unfolding demo_http_request_def
  using serve_genuine_dispatch [of demo_crypto demo_api "''k''" "env_at 100 0" 100 demo_reader "''/v1/executions/1''"
      "''n''" demo_payload demo_accepted demo_running "Some (1, ''/s/w/r'')",
      OF demo_crypto_ok _ demo_clocks(1)] demo_dispatched demo_fits [of 100 100 0 "''n''"]
  by (auto simp: demo_payload_fields demo_reader_def demo_api_def demo_crypto_def api_authority_def)

lemma demo_call: "demo_reader (hr_method demo_http_request) (hr_target demo_http_request) (the (hr_body demo_http_request))
    = Some (CallDispatch 1 demo_payload)"
  by (simp add: demo_reader_def demo_http_request_def client_signed_def Let_def)


theorem authority_accepted_once_witness:
  "\<exists>w1. serve demo_crypto demo_reader (env_at 100 0) demo_http_request demo_api = (Inr (RpAccepted demo_accepted), w1)
    \<and> (\<exists>e. fst (serve demo_crypto demo_reader (env_at 110 10) demo_http_request w1) = Inl e)"
proof -
  obtain w1 where w1: "serve demo_crypto demo_reader (env_at 100 0) demo_http_request demo_api = (Inr (RpAccepted demo_accepted), w1)"
    using demo_served by blast
  obtain r w2 where r: "serve demo_crypto demo_reader (env_at 110 10) demo_http_request w1 = (r, w2)" by fastforce
  then have "serve demo_crypto demo_reader (env_at 110 10) demo_http_request (serve_all demo_crypto demo_reader [] w1) = (r, w2)"
    by (simp add: serve_all_def)
  with authority_accepted_once [OF w1, of "CallDispatch 1 demo_payload" "api_authority (100 * NANOS) ''n''" "[]"
      "env_at 110 10" demo_http_request "CallDispatch 1 demo_payload" r w2]
  have "\<exists>e. r = Inl e" using demo_call by (simp add: demo_payload_fields NANOS_def) blast
  with r have "\<exists>e. fst (serve demo_crypto demo_reader (env_at 110 10) demo_http_request w1) = Inl e" by auto
  with w1 show ?thesis by blast
qed

theorem lost_acceptance_recovered_witness:
  "\<exists>acc' w'. client_dispatch (\<lambda>k q u. if k = 0
        then post_over demo_crypto demo_reader ''k'' (\<lambda>q. (''/v1/executions/1'', nonce (dp_authority q))) (\<lambda>_. []) (env_at 100 0) 100 ResponseLost q u
        else post_over demo_crypto demo_reader ''k'' (\<lambda>q. (''/v1/executions/1'', nonce (dp_authority q))) (\<lambda>_. []) (env_at 105 5) 101 Through q
          (u\<lparr> wa_supervisor := id (wa_supervisor u) \<rparr>)) (101 * NANOS) ''m'' demo_payload demo_api = (Ok acc', w')
    \<and> da_worker_job_id acc' = 77 \<and> wa_launched w' = [(1, ''/s/w/r'')]"
    (is "\<exists>acc' w'. ?call = (Ok acc', w') \<and> _")
proof -
  obtain r w' where call: "?call = (r, w')" by fastforce
  have fresh: "dp_authority (refresh_dispatch_authority (101 * NANOS) ''m'' demo_payload) = api_authority (101 * NANOS) ''m''"
    by (simp add: refresh_dispatch_authority_def demo_payload_fields api_authority_def)
  have "\<exists>acc'. r = Ok acc' \<and> da_worker_job_id acc' = da_worker_job_id demo_accepted
      \<and> wa_launched w' = wa_launched demo_api @ option_list (Some (1, ''/s/w/r''))"
  proof (rule lost_acceptance_recovered [where run = id and ls = "[]" and ls' = "[]"
        and enc = "\<lambda>q. (''/v1/executions/1'', nonce (dp_authority q))" and show_ex = "\<lambda>_. []", OF demo_crypto_ok _ _ demo_clocks _ _ _ _ _ _ _ _ call])
    show "sup_step\<^sup>*\<^sup>* (demo_running, []) (id demo_running, [])" by simp
    show "wa_coordinator_key demo_api = cy_public demo_crypto ''k''" by (simp add: demo_api_def demo_crypto_def)
    show "\<forall>q \<in> {demo_payload, refresh_dispatch_authority (101 * NANOS) ''m'' demo_payload}.
        demo_reader ''POST'' (fst (''/v1/executions/1'', nonce (dp_authority q))) (snd (''/v1/executions/1'', nonce (dp_authority q)))
          = Some (CallDispatch (ed_execution_id q) q)"
      by (simp add: demo_reader_def demo_payload_fields) (simp add: api_authority_def)
    show "correlation_id (dp_authority demo_payload) = ed_execution_id demo_payload"
      by (simp add: demo_payload_fields) (simp add: api_authority_def)
    show "authority_fits (env_at 100 0) demo_api (dp_authority demo_payload)"
      by (simp add: demo_payload_fields demo_fits)
    show "authority_fits (env_at 105 5) demo_api (dp_authority (refresh_dispatch_authority (101 * NANOS) ''m'' demo_payload))"
      by (simp add: fresh demo_fits)
    show "wa_seen_nonces demo_api (nonce (dp_authority demo_payload)) = None" "wa_seen_nonces demo_api ''m'' = None"
      by (simp_all add: demo_api_def)
    show "''m'' \<noteq> nonce (dp_authority demo_payload)" by (simp add: demo_payload_fields) (simp add: api_authority_def)
    show "dispatch (ae_host (env_at 100 0)) (execution_dispatch.truncate demo_payload) (wa_supervisor demo_api)
        = (Inr demo_accepted, demo_running, Some (1, ''/s/w/r''))"
      using demo_dispatched by (simp add: demo_payload_fields demo_api_def)
  qed
  then show ?thesis using call by (auto simp: demo_accepted_def demo_api_def)
qed

end
