(* ===== verification/Pipeline_Block.thy ===== *)
theory Pipeline_Block
  imports Rust_Strings "HOL-Library.Multiset"
begin

text \<open>
  The \<open>## Pipeline\<close> block of an issue (\<open>api-types/src/pipeline_block.rs\<close>, with the pipelines of
  \<open>services/pipelines/mod.rs\<close>): the stages of the chosen pipelines in one canonical order, by a
  topological sort that breaks ties by first appearance, and the text of the block.

  A hash map is a list of its entries; \<open>shuffle\<close> is the order a hash container is iterated in. The
  sort is a partial function whose \<open>None\<close> is not returning, or the underflow of a count.
\<close>

section \<open>Pipelines\<close>

record block_stage =
  bs_id :: string
  bs_prompt_fragment :: string

record block_pipeline =
  bp_name :: string
  bp_stages :: "block_stage list"

record pipeline_step =
  ps_id :: string
  ps_label :: string
  ps_prompt_fragment :: string
  ps_default_enabled :: bool
  ps_heavy :: bool

record pipeline =
  pl_id :: string
  pl_name :: string
  pl_description :: "string option"
  pl_stages :: "pipeline_step list"

definition block_pipeline_of :: "pipeline \<Rightarrow> block_pipeline" where
  "block_pipeline_of p = \<lparr> bp_name = pl_name p,
     bp_stages = map (\<lambda>s. \<lparr> bs_id = ps_id s, bs_prompt_fragment = ps_prompt_fragment s \<rparr>) (pl_stages p) \<rparr>"

section \<open>The canonical order\<close>

type_synonym seen = "(string \<times> block_stage) list \<times> (string \<times> nat) list \<times> nat"

fun see_stage :: "block_stage \<Rightarrow> seen \<Rightarrow> seen" where
  "see_stage s (by_id, first_seen, idx) =
     (if map_of by_id (bs_id s) = None then by_id @ [(bs_id s, s)] else by_id,
      if map_of first_seen (bs_id s) = None then (first_seen @ [(bs_id s, idx)], Suc idx)
      else (first_seen, idx))"

definition index_stages :: "block_pipeline list \<Rightarrow> seen" where
  "index_stages ps = fold see_stage (concat (map bp_stages ps)) ([], [], 0)"

fun add_pair :: "string \<times> string \<Rightarrow> (string \<Rightarrow> string list) \<times> (string \<Rightarrow> nat)
    \<Rightarrow> (string \<Rightarrow> string list) \<times> (string \<Rightarrow> nat)" where
  "add_pair (from_id, to_id) (adjacency, indegree) =
     (if to_id \<in> set (adjacency from_id) then (adjacency, indegree)
      else (adjacency(from_id := adjacency from_id @ [to_id]), indegree(to_id := Suc (indegree to_id))))"

definition stage_pairs :: "block_pipeline \<Rightarrow> (string \<times> string) list" where
  "stage_pairs p = zip (map bs_id (bp_stages p)) (tl (map bs_id (bp_stages p)))"

definition stage_graph :: "block_pipeline list \<Rightarrow> (string \<Rightarrow> string list) \<times> (string \<Rightarrow> nat)" where
  "stage_graph ps = fold add_pair (concat (map stage_pairs ps)) (\<lambda>_. [], \<lambda>_. 0)"

text \<open>The successors of a stage lose a predecessor; those without another become ready.\<close>

fun release :: "string list \<Rightarrow> (string \<Rightarrow> nat) \<Rightarrow> string list \<Rightarrow> ((string \<Rightarrow> nat) \<times> string list) option" where
  "release [] indegree ready = Some (indegree, ready)"
| "release (succ # succs) indegree ready =
     (if indegree succ = 0 then None
      else let indegree = indegree(succ := indegree succ - 1)
        in release succs indegree (if indegree succ = 0 then ready @ [succ] else ready))"

definition seen_at :: "(string \<times> nat) list \<Rightarrow> string \<Rightarrow> nat" where
  "seen_at first_seen i = (case map_of first_seen i of Some n \<Rightarrow> n | None \<Rightarrow> 2 ^ 64 - 1)"

partial_function (option) sort_stages :: "(string list \<Rightarrow> string list) \<Rightarrow> (string \<Rightarrow> nat) \<Rightarrow> (string \<Rightarrow> string list)
    \<Rightarrow> string list \<Rightarrow> (string \<Rightarrow> nat) \<Rightarrow> string list \<Rightarrow> string list \<Rightarrow> (string list \<times> string list) option" where
  "sort_stages shuffle key adjacency ready indegree ordered remaining =
     (case min_by_key key ready of
        None \<Rightarrow> Some (ordered, remaining)
      | Some next_id \<Rightarrow>
          Option.bind (release (shuffle (adjacency next_id)) indegree (filter (\<lambda>i. i \<noteq> next_id) ready))
            (\<lambda>(indegree, ready). sort_stages shuffle key adjacency ready indegree (ordered @ [next_id])
               (removeAll next_id remaining)))"

definition canonical_ids :: "(string list \<Rightarrow> string list) \<Rightarrow> block_pipeline list \<Rightarrow> string list option" where
  "canonical_ids shuffle ps =
     (let (by_id, first_seen, _) = index_stages ps;
          (adjacency, indegree) = stage_graph ps;
          remaining = shuffle (map fst by_id);
          ready = filter (\<lambda>i. indegree i = 0) remaining
      in map_option (\<lambda>(ordered, remaining).
           ordered @ (if remaining = [] then [] else sort_key (seen_at first_seen) remaining))
         (sort_stages shuffle (seen_at first_seen) adjacency ready indegree [] remaining))"

definition canonical_stage_order :: "(string list \<Rightarrow> string list) \<Rightarrow> block_pipeline list \<Rightarrow> block_stage list option" where
  "canonical_stage_order shuffle ps =
     map_option (List.map_filter (map_of (fst (index_stages ps)))) (canonical_ids shuffle ps)"

section \<open>The text of the block\<close>

definition PIPELINE_START :: string where "PIPELINE_START = ''<!-- vk:pipeline:start -->''"
definition PIPELINE_END :: string where "PIPELINE_END = ''<!-- vk:pipeline:end -->''"

definition ORDER_INSTRUCTION :: string where
  "ORDER_INSTRUCTION = ''Execute these stages in the order listed. Do not add, skip, or reorder stages. As you begin each numbered stage below, output a single line exactly `VK-PIPELINE-STAGE: N` (N = the number of the stage you are starting) so pipeline progress can be tracked.''"

abbreviation LF :: string where "LF \<equiv> [CHR 0x0A]"

definition compose_executor_line :: "string option \<Rightarrow> string" where
  "compose_executor_line executor =
     (let trimmed = (case executor of Some e \<Rightarrow> trim e | None \<Rightarrow> [])
      in if trimmed = [] then []
         else ''- Run this task with the **'' @ trimmed @ ''** execution agent: pass `executor: '' @ [CHR 0x22]
           @ trimmed @ [CHR 0x22] @ ''` when starting the workspace.'')"

definition stage_lines :: "block_stage list \<Rightarrow> string list" where
  "stage_lines stages = map (\<lambda>(i, s). show_nat (i + 1) @ ''. '' @ bs_prompt_fragment s) (zip [0..<length stages] stages)"

definition block_lines :: "block_pipeline list \<Rightarrow> block_stage list \<Rightarrow> string \<Rightarrow> string list" where
  "block_lines ps stages executor_line =
     (let heading = (if ps = [] then ''## Pipeline'' else ''## Pipeline: '' @ join '' + '' (map bp_name ps))
      in [heading, []] @ (if stages = [] then [] else [ORDER_INSTRUCTION, []])
         @ (if executor_line = [] then [] else executor_line # (if stages = [] then [] else [[]]))
         @ stage_lines stages)"

definition compose_pipeline_block :: "(string list \<Rightarrow> string list) \<Rightarrow> block_pipeline list \<Rightarrow> string set
    \<Rightarrow> string option \<Rightarrow> string option" where
  "compose_pipeline_block shuffle ps enabled_ids executor =
     (let executor_line = compose_executor_line executor in
      map_option (\<lambda>order.
          let stages = filter (\<lambda>s. bs_id s \<in> enabled_ids) order
          in if stages = [] \<and> executor_line = [] then []
             else PIPELINE_START @ LF @ join LF (block_lines ps stages executor_line) @ LF @ PIPELINE_END)
        (canonical_stage_order shuffle ps))"

definition append_pipeline_block :: "string option \<Rightarrow> string \<Rightarrow> string option" where
  "append_pipeline_block description block =
     (if block = [] then description
      else case map_option trim description of
        Some base \<Rightarrow> if base \<noteq> [] then Some (base @ LF @ LF @ block) else Some block
      | None \<Rightarrow> Some block)"

section \<open>The index and the graph\<close>

definition stage_ids :: "block_pipeline list \<Rightarrow> string list" where
  "stage_ids ps = map bs_id (concat (map bp_stages ps))"

definition index_ok :: "block_stage list \<Rightarrow> seen \<Rightarrow> bool" where
  "index_ok ss st = (case st of (by_id, first_seen, idx) \<Rightarrow>
     map fst by_id = map fst first_seen \<and> distinct (map fst by_id) \<and> map snd first_seen = [0..<idx]
     \<and> set (map fst by_id) = bs_id ` set ss
     \<and> (\<forall>i. map_of by_id i = find (\<lambda>s. bs_id s = i) ss))"

lemma find_append: "find P (xs @ ys) = (case find P xs of Some x \<Rightarrow> Some x | None \<Rightarrow> find P ys)"
  by (induction xs) auto

lemma index_ok_see: "index_ok ss st \<Longrightarrow> index_ok (ss @ [s]) (see_stage s st)"
proof -
  assume ok: "index_ok ss st"
  obtain by_id first_seen idx where st: "st = (by_id, first_seen, idx)" by (cases st)
  have keys: "map fst by_id = map fst first_seen" "distinct (map fst by_id)" "map snd first_seen = [0..<idx]"
    "set (map fst by_id) = bs_id ` set ss" "\<And>i. map_of by_id i = find (\<lambda>s. bs_id s = i) ss"
    using ok unfolding index_ok_def st prod.case by blast+
  have fs: "fst ` set by_id = bs_id ` set ss" "fst ` set first_seen = bs_id ` set ss"
    using keys(1,4) by (metis set_map)+
  have same: "map_of first_seen i = None \<longleftrightarrow> map_of by_id i = None" for i
    by (simp add: map_of_eq_None_iff flip: set_map) (simp add: keys(1))
  show ?thesis
  proof (cases "map_of by_id (bs_id s) = None")
    case True
    then have "bs_id s \<notin> bs_id ` set ss" using fs(1) by (simp add: map_of_eq_None_iff)
    with True keys(1-3,5) fs same show ?thesis
      by (auto simp: index_ok_def st find_append map_add_def split: option.splits)
  next
    case False
    then have "bs_id s \<in> bs_id ` set ss" using fs(1) by (simp add: map_of_eq_None_iff)
    with False keys(1-3,5) fs same show ?thesis
      by (auto simp: index_ok_def st find_append split: option.splits)
  qed
qed

lemma index_stages_ok: "index_ok (concat (map bp_stages ps)) (index_stages ps)"
proof -
  have "index_ok ss (fold see_stage ss ([], [], 0))" for ss
  proof (induction ss rule: rev_induct)
    case Nil
    then show ?case by (simp add: index_ok_def)
  next
    case (snoc s ss)
    then show ?case using index_ok_see by simp
  qed
  then show ?thesis by (simp add: index_stages_def)
qed

text \<open>What the sort needs of the graph.\<close>

definition graph_ok :: "string set \<Rightarrow> (string \<Rightarrow> string list) \<Rightarrow> bool" where
  "graph_ok ids adjacency \<longleftrightarrow> finite ids \<and> (\<forall>a. distinct (adjacency a) \<and> set (adjacency a) \<subseteq> ids
     \<and> (adjacency a \<noteq> [] \<longrightarrow> a \<in> ids))"

definition edges :: "(string \<Rightarrow> string list) \<Rightarrow> (string \<times> string) set" where
  "edges adjacency = {(a, b). b \<in> set (adjacency a)}"

lemma stage_graph_ok:
  assumes "stage_graph ps = (adjacency, indegree)"
  shows "graph_ok (set (stage_ids ps)) adjacency"
    and "edges adjacency = set (concat (map stage_pairs ps))"
    and "indegree x = card {a. x \<in> set (adjacency a)}"
proof -
  have fin: "finite {a. x \<in> set (adjacency a)}" if "edges adjacency = set prs" for adjacency prs x
  proof (rule finite_subset)
    show "{a. x \<in> set (adjacency a)} \<subseteq> fst ` set prs" using that by (force simp: edges_def)
  qed simp
  have all: "\<forall>a. distinct (fst (fold add_pair prs (\<lambda>_. [], \<lambda>_. 0)) a)"
    "edges (fst (fold add_pair prs (\<lambda>_. [], \<lambda>_. 0))) = set prs"
    "\<forall>x. snd (fold add_pair prs (\<lambda>_. [], \<lambda>_. 0)) x = card {a. x \<in> set (fst (fold add_pair prs (\<lambda>_. [], \<lambda>_. 0)) a)}" for prs
  proof (induction prs rule: rev_induct)
    case Nil
    { case 1 then show ?case by simp }
    { case 2 then show ?case by (simp add: edges_def) }
    { case 3 then show ?case by simp }
  next
    case (snoc pr prs)
    obtain f t where pr: "pr = (f, t)" by fastforce
    obtain adj deg where s: "fold add_pair prs (\<lambda>_. [], \<lambda>_. 0) = (adj, deg)" by fastforce
    note IH = snoc.IH [unfolded s fst_conv snd_conv]
    { case 1 then show ?case using IH(1) by (auto simp: pr s) }
    { case 2
      have "edges (adj(f := adj f @ [t])) = insert (f, t) (edges adj)" by (auto simp: edges_def split: if_splits)
      moreover have "insert (f, t) (edges adj) = edges adj" if "t \<in> set (adj f)" using that by (auto simp: edges_def)
      ultimately show ?case using IH(2) by (simp add: pr s del: fun_upd_apply) }
    { case 3
      have "card {a. x \<in> set ((adj(f := adj f @ [t])) a)} = Suc (card {a. x \<in> set (adj a)})"
        if "x = t" "t \<notin> set (adj f)" for x
      proof -
        have "{a. x \<in> set ((adj(f := adj f @ [t])) a)} = insert f {a. x \<in> set (adj a)}" using that by auto
        then show ?thesis using fin [OF IH(2), of x] that by simp
      qed
      moreover have "{a. x \<in> set ((adj(f := adj f @ [t])) a)} = {a. x \<in> set (adj a)}" if "x \<noteq> t" for x
        using that by auto
      ultimately show ?case using IH(3) by (auto simp: pr s) }
  qed
  have adj: "adjacency = fst (fold add_pair (concat (map stage_pairs ps)) (\<lambda>_. [], \<lambda>_. 0))"
    and deg: "indegree = snd (fold add_pair (concat (map stage_pairs ps)) (\<lambda>_. [], \<lambda>_. 0))"
    using assms by (simp_all add: stage_graph_def)
  show e: "edges adjacency = set (concat (map stage_pairs ps))" unfolding adj by (rule all)
  show "indegree x = card {a. x \<in> set (adjacency a)}" unfolding adj deg using all(3) by blast
  have pairs: "a \<in> set (stage_ids ps) \<and> b \<in> set (stage_ids ps)" if "(a, b) \<in> set (concat (map stage_pairs ps))" for a b
  proof -
    from that obtain p where p: "p \<in> set ps" "(a, b) \<in> set (stage_pairs p)" by auto
    then have "a \<in> set (map bs_id (bp_stages p))" "b \<in> set (tl (map bs_id (bp_stages p)))"
      by (auto simp: stage_pairs_def dest: set_zip_leftD set_zip_rightD)
    moreover have "set (tl xs) \<subseteq> set xs" for xs :: "string list" by (cases xs) auto
    ultimately show ?thesis using p(1) by (fastforce simp: stage_ids_def)
  qed
  have "b \<in> set (adjacency a) \<Longrightarrow> a \<in> set (stage_ids ps) \<and> b \<in> set (stage_ids ps)" for a b
    using e pairs [of a b] by (auto simp: edges_def)
  moreover have "distinct (adjacency a)" for a unfolding adj using all(1) by blast
  ultimately show "graph_ok (set (stage_ids ps)) adjacency"
    unfolding graph_ok_def by (metis List.finite_set list.set_intros(1) neq_Nil_conv subsetI)
qed

section \<open>The sort\<close>

lemma release_Some:
  "distinct xs \<Longrightarrow> \<forall>x \<in> set xs. indegree x \<noteq> 0 \<Longrightarrow> release xs indegree ready =
     Some (\<lambda>x. if x \<in> set xs then indegree x - 1 else indegree x, ready @ filter (\<lambda>x. indegree x = 1) xs)"
proof (induction xs arbitrary: indegree ready)
  case Nil
  then show ?case by simp
next
  case (Cons y ys)
  let ?deg = "indegree(y := indegree y - 1)"
  have y: "y \<notin> set ys" "indegree y \<noteq> 0" using Cons.prems by auto
  then have "\<forall>x \<in> set ys. ?deg x \<noteq> 0" using Cons.prems(2) by auto
  have "distinct ys" using Cons.prems(1) by simp
  then have "release ys ?deg r = Some (\<lambda>x. if x \<in> set ys then ?deg x - 1 else ?deg x, r @ filter (\<lambda>x. ?deg x = 1) ys)" for r
    using \<open>\<forall>x \<in> set ys. ?deg x \<noteq> 0\<close> by (rule Cons.IH)
  moreover have "filter (\<lambda>x. ?deg x = 1) ys = filter (\<lambda>x. indegree x = 1) ys"
    using y(1) by (intro filter_cong) auto
  moreover have "(\<lambda>x. if x \<in> set ys then ?deg x - 1 else ?deg x) = (\<lambda>x. if x \<in> set (y # ys) then indegree x - 1 else indegree x)"
    using y by auto
  moreover have "?deg y = 0 \<longleftrightarrow> indegree y = 1" using y(2) by auto
  ultimately show ?case using y(2) by (simp add: Let_def)
qed

text \<open>
  What is ordered comes after all its predecessors; the count of a stage is the number of those not
  ordered yet; the ready stages are the ones whose count is zero.
\<close>

definition precedes :: "(string \<Rightarrow> string list) \<Rightarrow> string list \<Rightarrow> bool" where
  "precedes adjacency ordered \<longleftrightarrow> (\<forall>xs b ys a. ordered = xs @ b # ys \<longrightarrow> b \<in> set (adjacency a) \<longrightarrow> a \<in> set xs)"

definition sort_inv :: "string set \<Rightarrow> (string \<Rightarrow> string list) \<Rightarrow> string list \<Rightarrow> (string \<Rightarrow> nat) \<Rightarrow> string list \<Rightarrow> string list \<Rightarrow> bool" where
  "sort_inv ids adjacency ready indegree ordered remaining \<longleftrightarrow>
     distinct ordered \<and> distinct ready \<and> distinct remaining \<and> set ordered \<subseteq> ids
     \<and> set remaining = ids - set ordered
     \<and> (\<forall>x. indegree x = card {a. a \<notin> set ordered \<and> x \<in> set (adjacency a)})
     \<and> (\<forall>x. x \<in> set ready \<longleftrightarrow> x \<in> ids \<and> x \<notin> set ordered \<and> indegree x = 0)
     \<and> precedes adjacency ordered"

lemma precedes_snoc: "precedes adjacency (xs @ [b]) \<longleftrightarrow> precedes adjacency xs \<and> (\<forall>a. b \<in> set (adjacency a) \<longrightarrow> a \<in> set xs)"
proof
  assume p: "precedes adjacency (xs @ [b])"
  have "precedes adjacency xs"
    unfolding precedes_def
  proof (intro allI impI)
    fix us c vs a
    assume "xs = us @ c # vs" "c \<in> set (adjacency a)"
    then show "a \<in> set us" using p [unfolded precedes_def, rule_format, of us c "vs @ [b]" a] by simp
  qed
  moreover have "\<forall>a. b \<in> set (adjacency a) \<longrightarrow> a \<in> set xs"
    using p [unfolded precedes_def, rule_format, of xs b "[]"] by simp
  ultimately show "precedes adjacency xs \<and> (\<forall>a. b \<in> set (adjacency a) \<longrightarrow> a \<in> set xs)" by blast
next
  assume p: "precedes adjacency xs \<and> (\<forall>a. b \<in> set (adjacency a) \<longrightarrow> a \<in> set xs)"
  show "precedes adjacency (xs @ [b])"
    unfolding precedes_def
  proof (intro allI impI)
    fix us c vs a
    assume e: "xs @ [b] = us @ c # vs" and c: "c \<in> set (adjacency a)"
    show "a \<in> set us"
    proof (cases vs rule: rev_cases)
      case Nil
      with e c p show ?thesis by auto
    next
      case (snoc ws d)
      with e have "xs = us @ c # ws" by auto
      with c p show ?thesis by (auto simp: precedes_def)
    qed
  qed
qed

lemma finite_preds: "graph_ok ids adjacency \<Longrightarrow> finite {a. P a \<and> x \<in> set (adjacency a)}"
  by (rule finite_subset [of _ ids]) (force simp: graph_ok_def)+

text \<open>One turn of the loop: the release succeeds and the invariant is kept.\<close>

lemma sort_inv_turn:
  assumes g: "graph_ok ids adjacency" and inv: "sort_inv ids adjacency ready indegree ordered remaining"
    and n: "n \<in> set ready" and sh: "\<forall>xs. mset (shuffle xs) = mset xs"
  obtains indegree' ready' where
    "release (shuffle (adjacency n)) indegree (filter (\<lambda>i. i \<noteq> n) ready) = Some (indegree', ready')"
    "sort_inv ids adjacency ready' indegree' (ordered @ [n]) (removeAll n remaining)"
    "length (removeAll n remaining) < length remaining"
proof -
  let ?succs = "shuffle (adjacency n)"
  have succs: "set ?succs = set (adjacency n)" "distinct ?succs"
    using sh g mset_eq_setD [of ?succs "adjacency n"] mset_eq_imp_distinct_iff [of ?succs "adjacency n"]
    by (auto simp: graph_ok_def)
  have deg: "indegree x = card {a. a \<notin> set ordered \<and> x \<in> set (adjacency a)}" for x
    using inv by (simp add: sort_inv_def)
  have rdy: "x \<in> set ready \<longleftrightarrow> x \<in> ids \<and> x \<notin> set ordered \<and> indegree x = 0" for x
    using inv by (simp add: sort_inv_def)
  have n': "n \<in> ids" "n \<notin> set ordered" "indegree n = 0" using n rdy by auto
  have zero: "indegree x = 0 \<longleftrightarrow> {a. a \<notin> set ordered \<and> x \<in> set (adjacency a)} = {}" for x
    using finite_preds [OF g] by (simp add: deg)
  have preds: "a \<in> set ordered" if "n \<in> set (adjacency a)" for a using n'(3) zero [of n] that by auto
  have pos: "indegree x \<noteq> 0" if "x \<in> set (adjacency n)" for x using zero [of x] n'(2) that by auto
  let ?deg = "\<lambda>x. if x \<in> set ?succs then indegree x - 1 else indegree x"
  let ?ready = "filter (\<lambda>i. i \<noteq> n) ready @ filter (\<lambda>x. indegree x = 1) ?succs"
  have rel: "release ?succs indegree (filter (\<lambda>i. i \<noteq> n) ready) = Some (?deg, ?ready)"
    using succs pos by (intro release_Some) auto
  have deg': "?deg x = card {a. a \<notin> set (ordered @ [n]) \<and> x \<in> set (adjacency a)}" for x
  proof -
    have "{a. a \<notin> set (ordered @ [n]) \<and> x \<in> set (adjacency a)} = {a. a \<notin> set ordered \<and> x \<in> set (adjacency a)} - {n}"
      by auto
    then show ?thesis using n'(2) finite_preds [OF g] by (simp add: succs deg card_Diff_singleton_if)
  qed
  have ord: "x \<notin> set ordered" if "x \<in> set (adjacency n)" for x
  proof
    assume "x \<in> set ordered"
    then obtain us vs where "ordered = us @ x # vs" by (auto dest: split_list)
    with inv that have "n \<in> set us" by (auto simp: sort_inv_def precedes_def)
    with \<open>ordered = us @ x # vs\<close> n'(2) show False by simp
  qed
  have self: "n \<notin> set (adjacency n)" using pos [of n] n'(3) by auto
  have "set ?ready = {x \<in> ids. x \<notin> set (ordered @ [n]) \<and> ?deg x = 0}"
  proof -
    have "x \<in> set ?ready \<longleftrightarrow> x \<in> ids \<and> x \<notin> set (ordered @ [n]) \<and> ?deg x = 0" for x
    proof (cases "x \<in> set (adjacency n)")
      case True
      moreover have "x \<in> ids" using g True by (auto simp: graph_ok_def)
      ultimately show ?thesis using rdy [of x] pos [of x] ord [of x] self succs by auto
    next
      case False
      then show ?thesis using rdy [of x] succs by auto
    qed
    then show ?thesis by blast
  qed
  moreover have "distinct ?ready" using inv succs pos rdy by (auto simp: sort_inv_def)
  moreover have "precedes adjacency (ordered @ [n])" using inv preds by (simp add: precedes_snoc sort_inv_def)
  ultimately have "sort_inv ids adjacency ?ready ?deg (ordered @ [n]) (removeAll n remaining)"
    using inv n' deg' unfolding sort_inv_def by (auto simp: distinct_removeAll)
  moreover have "n \<in> set remaining" using inv n' by (simp add: sort_inv_def)
  then have "length (removeAll n remaining) < length remaining" by (rule length_removeAll_less)
  ultimately show thesis using rel that by blast
qed

lemma sort_stages_Some:
  assumes "graph_ok ids adjacency" "\<forall>xs. mset (shuffle xs) = mset xs"
    and "sort_inv ids adjacency ready indegree ordered remaining"
  shows "\<exists>ordered' remaining' indegree'. sort_stages shuffle key adjacency ready indegree ordered remaining
      = Some (ordered', remaining') \<and> sort_inv ids adjacency [] indegree' ordered' remaining'"
  using assms(3)
proof (induction "length remaining" arbitrary: ready indegree ordered remaining rule: less_induct)
  case less
  show ?case
  proof (cases "min_by_key key ready")
    case None
    then have "ready = []" by (simp add: min_by_key_None)
    with less.prems None show ?thesis by (subst sort_stages.simps) auto
  next
    case (Some n)
    then have "n \<in> set ready" using min_by_key_Some by fastforce
    then obtain indegree' ready' where t:
      "release (shuffle (adjacency n)) indegree (filter (\<lambda>i. i \<noteq> n) ready) = Some (indegree', ready')"
      "sort_inv ids adjacency ready' indegree' (ordered @ [n]) (removeAll n remaining)"
      "length (removeAll n remaining) < length remaining"
      by (rule sort_inv_turn [OF assms(1) less.prems _ assms(2)])
    from less.hyps [OF t(3,2)] show ?thesis by (subst sort_stages.simps) (simp add: Some t(1))
  qed
qed

text \<open>The start of the sort.\<close>

definition shuffles_ok :: "(string list \<Rightarrow> string list) \<Rightarrow> bool" where
  "shuffles_ok shuffle \<longleftrightarrow> (\<forall>xs. mset (shuffle xs) = mset xs)"

lemma index_keys:
  assumes "index_stages ps = (by_id, first_seen, idx)"
  shows "distinct (map fst by_id)" "set (map fst by_id) = set (stage_ids ps)"
    "map_of by_id i = find (\<lambda>s. bs_id s = i) (concat (map bp_stages ps))"
    "inj_on (seen_at first_seen) (set (stage_ids ps))"
proof -
  have ok: "map fst by_id = map fst first_seen" "distinct (map fst by_id)" "map snd first_seen = [0..<idx]"
    "set (map fst by_id) = bs_id ` set (concat (map bp_stages ps))"
    "\<And>i. map_of by_id i = find (\<lambda>s. bs_id s = i) (concat (map bp_stages ps))"
    using index_stages_ok [of ps] unfolding index_ok_def assms prod.case by blast+
  then show "distinct (map fst by_id)" "map_of by_id i = find (\<lambda>s. bs_id s = i) (concat (map bp_stages ps))" by blast+
  show ids: "set (map fst by_id) = set (stage_ids ps)" using ok(4) by (simp add: stage_ids_def)
  have "inj_on snd (set first_seen)" using ok(3) by (metis distinct_map distinct_upt)
  then have inj: "i = j" if "map_of first_seen i = Some n" "map_of first_seen j = Some n" for i j n
    using that inj_onD [of snd "set first_seen" "(i, n)" "(j, n)"] \<open>inj_on snd (set first_seen)\<close>
    by (auto dest!: map_of_SomeD)
  have some: "\<exists>n. map_of first_seen i = Some n" if "i \<in> set (stage_ids ps)" for i
    using that ids ok(1) by (metis map_of_eq_None_iff not_None_eq set_map)
  show "inj_on (seen_at first_seen) (set (stage_ids ps))"
  proof (rule inj_onI)
    fix i j
    assume "i \<in> set (stage_ids ps)" "j \<in> set (stage_ids ps)" and e: "seen_at first_seen i = seen_at first_seen j"
    then obtain n m where "map_of first_seen i = Some n" "map_of first_seen j = Some m" using some by blast
    with e inj show "i = j" by (simp add: seen_at_def)
  qed
qed

lemma sort_inv_start:
  assumes "shuffles_ok shuffle" and "index_stages ps = (by_id, first_seen, idx)" and "stage_graph ps = (adjacency, indegree)"
  shows "sort_inv (set (stage_ids ps)) adjacency (filter (\<lambda>i. indegree i = 0) (shuffle (map fst by_id)))
    indegree [] (shuffle (map fst by_id))"
proof -
  have m: "mset (shuffle (map fst by_id)) = mset (map fst by_id)" using assms(1) by (simp add: shuffles_ok_def)
  have "distinct (shuffle (map fst by_id))" "set (shuffle (map fst by_id)) = set (stage_ids ps)"
    using index_keys(1,2) [OF assms(2)] mset_eq_imp_distinct_iff [OF m] mset_eq_setD [OF m] by simp_all
  then show ?thesis using stage_graph_ok(3) [OF assms(3)] by (auto simp: sort_inv_def precedes_def)
qed

lemma canonical_ids_Some:
  assumes "shuffles_ok shuffle" and "index_stages ps = (by_id, first_seen, idx)" and "stage_graph ps = (adjacency, indegree)"
  obtains ordered remaining indegree' where
    "canonical_ids shuffle ps = Some (ordered @ sort_key (seen_at first_seen) remaining)"
    "sort_inv (set (stage_ids ps)) adjacency [] indegree' ordered remaining"
proof -
  obtain ordered remaining indegree' where
    "sort_stages shuffle (seen_at first_seen) adjacency (filter (\<lambda>i. indegree i = 0) (shuffle (map fst by_id))) indegree []
       (shuffle (map fst by_id)) = Some (ordered, remaining)"
    "sort_inv (set (stage_ids ps)) adjacency [] indegree' ordered remaining"
    using sort_stages_Some [OF stage_graph_ok(1) [OF assms(3)] assms(1) [unfolded shuffles_ok_def] sort_inv_start [OF assms]]
    by blast
  then show thesis by (intro that) (simp_all add: canonical_ids_def assms(2,3) Let_def)
qed

lemma sort_inv_ids:
  assumes "sort_inv ids adjacency [] indegree ordered remaining"
  shows "distinct (ordered @ sort_key f remaining)" "set (ordered @ sort_key f remaining) = ids"
  using assms by (auto simp: sort_inv_def)

lemma map_filter_ids:
  "\<forall>i \<in> set is. \<exists>s. m i = Some s \<and> bs_id s = i \<Longrightarrow> map bs_id (List.map_filter m is) = is"
  by (induction "is") (auto simp: List.map_filter_simps)

lemma canonical_stage_order_ids:
  assumes "canonical_ids shuffle ps = Some is" and "set is = set (stage_ids ps)"
  obtains out where "canonical_stage_order shuffle ps = Some out" "map bs_id out = is"
    "\<forall>s \<in> set out. find (\<lambda>t. bs_id t = bs_id s) (concat (map bp_stages ps)) = Some s"
proof -
  obtain by_id first_seen idx where i: "index_stages ps = (by_id, first_seen, idx)" by (cases "index_stages ps")
  note keys = index_keys [OF i]
  have found: "\<exists>s. map_of by_id i = Some s \<and> bs_id s = i" if "i \<in> set is" for i
  proof -
    have "i \<in> set (map fst by_id)" using that assms(2) keys(2) by simp
    then obtain s where "map_of by_id i = Some s" by (metis map_of_eq_None_iff not_None_eq set_map)
    then show ?thesis using keys(3) [of i] by (auto simp: find_Some_iff)
  qed
  have ids: "map bs_id (List.map_filter (map_of by_id) is) = is" using found by (intro map_filter_ids) blast
  have "find (\<lambda>t. bs_id t = bs_id s) (concat (map bp_stages ps)) = Some s"
    if "s \<in> set (List.map_filter (map_of by_id) is)" for s
  proof -
    from that obtain i where "i \<in> set is" "map_of by_id i = Some s" by (auto simp: List.map_filter_def)
    with found [of i] keys(3) [of i] show ?thesis by auto
  qed
  then have "\<forall>s \<in> set (List.map_filter (map_of by_id) is).
      find (\<lambda>t. bs_id t = bs_id s) (concat (map bp_stages ps)) = Some s" by blast
  then show thesis using ids by (intro that) (simp_all add: canonical_stage_order_def assms(1) i)
qed

text \<open>
  C29: the merge of the chosen pipelines keeps every stage exactly once, with the text it has in the first
  pipeline that names it; the sort always returns and its counts never underflow, also when the
  pipelines contradict each other or name a stage twice.
\<close>

theorem stage_order_complete:
  assumes "shuffles_ok shuffle"
  shows "\<exists>out. canonical_stage_order shuffle ps = Some out \<and> distinct (map bs_id out)
    \<and> set (map bs_id out) = set (stage_ids ps)
    \<and> (\<forall>s \<in> set out. find (\<lambda>t. bs_id t = bs_id s) (concat (map bp_stages ps)) = Some s)"
proof -
  obtain by_id first_seen idx where i: "index_stages ps = (by_id, first_seen, idx)" by (cases "index_stages ps")
  obtain adjacency indegree where g: "stage_graph ps = (adjacency, indegree)" by fastforce
  obtain ordered remaining indegree' where c: "canonical_ids shuffle ps = Some (ordered @ sort_key (seen_at first_seen) remaining)"
    "sort_inv (set (stage_ids ps)) adjacency [] indegree' ordered remaining"
    by (rule canonical_ids_Some [OF assms i g])
  obtain out where "canonical_stage_order shuffle ps = Some out" "map bs_id out = ordered @ sort_key (seen_at first_seen) remaining"
    "\<forall>s \<in> set out. find (\<lambda>t. bs_id t = bs_id s) (concat (map bp_stages ps)) = Some s"
    by (rule canonical_stage_order_ids [OF c(1) sort_inv_ids(2) [OF c(2)]])
  with sort_inv_ids [OF c(2), of "seen_at first_seen"] show ?thesis by metis
qed

section \<open>The order of each pipeline\<close>

lemma filter_chain:
  assumes "precedes adjacency r" "distinct r"
  shows "set xs \<subseteq> set r \<Longrightarrow> \<forall>(a, b) \<in> set (zip xs (tl xs)). b \<in> set (adjacency a) \<Longrightarrow> filter (\<lambda>i. i \<in> set xs) r = xs"
proof (induction xs)
  case Nil
  show ?case by simp
next
  case (Cons x xs)
  show ?case
  proof (cases xs)
    case Nil
    from Cons.prems(1) obtain us vs where r: "r = us @ x # vs" by (auto dest: split_list)
    with assms(2) have "x \<notin> set us" "x \<notin> set vs" by auto
    then have "filter (\<lambda>i. i = x) us = []" "filter (\<lambda>i. i = x) vs = []" by (auto simp: filter_empty_conv)
    then show ?thesis by (simp add: r Nil)
  next
    case (Cons y ys)
    have "filter (\<lambda>i. i \<in> set xs) r = xs" using Cons.IH Cons.prems Cons by auto
    then obtain us vs where r: "r = us @ y # vs" "\<forall>u \<in> set us. u \<notin> set xs" "filter (\<lambda>i. i \<in> set xs) vs = ys"
      by (auto simp: Cons filter_eq_Cons_iff)
    have "y \<in> set (adjacency x)" using Cons.prems(2) Cons by simp
    with assms(1) r(1) have "x \<in> set us" by (auto simp: precedes_def)
    then obtain u1 u2 where us: "us = u1 @ x # u2" by (auto dest: split_list)
    with assms(2) r(1) have x: "x \<notin> set u1" "x \<notin> set u2" "x \<noteq> y" "x \<notin> set vs" by auto
    have "filter (\<lambda>i. i \<in> set (x # xs)) u1 = []" "filter (\<lambda>i. i \<in> set (x # xs)) u2 = []"
      using x r(2) us by (auto simp: filter_empty_conv)
    moreover have "filter (\<lambda>i. i \<in> set (x # xs)) vs = ys"
      unfolding r(3) [symmetric] using x(4) by (intro filter_cong) auto
    ultimately show ?thesis using r(1) us by (simp add: Cons)
  qed
qed

lemma sort_inv_acyclic:
  assumes g: "graph_ok ids adjacency" and inv: "sort_inv ids adjacency [] indegree ordered remaining"
    and ac: "acyclic (edges adjacency)"
  shows "remaining = []"
proof (rule ccontr)
  assume "remaining \<noteq> []"
  then obtain x where x: "x \<in> set remaining" by (cases remaining) auto
  have "edges adjacency \<subseteq> ids \<times> ids" using g by (force simp: graph_ok_def edges_def)
  then have "finite (edges adjacency)" using g by (auto simp: graph_ok_def intro: finite_subset)
  then have "wf (edges adjacency)" using ac by (rule finite_acyclic_wf)
  then obtain z where z: "z \<in> set remaining" "\<forall>y. (y, z) \<in> edges adjacency \<longrightarrow> y \<notin> set remaining"
    using x unfolding wf_eq_minimal by blast
  have none: "{a. a \<notin> set ordered \<and> z \<in> set (adjacency a)} = {}"
    using z(2) inv g by (force simp: sort_inv_def edges_def graph_ok_def)
  have "indegree z = card {a. a \<notin> set ordered \<and> z \<in> set (adjacency a)}" using inv by (simp add: sort_inv_def)
  then have "indegree z = 0" unfolding none by simp
  moreover have "\<forall>x. x \<in> ids \<and> x \<notin> set ordered \<longrightarrow> indegree x \<noteq> 0" "set remaining = ids - set ordered"
    using inv unfolding sort_inv_def by auto
  ultimately show False using z(1) by blast
qed

text \<open>
  C30: when the pipelines do not contradict each other, the merged order is every pipeline's own: what is
  left of it after dropping the stages a pipeline does not have is that pipeline's list of stages.
\<close>

theorem stage_order_respected:
  assumes "shuffles_ok shuffle" and "acyclic (set (concat (map stage_pairs ps)))" and "p \<in> set ps"
    and "canonical_stage_order shuffle ps = Some out"
  shows "filter (\<lambda>i. i \<in> set (map bs_id (bp_stages p))) (map bs_id out) = map bs_id (bp_stages p)"
proof -
  obtain by_id first_seen idx where i: "index_stages ps = (by_id, first_seen, idx)" by (cases "index_stages ps")
  obtain adjacency indegree where g: "stage_graph ps = (adjacency, indegree)" by fastforce
  obtain ordered remaining indegree' where c: "canonical_ids shuffle ps = Some (ordered @ sort_key (seen_at first_seen) remaining)"
    "sort_inv (set (stage_ids ps)) adjacency [] indegree' ordered remaining"
    by (rule canonical_ids_Some [OF assms(1) i g])
  have "remaining = []"
    by (rule sort_inv_acyclic [OF stage_graph_ok(1) [OF g] c(2)]) (simp add: stage_graph_ok(2) [OF g] assms(2) del: set_concat)
  then have ids: "canonical_ids shuffle ps = Some ordered" "set ordered = set (stage_ids ps)"
    using c(1) sort_inv_ids(2) [OF c(2), of "seen_at first_seen"] by simp_all
  obtain out' where "canonical_stage_order shuffle ps = Some out'" "map bs_id out' = ordered"
    by (rule canonical_stage_order_ids [OF ids])
  with assms(4) have out: "map bs_id out = ordered" by simp
  show ?thesis unfolding out
  proof (rule filter_chain)
    show "precedes adjacency ordered" "distinct ordered" using c(2) by (simp_all add: sort_inv_def)
    show "set (map bs_id (bp_stages p)) \<subseteq> set ordered" using assms(3) ids(2) by (auto simp: stage_ids_def)
    show "\<forall>(a, b) \<in> set (zip (map bs_id (bp_stages p)) (tl (map bs_id (bp_stages p)))). b \<in> set (adjacency a)"
      using assms(3) stage_graph_ok(2) [OF g] by (fastforce simp: edges_def stage_pairs_def)
  qed
qed

section \<open>The order does not depend on the hash containers\<close>

lemma sort_stages_same:
  assumes g: "graph_ok ids adjacency" and sh: "shuffles_ok s1" "shuffles_ok s2" and inj: "inj_on key ids"
    and "sort_inv ids adjacency r1 d ordered m1" "sort_inv ids adjacency r2 d ordered m2"
  shows "\<exists>ordered' m1' m2' e. sort_stages s1 key adjacency r1 d ordered m1 = Some (ordered', m1')
    \<and> sort_stages s2 key adjacency r2 d ordered m2 = Some (ordered', m2')
    \<and> sort_inv ids adjacency [] e ordered' m1' \<and> sort_inv ids adjacency [] e ordered' m2'"
  using assms(5,6)
proof (induction "length m1" arbitrary: r1 r2 d ordered m1 m2 rule: less_induct)
  case less
  have r: "set r1 = set r2" "set r1 \<subseteq> ids" using less.prems by (auto simp: sort_inv_def)
  show ?case
  proof (cases "min_by_key key r1")
    case None
    then have "r1 = []" "r2 = []" using r by (simp_all add: min_by_key_None)
    with less.prems show ?thesis by (subst (1 2) sort_stages.simps) auto
  next
    case (Some n)
    have n: "n \<in> set r1" "\<forall>y \<in> set r1. key n \<le> key y" using min_by_key_Some [OF Some] by auto
    have n2: "min_by_key key r2 = Some n"
      using n r inj by (intro min_by_key_unique) (auto intro: inj_on_subset)
    obtain d1 q1 where t1: "release (s1 (adjacency n)) d (filter (\<lambda>i. i \<noteq> n) r1) = Some (d1, q1)"
      "sort_inv ids adjacency q1 d1 (ordered @ [n]) (removeAll n m1)" "length (removeAll n m1) < length m1"
      by (rule sort_inv_turn [OF g less.prems(1) n(1) sh(1) [unfolded shuffles_ok_def]])
    obtain d2 q2 where t2: "release (s2 (adjacency n)) d (filter (\<lambda>i. i \<noteq> n) r2) = Some (d2, q2)"
      "sort_inv ids adjacency q2 d2 (ordered @ [n]) (removeAll n m2)"
      using sort_inv_turn [OF g less.prems(2) _ sh(2) [unfolded shuffles_ok_def], of n] n(1) r(1) by blast
    have "d2 = d1" using t1(2) t2(2) by (auto simp: sort_inv_def)
    with less.hyps [OF t1(3,2)] t2(2)
    show ?thesis by (subst (1 2) sort_stages.simps) (simp add: Some n2 t1(1) t2(1))
  qed
qed

text \<open>
  The block is the same on every run: the order of the stages does not depend on the order in which
  the hash maps and sets of the sort are iterated.
\<close>

theorem stage_order_deterministic:
  assumes "shuffles_ok s1" "shuffles_ok s2"
  shows "canonical_stage_order s1 ps = canonical_stage_order s2 ps"
proof -
  obtain by_id first_seen idx where i: "index_stages ps = (by_id, first_seen, idx)" by (cases "index_stages ps")
  obtain adjacency indegree where g: "stage_graph ps = (adjacency, indegree)" by fastforce
  obtain ordered m1 m2 e where s:
    "sort_stages s1 (seen_at first_seen) adjacency (filter (\<lambda>i. indegree i = 0) (s1 (map fst by_id))) indegree []
       (s1 (map fst by_id)) = Some (ordered, m1)"
    "sort_stages s2 (seen_at first_seen) adjacency (filter (\<lambda>i. indegree i = 0) (s2 (map fst by_id))) indegree []
       (s2 (map fst by_id)) = Some (ordered, m2)"
    "sort_inv (set (stage_ids ps)) adjacency [] e ordered m1" "sort_inv (set (stage_ids ps)) adjacency [] e ordered m2"
    using sort_stages_same [OF stage_graph_ok(1) [OF g] assms index_keys(4) [OF i]
        sort_inv_start [OF assms(1) i g] sort_inv_start [OF assms(2) i g]] by blast
  have "mset m1 = mset m2" using s(3,4) by (auto simp: sort_inv_def set_eq_iff_mset_eq_distinct [symmetric])
  moreover have "inj_on (seen_at first_seen) (set m1)"
    using index_keys(4) [OF i] s(3) by (auto simp: sort_inv_def intro: inj_on_subset)
  ultimately have "sort_key (seen_at first_seen) m1 = sort_key (seen_at first_seen) m2"
    by (intro sort_key_inj_key_eq) simp_all
  moreover have "m1 = [] \<longleftrightarrow> m2 = []" using \<open>mset m1 = mset m2\<close> by (metis mset_zero_iff)
  ultimately have "canonical_ids s1 ps = canonical_ids s2 ps" by (simp add: canonical_ids_def i g s(1,2) Let_def)
  then show ?thesis by (simp add: canonical_stage_order_def)
qed

section \<open>Witnesses\<close>

definition demo_stage :: "string \<Rightarrow> block_stage" where
  "demo_stage i = \<lparr> bs_id = i, bs_prompt_fragment = ''Do '' @ i \<rparr>"

definition demo_pipelines :: "block_pipeline list" where
  "demo_pipelines = [\<lparr> bp_name = ''A'', bp_stages = map demo_stage [''spec'', ''code'', ''merge''] \<rparr>,
     \<lparr> bp_name = ''B'', bp_stages = map demo_stage [''spec'', ''review'', ''merge''] \<rparr>]"

lemma shuffles_ok_rev: "shuffles_ok rev" "shuffles_ok id" by (simp_all add: shuffles_ok_def)

theorem stage_order_complete_witness:
  "\<exists>out. canonical_stage_order rev demo_pipelines = Some out \<and> distinct (map bs_id out)"
  using stage_order_complete [OF shuffles_ok_rev(1), of demo_pipelines] by blast

lemma demo_acyclic: "acyclic (set (concat (map stage_pairs demo_pipelines)))"
proof (rule acyclic_subset)
  let ?rank = "\<lambda>i. if i = ''spec'' then 0 else if i = ''merge'' then 2 else 1 :: nat"
  show "acyclic (measure ?rank)" by (rule wf_acyclic) simp
  show "set (concat (map stage_pairs demo_pipelines)) \<subseteq> measure ?rank"
    by (simp add: demo_pipelines_def stage_pairs_def demo_stage_def)
qed

theorem stage_order_respected_witness:
  "\<exists>out. canonical_stage_order rev demo_pipelines = Some out
    \<and> filter (\<lambda>i. i \<in> {''spec'', ''review'', ''merge''}) (map bs_id out) = [''spec'', ''review'', ''merge'']"
proof -
  obtain out where o: "canonical_stage_order rev demo_pipelines = Some out"
    using stage_order_complete [OF shuffles_ok_rev(1), of demo_pipelines] by blast
  have "filter (\<lambda>i. i \<in> set (map bs_id (bp_stages (demo_pipelines ! 1)))) (map bs_id out)
      = map bs_id (bp_stages (demo_pipelines ! 1))"
    by (rule stage_order_respected [OF shuffles_ok_rev(1) demo_acyclic _ o]) (simp add: demo_pipelines_def)
  with o show ?thesis by (simp add: demo_pipelines_def demo_stage_def)
qed

theorem stage_order_deterministic_witness:
  "canonical_stage_order rev demo_pipelines = canonical_stage_order id demo_pipelines"
  by (rule stage_order_deterministic) (rule shuffles_ok_rev)+

end
