(* ===== verification/Error_Remediation.thy ===== *)
theory Error_Remediation
  imports Pipeline_Block Worker_Events
begin

text \<open>
  Automatic remediation of failed turns (\<open>services/error_remediation.rs\<close>): which turns trigger it,
  the guard against loops, duplicates and floods, the stages and the text of the issue it files, and
  the reading of the error text from such an issue.

  The regular expressions (identifiers to placeholders, the marker and its fingerprint) and the
  comparison of word sets by a double are the parameters of \<open>error_texts\<close>, as is the text of a UUID.
  Instants are in nanoseconds.
\<close>

unbundle bit_operations_syntax

section \<open>The trigger and the guard\<close>

definition AUTO_REMEDIATION_NAME_PREFIX :: string where
  "AUTO_REMEDIATION_NAME_PREFIX = ''Auto-fix: ''"

definition DEDUPE_WINDOW :: int where "DEDUPE_WINDOW = 24 * 60 * 60 * 1000000000"
definition RATE_WINDOW :: int where "RATE_WINDOW = 60 * 60 * 1000000000"

definition is_remediation_trigger :: "ExecutionProcessRunReason \<Rightarrow> ExecutionProcessStatus \<Rightarrow> bool" where
  "is_remediation_trigger run_reason status \<longleftrightarrow> run_reason = CodingAgent \<and> status = EpFailed"

definition is_remediation_workspace :: "string option \<Rightarrow> bool" where
  "is_remediation_workspace name =
     is_some_and name (\<lambda>n. strip_prefix AUTO_REMEDIATION_NAME_PREFIX n \<noteq> None)"

datatype GuardDecision = Proceed | SkipRemediationWorkspace | SkipDuplicate | SkipRateLimited

record guard_state =
  gu_last_by_source :: "uuid \<rightharpoonup> int"
  gu_launches :: "int list"
  gu_launched :: "uuid set"

definition guard_new :: guard_state where
  "guard_new = \<lparr> gu_last_by_source = Map.empty, gu_launches = [], gu_launched = {} \<rparr>"

definition try_reserve :: "uuid \<Rightarrow> string option \<Rightarrow> int \<Rightarrow> u32 \<Rightarrow> guard_state \<Rightarrow> GuardDecision \<times> guard_state" where
  "try_reserve source source_name now max_per_hour g =
     (if is_remediation_workspace source_name \<or> source \<in> gu_launched g then (SkipRemediationWorkspace, g)
      else
        let g = g\<lparr> gu_last_by_source := map_retain (\<lambda>at_time. elapsed now at_time < DEDUPE_WINDOW) (gu_last_by_source g) \<rparr>;
            g = g\<lparr> gu_launches := dropWhile (\<lambda>at_time. RATE_WINDOW \<le> elapsed now at_time) (gu_launches g) \<rparr>
        in if gu_last_by_source g source \<noteq> None then (SkipDuplicate, g)
           else if unat max_per_hour \<le> length (gu_launches g) then (SkipRateLimited, g)
           else (Proceed, g\<lparr> gu_last_by_source := (gu_last_by_source g)(source \<mapsto> now),
                             gu_launches := gu_launches g @ [now] \<rparr>))"

definition record_launched :: "uuid \<Rightarrow> guard_state \<Rightarrow> guard_state" where
  "record_launched i g = g\<lparr> gu_launched := insert i (gu_launched g) \<rparr>"

section \<open>The issue\<close>

definition remediation_stage_ids :: "pipeline list \<Rightarrow> string list \<Rightarrow> string set" where
  "remediation_stage_ids pipelines merge_stage_ids =
     (let enabled = set (map ps_id (concat (map (\<lambda>p. filter ps_default_enabled (pl_stages p)) pipelines))) in
      if list_ex (\<lambda>i. i \<in> enabled) merge_stage_ids then enabled
      else case find (\<lambda>i. list_ex (\<lambda>p. list_ex (\<lambda>s. ps_id s = i) (pl_stages p)) pipelines) merge_stage_ids of
        Some i \<Rightarrow> insert i enabled
      | None \<Rightarrow> enabled)"

definition MAX_ERROR_MESSAGES :: nat where "MAX_ERROR_MESSAGES = 5"
definition MAX_ERROR_CHARS :: nat where "MAX_ERROR_CHARS = 2000"
definition MAX_NAME_CHARS :: nat where "MAX_NAME_CHARS = 120"

definition truncate_chars :: "string \<Rightarrow> nat \<Rightarrow> string" where
  "truncate_chars s limit =
     (if char_count s \<le> limit then s else take_chars limit s @ [CHR 0xE2, CHR 0x80, CHR 0xA6])"

definition is_error_message :: "NormalizedEntryType \<Rightarrow> bool" where
  "is_error_message t \<longleftrightarrow> (case t of ErrorMessage _ \<Rightarrow> True | _ \<Rightarrow> False)"

definition extract_error_messages :: "normalized_entry list \<Rightarrow> string list" where
  "extract_error_messages entries =
     (let messages = filter (\<lambda>content. content \<noteq> [])
            (map (\<lambda>entry. truncate_chars (trim (ne_content entry)) MAX_ERROR_CHARS)
              (filter (\<lambda>entry. is_error_message (ne_entry_type entry)) entries));
          skip = length messages - MAX_ERROR_MESSAGES
      in drop skip messages)"

record remediation_context =
  rc_source_workspace_id :: uuid
  rc_source_name :: string
  rc_branch :: string
  rc_execution_process_id :: uuid
  rc_executor :: string
  rc_exit_code :: "int option"
  rc_error_messages :: "string list"
  rc_variant_fallback :: "string option"

record issue_draft =
  id_title :: string
  id_description :: string

record error_texts =
  et_uuid :: "uuid \<Rightarrow> string"
  et_normalize :: "string \<Rightarrow> string"
  et_marker :: "string \<Rightarrow> string option"
  et_fingerprint :: "string \<Rightarrow> string option"
  et_similar :: "string \<Rightarrow> string \<Rightarrow> bool"

definition REMEDIATION_MARKER_PREFIX :: string where
  "REMEDIATION_MARKER_PREFIX = ''<!-- vk:auto-remediation ''"

definition ERROR_SECTION_HEADING :: string where
  "ERROR_SECTION_HEADING = ''### Error messages''"

text \<open>FNV-1a over 64 bits, written with sixteen hexadecimal digits.\<close>

definition fnv1a :: "string \<Rightarrow> u64" where
  "fnv1a s = fold (\<lambda>c h. (h XOR of_char c) * 0x100000001b3) s 0xcbf29ce484222325"

definition hex_digit :: "nat \<Rightarrow> char" where
  "hex_digit d = (if d < 10 then char_of (48 + d) else char_of (87 + d))"

definition hex16 :: "u64 \<Rightarrow> string" where
  "hex16 w = map (\<lambda>k. hex_digit (unat (drop_bit (4 * k) w AND 15))) (rev [0..<16])"

definition error_fingerprint :: "error_texts \<Rightarrow> string list \<Rightarrow> string option" where
  "error_fingerprint tx messages =
     (let normalized = join LF (filter (\<lambda>m. m \<noteq> []) (map (et_normalize tx) messages))
      in if normalized = [] then None else Some (hex16 (fnv1a normalized)))"

definition remediation_marker :: "error_texts \<Rightarrow> uuid \<Rightarrow> uuid \<Rightarrow> string option \<Rightarrow> string" where
  "remediation_marker tx source_workspace_id execution_process_id fingerprint =
     REMEDIATION_MARKER_PREFIX @ ''source='' @ et_uuid tx source_workspace_id @ '' exec='' @ et_uuid tx execution_process_id
     @ (case fingerprint of Some fp \<Rightarrow> '' fingerprint='' @ fp | None \<Rightarrow> []) @ '' -->''"

definition exit_code_label :: "int option \<Rightarrow> string" where
  "exit_code_label code = (case code of Some c \<Rightarrow> show_int c | None \<Rightarrow> ''unknown'')"

text \<open>A fence longer than every run of backticks in the text.\<close>

definition longest_run :: "string \<Rightarrow> nat \<times> nat \<Rightarrow> nat \<times> nat" where
  "longest_run s st = fold (\<lambda>c (longest, current).
     if c = CHR 0x60 then (max longest (current + 1), current + 1) else (longest, 0)) s st"

definition code_fence_for :: "string \<Rightarrow> string" where
  "code_fence_for s = replicate (max (fst (longest_run s (0, 0)) + 1) 3) (CHR 0x60)"

definition error_block :: "string list \<Rightarrow> string" where
  "error_block messages =
     (if messages = [] then ''_No error message was captured in the chat._'' @ LF
      else let joined = join (LF @ LF) messages; fence = code_fence_for joined
        in fence @ ''text'' @ LF @ joined @ LF @ fence @ LF)"

definition issue_intro :: "error_texts \<Rightarrow> remediation_context \<Rightarrow> string" where
  "issue_intro tx ctx =
     ''A coding-agent run failed in workspace **'' @ trim (rc_source_name ctx)
     @ ''** and was filed automatically for unattended remediation. Diagnose the root cause, fix it, test the fix, and merge it to the base branch.''
     @ LF @ LF @ ''- Source workspace: `'' @ et_uuid tx (rc_source_workspace_id ctx) @ ''` (branch `'' @ rc_branch ctx
     @ ''`)'' @ LF @ ''- Failed execution: `'' @ et_uuid tx (rc_execution_process_id ctx) @ ''` (executor `''
     @ rc_executor ctx @ ''`, exit code `'' @ exit_code_label (rc_exit_code ctx) @ ''`)'' @ LF @ LF"

definition issue_body :: "error_texts \<Rightarrow> remediation_context \<Rightarrow> string" where
  "issue_body tx ctx =
     issue_intro tx ctx @ ERROR_SECTION_HEADING @ LF @ LF @ error_block (rc_error_messages ctx)
     @ (case rc_variant_fallback ctx of
          Some variant \<Rightarrow> LF @ ''> Note: executor profile variant `'' @ variant
            @ ''` is not defined; the default variant was used.'' @ LF
        | None \<Rightarrow> [])
     @ LF @ remediation_marker tx (rc_source_workspace_id ctx) (rc_execution_process_id ctx)
         (error_fingerprint tx (rc_error_messages ctx))"

definition compose_issue :: "error_texts \<Rightarrow> remediation_context \<Rightarrow> string \<Rightarrow> issue_draft" where
  "compose_issue tx ctx pipeline_block =
     \<lparr> id_title = AUTO_REMEDIATION_NAME_PREFIX @ truncate_chars (trim (rc_source_name ctx)) MAX_NAME_CHARS
         @ '' agent run failed'',
       id_description = (let body = issue_body tx ctx in
         case append_pipeline_block (Some body) pipeline_block of Some d \<Rightarrow> d | None \<Rightarrow> body) \<rparr>"

definition compose_recurrence_comment :: "error_texts \<Rightarrow> remediation_context \<Rightarrow> string" where
  "compose_recurrence_comment tx ctx =
     ''Another failed agent run hit a similar error, so it was added here instead of opening a new remediation issue.''
     @ LF @ LF @ ''- Workspace: **'' @ trim (rc_source_name ctx) @ ''** (`'' @ et_uuid tx (rc_source_workspace_id ctx)
     @ ''`, branch `'' @ rc_branch ctx @ ''`)'' @ LF @ ''- Failed execution: `'' @ et_uuid tx (rc_execution_process_id ctx)
     @ ''` (executor `'' @ rc_executor ctx @ ''`, exit code `'' @ exit_code_label (rc_exit_code ctx) @ ''`)'' @ LF @ LF
     @ error_block (rc_error_messages ctx)"

section \<open>Reading an issue\<close>

definition parse_marker :: "error_texts \<Rightarrow> string \<Rightarrow> string option option" where
  "parse_marker tx description = map_option (et_fingerprint tx) (et_marker tx description)"

definition trim_end_of :: "string \<Rightarrow> string" where
  "trim_end_of s = rev (trim_rev (rev s))"

definition issue_error_text :: "string \<Rightarrow> string option" where
  "issue_error_text description =
     (case split_once_str ERROR_SECTION_HEADING description of
        None \<Rightarrow> None
      | Some (_, after) \<Rightarrow>
          (case dropWhile (\<lambda>line. trim line = []) (str_lines after) of
             [] \<Rightarrow> None
           | first # rest \<Rightarrow>
               let opening = trim_end_of first;
                   fence = takeWhile (\<lambda>c. c = CHR 0x60) opening
               in if length fence < 3 then None
                  else let body = takeWhile (\<lambda>line. trim_end_of line \<noteq> fence) rest;
                           recovered = join LF body
                    in if trim recovered = [] then None else Some recovered))"

record remote_issue =
  ri_id :: uuid
  ri_description :: "string option"

definition find_similar_issue :: "error_texts \<Rightarrow> remote_issue list \<Rightarrow> string list \<Rightarrow> remote_issue option" where
  "find_similar_issue tx issues messages =
     (case error_fingerprint tx messages of
        None \<Rightarrow> None
      | Some fingerprint \<Rightarrow>
          let joined = join (LF @ LF) messages in
          find (\<lambda>issue. case ri_description issue of
              None \<Rightarrow> False
            | Some description \<Rightarrow>
                (case parse_marker tx description of
                   None \<Rightarrow> False
                 | Some recorded \<Rightarrow> recorded = Some fingerprint
                     \<or> is_some_and (issue_error_text description) (\<lambda>t. et_similar tx t joined))) issues)"

text \<open>Lower case is the parameter \<open>lower\<close>.\<close>

definition is_active_status_name :: "(string \<Rightarrow> string) \<Rightarrow> string \<Rightarrow> bool" where
  "is_active_status_name lower name \<longleftrightarrow> lower (trim name) \<notin> {''done'', ''cancelled'', ''canceled''}"

section \<open>What the guard promises\<close>

text \<open>
  A run of the guard: reservations at instants that never go back, each with the configured cap of its
  moment (at most \<open>m\<close>), between launches being recorded. The log holds the reservations granted.
\<close>

record guard_run =
  gr_guard :: guard_state
  gr_log :: "(uuid \<times> int) list"
  gr_now :: int

inductive guard_step :: "nat \<Rightarrow> guard_run \<Rightarrow> guard_run \<Rightarrow> bool" for m :: nat where
  reserve_step: "gr_now s \<le> now \<Longrightarrow> unat max_per_hour \<le> m
    \<Longrightarrow> try_reserve source source_name now max_per_hour (gr_guard s) = (d, g)
    \<Longrightarrow> guard_step m s \<lparr> gr_guard = g,
          gr_log = gr_log s @ (if d = Proceed then [(source, now)] else []), gr_now = now \<rparr>"
| launched_step: "guard_step m s (s\<lparr> gr_guard := record_launched i (gr_guard s) \<rparr>)"

definition guard_start :: "guard_run \<Rightarrow> bool" where
  "guard_start s \<longleftrightarrow> gr_guard s = guard_new \<and> gr_log s = []"

definition spaced :: "nat \<Rightarrow> int list \<Rightarrow> bool" where
  "spaced m ts \<longleftrightarrow> (\<forall>i. i + m < length ts \<longrightarrow> ts ! i + RATE_WINDOW \<le> ts ! (i + m))"

definition apart :: "(uuid \<times> int) list \<Rightarrow> bool" where
  "apart = sorted_wrt (\<lambda>a b. fst a = fst b \<longrightarrow> snd a + DEDUPE_WINDOW \<le> snd b)"

definition rate_inv :: "nat \<Rightarrow> guard_run \<Rightarrow> bool" where
  "rate_inv m s \<longleftrightarrow> spaced m (map snd (gr_log s))
     \<and> (\<exists>old. map snd (gr_log s) = old @ gu_launches (gr_guard s)
          \<and> (\<forall>t \<in> set old. t + RATE_WINDOW \<le> gr_now s))"

definition dedupe_inv :: "guard_run \<Rightarrow> bool" where
  "dedupe_inv s \<longleftrightarrow> apart (gr_log s)
     \<and> (\<forall>(source, t) \<in> set (gr_log s). t + DEDUPE_WINDOW \<le> gr_now s
          \<or> (\<exists>t'. gu_last_by_source (gr_guard s) source = Some t' \<and> t \<le> t'))"

lemma window_pos [simp]: "0 < RATE_WINDOW" "0 < DEDUPE_WINDOW"
  by (simp_all add: RATE_WINDOW_def DEDUPE_WINDOW_def)

lemma elapsed_ge_iff: "0 < w \<Longrightarrow> w \<le> elapsed now t \<longleftrightarrow> t + w \<le> now"
  by (auto simp: elapsed_def)

lemma elapsed_less_iff: "0 < w \<Longrightarrow> elapsed now t < w \<longleftrightarrow> now < t + w"
  by (auto simp: elapsed_def)

text \<open>The two states of the guard after its windows moved, and what a decision does to them.\<close>

definition rate_moved :: "int \<Rightarrow> guard_state \<Rightarrow> int list" where
  "rate_moved now g = dropWhile (\<lambda>at_time. RATE_WINDOW \<le> elapsed now at_time) (gu_launches g)"

definition dedupe_moved :: "int \<Rightarrow> guard_state \<Rightarrow> uuid \<rightharpoonup> int" where
  "dedupe_moved now g = map_retain (\<lambda>at_time. elapsed now at_time < DEDUPE_WINDOW) (gu_last_by_source g)"

lemma try_reserve_cases:
  assumes "try_reserve source source_name now max_per_hour g = (d, g')"
  obtains (refused) "d = SkipRemediationWorkspace" "g' = g"
      "is_remediation_workspace source_name \<or> source \<in> gu_launched g"
  | (skipped) "d = SkipDuplicate \<or> d = SkipRateLimited"
      "gu_launches g' = rate_moved now g" "gu_last_by_source g' = dedupe_moved now g"
      "gu_launched g' = gu_launched g"
  | (granted) "d = Proceed" "gu_launches g' = rate_moved now g @ [now]"
      "gu_last_by_source g' = (dedupe_moved now g)(source \<mapsto> now)" "gu_launched g' = gu_launched g"
      "dedupe_moved now g source = None" "length (rate_moved now g) < unat max_per_hour"
      "\<not> is_remediation_workspace source_name" "source \<notin> gu_launched g"
  using assms by (auto simp: try_reserve_def rate_moved_def dedupe_moved_def Let_def split: if_splits)

lemma rate_moved_split:
  "\<exists>gone. gu_launches g = gone @ rate_moved now g \<and> (\<forall>t \<in> set gone. t + RATE_WINDOW \<le> now)"
proof -
  let ?P = "\<lambda>t. RATE_WINDOW \<le> elapsed now t"
  have "gu_launches g = takeWhile ?P (gu_launches g) @ rate_moved now g"
    by (simp add: rate_moved_def)
  then show ?thesis by (meson set_takeWhileD elapsed_ge_iff window_pos(1))
qed

lemma dedupe_moved_Some:
  "dedupe_moved now g source = Some t \<longleftrightarrow> gu_last_by_source g source = Some t \<and> now < t + DEDUPE_WINDOW"
  by (auto simp: dedupe_moved_def map_retain_def elapsed_less_iff split: option.splits if_splits)

lemma spaced_snoc:
  assumes "spaced m ts" and "ts = old @ recent" and "length recent < m"
    and "\<forall>t \<in> set old. t + RATE_WINDOW \<le> now"
  shows "spaced m (ts @ [now])"
  unfolding spaced_def
proof (intro allI impI)
  fix i assume i: "i + m < length (ts @ [now])"
  show "(ts @ [now]) ! i + RATE_WINDOW \<le> (ts @ [now]) ! (i + m)"
  proof (cases "i + m < length ts")
    case True
    then show ?thesis using assms(1) by (simp add: spaced_def nth_append)
  next
    case False
    with i assms(2,3) have last: "i + m = length ts" and old: "i < length old" by auto
    then have "(ts @ [now]) ! i \<in> set old" using assms(2) by (simp add: nth_append)
    with last assms(4) show ?thesis by simp
  qed
qed

lemma rate_inv_reserve:
  assumes inv: "rate_inv m s" and now: "gr_now s \<le> now" and cap: "unat max_per_hour \<le> m"
    and res: "try_reserve source source_name now max_per_hour (gr_guard s) = (d, g)"
  shows "rate_inv m \<lparr> gr_guard = g, gr_log = gr_log s @ (if d = Proceed then [(source, now)] else []), gr_now = now \<rparr>"
proof -
  from inv obtain old where sp: "spaced m (map snd (gr_log s))"
      and ts: "map snd (gr_log s) = old @ gu_launches (gr_guard s)"
      and past: "\<forall>t \<in> set old. t + RATE_WINDOW \<le> gr_now s"
    by (auto simp: rate_inv_def)
  obtain gone where gone: "gu_launches (gr_guard s) = gone @ rate_moved now (gr_guard s)"
      "\<forall>t \<in> set gone. t + RATE_WINDOW \<le> now"
    using rate_moved_split by blast
  have past': "\<forall>t \<in> set old. t + RATE_WINDOW \<le> now" using past now by force
  have all: "\<forall>t \<in> set (old @ gone). t + RATE_WINDOW \<le> now" using past' gone(2) by auto
  have ts': "map snd (gr_log s) = (old @ gone) @ rate_moved now (gr_guard s)" using ts gone(1) by simp
  from res show ?thesis
  proof (cases rule: try_reserve_cases)
    case refused
    then show ?thesis using sp ts past' by (auto simp: rate_inv_def)
  next
    case skipped
    then have "gr_log s @ (if d = Proceed then [(source, now)] else []) = gr_log s" by auto
    then show ?thesis using sp ts' all skipped(2) unfolding rate_inv_def by (simp del: set_append)
  next
    case granted
    have "spaced m (map snd (gr_log s) @ [now])"
      using spaced_snoc [OF sp ts' _ all] granted(6) cap by simp
    moreover have "map snd (gr_log s) @ [now] = (old @ gone) @ gu_launches g" using ts' granted(2) by simp
    ultimately show ?thesis using all granted(1) by (auto simp: rate_inv_def)
  qed
qed

lemma dedupe_inv_reserve:
  assumes inv: "dedupe_inv s" and now: "gr_now s \<le> now"
    and res: "try_reserve source source_name now max_per_hour (gr_guard s) = (d, g)"
  shows "dedupe_inv \<lparr> gr_guard = g, gr_log = gr_log s @ (if d = Proceed then [(source, now)] else []), gr_now = now \<rparr>"
proof -
  let ?covered = "\<lambda>last n (src, t). t + DEDUPE_WINDOW \<le> n \<or> (\<exists>t'. last src = Some t' \<and> t \<le> t')"
  from inv have ap: "apart (gr_log s)"
      and cov: "\<forall>e \<in> set (gr_log s). ?covered (gu_last_by_source (gr_guard s)) (gr_now s) e"
    by (auto simp: dedupe_inv_def)
  have moved: "\<forall>e \<in> set (gr_log s). ?covered (dedupe_moved now (gr_guard s)) now e"
  proof clarify
    fix src t assume e: "(src, t) \<in> set (gr_log s)" and "\<nexists>t'. dedupe_moved now (gr_guard s) src = Some t' \<and> t \<le> t'"
    then have "\<And>t'. gu_last_by_source (gr_guard s) src = Some t' \<Longrightarrow> t \<le> t' \<Longrightarrow> t' + DEDUPE_WINDOW \<le> now"
      using dedupe_moved_Some by (metis linorder_not_less)
    with cov e now show "t + DEDUPE_WINDOW \<le> now" by force
  qed
  from res show ?thesis
  proof (cases rule: try_reserve_cases)
    case refused
    have "\<forall>e \<in> set (gr_log s). ?covered (gu_last_by_source (gr_guard s)) now e" using cov now by force
    then show ?thesis using ap refused by (auto simp: dedupe_inv_def)
  next
    case skipped
    then have "gr_log s @ (if d = Proceed then [(source, now)] else []) = gr_log s" by auto
    then show ?thesis using ap moved skipped(3) by (simp add: dedupe_inv_def)
  next
    case granted
    have "apart (gr_log s @ [(source, now)])"
      using ap moved granted(5) by (force simp: apart_def sorted_wrt_append)
    moreover have "?covered (gu_last_by_source g) now e" if "e \<in> set (gr_log s)" for e
    proof -
      obtain src t where e: "e = (src, t)" by (cases e)
      with moved that have "?covered (dedupe_moved now (gr_guard s)) now (src, t)" by auto
      then show ?thesis using e granted(3,5) by (cases "src = source") auto
    qed
    ultimately show ?thesis using granted(1,3) by (auto simp: dedupe_inv_def)
  qed
qed

interpretation remediation_guard: invariant_system guard_start "guard_step m" "\<lambda>s. rate_inv m s \<and> dedupe_inv s" for m
proof
  fix s assume "guard_start s"
  then show "rate_inv m s \<and> dedupe_inv s"
    by (simp add: guard_start_def guard_new_def rate_inv_def dedupe_inv_def spaced_def apart_def)
next
  fix s t assume inv: "rate_inv m s \<and> dedupe_inv s" and "guard_step m s t"
  from this(2) show "rate_inv m t \<and> dedupe_inv t"
  proof cases
    case reserve_step
    then show ?thesis using inv rate_inv_reserve dedupe_inv_reserve by simp
  next
    case launched_step
    then show ?thesis using inv by (simp add: rate_inv_def dedupe_inv_def record_launched_def)
  qed
qed

text \<open>
  C31: flood and duplicate bounds of automatic remediation. In every run of the guard, with any failed
  turns at non-decreasing instants and any caps of at most \<open>m\<close> launches per hour, any \<open>m + 1\<close>
  consecutive launches span at least the rate window, and two launches for one source are at least the
  dedupe window apart.
\<close>

theorem launches_rate_limited:
  assumes "reach guard_start (guard_step m) s"
  shows "spaced m (map snd (gr_log s)) \<and> apart (gr_log s)"
  using remediation_guard.inv_reach [OF assms] by (simp add: rate_inv_def dedupe_inv_def)

definition guard_demo :: guard_run where
  "guard_demo =
     \<lparr> gr_guard = snd (try_reserve 8 (Some ''b'') 20 1 (snd (try_reserve 7 None 10 1 guard_new))),
       gr_log = [(7, 10)], gr_now = 20 \<rparr>"

lemma reserve_step_fst:
  assumes "gr_now s \<le> now" and "unat max_per_hour \<le> m"
    and "try_reserve source source_name now max_per_hour (gr_guard s) = r"
  shows "guard_step m s \<lparr> gr_guard = snd r,
    gr_log = gr_log s @ (if fst r = Proceed then [(source, now)] else []), gr_now = now \<rparr>"
  using reserve_step [of s now max_per_hour m source source_name "fst r" "snd r"] assms by simp

lemma guard_demo_reach: "reach guard_start (guard_step 1) guard_demo"
proof -
  define s0 where "s0 = \<lparr> gr_guard = guard_new, gr_log = [], gr_now = 0 \<rparr>"
  define g1 where "g1 = snd (try_reserve 7 None 10 1 guard_new)"
  define s1 where "s1 = \<lparr> gr_guard = g1, gr_log = [(7, 10)], gr_now = 10 \<rparr>"
  have "fst (try_reserve 7 None 10 1 guard_new) = Proceed"
    by (simp add: try_reserve_def guard_new_def is_remediation_workspace_def map_retain_def)
  then have one: "guard_step 1 s0 s1"
    using reserve_step_fst [of s0 10 1 1 7 None] by (simp add: s0_def s1_def g1_def)
  have "fst (try_reserve 8 (Some ''b'') 20 1 g1) = SkipRateLimited"
    by (simp add: g1_def try_reserve_def guard_new_def is_remediation_workspace_def map_retain_def elapsed_def
        RATE_WINDOW_def DEDUPE_WINDOW_def AUTO_REMEDIATION_NAME_PREFIX_def)
  then have two: "guard_step 1 s1 guard_demo"
    using reserve_step_fst [of s1 20 1 1 8 "Some ''b''"] by (simp add: guard_demo_def s1_def g1_def)
  have "reach guard_start (guard_step 1) s0" by (rule reach.intros) (simp add: guard_start_def s0_def)
  from reach.intros(2) [OF reach.intros(2) [OF this one] two] show ?thesis .
qed

theorem launches_rate_limited_witness:
  "spaced 1 (map snd (gr_log guard_demo)) \<and> apart (gr_log guard_demo)
   \<and> fst (try_reserve 8 None 3600000000010 1 (gr_guard guard_demo)) = Proceed"
proof -
  have "fst (try_reserve 8 None 3600000000010 1 (gr_guard guard_demo)) = Proceed"
    by (simp add: guard_demo_def try_reserve_def guard_new_def is_remediation_workspace_def map_retain_def
        elapsed_def RATE_WINDOW_def DEDUPE_WINDOW_def AUTO_REMEDIATION_NAME_PREFIX_def)
  then show ?thesis using launches_rate_limited [OF guard_demo_reach] by simp
qed

section \<open>Reading back the error text\<close>

lemma split_once_str_first:
  "p \<notin> set a \<Longrightarrow> split_once_str (p # pat) (a @ (p # pat) @ b) = Some (a, b)"
  by (induction a) (simp_all add: split_once_str.simps)

lemma trim_rev_same: "strip_any (map rev white_space) s = None \<Longrightarrow> trim_rev s = s"
  by (subst trim_rev.simps) simp

lemma trim_start_same: "strip_any white_space s = None \<Longrightarrow> trim_start s = s"
  by (subst trim_start.simps) simp

text \<open>The ends a composed text has are no white space.\<close>

lemma solid_ends:
  "strip_any white_space (CHR ''A'' # s) = None" "strip_any white_space (CHR 0x60 # s) = None"
  "strip_any white_space (CHR ''_'' # s) = None"
  "strip_any (map rev white_space) (CHR ''>'' # s) = None" "strip_any (map rev white_space) (CHR ''t'' # s) = None"
  "strip_any (map rev white_space) (CHR 0x60 # s) = None" "strip_any (map rev white_space) (CHR ''_'' # s) = None"
  by (simp_all add: white_space_def)

lemma trim_same:
  assumes "strip_any white_space s = None" and "strip_any (map rev white_space) (rev s) = None"
  shows "trim s = s"
  using assms by (simp add: trim_def trim_start_same trim_rev_same)

lemma trim_end_of_same: "strip_any (map rev white_space) (rev s) = None \<Longrightarrow> trim_end_of s = s"
  by (simp add: trim_end_of_def trim_rev_same)

lemma trim_end_of_prefix: "\<exists>p. s = trim_end_of s @ p"
proof -
  obtain p where "rev s = p @ trim_rev (rev s)" using trim_rev_suffix by blast
  then have "s = trim_end_of s @ rev p" by (simp add: trim_end_of_def) (metis rev_append rev_rev_ident)
  then show ?thesis ..
qed

lemma trim_Nil [simp]: "trim [] = []"
  by (rule trim_same) (simp_all add: white_space_def)

text \<open>No run of backticks of the text is as long as its fence.\<close>

lemma longest_run_rules:
  "longest_run [] st = st"
  "longest_run (c # s) (l, k) = longest_run s (if c = CHR 0x60 then (max l (k + 1), k + 1) else (l, 0))"
  "longest_run (a @ b) st = longest_run b (longest_run a st)"
  by (simp_all add: longest_run_def)

lemma longest_run_grows: "l \<le> fst (longest_run s (l, k))"
proof (induction s arbitrary: l k)
  case (Cons c s)
  show ?case using Cons [of "max l (k + 1)" "k + 1"] Cons [of l 0] by (auto simp: longest_run_rules)
qed (simp add: longest_run_rules)

lemma longest_run_ticks: "k + Suc n \<le> fst (longest_run (replicate (Suc n) (CHR 0x60)) (l, k))"
proof (induction n arbitrary: l k)
  case (Suc n)
  show ?case using Suc [of "k + 1" "max l (k + 1)"] by (simp add: longest_run_rules)
qed (simp add: longest_run_rules)

lemma longest_run_bound: "n \<le> fst (longest_run (a @ replicate n (CHR 0x60) @ b) (0, 0))"
proof (cases n)
  case (Suc m)
  obtain l k where a: "longest_run a (0, 0) = (l, k)" by (cases "longest_run a (0, 0)")
  obtain l' k' where t: "longest_run (replicate n (CHR 0x60)) (l, k) = (l', k')" by fastforce
  have "n \<le> l'" using longest_run_ticks [of k m l] t Suc by simp
  also have "l' \<le> fst (longest_run b (l', k'))" by (rule longest_run_grows)
  finally show ?thesis using a t by (simp add: longest_run_rules)
qed simp

definition ticks :: "string \<Rightarrow> nat" where
  "ticks s = max (fst (longest_run s (0, 0)) + 1) 3"

lemma fence_not_inside: "s \<noteq> a @ code_fence_for s @ b"
proof
  assume "s = a @ code_fence_for s @ b"
  then have "ticks s \<le> fst (longest_run s (0, 0))"
    using longest_run_bound [of "ticks s" a b] by (simp add: code_fence_for_def ticks_def)
  then show False by (simp add: ticks_def)
qed

lemma code_fence_ticks: "code_fence_for s = CHR 0x60 # replicate (ticks s - 1) (CHR 0x60)" "3 \<le> length (code_fence_for s)"
  by (simp_all add: code_fence_for_def ticks_def max_def flip: replicate_Suc)

lemma code_fence_rev: "rev (code_fence_for s) = code_fence_for s"
  unfolding code_fence_for_def by (rule rev_replicate)

lemma fence_solid: "trim_end_of (code_fence_for s) = code_fence_for s"
  by (rule trim_end_of_same, subst code_fence_rev, subst code_fence_ticks(1)) (rule solid_ends)

lemma opening_line:
  "trim (code_fence_for s @ ''text'') = code_fence_for s @ ''text''"
  "trim_end_of (code_fence_for s @ ''text'') = code_fence_for s @ ''text''"
  by (rule trim_same, simp add: code_fence_ticks(1) solid_ends, simp add: solid_ends,
      rule trim_end_of_same, simp add: solid_ends)

lemma opening_ticks: "takeWhile (\<lambda>c. c = CHR 0x60) (code_fence_for s @ ''text'') = code_fence_for s"
  by (subst takeWhile_append2) (simp_all add: code_fence_for_def)

lemma fence_no_breaks: "CHR 0x0A \<notin> set (code_fence_for s @ ''text'')" "CHR 0x0A \<notin> set (code_fence_for s)"
  "CHR 0x0D \<notin> set (code_fence_for s @ ''text'')" "CHR 0x0D \<notin> set (code_fence_for s)"
  by (simp_all add: code_fence_for_def)

text \<open>The block of an error text, wherever it stands after the heading, gives that text back.\<close>

lemma error_lines:
  assumes "CHR 0x0D \<notin> set joined"
  shows "str_lines (LF @ LF @ code_fence_for joined @ ''text'' @ LF @ joined @ LF @ code_fence_for joined @ LF @ tail)
    = [[], [], code_fence_for joined @ ''text''] @ split_on (CHR 0x0A) joined @ [code_fence_for joined] @ str_lines tail"
proof -
  have line: "str_lines (l @ CHR 0x0A # b) = l # str_lines b" if "CHR 0x0A \<notin> set l" "CHR 0x0D \<notin> set l" for l b
    using that by (simp add: str_lines_append split_on_no_sep strip_cr_same)
  have "map strip_cr (split_on (CHR 0x0A) joined) = split_on (CHR 0x0A) joined"
    using assms split_on_substring by (intro map_idI strip_cr_same) fastforce
  then have body: "str_lines (joined @ CHR 0x0A # b) = split_on (CHR 0x0A) joined @ str_lines b" for b
    by (simp add: str_lines_append)
  show ?thesis
    using line [of "[]"] line [OF fence_no_breaks(1,3)] line [OF fence_no_breaks(2,4)] body by simp
qed

lemma fence_closes:
  assumes "l \<in> set (split_on (CHR 0x0A) joined)"
  shows "trim_end_of l \<noteq> code_fence_for joined"
proof
  assume fence: "trim_end_of l = code_fence_for joined"
  obtain p where "l = trim_end_of l @ p" using trim_end_of_prefix by blast
  moreover obtain a b where "joined = a @ l @ b" using split_on_substring [OF assms] by blast
  ultimately have "joined = a @ code_fence_for joined @ (p @ b)" using fence by simp
  then show False using fence_not_inside by blast
qed

lemma issue_error_text_fenced:
  assumes intro: "CHR ''#'' \<notin> set intro" and cr: "CHR 0x0D \<notin> set joined"
  shows "issue_error_text (intro @ ERROR_SECTION_HEADING @ LF @ LF @ code_fence_for joined @ ''text'' @ LF @ joined
      @ LF @ code_fence_for joined @ LF @ tail) = (if trim joined = [] then None else Some joined)"
proof -
  let ?after = "LF @ LF @ code_fence_for joined @ ''text'' @ LF @ joined @ LF @ code_fence_for joined @ LF @ tail"
  have heading: "split_once_str ERROR_SECTION_HEADING (intro @ ERROR_SECTION_HEADING @ ?after) = Some (intro, ?after)"
    unfolding ERROR_SECTION_HEADING_def by (rule split_once_str_first [OF intro])
  have skip: "dropWhile (\<lambda>line. trim line = []) (str_lines ?after)
      = (code_fence_for joined @ ''text'') # split_on (CHR 0x0A) joined @ [code_fence_for joined] @ str_lines tail"
    by (simp only: error_lines [OF cr]) (simp add: opening_line)
  have stop: "takeWhile (\<lambda>line. trim_end_of line \<noteq> code_fence_for joined)
      (split_on (CHR 0x0A) joined @ [code_fence_for joined] @ str_lines tail) = split_on (CHR 0x0A) joined"
    using fence_closes by (subst takeWhile_append2) (simp_all add: fence_solid)
  show ?thesis unfolding issue_error_text_def heading skip option.case list.case prod.case
    using code_fence_ticks(2) [of joined]
    by (simp only: Let_def opening_line opening_ticks stop join_split_on) simp
qed

lemma error_block_none:
  assumes "CHR ''#'' \<notin> set intro"
  shows "issue_error_text (intro @ ERROR_SECTION_HEADING @ LF @ LF @ error_block [] @ tail) = None"
proof -
  let ?note = "''_No error message was captured in the chat._''"
  let ?after = "LF @ LF @ ?note @ LF @ tail"
  have heading: "split_once_str ERROR_SECTION_HEADING (intro @ ERROR_SECTION_HEADING @ ?after) = Some (intro, ?after)"
    unfolding ERROR_SECTION_HEADING_def by (rule split_once_str_first [OF assms])
  have line: "str_lines (l @ CHR 0x0A # b) = l # str_lines b" if "CHR 0x0A \<notin> set l" "CHR 0x0D \<notin> set l" for l b
    using that by (simp add: str_lines_append split_on_no_sep strip_cr_same)
  have lines: "str_lines ?after = [[], [], ?note] @ str_lines tail"
    using line [of "[]"] line [of ?note tail] by simp
  have solid: "trim ?note = ?note" "trim_end_of ?note = ?note"
    by (rule trim_same, simp add: solid_ends, simp add: solid_ends, rule trim_end_of_same, simp add: solid_ends)
  have skip: "dropWhile (\<lambda>line. trim line = []) (str_lines ?after) = ?note # str_lines tail"
    by (simp only: lines) (simp add: solid)
  have block: "error_block [] @ tail = ?note @ LF @ tail" by (simp add: error_block_def)
  show ?thesis unfolding block issue_error_text_def heading skip option.case list.case prod.case
    by (simp only: Let_def solid) simp
qed

lemma issue_body_solid:
  "strip_any white_space (issue_body tx ctx) = None" "strip_any (map rev white_space) (rev (issue_body tx ctx)) = None"
  by (simp_all add: issue_body_def issue_intro_def remediation_marker_def solid_ends)

lemma description_split:
  "\<exists>tail. id_description (compose_issue tx ctx block)
     = issue_intro tx ctx @ ERROR_SECTION_HEADING @ LF @ LF @ error_block (rc_error_messages ctx) @ tail"
proof -
  obtain tail where body: "issue_body tx ctx
      = issue_intro tx ctx @ ERROR_SECTION_HEADING @ LF @ LF @ error_block (rc_error_messages ctx) @ tail"
    by (simp add: issue_body_def)
  have "trim (issue_body tx ctx) = issue_body tx ctx" by (intro trim_same issue_body_solid)
  moreover have "issue_body tx ctx \<noteq> []" by (simp add: body ERROR_SECTION_HEADING_def)
  ultimately have "id_description (compose_issue tx ctx block)
      = issue_body tx ctx @ (if block = [] then [] else LF @ LF @ block)"
    by (simp add: compose_issue_def append_pipeline_block_def Let_def)
  then show ?thesis by (simp add: body)
qed

text \<open>
  C32: round trip of the recorded errors. From the description of a composed issue, whatever pipeline block
  follows it and however many backticks the messages hold, the lookup of similar issues reads back exactly
  the joined messages, and nothing when none were captured; the introduction must hold no number sign and
  the messages no carriage return.
\<close>

theorem issue_error_text_roundtrip:
  assumes "CHR ''#'' \<notin> set (issue_intro tx ctx)"
    and "CHR 0x0D \<notin> set (join (LF @ LF) (rc_error_messages ctx))"
  shows "issue_error_text (id_description (compose_issue tx ctx block)) =
    (if trim (join (LF @ LF) (rc_error_messages ctx)) = [] then None
     else Some (join (LF @ LF) (rc_error_messages ctx)))"
proof -
  obtain tail where d: "id_description (compose_issue tx ctx block)
      = issue_intro tx ctx @ ERROR_SECTION_HEADING @ LF @ LF @ error_block (rc_error_messages ctx) @ tail"
    using description_split by blast
  show ?thesis
  proof (cases "rc_error_messages ctx = []")
    case True
    then show ?thesis using error_block_none [OF assms(1), of tail] by (simp only: d) simp
  next
    case False
    then have "error_block (rc_error_messages ctx) @ tail = (let joined = join (LF @ LF) (rc_error_messages ctx) in
        code_fence_for joined @ ''text'' @ LF @ joined @ LF @ code_fence_for joined @ LF @ tail)"
      by (simp add: error_block_def Let_def)
    then show ?thesis unfolding d using issue_error_text_fenced [OF assms, of tail] by (simp only: Let_def)
  qed
qed

definition demo_texts :: error_texts where
  "demo_texts = \<lparr> et_uuid = (\<lambda>u. ''u'' @ show_nat (unat u)), et_normalize = (\<lambda>s. s),
     et_marker = (\<lambda>_. None), et_fingerprint = (\<lambda>_. None), et_similar = (\<lambda>_ _. False) \<rparr>"

definition demo_context :: remediation_context where
  "demo_context = \<lparr> rc_source_workspace_id = 6, rc_source_name = ''Fix login'', rc_branch = ''vk/login'',
     rc_execution_process_id = 7, rc_executor = ''CLAUDE_CODE'', rc_exit_code = Some 1,
     rc_error_messages = [''a```b'', ''c''], rc_variant_fallback = None \<rparr>"

theorem issue_error_text_roundtrip_witness:
  "issue_error_text (id_description (compose_issue demo_texts demo_context ''## Pipeline''))
     = Some (''a```b'' @ LF @ LF @ ''c'')"
proof -
  have name: "trim ''Fix login'' = ''Fix login''" by (rule trim_same) (simp_all add: white_space_def)
  have intro: "CHR ''#'' \<notin> set (issue_intro demo_texts demo_context)"
    by (simp add: issue_intro_def demo_context_def demo_texts_def exit_code_label_def
        show_int_def show_nat.simps digit_char_def name char_of_def)
  have msgs: "join (LF @ LF) (rc_error_messages demo_context) = ''a```b'' @ LF @ LF @ ''c''"
    by (simp add: demo_context_def)
  have solid: "trim (''a```b'' @ LF @ LF @ ''c'') = ''a```b'' @ LF @ LF @ ''c''"
    by (rule trim_same) (simp_all add: white_space_def)
  have cr: "CHR 0x0D \<notin> set (join (LF @ LF) (rc_error_messages demo_context))" unfolding msgs by simp
  show ?thesis using issue_error_text_roundtrip [OF intro cr, of "''## Pipeline''"] unfolding msgs solid by simp
qed

end
