(* ===== verification/Remediation_Launch.thy ===== *)
theory Remediation_Launch
  imports Error_Remediation
begin

text \<open>
  The consumer of failed turns (\<open>server/error_remediation.rs\<close>): the repositories, the variant and the
  pipelines of the configuration, the lookup of similar issues, and the launch of a remediation with its
  calls of the remote service and of the workspace routes.
\<close>

section \<open>The configuration\<close>

record remediation_config =
  rm_enabled :: bool
  rm_project_id :: "uuid option"
  rm_repo_ids :: "uuid list"
  rm_executor :: BaseCodingAgent
  rm_variant :: "string option"
  rm_model_id :: "string option"
  rm_pipeline_ids :: "string list"
  rm_merge_stage_ids :: "string list"
  rm_max_per_hour :: u32

definition remediation_default :: remediation_config where
  "remediation_default = \<lparr> rm_enabled = False, rm_project_id = None, rm_repo_ids = [],
     rm_executor = BaseClaudeCode, rm_variant = Some ''PROALIGN'', rm_model_id = Some ''claude-opus-5-5'',
     rm_pipeline_ids = [''wikillm'', ''speckit''], rm_merge_stage_ids = [''pr-and-merge'', ''merge''],
     rm_max_per_hour = 3 \<rparr>"

type_synonym workspace_repo_input = "uuid \<times> string"

text \<open>The ids not yet seen, in order.\<close>

fun unseen :: "uuid set \<Rightarrow> uuid list \<Rightarrow> uuid list" where
  "unseen seen [] = []"
| "unseen seen (i # ids) = (if i \<in> seen then unseen seen ids else i # unseen (insert i seen) ids)"

text \<open>\<open>find_repo\<close> gives a repository's default target branch.\<close>

fun collect_repos :: "(uuid \<Rightarrow> string + string option option) \<Rightarrow> workspace_repo_input list \<Rightarrow> uuid list
    \<Rightarrow> string + workspace_repo_input list" where
  "collect_repos find_repo source_repos [] = Ok []"
| "collect_repos find_repo source_repos (i # ids) = try_bind (find_repo i) (\<lambda>repo. case repo of
     None \<Rightarrow> collect_repos find_repo source_repos ids
   | Some default_target_branch \<Rightarrow>
       let target_branch = (case map_of source_repos i of Some b \<Rightarrow> b
         | None \<Rightarrow> (case default_target_branch of Some b \<Rightarrow> b | None \<Rightarrow> ''main''))
       in try_bind (collect_repos find_repo source_repos ids) (\<lambda>repos. Ok ((i, target_branch) # repos)))"

definition resolve_repos :: "(string + workspace_repo_input list) \<Rightarrow> (uuid \<Rightarrow> string + string option option)
    \<Rightarrow> remediation_config \<Rightarrow> string + workspace_repo_input list" where
  "resolve_repos source find_repo config = try_bind source (\<lambda>source_repos.
     if rm_repo_ids config = [] then Ok source_repos
     else collect_repos find_repo source_repos (unseen {} (rm_repo_ids config)))"

definition resolve_variant :: "(string \<Rightarrow> string) \<Rightarrow> executor_configs \<Rightarrow> remediation_config
    \<Rightarrow> string option \<times> string option" where
  "resolve_variant screaming_snake configs config =
     (case Option.bind (map_option trim (rm_variant config)) (\<lambda>v. if v = [] then None else Some v) of
        None \<Rightarrow> (None, None)
      | Some v \<Rightarrow>
          let variant = canonical_variant_key screaming_snake v
          in if get_coding_agent configs \<lparr> pi_executor = rm_executor config, pi_variant = Some variant \<rparr> \<noteq> None
             then (Some variant, None) else (None, Some variant))"

section \<open>The launch\<close>

record project_status =
  pj_id :: uuid
  pj_name :: string
  pj_hidden :: bool
  pj_sort_order :: int

text \<open>The failed turn as its rows and its chat (\<open>None\<close> when it cannot be read) describe it.\<close>

record failed_turn =
  ft_workspace :: uuid
  ft_name :: "string option"
  ft_branch :: string
  ft_execution :: uuid
  ft_executor :: "string option"
  ft_exit_code :: "int option"
  ft_entries :: "normalized_entry list option"

definition context_of :: "failed_turn \<Rightarrow> string option \<Rightarrow> remediation_context" where
  "context_of turn variant_fallback =
     \<lparr> rc_source_workspace_id = ft_workspace turn,
       rc_source_name = (case ft_name turn of
         Some name \<Rightarrow> if trim name = [] then ft_branch turn else name | None \<Rightarrow> ft_branch turn),
       rc_branch = ft_branch turn, rc_execution_process_id = ft_execution turn,
       rc_executor = (case ft_executor turn of Some e \<Rightarrow> e | None \<Rightarrow> ''unknown''),
       rc_exit_code = ft_exit_code turn,
       rc_error_messages = (case ft_entries turn of Some entries \<Rightarrow> extract_error_messages entries | None \<Rightarrow> []),
       rc_variant_fallback = variant_fallback \<rparr>"

text \<open>
  What the database, the executor profiles, the pipeline files, the remote service and the workspace
  routes answer; \<open>le_start\<close> has no text when the start answers without data, a missing
  client counts as a failed reading of the statuses.
\<close>

record launch_env =
  le_texts :: error_texts
  le_lower :: "string \<Rightarrow> string"
  le_screaming_snake :: "string \<Rightarrow> string"
  le_shuffle :: "string list \<Rightarrow> string list"
  le_configs :: executor_configs
  le_pipelines :: "pipeline list"
  le_linked_project :: "string + uuid option"
  le_source_repos :: "string + workspace_repo_input list"
  le_find_repo :: "uuid \<Rightarrow> string + string option option"
  le_statuses :: "string + project_status list"
  le_search :: "string + remote_issue list \<times> nat"
  le_create :: "string + uuid"
  le_start :: "string option + uuid"
  le_link :: "string + unit"

record start_request =
  sr_name :: string
  sr_repos :: "workspace_repo_input list"
  sr_linked_issue :: "uuid \<times> uuid"
  sr_executor :: BaseCodingAgent
  sr_variant :: "string option"
  sr_model_id :: "string option"
  sr_prompt :: string

datatype remote_call = SearchIssues uuid "uuid list" | CommentOn uuid string | CreateIssue uuid uuid issue_draft
  | StartWorkspace start_request | LinkWorkspace uuid uuid uuid

datatype LaunchOutcome = Launched uuid uuid | Recurred uuid

definition find_active_similar_issue :: "launch_env \<Rightarrow> string list \<Rightarrow> string + remote_issue option" where
  "find_active_similar_issue env messages = (case le_search env of
     Inl e \<Rightarrow> Err (''similar-issue lookup failed, nothing launched: '' @ e)
   | Inr (issues, total_count) \<Rightarrow>
       if length issues < total_count
       then Err (''similar-issue lookup returned '' @ show_nat (length issues) @ '' of '' @ show_nat total_count
         @ '' candidates; nothing launched'')
       else Ok (find_similar_issue (le_texts env) issues messages))"

text \<open>The pipelines in configured order, or the ids of those that are missing.\<close>

fun select_pipelines :: "pipeline list \<Rightarrow> string list \<Rightarrow> string list \<times> pipeline list" where
  "select_pipelines available [] = ([], [])"
| "select_pipelines available (i # ids) =
     (case find (\<lambda>p. pl_id p = i) available of
        Some p \<Rightarrow> (case select_pipelines available ids of (missing, selected) \<Rightarrow> (missing, p # selected))
      | None \<Rightarrow> (case select_pipelines available ids of (missing, selected) \<Rightarrow> (i # missing, selected)))"

definition compose_block :: "(string list \<Rightarrow> string list) \<Rightarrow> pipeline list \<Rightarrow> string list \<Rightarrow> string list
    \<Rightarrow> (string + string) option" where
  "compose_block shuffle available pipeline_ids merge_stage_ids =
     (case select_pipelines available pipeline_ids of
        (missing, selected) \<Rightarrow>
          if missing \<noteq> [] then Some (Err (''configured pipeline(s) missing or invalid: '' @ join '', '' missing))
          else map_option Ok (compose_pipeline_block shuffle (map block_pipeline_of selected)
            (remediation_stage_ids selected merge_stage_ids) None))"

text \<open>What is settled before the remote service is asked for anything that lasts.\<close>

record launch_plan =
  lp_project :: uuid
  lp_repos :: "workspace_repo_input list"
  lp_variant :: "string option"
  lp_context :: remediation_context
  lp_draft :: issue_draft
  lp_status :: uuid
  lp_active :: "uuid list"

text \<open>The composition of the block always returns (\<open>compose_block_returns\<close>).\<close>

definition prepare :: "launch_env \<Rightarrow> remediation_config \<Rightarrow> failed_turn \<Rightarrow> string + launch_plan" where
  "prepare env config turn =
     try_bind (case rm_project_id config of Some p \<Rightarrow> Ok p
       | None \<Rightarrow> try_bind (le_linked_project env) (\<lambda>p.
           ok_or p ''no project configured and the source workspace is not linked to one'')) (\<lambda>project.
     try_bind (resolve_repos (le_source_repos env) (le_find_repo env) config) (\<lambda>repos.
     if repos = [] then Err ''no repositories to start the remediation workspace on''
     else case resolve_variant (le_screaming_snake env) (le_configs env) config of (variant, variant_fallback) \<Rightarrow>
     let ctx = context_of turn variant_fallback in
     try_bind (the (compose_block (le_shuffle env) (le_pipelines env) (rm_pipeline_ids config) (rm_merge_stage_ids config)))
       (\<lambda>block.
     try_bind (le_statuses env) (\<lambda>statuses.
     try_bind (ok_or (min_by_key pj_sort_order (filter (\<lambda>s. \<not> pj_hidden s) statuses))
       ''project has no visible statuses'') (\<lambda>status.
     Ok \<lparr> lp_project = project, lp_repos = repos, lp_variant = variant, lp_context = ctx,
       lp_draft = compose_issue (le_texts env) ctx block, lp_status = pj_id status,
       lp_active = map pj_id (filter (\<lambda>s. is_active_status_name (le_lower env) (pj_name s)) statuses) \<rparr>)))))"

definition start_of :: "remediation_config \<Rightarrow> launch_plan \<Rightarrow> uuid \<Rightarrow> start_request" where
  "start_of config plan issue = \<lparr> sr_name = id_title (lp_draft plan), sr_repos = lp_repos plan,
     sr_linked_issue = (lp_project plan, issue), sr_executor = rm_executor config, sr_variant = lp_variant plan,
     sr_model_id = rm_model_id config,
     sr_prompt = id_title (lp_draft plan) @ LF @ LF @ id_description (lp_draft plan) \<rparr>"

text \<open>What \<open>launch\<close> does once no similar issue stops it.\<close>

definition file_issue :: "launch_env \<Rightarrow> remediation_config \<Rightarrow> launch_plan \<Rightarrow> (string + LaunchOutcome) \<times> remote_call list" where
  "file_issue env config plan =
     (let create = CreateIssue (lp_project plan) (lp_status plan) (lp_draft plan) in
      case le_create env of
        Inl e \<Rightarrow> (Err e, [create])
      | Inr issue \<Rightarrow> (case le_start env of
           Inl e \<Rightarrow> (Err (''issue '' @ et_uuid (le_texts env) issue @ '' created, but the workspace did not start''
               @ (case e of Some e \<Rightarrow> '': '' @ e | None \<Rightarrow> [])),
             [create, StartWorkspace (start_of config plan issue)])
         | Inr workspace \<Rightarrow>
             (case le_link env of
                Inl e \<Rightarrow> Err (''workspace '' @ et_uuid (le_texts env) workspace @ '' started, but linking it to issue ''
                  @ et_uuid (le_texts env) issue @ '' failed: '' @ e)
              | Inr _ \<Rightarrow> Ok (Launched issue workspace),
              [create, StartWorkspace (start_of config plan issue), LinkWorkspace workspace (lp_project plan) issue])))"

definition launch :: "launch_env \<Rightarrow> remediation_config \<Rightarrow> failed_turn \<Rightarrow> (string + LaunchOutcome) \<times> remote_call list" where
  "launch env config turn = (case prepare env config turn of
     Inl e \<Rightarrow> (Err e, [])
   | Inr plan \<Rightarrow>
       let messages = rc_error_messages (lp_context plan); search = SearchIssues (lp_project plan) (lp_active plan)
       in if messages = [] \<or> lp_active plan = [] then file_issue env config plan
          else (case find_active_similar_issue env messages of
              Inl e \<Rightarrow> (Err e, [search])
            | Inr (Some existing) \<Rightarrow> (Ok (Recurred (ri_id existing)),
                [search, CommentOn (ri_id existing) (compose_recurrence_comment (le_texts env) (lp_context plan))])
            | Inr None \<Rightarrow> (case file_issue env config plan of (r, calls) \<Rightarrow> (r, search # calls))))"

text \<open>One announced turn; \<open>turn\<close> is absent when its rows cannot be read.\<close>

definition handle_failed_turn :: "remediation_config \<Rightarrow> failed_turn option \<Rightarrow> int \<Rightarrow> launch_env \<Rightarrow> guard_state
    \<Rightarrow> remote_call list \<times> guard_state" where
  "handle_failed_turn config turn now env g =
     (if \<not> rm_enabled config then ([], g)
      else case turn of None \<Rightarrow> ([], g)
      | Some turn \<Rightarrow>
          (case try_reserve (ft_workspace turn) (ft_name turn) now (rm_max_per_hour config) g of
             (Proceed, g) \<Rightarrow> (case launch env config turn of
                 (Inr (Launched issue workspace), calls) \<Rightarrow> (calls, record_launched workspace g)
               | (_, calls) \<Rightarrow> (calls, g))
           | (_, g) \<Rightarrow> ([], g)))"

section \<open>What one failed turn may do\<close>

lemma compose_block_returns: "shuffles_ok shuffle \<Longrightarrow> compose_block shuffle available ids merge_ids \<noteq> None"
proof -
  assume "shuffles_ok shuffle"
  then have "\<exists>is. canonical_ids shuffle ps = Some is" for ps
    by (cases "index_stages ps"; cases "stage_graph ps") (metis canonical_ids_Some)
  then have "canonical_stage_order shuffle ps \<noteq> None" for ps by (simp add: canonical_stage_order_def)
  then show ?thesis
    by (auto simp: compose_block_def compose_pipeline_block_def Let_def split: prod.splits)
qed

lemma select_pipelines_missing:
  "fst (select_pipelines available ids) = filter (\<lambda>i. i \<notin> pl_id ` set available) ids"
proof (induction ids)
  case (Cons i ids)
  show ?case
  proof (cases "find (\<lambda>p. pl_id p = i) available")
    case None
    then have "i \<notin> pl_id ` set available" by (auto simp: find_None_iff)
    then show ?thesis using Cons None by (simp add: split_beta)
  next
    case (Some p)
    then have "p \<in> set available" "pl_id p = i" by (metis (mono_tags, lifting) find_Some_iff nth_mem)+
    then have "i \<in> pl_id ` set available" by blast
    then show ?thesis using Cons Some by (simp add: split_beta)
  qed
qed simp

lemma compose_block_selected:
  assumes "shuffles_ok shuffle" and "the (compose_block shuffle available ids merge_ids) = Inr block"
  shows "compose_block shuffle available ids merge_ids = Some (Inr block)" "set ids \<subseteq> pl_id ` set available"
proof -
  obtain r where r: "compose_block shuffle available ids merge_ids = Some r"
    using compose_block_returns [OF assms(1)] by blast
  then show c: "compose_block shuffle available ids merge_ids = Some (Inr block)" using assms(2) by simp
  then have "fst (select_pipelines available ids) = []"
    by (auto simp: compose_block_def split: prod.splits if_splits)
  then show "set ids \<subseteq> pl_id ` set available" by (auto simp: select_pipelines_missing filter_empty_conv)
qed

definition files_issue :: "remote_call \<Rightarrow> bool" where
  "files_issue c \<longleftrightarrow> (case c of CreateIssue _ _ _ \<Rightarrow> True | _ \<Rightarrow> False)"

text \<open>The lookup that stands between a failure with messages and a new issue.\<close>

definition lookup_clears :: "launch_env \<Rightarrow> string list \<Rightarrow> bool" where
  "lookup_clears env messages \<longleftrightarrow> (\<exists>issues total_count. le_search env = Inr (issues, total_count)
     \<and> total_count \<le> length issues \<and> find_similar_issue (le_texts env) issues messages = None)"

definition may_file :: "launch_env \<Rightarrow> launch_plan \<Rightarrow> bool" where
  "may_file env plan \<longleftrightarrow> rc_error_messages (lp_context plan) = [] \<or> lp_active plan = []
     \<or> lookup_clears env (rc_error_messages (lp_context plan))"

lemma files_issue_simps [simp]:
  "files_issue (CreateIssue p status draft)" "\<not> files_issue (SearchIssues p ids)" "\<not> files_issue (CommentOn i msg)"
  "\<not> files_issue (StartWorkspace r)" "\<not> files_issue (LinkWorkspace w p i)"
  by (simp_all add: files_issue_def)

lemma find_active_similar_issue_None:
  "find_active_similar_issue env messages = Inr None \<longleftrightarrow> lookup_clears env messages"
  by (auto simp: find_active_similar_issue_def lookup_clears_def split: sum.splits if_splits)

lemma file_issue_files:
  "file_issue env config plan = (r, calls)
   \<Longrightarrow> filter files_issue calls = [CreateIssue (lp_project plan) (lp_status plan) (lp_draft plan)]"
  by (auto simp: file_issue_def Let_def split: sum.splits)

lemma launch_files:
  assumes "launch env config turn = (r, calls)" and "filter files_issue calls \<noteq> []"
  obtains plan where "prepare env config turn = Inr plan" "may_file env plan"
    "filter files_issue calls = [CreateIssue (lp_project plan) (lp_status plan) (lp_draft plan)]"
  using assms
  by (auto simp: launch_def Let_def may_file_def find_active_similar_issue_None [symmetric] dest: file_issue_files
      split: sum.splits if_splits option.splits prod.splits)

lemma try_bind_Inr: "try_bind r f = Inr v \<longleftrightarrow> (\<exists>x. r = Inr x \<and> f x = Inr v)"
  by (cases r) (simp_all add: try_bind_def)

lemma prepare_Inr:
  assumes "prepare env config turn = Inr plan"
  obtains block statuses status variant where
    "le_statuses env = Inr statuses"
    "the (compose_block (le_shuffle env) (le_pipelines env) (rm_pipeline_ids config) (rm_merge_stage_ids config)) = Inr block"
    "lp_repos plan \<noteq> []" "lp_draft plan = compose_issue (le_texts env) (lp_context plan) block"
    "lp_context plan = context_of turn variant"
    "min_by_key pj_sort_order (filter (\<lambda>s. \<not> pj_hidden s) statuses) = Some status" "lp_status plan = pj_id status"
  using assms
  by (cases "resolve_variant (le_screaming_snake env) (le_configs env) config")
    (auto simp: prepare_def try_bind_Inr ok_or_def Let_def split: if_splits option.splits)

lemma handle_calls:
  assumes "handle_failed_turn config turn now env g = (calls, g')" and "calls \<noteq> []"
  obtains t r where "turn = Some t" "rm_enabled config"
    "fst (try_reserve (ft_workspace t) (ft_name t) now (rm_max_per_hour config) g) = Proceed"
    "launch env config t = (r, calls)"
  using assms
  by (auto simp: handle_failed_turn_def split: if_splits option.splits prod.splits GuardDecision.splits sum.splits
      LaunchOutcome.splits)

lemma proceed_allowed:
  assumes "fst (try_reserve source source_name now max_per_hour g) = Proceed"
  shows "\<not> is_remediation_workspace source_name" and "source \<notin> gu_launched g"
  using assms by (auto simp: try_reserve_def split: if_splits)

lemma composed_title_marked [simp]: "is_remediation_workspace (Some (id_title (compose_issue tx ctx block)))"
  by (simp add: is_remediation_workspace_def is_some_and_def compose_issue_def)

text \<open>
  C33: what an issue filed automatically rests on. Handling one announced turn files at most one issue, and
  only when the feature is enabled, the turn could be read, its workspace is neither named nor known as a
  remediation and the guard granted the launch; every configured pipeline exists, there is a repository
  to start on and a visible status to file under, and a turn with error messages in a project with active
  statuses is filed only after a complete lookup that found no similar issue.
\<close>

theorem issue_filed_guarded:
  assumes "handle_failed_turn config turn now env g = (calls, g')" and "shuffles_ok (le_shuffle env)"
    and "CreateIssue project status draft \<in> set calls"
  shows "filter files_issue calls = [CreateIssue project status draft] \<and> rm_enabled config
    \<and> (\<exists>t plan. turn = Some t \<and> prepare env config t = Inr plan
      \<and> fst (try_reserve (ft_workspace t) (ft_name t) now (rm_max_per_hour config) g) = Proceed
      \<and> \<not> is_remediation_workspace (ft_name t) \<and> ft_workspace t \<notin> gu_launched g
      \<and> set (rm_pipeline_ids config) \<subseteq> pl_id ` set (le_pipelines env) \<and> lp_repos plan \<noteq> []
      \<and> (\<exists>statuses s. le_statuses env = Inr statuses \<and> s \<in> set statuses \<and> \<not> pj_hidden s \<and> status = pj_id s)
      \<and> may_file env plan)"
proof -
  from assms(3) have "calls \<noteq> []" by auto
  with assms(1) obtain t r where t: "turn = Some t" "rm_enabled config"
      "fst (try_reserve (ft_workspace t) (ft_name t) now (rm_max_per_hour config) g) = Proceed"
      "launch env config t = (r, calls)"
    by (rule handle_calls)
  have mem: "CreateIssue project status draft \<in> set (filter files_issue calls)" using assms(3) by simp
  then have "filter files_issue calls \<noteq> []" by (metis emptyE empty_set)
  with t(4) obtain plan where p: "prepare env config t = Inr plan" "may_file env plan"
      "filter files_issue calls = [CreateIssue (lp_project plan) (lp_status plan) (lp_draft plan)]"
    by (rule launch_files)
  then have only: "filter files_issue calls = [CreateIssue project status draft]" "status = lp_status plan"
    using mem by auto
  from p(1) obtain block statuses s variant where pl: "le_statuses env = Inr statuses"
      "the (compose_block (le_shuffle env) (le_pipelines env) (rm_pipeline_ids config) (rm_merge_stage_ids config)) = Inr block"
      "lp_repos plan \<noteq> []" "min_by_key pj_sort_order (filter (\<lambda>s. \<not> pj_hidden s) statuses) = Some s" "lp_status plan = pj_id s"
    by (rule prepare_Inr)
  have "s \<in> set statuses" "\<not> pj_hidden s" using min_by_key_Some [OF pl(4)] by auto
  then show ?thesis
    using only t(1-3) p(1,2) pl(1,3,5) proceed_allowed [OF t(3)] compose_block_selected(2) [OF assms(2) pl(2)] by blast
qed

lemma launch_starts:
  assumes "launch env config turn = (r, calls)" and "StartWorkspace req \<in> set calls"
  shows "is_remediation_workspace (Some (sr_name req))"
proof -
  have filed: "sr_name req = id_title (lp_draft plan)"
    if "file_issue env config plan = (r, calls)" "StartWorkspace req \<in> set calls" for plan r calls
    using that by (auto simp: file_issue_def start_of_def Let_def split: sum.splits)
  obtain plan where "prepare env config turn = Inr plan" "sr_name req = id_title (lp_draft plan)"
    using assms
    by (auto simp: launch_def Let_def split: sum.splits if_splits option.splits prod.splits dest: filed)
  then show ?thesis by (auto elim!: prepare_Inr)
qed

lemma marked_refused:
  "is_remediation_workspace (ft_name t) \<Longrightarrow> handle_failed_turn config (Some t) now env g = ([], g)"
  by (simp add: handle_failed_turn_def try_reserve_def)

text \<open>
  C34: remediation does not feed on itself. A workspace started by the handling of a failed turn carries a
  name from which no later failed turn makes any remote call or changes the guard, in any state of the
  guard (that of a restarted server included), at any time and under any configuration.
\<close>

theorem remediation_never_recurs:
  assumes "StartWorkspace req \<in> set (fst (handle_failed_turn config turn now env g))"
    and "ft_name failed = Some (sr_name req)"
  shows "handle_failed_turn config' (Some failed) now' env' g' = ([], g')"
proof -
  obtain calls g2 where h: "handle_failed_turn config turn now env g = (calls, g2)" by fastforce
  with assms(1) have mem: "StartWorkspace req \<in> set calls" by simp
  then have "calls \<noteq> []" by auto
  with h obtain t r where "launch env config t = (r, calls)" by (rule handle_calls)
  then have "is_remediation_workspace (Some (sr_name req))" using mem by (rule launch_starts)
  then show ?thesis using assms(2) marked_refused by simp
qed

section \<open>A launch\<close>

definition filing_env :: launch_env where
  "filing_env = \<lparr> le_texts = demo_texts, le_lower = (\<lambda>s. s), le_screaming_snake = (\<lambda>s. s), le_shuffle = id,
     le_configs = [], le_pipelines = [], le_linked_project = Inr (Some 1), le_source_repos = Inr [(2, ''main'')],
     le_find_repo = (\<lambda>_. Inr None),
     le_statuses = Inr [\<lparr> pj_id = 3, pj_name = ''Todo'', pj_hidden = False, pj_sort_order = 0 \<rparr>],
     le_search = Inr ([], 0), le_create = Inr 4, le_start = Inr 5, le_link = Inr () \<rparr>"

definition filing_config :: remediation_config where
  "filing_config = remediation_default\<lparr> rm_enabled := True, rm_variant := None, rm_pipeline_ids := [] \<rparr>"

definition filing_turn :: failed_turn where
  "filing_turn = \<lparr> ft_workspace = 6, ft_name = Some ''Fix login'', ft_branch = ''vk/login'', ft_execution = 7,
     ft_executor = None, ft_exit_code = Some 1, ft_entries = None \<rparr>"

definition filing_plan :: launch_plan where
  "filing_plan = \<lparr> lp_project = 1, lp_repos = [(2, ''main'')], lp_variant = None, lp_context = context_of filing_turn None,
     lp_draft = compose_issue demo_texts (context_of filing_turn None) [], lp_status = 3,
     lp_active = [3] \<rparr>"

lemma filing_block: "the (compose_block id [] [] ids) = Inr []"
proof -
  have "canonical_stage_order id [] = Some []"
    by (simp add: canonical_stage_order_def canonical_ids_def index_stages_def stage_graph_def Let_def
        sort_stages.simps List.map_filter_simps)
  then show ?thesis
    by (simp add: compose_block_def compose_pipeline_block_def compose_executor_line_def Let_def)
qed

lemma filing_prepare: "prepare filing_env filing_config filing_turn = Inr filing_plan"
proof -
  have "trim ''Todo'' = ''Todo''" by (rule trim_same) (simp_all add: white_space_def)
  then show ?thesis
    using filing_block
    by (simp add: prepare_def filing_env_def filing_config_def remediation_default_def resolve_repos_def resolve_variant_def
        filing_plan_def try_bind_def ok_or_def Let_def is_active_status_name_def)
qed

lemma filing_handled:
  "fst (handle_failed_turn filing_config (Some filing_turn) 10 filing_env guard_new) =
     [CreateIssue 1 3 (lp_draft filing_plan), StartWorkspace (start_of filing_config filing_plan 4), LinkWorkspace 5 1 4]"
proof -
  have "fst (try_reserve 6 (Some ''Fix login'') 10 3 guard_new) = Proceed"
    by (simp add: try_reserve_def guard_new_def map_retain_def is_remediation_workspace_def is_some_and_def
        AUTO_REMEDIATION_NAME_PREFIX_def)
  moreover have "launch filing_env filing_config filing_turn = (Inr (Launched 4 5),
      [CreateIssue 1 3 (lp_draft filing_plan), StartWorkspace (start_of filing_config filing_plan 4), LinkWorkspace 5 1 4])"
    unfolding launch_def filing_prepare
    by (simp add: filing_plan_def context_of_def filing_turn_def file_issue_def filing_env_def Let_def)
  ultimately show ?thesis
    by (cases "try_reserve 6 (Some ''Fix login'') 10 3 guard_new")
      (simp add: handle_failed_turn_def filing_config_def remediation_default_def filing_turn_def)
qed

theorem issue_filed_guarded_witness:
  "filter files_issue (fst (handle_failed_turn filing_config (Some filing_turn) 10 filing_env guard_new))
     = [CreateIssue 1 3 (lp_draft filing_plan)] \<and> rm_enabled filing_config"
proof -
  obtain g' where h: "handle_failed_turn filing_config (Some filing_turn) 10 filing_env guard_new =
      ([CreateIssue 1 3 (lp_draft filing_plan), StartWorkspace (start_of filing_config filing_plan 4), LinkWorkspace 5 1 4], g')"
    by (metis filing_handled prod.collapse)
  have "shuffles_ok (le_shuffle filing_env)" by (simp add: filing_env_def shuffles_ok_def)
  from issue_filed_guarded [OF h this, of 1 3 "lp_draft filing_plan"] show ?thesis by (simp add: h)
qed

theorem remediation_never_recurs_witness:
  "handle_failed_turn filing_config
     (Some (filing_turn\<lparr> ft_name := Some (sr_name (start_of filing_config filing_plan 4)) \<rparr>)) 20 filing_env guard_new
   = ([], guard_new)"
  using remediation_never_recurs [of "start_of filing_config filing_plan 4" filing_config "Some filing_turn" 10 filing_env guard_new
      "filing_turn\<lparr> ft_name := Some (sr_name (start_of filing_config filing_plan 4)) \<rparr>"]
  by (simp add: filing_handled)

end
