(* ===== verification/Proc_Parsers.thy ===== *)
theory Proc_Parsers
  imports Mount_Health Data_Model
begin

text \<open>
  What a sample of a node reads of \<open>/proc\<close> and derives from it (\<open>node-metrics/src/parse.rs\<close> and
  \<open>derive.rs\<close>): the parsers of CPU times, memory, load, pressure, interfaces, mounts, processes and users, and
  the rates against the counters of the sample before. The text of a float and the quotients of floats are
  parameters, instants are in nanoseconds; integers are kept at their width, a plain addition wraps as in a release build.
\<close>

section \<open>Numbers and fields\<close>

definition parse_u32 :: "string \<Rightarrow> u32 option" where
  "parse_u32 s = (case parse_nat s of None \<Rightarrow> None
     | Some n \<Rightarrow> if n < 2 ^ 32 then Some (word_of_nat n) else None)"

definition parse_i32 :: "string \<Rightarrow> int option" where
  "parse_i32 s = (case s of
     c # cs \<Rightarrow> if c = CHR ''-'' then
         (case cs of [] \<Rightarrow> None | d # ds \<Rightarrow> if d = CHR ''+'' then None else
            (case parse_nat cs of Some n \<Rightarrow> if n \<le> 2 ^ 31 then Some (- int n) else None | None \<Rightarrow> None))
       else (case parse_nat s of Some n \<Rightarrow> if n < 2 ^ 31 then Some (int n) else None | None \<Rightarrow> None)
   | [] \<Rightarrow> None)"

definition nth_field :: "'a list \<Rightarrow> nat \<Rightarrow> 'a option" where
  "nth_field xs n = (if n < length xs then Some (xs ! n) else None)"

definition first_word :: "string \<Rightarrow> string option" where
  "first_word s = nth_field (split_whitespace s) 0"

text \<open>\<open>split_once(char::is_whitespace)\<close>.\<close>

fun split_once_ws :: "string \<Rightarrow> (string \<times> string) option" where
  "split_once_ws [] = None"
| "split_once_ws (c # cs) = (case strip_any white_space (c # cs) of
     Some r \<Rightarrow> Some ([], r)
   | None \<Rightarrow> map_option (\<lambda>(a, b). (c # a, b)) (split_once_ws cs))"

fun all_some :: "'a option list \<Rightarrow> 'a list option" where
  "all_some [] = Some []"
| "all_some (None # xs) = None"
| "all_some (Some x # xs) = map_option (\<lambda>ys. x # ys) (all_some xs)"

section \<open>CPU times\<close>

record cpu_times =
  ct_total :: u64
  ct_idle :: u64

record core_times =
  co_index :: u32
  co_times :: cpu_times

record proc_stat =
  pst_total :: cpu_times
  pst_per_core :: "core_times list"

definition parse_cpu_times :: "string \<Rightarrow> cpu_times option" where
  "parse_cpu_times columns = (case all_some (map parse_u64 (split_whitespace columns)) of
     None \<Rightarrow> None
   | Some vs \<Rightarrow>
       if length vs < 4 then None
       else Some \<lparr> ct_total = sum_list vs,
         ct_idle = vs ! 3 + (case nth_field vs 4 of Some v \<Rightarrow> v | None \<Rightarrow> 0) \<rparr>)"

definition is_ascii_digits :: "string \<Rightarrow> bool" where
  "is_ascii_digits s \<longleftrightarrow> list_all (\<lambda>c. digit_of c \<noteq> None) s"

definition parse_stat_line :: "string \<Rightarrow> cpu_times option \<times> core_times list \<Rightarrow> cpu_times option \<times> core_times list" where
  "parse_stat_line line st = (case st of (aggregate, per_core) \<Rightarrow>
     (case Option.bind (strip_prefix ''cpu'' line) split_once_ws of
        None \<Rightarrow> st
      | Some (index, columns) \<Rightarrow>
          (case parse_cpu_times columns of
             None \<Rightarrow> st
           | Some cpu \<Rightarrow>
               if index = [] then (Some cpu, per_core)
               else (case (if is_ascii_digits index then parse_u32 index else None) of
                   Some i \<Rightarrow> (aggregate, per_core @ [\<lparr> co_index = i, co_times = cpu \<rparr>])
                 | None \<Rightarrow> st))))"

definition parse_proc_stat :: "string \<Rightarrow> proc_stat option" where
  "parse_proc_stat contents = (case fold parse_stat_line (str_lines contents) (None, []) of
     (aggregate, per_core) \<Rightarrow> map_option (\<lambda>t. \<lparr> pst_total = t, pst_per_core = per_core \<rparr>) aggregate)"

section \<open>Memory, load, pressure\<close>

record memory_sample =
  ms_total_bytes :: "u64 option"
  ms_available_bytes :: "u64 option"
  ms_used_bytes :: "u64 option"
  ms_cached_bytes :: "u64 option"
  ms_swap_total_bytes :: "u64 option"
  ms_swap_used_bytes :: "u64 option"

definition kib_to_bytes :: "u64 \<Rightarrow> u64 option" where
  "kib_to_bytes amount = (if unat amount * 1024 < 2 ^ 64 then Some (amount * 1024) else None)"

definition meminfo_field :: "string \<Rightarrow> (string \<times> u64) option" where
  "meminfo_field line = (case split_once (CHR '':'') line of
     None \<Rightarrow> None
   | Some (key, v) \<Rightarrow>
       (let columns = split_whitespace v in
        case Option.bind (nth_field columns 0) parse_u64 of
          None \<Rightarrow> None
        | Some amount \<Rightarrow> map_option (\<lambda>bytes. (key, bytes))
            (if nth_field columns 1 = Some ''kB'' then kib_to_bytes amount else Some amount)))"

definition subtract_opt :: "u64 option \<Rightarrow> u64 option \<Rightarrow> u64 option" where
  "subtract_opt l r = Option.bind l (\<lambda>a. map_option (saturating_sub a) r)"

definition parse_meminfo :: "string \<Rightarrow> memory_sample" where
  "parse_meminfo contents =
     (let fields = map_of (rev (List.map_filter meminfo_field (str_lines contents)));
          mem_total = fields ''MemTotal''; available = fields ''MemAvailable'';
          swap_total = fields ''SwapTotal''; swap_free = fields ''SwapFree''
      in \<lparr> ms_total_bytes = mem_total, ms_available_bytes = available, ms_used_bytes = subtract_opt mem_total available,
           ms_cached_bytes = map_option (\<lambda>cached. saturating_add cached
             (case fields ''SReclaimable'' of Some r \<Rightarrow> r | None \<Rightarrow> 0)) (fields ''Cached''),
           ms_swap_total_bytes = swap_total, ms_swap_used_bytes = subtract_opt swap_total swap_free \<rparr>)"

definition parse_loadavg :: "(string \<Rightarrow> 'f option) \<Rightarrow> string \<Rightarrow> ('f \<times> 'f \<times> 'f) option" where
  "parse_loadavg parse_f32 contents =
     (let columns = split_whitespace contents; column = (\<lambda>n. Option.bind (nth_field columns n) parse_f32) in
      Option.bind (column 0) (\<lambda>one. Option.bind (column 1) (\<lambda>five. map_option (\<lambda>fifteen. (one, five, fifteen)) (column 2))))"

definition avg60 :: "(string \<Rightarrow> 'f option) \<Rightarrow> string \<Rightarrow> 'f option" where
  "avg60 parse_f32 line =
     (case List.map_filter (strip_prefix ''avg60='') (split_whitespace line) of [] \<Rightarrow> None | v # _ \<Rightarrow> parse_f32 v)"

definition pressure_line :: "(string \<Rightarrow> 'f option) \<Rightarrow> string \<Rightarrow> 'f option \<times> 'f option \<Rightarrow> 'f option \<times> 'f option" where
  "pressure_line parse_f32 line st = (case strip_prefix ''some '' line of
     Some rest \<Rightarrow> (avg60 parse_f32 rest, snd st)
   | None \<Rightarrow> (case strip_prefix ''full '' line of Some rest \<Rightarrow> (fst st, avg60 parse_f32 rest) | None \<Rightarrow> st))"

definition parse_pressure :: "(string \<Rightarrow> 'f option) \<Rightarrow> string \<Rightarrow> ('f \<times> 'f option) option" where
  "parse_pressure parse_f32 contents = (case fold (pressure_line parse_f32) (str_lines contents) (None, None) of
     (some_avg60, full_avg60) \<Rightarrow> map_option (\<lambda>s. (s, full_avg60)) some_avg60)"

text \<open>A cast of a double to \<open>u64\<close> truncates and saturates.\<close>

definition parse_uptime :: "(string \<Rightarrow> f64 option) \<Rightarrow> string \<Rightarrow> u64 option" where
  "parse_uptime parse_f64 contents = (case Option.bind (first_word contents) parse_f64 of
     Some (FFin x) \<Rightarrow> if 0 \<le> x then Some (word_of_nat (min (nat \<lfloor>x\<rfloor>) (2 ^ 64 - 1))) else None
   | Some FInf \<Rightarrow> Some (- 1)
   | _ \<Rightarrow> None)"

section \<open>Interfaces and mounts\<close>

record net_counters =
  nc_interface :: string
  nc_rx_bytes :: u64
  nc_tx_bytes :: u64

definition parse_net_line :: "string \<Rightarrow> net_counters option" where
  "parse_net_line line = (case split_once (CHR '':'') line of
     None \<Rightarrow> None
   | Some (interface, columns) \<Rightarrow>
       (let interface = trim interface; vs = split_whitespace columns in
        if interface = [] \<or> interface = ''lo'' \<or> length vs < 9 then None
        else (case (parse_u64 (vs ! 0), parse_u64 (vs ! 8)) of
            (Some rx, Some tx) \<Rightarrow> if rx = 0 \<and> tx = 0 then None
              else Some \<lparr> nc_interface = interface, nc_rx_bytes = rx, nc_tx_bytes = tx \<rparr>
          | _ \<Rightarrow> None)))"

definition parse_net_dev :: "string \<Rightarrow> net_counters list" where
  "parse_net_dev contents = List.map_filter parse_net_line (str_lines contents)"

record mount_entry =
  me_device :: string
  me_mount_point :: string
  me_fs_type :: string

definition PSEUDO_FS_TYPES :: "string list" where
  "PSEUDO_FS_TYPES = [''autofs'', ''binfmt_misc'', ''bpf'', ''cgroup'', ''cgroup2'', ''configfs'', ''debugfs'', ''devpts'',
     ''devtmpfs'', ''efivarfs'', ''fuse.lxcfs'', ''fusectl'', ''hugetlbfs'', ''mqueue'', ''nsfs'', ''overlay'', ''proc'', ''pstore'',
     ''rpc_pipefs'', ''securityfs'', ''selinuxfs'', ''squashfs'', ''sysfs'', ''tracefs'']"

text \<open>
  \<open>u8::from_str_radix(_, 8)\<close> of three bytes, which takes a leading plus sign; the byte becomes the
  character of that number.
\<close>

definition octal_digit :: "char \<Rightarrow> nat option" where
  "octal_digit c = (case digit_of c of Some d \<Rightarrow> if d < 8 then Some d else None | None \<Rightarrow> None)"

definition from_octal :: "char \<Rightarrow> char \<Rightarrow> char \<Rightarrow> nat option" where
  "from_octal a b c = (case (if a = CHR ''+'' then Some 0 else octal_digit a, octal_digit b, octal_digit c) of
     (Some x, Some y, Some z) \<Rightarrow> (let n = 64 * x + 8 * y + z in if n < 256 then Some n else None)
   | _ \<Rightarrow> None)"

definition utf8_latin1 :: "nat \<Rightarrow> string" where
  "utf8_latin1 n = (if n < 128 then [char_of n] else [char_of (192 + n div 64), char_of (128 + n mod 64)])"

fun unescape_field :: "string \<Rightarrow> string" where
  "unescape_field [] = []"
| "unescape_field (c # cs) =
     (if c \<noteq> CHR 0x5C then c # unescape_field cs
      else case cs of
        x # y # z # rest \<Rightarrow> (case from_octal x y z of
            Some n \<Rightarrow> utf8_latin1 n @ unescape_field rest
          | None \<Rightarrow> c # unescape_field cs)
      | _ \<Rightarrow> c # unescape_field cs)"

definition pseudo_mount :: "string \<Rightarrow> string \<Rightarrow> bool" where
  "pseudo_mount fs_type mount_point \<longleftrightarrow>
     fs_type \<in> set PSEUDO_FS_TYPES \<or> strip_prefix ''cgroup'' fs_type \<noteq> None
     \<or> (fs_type = ''tmpfs'' \<or> fs_type = ''ramfs'') \<and> (mount_point = ''/run'' \<or> strip_prefix ''/run/'' mount_point \<noteq> None)"

definition parse_mount_line :: "string \<Rightarrow> mount_entry list \<Rightarrow> mount_entry list" where
  "parse_mount_line line entries = (case split_whitespace line of
     device # mount_point # fs_type # _ \<Rightarrow>
       (let mount_point = unescape_field mount_point; device = unescape_field device in
        if pseudo_mount fs_type mount_point \<or> device \<in> me_device ` set entries then entries
        else entries @ [\<lparr> me_device = device, me_mount_point = mount_point, me_fs_type = fs_type \<rparr>])
   | _ \<Rightarrow> entries)"

definition parse_mounts :: "string \<Rightarrow> mount_entry list" where
  "parse_mounts contents = fold parse_mount_line (str_lines contents) []"

section \<open>Processes and users\<close>

record process_stat =
  prs_pid :: int
  prs_name :: string
  prs_state :: string
  prs_utime :: u64
  prs_stime :: u64
  prs_start_ticks :: u64

definition busy_ticks :: "process_stat \<Rightarrow> u64" where
  "busy_ticks p = saturating_add (prs_utime p) (prs_stime p)"

text \<open>\<open>rfind\<close> of a byte: what comes before its last occurrence, and after it.\<close>

definition rsplit_once :: "char \<Rightarrow> string \<Rightarrow> (string \<times> string) option" where
  "rsplit_once c s = map_option (\<lambda>(after, before). (rev before, rev after)) (split_once c (rev s))"

text \<open>The first character, as its bytes.\<close>

definition first_char :: "string \<Rightarrow> string option" where
  "first_char s = (case s of [] \<Rightarrow> None | c # cs \<Rightarrow> Some (c # takeWhile is_continuation cs))"

definition parse_stat_state :: "string \<Rightarrow> string option" where
  "parse_stat_state contents =
     Option.bind (rsplit_once (CHR '')'') contents) (\<lambda>(_, after). Option.bind (first_word after) first_char)"

definition parse_process_stat :: "string \<Rightarrow> process_stat option" where
  "parse_process_stat contents =
     (case (split_once (CHR ''('') contents, rsplit_once (CHR '')'') contents) of
        (Some (before, _), Some (until_close, after)) \<Rightarrow>
          if length until_close < length before then None
          else
            (let fields = split_whitespace after;
                 field = (\<lambda>number. Option.bind (nth_field fields (number - 3)) parse_u64)
             in Option.bind (parse_i32 (trim before)) (\<lambda>pid. Option.bind (parse_stat_state contents) (\<lambda>state.
                Option.bind (field 14) (\<lambda>utime. Option.bind (field 15) (\<lambda>stime. map_option (\<lambda>start_ticks.
                  \<lparr> prs_pid = pid, prs_name = drop (length before + 1) until_close, prs_state = state,
                    prs_utime = utime, prs_stime = stime, prs_start_ticks = start_ticks \<rparr>) (field 22))))))
      | _ \<Rightarrow> None)"

record process_status =
  pss_uid :: "u32 option"
  pss_memory_bytes :: "u64 option"
  pss_thread_count :: "u32 option"

definition parse_status_line :: "string \<Rightarrow> process_status \<Rightarrow> process_status" where
  "parse_status_line line status = (case split_once (CHR '':'') line of
     None \<Rightarrow> status
   | Some (key, v) \<Rightarrow>
       (let v = trim v in
        if key = ''Uid'' then status\<lparr> pss_uid := Option.bind (first_word v) parse_u32 \<rparr>
        else if key = ''VmRSS''
          then status\<lparr> pss_memory_bytes := Option.bind (Option.bind (first_word v) parse_u64) kib_to_bytes \<rparr>
        else if key = ''Threads'' then status\<lparr> pss_thread_count := parse_u32 v \<rparr>
        else status))"

definition parse_process_status :: "string \<Rightarrow> process_status" where
  "parse_process_status contents = fold parse_status_line (str_lines contents)
     \<lparr> pss_uid = None, pss_memory_bytes = None, pss_thread_count = None \<rparr>"

definition parse_passwd :: "string \<Rightarrow> u32 \<rightharpoonup> string" where
  "parse_passwd contents = fold (\<lambda>line users. case split_on (CHR '':'') line of
       name # _ # uid # _ \<Rightarrow> (case parse_u32 uid of
           Some u \<Rightarrow> if users u = None then users(u \<mapsto> name) else users | None \<Rightarrow> users)
     | _ \<Rightarrow> users) (str_lines contents) Map.empty"

section \<open>Rates\<close>

definition elapsed_ms :: "datetime option \<Rightarrow> datetime \<Rightarrow> u64 option" where
  "elapsed_ms previous current = Option.bind previous (\<lambda>p.
     let millis = (current - p) div 1000000 in if 0 < millis then Some (word_of_int millis) else None)"

text \<open>\<open>percent\<close> is the quotient of two counter differences in percent.\<close>

definition busy_percent :: "(u64 \<Rightarrow> u64 \<Rightarrow> 'p) \<Rightarrow> cpu_times \<Rightarrow> cpu_times \<Rightarrow> 'p option" where
  "busy_percent percent previous current =
     (if ct_total current < ct_total previous \<or> ct_idle current < ct_idle previous then None
      else let total_delta = ct_total current - ct_total previous; idle_delta = ct_idle current - ct_idle previous
        in if total_delta = 0 \<or> total_delta < idle_delta then None
           else Some (percent (total_delta - idle_delta) total_delta))"

definition same_cores :: "core_times list \<Rightarrow> core_times list \<Rightarrow> bool" where
  "same_cores previous current \<longleftrightarrow> length previous = length current
     \<and> list_all2 (\<lambda>before after. co_index before = co_index after) previous current"

record 'p cpu_busy =
  cb_total_percent :: "'p option"
  cb_per_core :: "(u32 \<times> 'p) list option"

definition derive_cpu_busy :: "(u64 \<Rightarrow> u64 \<Rightarrow> 'p) \<Rightarrow> proc_stat option \<Rightarrow> proc_stat \<Rightarrow> 'p cpu_busy" where
  "derive_cpu_busy percent previous current = (case previous of
     None \<Rightarrow> \<lparr> cb_total_percent = None, cb_per_core = None \<rparr>
   | Some previous \<Rightarrow>
       \<lparr> cb_total_percent = busy_percent percent (pst_total previous) (pst_total current),
         cb_per_core = (if pst_per_core current \<noteq> [] \<and> same_cores (pst_per_core previous) (pst_per_core current)
           then all_some (map (\<lambda>(before, after). map_option (\<lambda>p. (co_index after, p))
               (busy_percent percent (co_times before) (co_times after)))
             (zip (pst_per_core previous) (pst_per_core current)))
           else None) \<rparr>)"

definition rate_per_second :: "u64 option \<Rightarrow> u64 \<Rightarrow> u64 option \<Rightarrow> u64 option" where
  "rate_per_second previous current interval = Option.bind previous (\<lambda>p. if current < p then None
     else map_option (\<lambda>ms. word_of_nat (min (unat (current - p) * 1000) (2 ^ 64 - 1)) div ms) interval)"

record network_sample =
  ns_interface :: string
  ns_rx_bytes_total :: u64
  ns_tx_bytes_total :: u64
  ns_rx_bytes_per_second :: "u64 option"
  ns_tx_bytes_per_second :: "u64 option"

definition network_note :: "(string \<rightharpoonup> net_counters) \<Rightarrow> net_counters \<Rightarrow> string list" where
  "network_note previous c = (case previous (nc_interface c) of
     Some before \<Rightarrow> if nc_rx_bytes c < nc_rx_bytes before \<or> nc_tx_bytes c < nc_tx_bytes before
       then [''network counters for '' @ nc_interface c @ '' went backwards; throughput unavailable this sample''] else []
   | None \<Rightarrow> [])"

definition derive_networks :: "(string \<rightharpoonup> net_counters) \<Rightarrow> net_counters list \<Rightarrow> u64 option \<Rightarrow> string list
    \<Rightarrow> network_sample list \<times> string list" where
  "derive_networks previous current interval degraded =
     (map (\<lambda>c. \<lparr> ns_interface = nc_interface c, ns_rx_bytes_total = nc_rx_bytes c, ns_tx_bytes_total = nc_tx_bytes c,
          ns_rx_bytes_per_second = rate_per_second (map_option nc_rx_bytes (previous (nc_interface c))) (nc_rx_bytes c) interval,
          ns_tx_bytes_per_second = rate_per_second (map_option nc_tx_bytes (previous (nc_interface c))) (nc_tx_bytes c) interval \<rparr>)
        current,
      degraded @ concat (map (network_note previous) current))"

definition derive_process_cpu :: "(u64 \<Rightarrow> u64 \<Rightarrow> u64 \<Rightarrow> u32 option \<Rightarrow> 'p) \<Rightarrow> u64 option \<Rightarrow> u64 \<Rightarrow> u64 option \<Rightarrow> u64
    \<Rightarrow> u32 option \<Rightarrow> 'p option" where
  "derive_process_cpu percent previous_ticks current_ticks interval ticks_per_second core_count =
     Option.bind previous_ticks (\<lambda>p. if current_ticks < p then None
       else Option.bind interval (\<lambda>ms. if ticks_per_second = 0 \<or> ms = 0 then None
         else Some (percent (current_ticks - p) ms ticks_per_second core_count)))"

section \<open>Words of a line\<close>

text \<open>A word of printable ASCII characters, as the kernel prints numbers and states.\<close>

definition clean :: "string \<Rightarrow> bool" where
  "clean w \<longleftrightarrow> w \<noteq> [] \<and> (\<forall>c \<in> set w. 33 \<le> (of_char c :: nat) \<and> (of_char c :: nat) < 127)"

lemma no_white_space:
  assumes "33 \<le> (of_char c :: nat)" and "(of_char c :: nat) < 127"
  shows "strip_any white_space (c # cs) = None" "strip_any (map rev white_space) (c # cs) = None"
proof -
  have "c \<noteq> d" if "(of_char d :: nat) < 33 \<or> 127 \<le> (of_char d :: nat)" for d
    using assms that by auto
  then have "c \<noteq> CHR 0x09" "c \<noteq> CHR 0x0A" "c \<noteq> CHR 0x0B" "c \<noteq> CHR 0x0C" "c \<noteq> CHR 0x0D" "c \<noteq> CHR 0x20"
    "c \<noteq> CHR 0xC2" "c \<noteq> CHR 0xE1" "c \<noteq> CHR 0xE2" "c \<noteq> CHR 0xE3" "c \<noteq> CHR 0x85" "c \<noteq> CHR 0xA0" "c \<noteq> CHR 0x80"
    "c \<noteq> CHR 0x81" "c \<noteq> CHR 0x82" "c \<noteq> CHR 0x83" "c \<noteq> CHR 0x84" "c \<noteq> CHR 0x86" "c \<noteq> CHR 0x87" "c \<noteq> CHR 0x88"
    "c \<noteq> CHR 0x89" "c \<noteq> CHR 0x8A" "c \<noteq> CHR 0xA8" "c \<noteq> CHR 0xA9" "c \<noteq> CHR 0xAF" "c \<noteq> CHR 0x9F"
    by simp_all
  then show "strip_any white_space (c # cs) = None" "strip_any (map rev white_space) (c # cs) = None"
    by (simp_all add: white_space_def)
qed

lemma split_ws_word:
  "\<forall>c \<in> set w. 33 \<le> (of_char c :: nat) \<and> (of_char c :: nat) < 127
   \<Longrightarrow> split_ws acc (w @ s) = split_ws (rev w @ acc) s"
proof (induction w arbitrary: acc)
  case (Cons c w)
  have "split_ws acc (c # w @ s) = split_ws (c # acc) (w @ s)"
    using Cons.prems no_white_space(1) [of c "w @ s"] by (subst split_ws.simps) simp
  also have "\<dots> = split_ws (rev w @ c # acc) s" using Cons.IH [of "c # acc"] Cons.prems by simp
  finally show ?case by simp
qed simp

lemma split_ws_blank:
  assumes "c = CHR 0x20 \<or> c = CHR 0x0A"
  shows "split_ws acc (c # s) = (if acc = [] then [] else [rev acc]) @ split_ws [] s"
proof -
  have "strip_any white_space (c # s) = Some s" using assms by (auto simp: white_space_def)
  then show ?thesis by (subst split_ws.simps) simp
qed

lemma split_ws_Nil: "split_ws acc [] = (if acc = [] then [] else [rev acc])"
  by (subst split_ws.simps) simp

lemma split_ws_words:
  "\<forall>w \<in> set ws. clean w \<Longrightarrow> split_ws [] (concat (map (\<lambda>w. CHR 0x20 # w) ws) @ [CHR 0x0A]) = ws"
proof (induction ws)
  case Nil
  then show ?case by (simp add: split_ws_blank split_ws_Nil)
next
  case (Cons w ws)
  let ?rest = "concat (map (\<lambda>w. CHR 0x20 # w) ws) @ [CHR 0x0A]"
  have w: "w \<noteq> []" "\<forall>c \<in> set w. 33 \<le> (of_char c :: nat) \<and> (of_char c :: nat) < 127"
    using Cons.prems by (simp_all add: clean_def)
  have head: "\<exists>c s. ?rest = c # s \<and> (c = CHR 0x20 \<or> c = CHR 0x0A)" by (cases ws) auto
  have "split_ws [] (CHR 0x20 # w @ ?rest) = split_ws (rev w) ?rest"
    using split_ws_word [OF w(2), of "[]" ?rest] by (simp add: split_ws_blank)
  also have "\<dots> = w # split_ws [] ?rest"
  proof -
    from head obtain c s where cs: "?rest = c # s" "c = CHR 0x20 \<or> c = CHR 0x0A" by blast
    show ?thesis unfolding cs(1) using split_ws_blank [OF cs(2), of "rev w" s] split_ws_blank [OF cs(2), of "[]" s] w(1) by simp
  qed
  finally show ?case using Cons by simp
qed

lemma show_int_clean: "clean (show_int n)"
proof -
  have "clean (show_nat m)" for m
    unfolding clean_def using show_nat_digits [where n = m] by fastforce
  then show ?thesis by (auto simp: show_int_def clean_def)
qed

section \<open>Processes whose name is anything\<close>

text \<open>
  The kernel's line of a process: its id, its name in parentheses, its state and the numbers after it. The
  name is whatever the process chose.
\<close>

definition stat_line :: "int \<Rightarrow> string \<Rightarrow> char \<Rightarrow> int list \<Rightarrow> string" where
  "stat_line pid name state numbers =
     show_int pid @ '' ('' @ name @ '')'' @ concat (map (\<lambda>w. CHR 0x20 # w) ([state] # map show_int numbers)) @ [CHR 0x0A]"

lemma parse_i32_show_int:
  assumes "- (2 ^ 31) \<le> n" and "n < 2 ^ 31"
  shows "parse_i32 (show_int n) = Some n"
proof (cases "n < 0")
  case True
  obtain d ds where d: "show_nat (nat (- n)) = d # ds" by (cases "show_nat (nat (- n))") auto
  have "d \<noteq> CHR ''+''" using show_nat_digits [of d "nat (- n)"] d by auto
  then show ?thesis using True assms d parse_nat_show_nat [of "nat (- n)"]
    by (simp add: parse_i32_def show_int_def)
next
  case False
  obtain d ds where d: "show_nat (nat n) = d # ds" by (cases "show_nat (nat n)") auto
  have "d \<noteq> CHR ''-''" using show_nat_digits [of d "nat n"] d by auto
  then show ?thesis using False assms d parse_nat_show_nat [of "nat n"]
    by (simp add: parse_i32_def show_int_def)
qed

lemma parse_u64_show_int: "0 \<le> n \<Longrightarrow> n < 2 ^ 64 \<Longrightarrow> parse_u64 (show_int n) = Some (word_of_int n)"
  by (simp add: parse_u64_def show_int_def parse_nat_show_nat nat_less_iff of_nat_nat)

lemma show_int_chars: "c \<in> set (show_int n) \<Longrightarrow> c = CHR ''-'' \<or> 48 \<le> (of_char c :: nat) \<and> (of_char c :: nat) \<le> 57"
  using show_nat_digits by (auto simp: show_int_def split: if_splits)

lemma show_int_no: "(of_char c :: nat) < 45 \<Longrightarrow> c \<notin> set (show_int n)"
  using show_int_chars [of c n] by auto

lemma trim_blank_after:
  assumes "clean w"
  shows "trim (w @ [CHR 0x20]) = w"
proof -
  obtain c cs where c: "w = c # cs" using assms by (cases w) (auto simp: clean_def)
  obtain d ds where d: "rev w = d # ds" using assms by (cases "rev w") (auto simp: clean_def)
  have "c \<in> set w" "d \<in> set w" using c d by (simp, metis list.set_intros(1) set_rev)
  then have ends: "strip_any white_space (w @ [CHR 0x20]) = None" "strip_any (map rev white_space) (rev w) = None"
    using assms no_white_space(1) [of c "cs @ [CHR 0x20]"] no_white_space(2) [of d ds] c d by (auto simp: clean_def)
  have "strip_any (map rev white_space) (CHR 0x20 # rev w) = Some (rev w)" by (simp add: white_space_def)
  then have "trim_rev (CHR 0x20 # rev w) = rev w"
    by (subst trim_rev.simps) (simp add: trim_rev.simps [of "rev w"] ends(2))
  then show ?thesis by (simp add: trim_def trim_start.simps [of "w @ [CHR 0x20]"] ends(1))
qed

lemma rsplit_once_last: "c \<notin> set b \<Longrightarrow> rsplit_once c (a @ c # b) = Some (a, b)"
  by (simp add: rsplit_once_def)

text \<open>
  C36: a process cannot forge its figures by its name. For every name, with parentheses, blanks, digits
  or line feeds in it, reading the kernel's line of the process gives back its id, the name as it is, the
  state and the times the kernel wrote after it.
\<close>

theorem process_stat_any_name:
  assumes "- (2 ^ 31) \<le> pid" and "pid < 2 ^ 31" and "clean [state]" and "state \<noteq> CHR '')''"
    and "19 \<le> length numbers" and "\<forall>n \<in> {10, 11, 18}. 0 \<le> numbers ! n \<and> numbers ! n < 2 ^ 64"
  shows "parse_process_stat (stat_line pid name state numbers) =
    Some \<lparr> prs_pid = pid, prs_name = name, prs_state = [state], prs_utime = word_of_int (numbers ! 10),
      prs_stime = word_of_int (numbers ! 11), prs_start_ticks = word_of_int (numbers ! 18) \<rparr>"
proof -
  let ?ws = "[state] # map show_int numbers"
  let ?after = "concat (map (\<lambda>w. CHR 0x20 # w) ?ws) @ [CHR 0x0A]"
  let ?line = "stat_line pid name state numbers"
  let ?before = "show_int pid @ [CHR 0x20]"
  have line: "?line = ?before @ CHR ''('' # name @ CHR '')'' # ?after" "?line = (?before @ CHR ''('' # name) @ CHR '')'' # ?after"
    by (simp_all add: stat_line_def)
  have "CHR ''('' \<notin> set ?before" using show_int_no [of "CHR ''(''" pid] by simp
  then have first: "split_once (CHR ''('') ?line = Some (?before, name @ CHR '')'' # ?after)"
    unfolding line(1) by (rule split_once_append)
  have "CHR '')'' \<notin> set ?after" using assms(4) show_int_no [of "CHR '')''"] by auto
  then have last: "rsplit_once (CHR '')'') ?line = Some (?before @ CHR ''('' # name, ?after)"
    unfolding line(2) by (rule rsplit_once_last)
  have words: "split_whitespace ?after = ?ws"
    unfolding split_whitespace_def using assms(3) show_int_clean by (intro split_ws_words) auto
  have state: "parse_stat_state ?line = Some [state]"
    using last words by (simp add: parse_stat_state_def first_word_def nth_field_def first_char_def)
  have nth: "nth_field ?ws (Suc k) = Some (show_int (numbers ! k))" if "k \<in> {10, 11, 18}" for k
    using that assms(5) by (auto simp: nth_field_def)
  have num: "parse_u64 (show_int (numbers ! k)) = Some (word_of_int (numbers ! k))" if "k \<in> {10, 11, 18}" for k
    using that assms(6) parse_u64_show_int by blast
  have pid: "parse_i32 (trim ?before) = Some pid"
    using trim_blank_after [OF show_int_clean] parse_i32_show_int [OF assms(1,2)] by simp
  show ?thesis
    unfolding parse_process_stat_def first last option.case prod.case words state pid Let_def
    using nth [of 10] nth [of 11] nth [of 18] num [of 10] num [of 11] num [of 18] by simp
qed

theorem process_stat_any_name_witness:
  "parse_process_stat (stat_line 42 ''x) R 1 (y'' (CHR ''S'') (map int [0..<19])) =
    Some \<lparr> prs_pid = 42, prs_name = ''x) R 1 (y'', prs_state = ''S'', prs_utime = 10, prs_stime = 11, prs_start_ticks = 18 \<rparr>"
  using process_stat_any_name [of 42 "CHR ''S''" "map int [0..<19]" "''x) R 1 (y''"] by (simp add: clean_def)

section \<open>The two readings of an escaped mount field\<close>

lemma octal_values:
  "from_octal (CHR ''0'') (CHR ''4'') (CHR ''0'') = Some 32" "from_octal (CHR ''0'') (CHR ''1'') (CHR ''1'') = Some 9"
  "from_octal (CHR ''0'') (CHR ''1'') (CHR ''2'') = Some 10" "from_octal (CHR ''1'') (CHR ''3'') (CHR ''4'') = Some 92"
  "utf8_latin1 32 = [CHR 0x20]" "utf8_latin1 9 = [CHR 0x09]" "utf8_latin1 10 = [CHR 0x0A]" "utf8_latin1 92 = [CHR 0x5C]"
  by code_simp+

lemma unescape_octal: "c \<in> escaped_chars \<Longrightarrow> unescape_field (CHR 0x5C # octal c @ s) = c # unescape_field s"
  by (auto simp: octal_def octal_values)

lemma unescape_field_kernel: "unescape_field (kernel_escape s) = s"
proof (induction s)
  case (Cons c s)
  then show ?case using unescape_octal [of c "kernel_escape s"]
    by (cases "c \<in> escaped_chars") (auto simp: kernel_escape_def encode_def encode_char_def)
qed (simp add: kernel_escape_def encode_def)

text \<open>
  The sampler and the worker's mount check read a field the kernel escaped the same way, and both read
  the name itself, whatever characters it holds.
\<close>

theorem mount_readings_agree:
  "unescape_field (kernel_escape s) = unescape_mount_field (kernel_escape s) \<and> unescape_field (kernel_escape s) = s"
proof -
  have "unescape_mount_field (kernel_escape s) = s" by (rule unescape_kernel_escape)
  then show ?thesis by (simp add: unescape_field_kernel)
qed

section \<open>The mounts of a sample\<close>

definition mounts_ok :: "mount_entry list \<Rightarrow> bool" where
  "mounts_ok entries \<longleftrightarrow> distinct (map me_device entries)
     \<and> (\<forall>e \<in> set entries. \<not> pseudo_mount (me_fs_type e) (me_mount_point e))"

lemma mounts_ok_line: "mounts_ok entries \<Longrightarrow> mounts_ok (parse_mount_line line entries)"
  by (auto simp: mounts_ok_def parse_mount_line_def Let_def split: list.splits)

text \<open>Every device is listed once, by its first mount that describes storage.\<close>

lemma parse_mounts_ok: "mounts_ok (parse_mounts contents)"
proof -
  have "mounts_ok entries \<Longrightarrow> mounts_ok (fold parse_mount_line ls entries)" for ls entries
    by (induction ls arbitrary: entries) (simp_all add: mounts_ok_line)
  moreover have "mounts_ok []" by (simp add: mounts_ok_def)
  ultimately show ?thesis by (simp add: parse_mounts_def)
qed

section \<open>Rates are measurements\<close>

lemma all_some_Some: "all_some xs = Some ys \<Longrightarrow> list_all2 (\<lambda>x y. x = Some y) xs ys"
  by (induction xs arbitrary: ys rule: all_some.induct) auto

lemma elapsed_ms_positive: "elapsed_ms previous current = Some ms \<Longrightarrow> current - the previous < 2 ^ 63 \<Longrightarrow> ms \<noteq> 0"
proof -
  assume e: "elapsed_ms previous current = Some ms" and b: "current - the previous < 2 ^ 63"
  then obtain p where p: "previous = Some p" "0 < (current - p) div 1000000" "ms = word_of_int ((current - p) div 1000000)"
    by (auto simp: elapsed_ms_def bind_eq_Some_conv Let_def split: if_splits)
  have "(current - p) div 1000000 < 2 ^ 64" using b p(1) by simp
  then have "uint ms = (current - p) div 1000000" using p(2,3) by (simp add: uint_word_of_int)
  then show ?thesis using p(2) by auto
qed

text \<open>
  A rate is only reported when it was measured. The busy share of a core comes from two readings of
  the core of that kernel index, whose counters both went forward, and there is none when cores went
  on or off line between the readings; nothing is reported without a sample before, when the counters
  stood still or after a reset.
\<close>

theorem core_busy_measured:
  assumes "cb_per_core (derive_cpu_busy percent previous current) = Some cores" and "(core, p) \<in> set cores"
  shows "\<exists>prev before after. previous = Some prev \<and> before \<in> set (pst_per_core prev) \<and> after \<in> set (pst_per_core current)
    \<and> co_index before = core \<and> co_index after = core
    \<and> ct_total (co_times before) < ct_total (co_times after) \<and> ct_idle (co_times before) \<le> ct_idle (co_times after)
    \<and> ct_idle (co_times after) - ct_idle (co_times before) \<le> ct_total (co_times after) - ct_total (co_times before)
    \<and> map co_index (pst_per_core prev) = map co_index (pst_per_core current) \<and> map fst cores = map co_index (pst_per_core current)"
proof -
  from assms(1) obtain prev where prev: "previous = Some prev"
    by (cases previous) (auto simp: derive_cpu_busy_def)
  let ?b = "pst_per_core prev" and ?a = "pst_per_core current"
  let ?f = "\<lambda>(before, after). map_option (\<lambda>p. (co_index after, p)) (busy_percent percent (co_times before) (co_times after))"
  from assms(1) prev have same: "same_cores ?b ?a" and all: "all_some (map ?f (zip ?b ?a)) = Some cores"
    by (auto simp: derive_cpu_busy_def split: if_splits)
  have len: "length ?b = length ?a" and idx: "map co_index ?b = map co_index ?a"
    using same by (auto simp: same_cores_def list_all2_conv_all_nth intro: nth_equalityI)
  have each: "length cores = length ?a" "\<forall>i < length ?a. ?f (?b ! i, ?a ! i) = Some (cores ! i)"
    using all_some_Some [OF all] len by (auto simp: list_all2_conv_all_nth)
  from assms(2) obtain i where i: "i < length ?a" "cores ! i = (core, p)"
    using each(1) by (auto simp: in_set_conv_nth)
  then have f: "busy_percent percent (co_times (?b ! i)) (co_times (?a ! i)) = Some p" "co_index (?a ! i) = core"
    using each(2) by force+
  have "co_index (?b ! i) = core" using idx i(1) f(2) len by (metis nth_map)
  moreover have "ct_total (co_times (?b ! i)) < ct_total (co_times (?a ! i))
      \<and> ct_idle (co_times (?b ! i)) \<le> ct_idle (co_times (?a ! i))
      \<and> ct_idle (co_times (?a ! i)) - ct_idle (co_times (?b ! i)) \<le> ct_total (co_times (?a ! i)) - ct_total (co_times (?b ! i))"
    using f(1) by (auto simp: busy_percent_def Let_def not_less order_le_less split: if_splits)
  moreover have "map fst cores = map co_index ?a"
  proof (rule nth_equalityI)
    fix j assume "j < length (map fst cores)"
    then have j: "j < length ?a" "j < length cores" using each(1) by simp_all
    then have "?f (?b ! j, ?a ! j) = Some (cores ! j)" using each(2) by blast
    then have "fst (cores ! j) = co_index (?a ! j)" by (auto simp: map_option_eq_Some dest!: sym [of _ "cores ! j"])
    with j show "map fst cores ! j = map co_index ?a ! j" by simp
  qed (simp add: each(1))
  ultimately show ?thesis using prev i(1) len f(2) idx by (metis nth_mem)
qed

definition demo_stat :: "u64 \<Rightarrow> u64 \<Rightarrow> proc_stat" where
  "demo_stat t i = \<lparr> pst_total = \<lparr> ct_total = t, ct_idle = i \<rparr>,
     pst_per_core = [\<lparr> co_index = 2, co_times = \<lparr> ct_total = t, ct_idle = i \<rparr> \<rparr>] \<rparr>"

theorem core_busy_measured_witness:
  "\<exists>prev before. Some (demo_stat 10 5) = Some prev \<and> before \<in> set (pst_per_core prev) \<and> co_index before = 2"
  using core_busy_measured [of "\<lambda>a b. 100 * a div b" "Some (demo_stat 10 5)" "demo_stat 30 15" "[(2, 50)]" 2 50]
  by (auto simp: derive_cpu_busy_def demo_stat_def same_cores_def busy_percent_def)

text \<open>A throughput comes from a counter that did not go backwards, and never exceeds the bytes counted.\<close>

lemma rate_measured:
  assumes "rate_per_second previous current (Some ms) = Some r" and "ms \<noteq> 0"
  shows "\<exists>p. previous = Some p \<and> p \<le> current
    \<and> unat r = min (unat (current - p) * 1000) (2 ^ 64 - 1) div unat ms"
proof -
  from assms obtain p where p: "previous = Some p" "p \<le> current"
      "r = word_of_nat (min (unat (current - p) * 1000) (2 ^ 64 - 1)) div ms"
    by (auto simp: rate_per_second_def bind_eq_Some_conv split: if_splits)
  have "unat (word_of_nat (min (unat (current - p) * 1000) (2 ^ 64 - 1)) :: u64) = min (unat (current - p) * 1000) (2 ^ 64 - 1)"
    by (simp add: unat_of_nat take_bit_nat_eq_self)
  then show ?thesis using p by (simp add: unat_div)
qed

end
