(* ===== verification/Spec2Isabelle.thy ===== *)
theory Spec2Isabelle
  imports Browser_Arbiter Queued_Message Approvals Scheduler Comment_Dispatcher Mount_Health Worker_Supervisor
    Relay_Frames Codex_Stderr Tracker_Safety Worker_Api Remediation_Launch
    Command_Redaction Proc_Parsers
begin

text \<open>
  Verification of the coordination core of vibe-kanban: the Rust code that decides where coding-agent
  executions run, what is recorded of them, and who may act on a running session.

  \<^bold>\<open>The program.\<close> A coordinator (\<open>crates/services\<close>, \<open>crates/db\<close>, \<open>crates/server\<close>) keeps tasks,
  workspaces and executions in a database. Workers (\<open>crates/worker\<close>) register with it, send
  heartbeats and run executions on a mount they share with it; the two speak the messages of
  \<open>crates/cluster-protocol\<close>. The coordinator places a workspace on a worker by the registry's rows
  (scheduler), dispatches an execution to it, and afterwards compares its own rows with the jobs
  the worker reports (reconciliation). A worker checks a dispatch (draining, digest, paths, pressure),
  runs the process, keeps its events in a bounded journal that a client can replay, and survives
  its own restart through saved job files. Beside this, the coordinator holds the queue of
  follow-up messages of a session, the approvals an agent waits for, and the control lease of a
  shared browser. The agents (\<open>crates/executors\<close>) run under profiles the user can override; their
  output goes through a log store (\<open>crates/utils\<close>) to the live consumers and to the conversation. A
  remote client reaches the server through a relay (\<open>crates/relay-*\<close>) whose requests and frames are signed.

  \<^bold>\<open>The theories.\<close>
    \<^item> \<open>VK_Prelude\<close>: scalar types at their width, \<open>Result\<close>, checked and saturating arithmetic, and the
      interfaces \<open>invariant_system\<close>, \<open>monotone_system\<close>, \<open>absorbing_system\<close> and \<open>refining_system\<close> that the
      state machines below are interpretations of.
    \<^item> \<open>Rust_Strings\<close>: the \<open>str\<close> and path operations of the standard library the sources call.
    \<^item> \<open>Data_Model\<close>: SQL tables as lists of rows (interface \<open>keyed_store\<close>), JSON values, doubles.
    \<^item> \<open>Cluster_Protocol\<close>: \<open>cluster-protocol/src/lib.rs\<close>, the messages.
    \<^item> \<open>Event_Journal\<close>: \<open>worker/src/journal.rs\<close>. The abstract specification is an unbounded log; a
      replay returns exactly the events after the requested sequence or says that some are gone. The
      interface \<open>event_log\<close> is what jobs rely on.
    \<^item> \<open>Worker_Admission\<close>: \<open>worker/src/pressure.rs\<close>, \<open>path_authority.rs\<close>.
    \<^item> \<open>Worker_Job\<close>: a job of \<open>worker/src/execution.rs\<close>, its poll loop and \<open>cancellation.rs\<close>. The state
      of a job agrees with its terminal evidence, and the first evidence is final.
    \<^item> \<open>Worker_Supervisor\<close>: \<open>ExecutionSupervisor\<close> of \<open>worker/src/execution.rs\<close> and \<open>recovery.rs\<close>. An
      execution is launched at most once, a repeated dispatch gets the same answer, what is launched lies in
      the shared root, a restart leaves no job without an outcome.
    \<^item> \<open>Mount_Health\<close>: \<open>worker/src/mount_health.rs\<close>, down to the kernel's mount table and its escapes.
    \<^item> \<open>Cluster_Config\<close>: \<open>services/cluster/config.rs\<close>, reading and validating the environment.
    \<^item> \<open>Worker_Registry\<close>: \<open>db/models/worker_node.rs\<close>, \<open>services/cluster/registry.rs\<close>. Rows stay unique, a
      refused request changes nothing, a heartbeat renews the lease it reports.
    \<^item> \<open>Scheduler\<close>: \<open>services/cluster/scheduler.rs\<close>. The chosen worker is eligible and of least score,
      whatever the order of the rows.
    \<^item> \<open>Execution_Process\<close>: \<open>db/models/execution_process.rs\<close>, \<open>session.rs\<close>, \<open>session_turn_boundary.rs\<close>:
      the rows of executions and sessions, what is dropped from a session, its confirmed turn boundary.
    \<^item> \<open>Reconcile\<close>: \<open>db/models/execution_worker_job.rs\<close>, \<open>services/cluster/reconcile.rs\<close>. No outcome is invented: a
      terminal row is backed by the evidence of the worker that owns the job.
    \<^item> \<open>Browser_Arbiter\<close>: \<open>services/browser/arbiter.rs\<close>, \<open>types.rs\<close>. A command that passes its second
      check was admitted under the controller that still holds the lease.
    \<^item> \<open>Queued_Message\<close>: \<open>services/queued_message.rs\<close>. A queued message is delivered at most once, and a
      reserved one only to its reservation.
    \<^item> \<open>Approvals\<close>: \<open>services/approvals.rs\<close>, \<open>utils/approvals.rs\<close>, as interleaved atomic map operations:
      an approval is resolved once and with an answer of its kind.
    \<^item> \<open>Workspace_Table\<close>: \<open>db/models/workspace.rs\<close>. A workspace has an owner exactly when it is placed
      remotely, its creation is claimed once, and it expires exactly when the statement says.
    \<^item> \<open>Delivery_Rules\<close>, \<open>Delivery_Store\<close>, \<open>Comment_Dispatcher\<close>: \<open>services/issue_comment_delivery.rs\<close>,
      \<open>db/models/issue_comment_delivery.rs\<close> and \<open>wakeup.rs\<close>, \<open>server/issue_comment_delivery.rs\<close>. Issue
      comments reach an agent's session at its turn boundary. The dispatcher refines the table's protocol
      of conditional updates (interface \<open>refining_system\<close>); a comment is delivered at most once, a pass
      leaves no claim behind, recovery follows the evidence, and agents cannot answer each other for ever.
    \<^item> \<open>Msg_Store\<close>: \<open>utils/msg_store.rs\<close>, \<open>log_msg.rs\<close>. The history is the newest part of the published
      messages that fits its limit; a consumer that subscribes gets every message exactly once; the
      observation times refine a list of entries under insertion and removal.
    \<^item> \<open>Plain_Text_Log\<close>: \<open>executors/logs/plain_text_processor.rs\<close>, \<open>utils/entry_index.rs\<close>, \<open>utils/patch.rs\<close>. While
      chunks keep coming, the entries of the conversation are the text of the stream, whatever the size
      threshold and the boundaries; after a pause a chunk is lost.
    \<^item> \<open>Codex_Stderr\<close>: the error stream of \<open>executors/codex/normalize_logs.rs\<close>. Every chunk is worked off, and
      a failed sign-in shows nothing of its record.
    \<^item> \<open>Executor_Profiles\<close>: \<open>executors/profile.rs\<close>. What is saved is what is loaded, saving is refused
      exactly for deletions of what is built in, the recommended agent is a best available one.
    \<^item> \<open>Relay_Signing\<close>, \<open>Relay_Frames\<close>: \<open>relay-control/signing.rs\<close>, \<open>relay-ws/crypto.rs\<close> and \<open>signed.rs\<close>,
      \<open>relay-protocol/lib.rs\<close>, \<open>relay-webrtc/fragment.rs\<close>. An accepted request was signed by the peer for
      exactly this call and is accepted once; the frames received are a prefix of those sent; chunks
      reassemble to the messages.
    \<^item> \<open>Worker_Events\<close>, \<open>Worker_Tracker\<close>, \<open>Tracker_Safety\<close>: \<open>services/cluster/client.rs\<close> (event batches)
      and the tracking task of a remote execution in \<open>local-deployment/container.rs\<close>. Against the worker's
      journal, across restarts of the coordinator, the log holds what the worker wrote; an outcome is in
      the row before it is acknowledged, and one after a replay gap is backed by a summary.
    \<^item> \<open>Interaction_Broker\<close>: \<open>worker/src/interaction.rs\<close> and the routing task of
      \<open>local-deployment/container.rs\<close>. An approval asked on a worker is answered once, with an answer
      of its kind, over any loss of requests and responses.
    \<^item> \<open>Worker_Api\<close>: \<open>worker/src/worker_api.rs\<close> and the coordinator's calls in \<open>services/cluster/client.rs\<close>.
      Nothing changes on a worker without a fresh signature of the coordinator, a captured request is
      refused, and a dispatch whose answer is lost is recovered by the retry.
    \<^item> \<open>Pipeline_Block\<close>: \<open>api-types/src/pipeline_block.rs\<close>. The merge of pipelines keeps every stage once, in
      every pipeline's order when they agree, whatever the order of the hash containers.
    \<^item> \<open>Error_Remediation\<close>, \<open>Remediation_Launch\<close>: \<open>services/error_remediation.rs\<close>,
      \<open>server/error_remediation.rs\<close>. Automatic launches keep their rate and their distance per source,
      never start from a remediation, and an issue's error text is read back as it was written.
    \<^item> \<open>Command_Redaction\<close>: \<open>node-metrics/src/redact.rs\<close>. The command of a sample is the same for all secrets
      the redaction recognises; what it lets through is stated beside it.
    \<^item> \<open>Proc_Parsers\<close>: \<open>node-metrics/src/parse.rs\<close>, \<open>derive.rs\<close>. A process cannot forge its figures by its
      name, a rate is reported only when it was measured.
    \<^item> this theory: properties that span the worker and the coordinator.

  \<^bold>\<open>Correspondence.\<close> A struct is a record (fields with a prefix of their own), an enum a datatype with the
  source's constructors, a method a function from the state to its result and the state after it.
  A \<open>Result\<close> is a sum (\<open>Err\<close> left), a panic \<open>None\<close>. Sequence numbers and generations are 64-bit words;
  \<open>usize\<close> lengths are \<open>nat\<close>; time stamps are integers. Methods that hold one lock or run one
  statement are one step. Where a method touches shared state several times (\<open>respond\<close>,
  the timeout task, \<open>transition\<close>), each part is a step of its own and the step relation interleaves them.

  \<^bold>\<open>Parameters.\<close> What the code asks of its host or of other packages is an argument: the clock, fresh
  ids, \<open>canonicalize\<close>, the mount inspector, \<open>try_wait\<close>, the disk, SHA-256, the workers' answers to the
  coordinator, the URL, UUID, address and float parsers, the rounding of double arithmetic, signatures
  and encodings (records of functions with the documented laws as a predicate), the broadcast channel of
  \<open>tokio\<close>, JSON text, the regular expression of a log record, and the case conversion of variant names.
  All loops but two are recursions over lists or over the readings of the host (the poll loop of
  a job and the grace period of a cancellation consume one reading per turn), so no fuel is needed. The
  loop of the log processor over its boundary predicate, which ends only for predicates that make
  progress, and the topological sort of pipeline stages are partial functions, and that they return is
  proved.

  \<^bold>\<open>Not modelled.\<close> HTTP routing, the authentication of users, process spawning and output streaming, terminals
  and preview proxying, git, the normalization of the agents' structured output, the MCP server, the
  sockets of the relay and the front ends: they are input/output around the components above or call
  packages outside the repository.

  \<^bold>\<open>Next.\<close> Archiving and wake-ups, browser sessions around the arbiter, the pipeline stage marker in the
  log, the sampling task of node metrics.
\<close>

section \<open>From the worker's mount check to the coordinator's registry\<close>


section \<open>From registration to placement\<close>

lemma register_row:
  assumes "register add cfg clock reg ch now t = (Some (Inr (w, l)), t')"
  obtains mount expires where
    "validate_mount_evidence (wr_mount reg) ch = Inr mount"
    "wn_mount_status w = fst mount" "wn_lease_expires_at w = Some expires" "lease_expires l = expires"
    "wn_capabilities w = capabilities_to_value (wr_capabilities reg)"
    "find_worker (authority_worker_node_id (wr_authority reg)) t' = Some w"
proof -
  obtain mount where m: "validate_mount_evidence (wr_mount reg) ch = Inr mount"
    and up: "upsert_and_lease add cfg clock ch now (registration_row reg mount now) t = (Some (Inr (w, l)), t')"
    using assms by (auto simp: register_def split: sum.splits)
  obtain expires where u: "upsert_heartbeat clock (registration_row reg mount now expires) t = (Inr w, t')"
    (is "upsert_heartbeat clock ?u t = _")
    and l: "lease_of cfg w (ch_probe ch) expires = Some l"
    using up by (rule upsert_and_lease_Ok)
  have "wn_mount_status w = fst mount" "wn_lease_expires_at w = Some expires"
    "wn_capabilities w = capabilities_to_value (wr_capabilities reg)"
    "find_worker (authority_worker_node_id (wr_authority reg)) t' = Some w"
    using u by (cases rule: upsert_heartbeat_cases [of ?u t clock];
        auto simp: registration_row_def inserted_row_def find_worker_append workers.lookup_modify)+
  moreover have "lease_expires l = expires" using l by (auto simp: lease_of_def split: if_splits)
  ultimately show ?thesis using m that by blast
qed

text \<open>
  A worker that registers with healthy mount evidence and advertises an executor profile can
  be placed on, for that profile, exactly while the lease it was answered with lasts, unless it
  is draining.
\<close>

theorem registered_worker_eligible:
  assumes "register add cfg clock reg ch now t = (Some (Ok (w, l)), t')"
    and "wr_mount reg = Healthy fs p" and "profile \<in> set (wc_executor_profiles (wr_capabilities reg))"
    and "wn_status w = Online"
  shows "find_worker (authority_worker_node_id (wr_authority reg)) t' = Some w
    \<and> (eligibility w profile later = Ok () \<longleftrightarrow> later < lease_expires l)"
  using assms(1)
proof (rule register_row)
  fix mount expires
  assume m: "validate_mount_evidence (wr_mount reg) ch = Inr mount" "wn_mount_status w = fst mount"
    and e: "wn_lease_expires_at w = Some expires" "lease_expires l = expires"
    and caps: "wn_capabilities w = capabilities_to_value (wr_capabilities reg)"
    and f: "find_worker (authority_worker_node_id (wr_authority reg)) t' = Some w"
  have "fst mount = MsHealthy"
    using m(1) assms(2) by (auto simp: validate_mount_evidence_def split: if_splits)
  moreover have "advertised_profiles w = Some (wc_executor_profiles (wr_capabilities reg))"
    by (simp add: advertised_profiles_def caps capabilities_to_value_def map_filter_def comp_def)
  ultimately show ?thesis
    using m(2) e f assms(3,4)
    by (auto simp: eligibility_def advertises_executor_profile_def)
qed

section \<open>From the worker's job to the coordinator's record\<close>


section \<open>From a restarted worker to the coordinator's cursor\<close>

text \<open>
  Nothing a restart adds is lost to the coordinator. A coordinator that has seen the events of
  a job up to any sequence the worker had saved, and asks the restarted worker for what
  follows, is sent exactly the job's terminal event.
\<close>

theorem restart_event_replayed:
  assumes "recover_job disk_ok now s = Ok job" "unat after \<le> unat (js_last_sequence s)"
  shows "map ev_payload (eb_events (journal_replay_after (wj_journal job) after))
    = [recovered_payload (the (job_evidence job))]"
proof -
  obtain s' ev where rs: "recovered_summary now s = (s', ev)" by fastforce
  have s': "js_last_sequence s' = js_last_sequence s"
    using rs by (auto simp: recovered_summary_def split: option.splits if_splits)
  obtain j where j: "journal_recover s' DEFAULT_JOURNAL_CAPACITY ev = Inr j" and job: "wj_journal job = j"
    using assms(1) rs by (auto simp: recover_job_def Let_def split: if_splits)
  have "ej_terminal j = Some ev" using journal_recover_Ok [OF j] by simp
  obtain e where e: "ej_events j = [e]" "ev_payload e = recovered_payload ev"
    "unat (ev_sequence e) = Suc (unat (js_last_sequence s))"
    using j s'
    by (auto simp: journal_recover_def journal_new_def Let_def dest!: checked_add_Some split: if_splits)
  have "after < ev_sequence e" using e(3) assms(2) by (simp add: word_less_nat_alt)
  then show ?thesis
    using e job \<open>ej_terminal j = Some ev\<close>
    by (simp add: journal_replay_after_def Let_def job_evidence_def)
qed

section \<open>Witnesses\<close>

definition demo_owner :: ownership where
  "demo_owner = \<lparr> ow_uid = 1000, ow_gid = 1000 \<rparr>"

definition demo_inspector :: mount_inspector where
  "demo_inspector = \<lparr> metadata_ownership = (\<lambda>_. Ok demo_owner),
     mount_identity_of = (\<lambda>_. Ok (Some \<lparr> mi_mount_point = ''/s'', mi_export = ''nfs:x'',
       mi_filesystem_id = ''0:6'', mi_read_only = False \<rparr>)),
     filesystem_id_of = (\<lambda>_. Ok ''0:6''), read_file = (\<lambda>_. Ok ''contents''),
     verify_writable = (\<lambda>_. Ok ()) \<rparr>"

definition demo_checker :: mount_checker where
  "demo_checker = \<lparr> mc_shared_root = ''/s'', mc_expected_export = ''nfs:x'',
     mc_expected_ownership = demo_owner \<rparr>"


theorem registered_worker_eligible_witness:
  "eligibility (demo_row Online) ''CLAUDE_CODE'' 129 = Ok ()"
  using registered_worker_eligible [OF demo_register, where profile = "''CLAUDE_CODE''" and later = 129
      and fs = "''nfs:x''" and p = "''p1''"]
  by (simp add: demo_registration_def demo_row_def)

definition finished_job :: worker_job where
  "finished_job = finish_status True 5 \<lparr> es_code = Some 0, es_signal = None \<rparr> race_running"

definition finished_coordinator :: coordinator where
  "finished_coordinator = \<lparr> co_workers = [],
     co_jobs = [(demo_job 1 DsRunning)\<lparr> ej_worker_job_id := 2 \<rparr>],
     co_processes = [demo_process 1 EpCompleted], co_quarantines = [], co_report = empty_report \<rparr>"


theorem restart_event_replayed_witness:
  "map ev_payload (eb_events (journal_replay_after (wj_journal demo_recovered) 41))
     = [recovered_payload (the (job_evidence demo_recovered))]"
  using restart_event_replayed [OF demo_recover, of 41] by (simp add: demo_saved_def)

end
